(* ===== verification/Prelude.thy ===== *)
theory Prelude
  imports Main "HOL-Library.AList"
begin

text \<open>
  Shared vocabulary of the development.

  \<^item> Results: a Go function that returns \<open>(T, error)\<close> is a function into \<open>'e + 'a\<close>, with
    \<open>Inl\<close> for the error and an error datatype of the component's own. \<open>and_then\<close> chains two of
    them the way \<open>if err != nil { return err }\<close> does.
  \<^item> Slices: a Go slice whose nil-ness the code observes (\<open>reflect.DeepEqual\<close>, \<open>== nil\<close>) is a
    \<open>'a slice\<close>, with \<open>None\<close> for nil. A string is a list of bytes (\<open>string\<close>), as in Go.
  \<^item> Standard library: \<open>strings.TrimSpace\<close>, byte for byte (the UTF-8 encodings of the Unicode
    white space characters included), and \<open>strings.ToLower\<close> as far as a comparison with an
    ASCII constant can observe it.
  \<^item> Generic lemmas on lists, maps and association lists that several components use.
\<close>

named_theorems go_simps \<open>equations of the modelled Go library functions\<close>

type_synonym 'a slice = "'a list option"

subsection \<open>Results\<close>

definition and_then :: "'e + 'a \<Rightarrow> ('a \<Rightarrow> 'e + 'b) \<Rightarrow> 'e + 'b" where
  "and_then r f = (case r of Inl e \<Rightarrow> Inl e | Inr x \<Rightarrow> f x)"

lemma and_then_Inl [simp]: "and_then (Inl e) f = Inl e"
  by (simp add: and_then_def)

lemma and_then_Inr [simp]: "and_then (Inr x) f = f x"
  by (simp add: and_then_def)

lemma and_then_eq_Inr: "and_then r f = Inr y \<longleftrightarrow> (\<exists>x. r = Inr x \<and> f x = Inr y)"
  by (cases r) auto

lemma and_then_eq_Inl: "and_then r f = Inl e \<longleftrightarrow> r = Inl e \<or> (\<exists>x. r = Inr x \<and> f x = Inl e)"
  by (cases r) auto

text \<open>A loop that stops at the first error, as \<open>for \<dots> { if err := f(x); err != nil { return err } }\<close>.\<close>

fun each :: "('s \<Rightarrow> 'a \<Rightarrow> 'e + 's) \<Rightarrow> 's \<Rightarrow> 'a list \<Rightarrow> 'e + 's" where
  "each f s [] = Inr s"
| "each f s (x # xs) = and_then (f s x) (\<lambda>s'. each f s' xs)"

lemma each_append: "each f s (xs @ ys) = and_then (each f s xs) (\<lambda>s'. each f s' ys)"
proof (induction xs arbitrary: s)
  case Nil
  then show ?case by simp
next
  case (Cons x xs)
  then show ?case by (cases "f s x") simp_all
qed

lemma each_invariant:
  assumes "each f s xs = Inr s'" and "I s"
    and "\<And>t x t'. x \<in> set xs \<Longrightarrow> I t \<Longrightarrow> f t x = Inr t' \<Longrightarrow> I t'"
  shows "I s'"
  using assms
proof (induction xs arbitrary: s)
  case Nil
  then show ?case by simp
next
  case (Cons x xs)
  from Cons.prems(1) obtain t where t: "f s x = Inr t" and rest: "each f t xs = Inr s'"
    by (auto simp: and_then_eq_Inr)
  have "I t" using Cons.prems(2,3) t by (meson list.set_intros(1))
  with rest show ?case
    using Cons.IH Cons.prems(3) by (meson list.set_intros(2))
qed

subsection \<open>White space\<close>

text \<open>The UTF-8 encodings of the runes for which \<open>unicode.IsSpace\<close> holds.\<close>

definition go_spaces :: "string list" where
  "go_spaces =
    [[CHR 0x09], [CHR 0x0A], [CHR 0x0B], [CHR 0x0C], [CHR 0x0D], [CHR 0x20],
     [CHR 0xC2, CHR 0x85], [CHR 0xC2, CHR 0xA0], [CHR 0xE1, CHR 0x9A, CHR 0x80],
     [CHR 0xE2, CHR 0x80, CHR 0x80], [CHR 0xE2, CHR 0x80, CHR 0x81],
     [CHR 0xE2, CHR 0x80, CHR 0x82], [CHR 0xE2, CHR 0x80, CHR 0x83],
     [CHR 0xE2, CHR 0x80, CHR 0x84], [CHR 0xE2, CHR 0x80, CHR 0x85],
     [CHR 0xE2, CHR 0x80, CHR 0x86], [CHR 0xE2, CHR 0x80, CHR 0x87],
     [CHR 0xE2, CHR 0x80, CHR 0x88], [CHR 0xE2, CHR 0x80, CHR 0x89],
     [CHR 0xE2, CHR 0x80, CHR 0x8A], [CHR 0xE2, CHR 0x80, CHR 0xA8],
     [CHR 0xE2, CHR 0x80, CHR 0xA9], [CHR 0xE2, CHR 0x80, CHR 0xAF],
     [CHR 0xE2, CHR 0x81, CHR 0x9F], [CHR 0xE3, CHR 0x80, CHR 0x80]]"

definition starts_with :: "'a list \<Rightarrow> 'a list \<Rightarrow> bool" where
  "starts_with w s \<longleftrightarrow> take (length w) s = w"

text \<open>Drop the words of \<open>ws\<close> from the front of \<open>s\<close> as long as one of them is a prefix.\<close>

function drop_words :: "'a list list \<Rightarrow> 'a list \<Rightarrow> 'a list" where
  "drop_words ws s =
     (case find (\<lambda>w. w \<noteq> [] \<and> starts_with w s) ws of
        None \<Rightarrow> s
      | Some w \<Rightarrow> drop_words ws (drop (length w) s))"
  by pat_completeness auto
termination
proof (relation "measure (\<lambda>(ws, s). length s)")
  show "wf (measure (\<lambda>(ws, s). length s))" by simp
next
  fix ws :: "'a list list" and s w :: "'a list"
  assume "find (\<lambda>w. w \<noteq> [] \<and> starts_with w s) ws = Some w"
  then have "w \<noteq> []" and "take (length w) s = w"
    by (auto simp: find_Some_iff starts_with_def)
  then have "s \<noteq> []" by auto
  with \<open>w \<noteq> []\<close> show "((ws, drop (length w) s), (ws, s)) \<in> measure (\<lambda>(ws, s). length s)"
    by simp
qed

declare drop_words.simps [simp del]

definition trimSpace :: "string \<Rightarrow> string" where
  "trimSpace s = rev (drop_words (map rev go_spaces) (rev (drop_words go_spaces s)))"

definition blank :: "string \<Rightarrow> bool" where
  "blank s \<longleftrightarrow> trimSpace s = []"

lemma drop_words_Nil [simp]: "drop_words ws [] = []"
proof -
  have "find (\<lambda>w. w \<noteq> [] \<and> starts_with w []) ws = None"
    by (auto simp: find_None_iff starts_with_def)
  then show ?thesis by (subst drop_words.simps) simp
qed

lemma blank_Nil [simp]: "blank []"
  by (simp add: blank_def trimSpace_def)

lemma not_blank_not_Nil: "\<not> blank s \<Longrightarrow> s \<noteq> []"
  by auto

lemma drop_words_keeps: "x \<in> set s \<Longrightarrow> \<forall>w \<in> set ws. x \<notin> set w \<Longrightarrow> x \<in> set (drop_words ws s)"
proof (induction ws s rule: drop_words.induct)
  case (1 ws s)
  show ?case
  proof (cases "find (\<lambda>w. w \<noteq> [] \<and> starts_with w s) ws")
    case None
    then show ?thesis using "1.prems" by (subst drop_words.simps) simp
  next
    case (Some w)
    then have w: "w \<in> set ws" "take (length w) s = w"
      by (auto simp: find_Some_iff starts_with_def)
    then have "x \<in> set (drop (length w) s)"
      using "1.prems" by (metis Un_iff append_take_drop_id set_append)
    then show ?thesis using "1.IH" [OF Some] "1.prems"(2) Some by (subst drop_words.simps) simp
  qed
qed

text \<open>A byte that occurs in no white space survives trimming.\<close>

lemma not_blank_visible: "x \<in> set s \<Longrightarrow> \<forall>w \<in> set go_spaces. x \<notin> set w \<Longrightarrow> \<not> blank s"
  using drop_words_keeps [of x s go_spaces]
    drop_words_keeps [of x "rev (drop_words go_spaces s)" "map rev go_spaces"]
  by (force simp: blank_def trimSpace_def)

lemmas blank_eval = blank_def trimSpace_def drop_words.simps go_spaces_def starts_with_def

subsection \<open>Lower case, against ASCII constants\<close>

text \<open>
  \<open>strings.ToLower\<close> maps every rune. Among the runes outside ASCII only U+212A (Kelvin sign,
  lower case \<open>k\<close>) and U+0130 (dotted capital I, lower case \<open>i\<close>) have an ASCII lower case; every
  other one stays outside ASCII, so it is left alone here: no comparison with an ASCII
  constant sees the difference.
\<close>

definition lower_char :: "char \<Rightarrow> char" where
  "lower_char c = (let n = of_char c :: nat in if 65 \<le> n \<and> n \<le> 90 then char_of (n + 32) else c)"

fun toLower :: "string \<Rightarrow> string" where
  "toLower [] = []"
| "toLower (c # s) =
     (if starts_with ([CHR 0xE2, CHR 0x84, CHR 0xAA]) (c # s) then CHR ''k'' # toLower (drop 2 s)
      else if starts_with ([CHR 0xC4, CHR 0xB0]) (c # s) then CHR ''i'' # toLower (drop 1 s)
      else lower_char c # toLower s)"

subsection \<open>Splitting and joining\<close>

text \<open>\<open>strings.Split\<close> and \<open>strings.Join\<close> with a separator of one byte.\<close>

fun split_on :: "char \<Rightarrow> string \<Rightarrow> string list" where
  "split_on c [] = [[]]"
| "split_on c (x # xs) =
     (if x = c then [] # split_on c xs
      else (case split_on c xs of [] \<Rightarrow> [[x]] | w # ws \<Rightarrow> (x # w) # ws))"

fun join_with :: "char \<Rightarrow> string list \<Rightarrow> string" where
  "join_with c [] = []"
| "join_with c [w] = w"
| "join_with c (w # ws) = w @ [c] @ join_with c ws"

lemma split_on_not_Nil [simp]: "split_on c s \<noteq> []"
  by (cases s) (auto split: list.split)

lemma join_split [simp]: "join_with c (split_on c s) = s"
proof (induction s)
  case (Cons x xs)
  then show ?case by (cases "split_on c xs"; cases "tl (split_on c xs)") auto
qed simp

lemma split_on_append: "split_on c (s @ [c] @ t) = split_on c s @ split_on c t"
proof (induction s)
  case (Cons x xs)
  then show ?case by (cases "split_on c xs") auto
qed simp

lemma split_on_no_sep: "c \<notin> set s \<Longrightarrow> split_on c s = [s]"
  by (induction s) auto

lemma split_on_parts: "w \<in> set (split_on c s) \<Longrightarrow> c \<notin> set w"
proof (induction s arbitrary: w)
  case (Cons x xs)
  then show ?case by (cases "split_on c xs") (auto split: if_splits)
qed simp

lemma split_join:
  "ws \<noteq> [] \<Longrightarrow> \<forall>w \<in> set ws. c \<notin> set w \<Longrightarrow> split_on c (join_with c ws) = ws"
proof (induction c ws rule: join_with.induct)
  case (3 c w v ws)
  then show ?case using split_on_append [of c w] by (simp add: split_on_no_sep)
qed (simp_all add: split_on_no_sep)

subsection \<open>Association lists and maps\<close>

lemma map_of_update_distinct [simp]:
  "distinct (map fst xs) \<Longrightarrow> distinct (map fst (AList.update k v xs))"
  by (rule distinct_update)

lemma in_set_update: "x \<in> set (AList.update k v xs) \<Longrightarrow> x = (k, v) \<or> x \<in> set xs"
  by (induction xs) (auto split: if_splits)

lemma map_of_filter_key:
  "distinct (map fst xs) \<Longrightarrow> map_of (filter (\<lambda>(k, v). P k v) xs) k =
     (case map_of xs k of None \<Rightarrow> None | Some v \<Rightarrow> if P k v then Some v else None)"
  by (induction xs) (auto split: option.splits simp: map_of_eq_None_iff rev_image_eqI
      dest: map_of_SomeD)

lemma sum_list_update:
  fixes g :: "'v \<Rightarrow> 'b::ab_group_add"
  assumes "distinct (map fst xs)"
  shows "sum_list (map (\<lambda>(k, v). g v) (AList.update k v xs)) =
    sum_list (map (\<lambda>(k, v). g v) xs) + g v - (case map_of xs k of None \<Rightarrow> 0 | Some p \<Rightarrow> g p)"
  using assms by (induction xs) (auto split: option.splits simp: map_of_eq_None_iff)

subsection \<open>Refinement\<close>

text \<open>An abstract system that a concrete one implements: every concrete step, from a state that satisfies
  the invariant, is an abstract step of the abstracted states.\<close>

locale forward_simulation =
  fixes inv :: "'s \<Rightarrow> bool"
    and cstep :: "'s \<Rightarrow> 's \<Rightarrow> bool"
    and astep :: "'a \<Rightarrow> 'a \<Rightarrow> bool"
    and abs :: "'s \<Rightarrow> 'a"
  assumes inv_step: "inv s \<Longrightarrow> cstep s s' \<Longrightarrow> inv s'"
    and simulates: "inv s \<Longrightarrow> cstep s s' \<Longrightarrow> astep (abs s) (abs s')"
begin

lemma simulates_runs: "cstep\<^sup>*\<^sup>* s s' \<Longrightarrow> inv s \<Longrightarrow> astep\<^sup>*\<^sup>* (abs s) (abs s') \<and> inv s'"
proof (induction rule: rtranclp_induct)
  case (step y z)
  then show ?case using simulates inv_step by (meson rtranclp.rtrancl_into_rtrancl)
qed simp

lemma abstract_invariant:
  assumes "cstep\<^sup>*\<^sup>* s s'" "inv s" "Q (abs s)" "\<And>a a'. Q a \<Longrightarrow> astep a a' \<Longrightarrow> Q a'"
  shows "Q (abs s')"
proof -
  have "astep\<^sup>*\<^sup>* (abs s) (abs s')" using simulates_runs [OF assms(1,2)] by blast
  then show ?thesis by (induction rule: rtranclp_induct) (use assms(3,4) in blast)+
qed

end

end
