(* ===== verification/GoTime.thy ===== *)
theory GoTime
  imports Prelude "HOL-Library.Monad_Syntax"
begin

text \<open>
  Go's \<open>time.Parse\<close> and \<open>Time.Format\<close> for the RFC 3339 layouts, the only ones the modelled code
  uses (\<open>time.RFC3339\<close>, \<open>time.RFC3339Nano\<close>). A \<open>go_time\<close> is an instant, in nanoseconds since the
  Unix epoch, and the zone offset in seconds it is shown in. \<open>parse_rfc3339\<close> accepts what the
  library accepts: four-digit years, one- or two-digit hours, a fraction after a period or a
  comma with any number of digits (those after the ninth are dropped), \<open>Z\<close> or a signed
  offset of at most 24 hours and 60 minutes; a date must exist. The process's local zone is
  taken to be UTC.

  The main result is the round trip \<open>parse_rfc3339 (format_rfc3339nano t) = Some t\<close> for the
  times whose year is written with four digits.
\<close>

subsection \<open>Calendar\<close>

definition leap :: "nat \<Rightarrow> bool" where
  "leap y \<longleftrightarrow> y mod 4 = 0 \<and> (y mod 100 \<noteq> 0 \<or> y mod 400 = 0)"

definition days_in :: "nat \<Rightarrow> nat \<Rightarrow> nat" where
  "days_in y m = (if m = 2 then (if leap y then 29 else 28)
     else if m \<in> {4, 6, 9, 11} then 30 else 31)"

text \<open>Days from 0000-01-01 to the first of January of year \<open>y\<close>, and to the first of month \<open>m\<close>.\<close>

definition days_before_year :: "nat \<Rightarrow> nat" where
  "days_before_year y = 365 * y + (y + 3) div 4 - (y + 99) div 100 + (y + 399) div 400"

definition days_before_month :: "nat \<Rightarrow> nat \<Rightarrow> nat" where
  "days_before_month y m = sum_list (take (m - 1) (map (days_in y) [1, 2, 3, 4, 5, 6, 7, 8, 9, 10, 11, 12]))"

definition day_number :: "nat \<Rightarrow> nat \<Rightarrow> nat \<Rightarrow> nat" where
  "day_number y m d = days_before_year y + days_before_month y m + (d - 1)"

definition valid_date :: "nat \<Rightarrow> nat \<Rightarrow> nat \<Rightarrow> bool" where
  "valid_date y m d \<longleftrightarrow> 1 \<le> m \<and> m \<le> 12 \<and> 1 \<le> d \<and> d \<le> days_in y m"

lemma round_up_Suc:
  assumes "0 < (k::nat)"
  shows "(Suc y + (k - 1)) div k = (y + (k - 1)) div k + (if y mod k = 0 then 1 else 0)"
proof -
  have "Suc (y + (k - 1)) = y + k" using assms by simp
  then show ?thesis using div_Suc [of "y + (k - 1)" k] by simp
qed

lemma leap_step: "days_before_year (Suc y) = days_before_year y + (if leap y then 366 else 365)"
proof -
  have a: "(Suc y + 3) div 4 = (y + 3) div 4 + (if y mod 4 = 0 then 1 else 0)"
    and b: "(Suc y + 99) div 100 = (y + 99) div 100 + (if y mod 100 = 0 then 1 else 0)"
    and c: "(Suc y + 399) div 400 = (y + 399) div 400 + (if y mod 400 = 0 then 1 else 0)"
    using round_up_Suc [of 4 y] round_up_Suc [of 100 y] round_up_Suc [of 400 y] by simp_all
  have "y mod 400 = 0 \<Longrightarrow> y mod 100 = 0" and "y mod 100 = 0 \<Longrightarrow> y mod 4 = 0"
    by (auto simp flip: dvd_eq_mod_eq_0 elim: dvd_trans [rotated])
  moreover have "(y + 99) div 100 \<le> 365 * y + (y + 3) div 4" by linarith
  ultimately show ?thesis
    unfolding days_before_year_def a b c leap_def by (auto simp: add_ac)
qed

lemma days_before_year_mono: "y \<le> z \<Longrightarrow> days_before_year y \<le> days_before_year z"
  by (induction rule: dec_induct) (auto simp: leap_step)

lemma days_before_year_ge: "y \<le> days_before_year y"
  by (induction y) (auto simp: leap_step)

text \<open>The year of a day: from a lower estimate, step up while the next year has begun.\<close>

function year_from :: "nat \<Rightarrow> nat \<Rightarrow> nat" where
  "year_from y n = (if days_before_year (Suc y) \<le> n then year_from (Suc y) n else y)"
  by pat_completeness auto
termination
proof (relation "measure (\<lambda>(y, n). n - y)", simp, clarsimp)
  fix y n assume "days_before_year (Suc y) \<le> n"
  then have "Suc y \<le> n" using days_before_year_ge [of "Suc y"] by simp
  then show "n - Suc y < n - y" by simp
qed

declare year_from.simps [simp del]

function month_from :: "nat \<Rightarrow> nat \<Rightarrow> nat \<Rightarrow> nat \<times> nat" where
  "month_from y m n =
     (if m < 12 \<and> days_in y m \<le> n then month_from y (Suc m) (n - days_in y m) else (m, n + 1))"
  by pat_completeness auto
termination
  by (relation "measure (\<lambda>(y, m, n). 12 - m)") auto

declare month_from.simps [simp del]

definition civil :: "nat \<Rightarrow> nat \<times> nat \<times> nat" where
  "civil n = (let y = year_from (n div 366) n; (m, d) = month_from y 1 (n - days_before_year y)
     in (y, m, d))"

lemma year_from_bounds:
  "days_before_year y \<le> n \<Longrightarrow>
     days_before_year (year_from y n) \<le> n \<and> n < days_before_year (Suc (year_from y n))"
proof (induction y n rule: year_from.induct)
  case (1 y n)
  then show ?case by (cases "days_before_year (Suc y) \<le> n") (auto simp: year_from.simps [of y n])
qed

lemma days_before_month_Suc:
  assumes "1 \<le> m" "m \<le> 12"
  shows "days_before_month y (Suc m) = days_before_month y m + days_in y m"
proof -
  let ?ms = "[1, 2, 3, 4, 5, 6, 7, 8, 9, 10, 11, 12] :: nat list"
  have "\<forall>i < 12. ?ms ! i = Suc i"
    by (simp add: numeral_eq_Suc All_less_Suc)
  moreover obtain i where i: "m = Suc i" "i < 12" using assms by (cases m) auto
  ultimately have "take m (map (days_in y) ?ms) = take i (map (days_in y) ?ms) @ [days_in y m]"
    by (simp add: take_Suc_conv_app_nth del: list.map take_Cons_numeral)
  then show ?thesis by (simp only: days_before_month_def i) (simp add: i)
qed

lemma days_before_month_13: "days_before_month y 13 = (if leap y then 366 else 365)"
  by (simp add: days_before_month_def days_in_def)

lemma month_from_correct:
  assumes "1 \<le> m" "m \<le> 12" "days_before_month y m + n < days_before_month y 13"
    and "month_from y m n = (m', d)"
  shows "valid_date y m' d \<and> days_before_month y m' + (d - 1) = days_before_month y m + n"
  using assms
proof (induction y m n rule: month_from.induct)
  case (1 y m n)
  show ?case
  proof (cases "m < 12 \<and> days_in y m \<le> n")
    case True
    with 1 show ?thesis
      by (auto simp: month_from.simps [of y m n] days_before_month_Suc)
  next
    case False
    moreover have "n < days_in y m" if "m = 12"
      using 1 that days_before_month_Suc [of 12 y] by simp
    ultimately show ?thesis
      using 1 by (auto simp: month_from.simps [of y m n] valid_date_def)
  qed
qed

lemma days_before_year_le: "days_before_year z \<le> 366 * z"
  by (induction z) (auto simp: leap_step days_before_year_def)

lemma civil_correct:
  assumes "civil n = (y, m, d)"
  shows "valid_date y m d \<and> day_number y m d = n"
proof -
  let ?y = "year_from (n div 366) n"
  have "days_before_year (n div 366) \<le> n"
    using days_before_year_le [of "n div 366"] by simp
  then have b: "days_before_year ?y \<le> n" "n < days_before_year (Suc ?y)"
    using year_from_bounds by blast+
  from assms have y: "y = ?y" and md: "month_from y 1 (n - days_before_year y) = (m, d)"
    by (auto simp: civil_def Let_def split: prod.splits)
  have "n - days_before_year y < days_before_month y 13"
    using b by (auto simp: y leap_step days_before_month_13 split: if_splits)
  then have "valid_date y m d \<and> days_before_month y m + (d - 1) = n - days_before_year y"
    using month_from_correct [of 1 y "n - days_before_year y" m d] md
    by (simp add: days_before_month_def)
  then show ?thesis using b unfolding day_number_def y by linarith
qed

lemma civil_year_bound: "civil n = (y, m, d) \<Longrightarrow> n < days_before_year z \<Longrightarrow> y < z"
  using civil_correct [of n y m d] days_before_year_mono [of z y]
  by (fastforce simp: day_number_def not_less [symmetric])

subsection \<open>Decimal numbers\<close>

definition digit :: "nat \<Rightarrow> char" where
  "digit n = char_of (48 + n)"

definition is_digit :: "char \<Rightarrow> bool" where
  "is_digit c \<longleftrightarrow> 48 \<le> (of_char c :: nat) \<and> (of_char c :: nat) \<le> 57"

definition digit_val :: "char \<Rightarrow> nat" where
  "digit_val c = of_char c - 48"

definition num_of :: "string \<Rightarrow> nat" where
  "num_of s = foldl (\<lambda>a c. 10 * a + digit_val c) 0 s"

fun pad :: "nat \<Rightarrow> nat \<Rightarrow> string" where
  "pad 0 n = []"
| "pad (Suc w) n = pad w (n div 10) @ [digit (n mod 10)]"

fun decimal :: "nat \<Rightarrow> string" where
  "decimal n = (if n < 10 then [digit n] else decimal (n div 10) @ [digit (n mod 10)])"

declare decimal.simps [simp del]

text \<open>\<open>time.appendInt\<close>: at least \<open>w\<close> digits, more when the number needs them.\<close>

definition append_int :: "nat \<Rightarrow> nat \<Rightarrow> string" where
  "append_int w n = (if n < 10 ^ w then pad w n else decimal n)"

lemma of_char_digit [simp]: "n < 10 \<Longrightarrow> (of_char (digit n) :: nat) = 48 + n"
  by (simp add: digit_def)

lemma is_digit_digit [simp]: "n < 10 \<Longrightarrow> is_digit (digit n)"
  by (simp add: is_digit_def)

lemma digit_val_digit [simp]: "n < 10 \<Longrightarrow> digit_val (digit n) = n"
  by (simp add: digit_val_def)

lemma num_of_Nil [simp]: "num_of [] = 0"
  by (simp add: num_of_def)

lemma num_of_snoc [simp]: "num_of (s @ [c]) = 10 * num_of s + digit_val c"
  by (simp add: num_of_def)

lemma num_of_append: "num_of (s @ t) = num_of s * 10 ^ length t + num_of t"
proof (induction t rule: rev_induct)
  case (snoc c t)
  have "num_of (s @ t @ [c]) = num_of ((s @ t) @ [c])" by simp
  then show ?case using snoc by (simp only: num_of_snoc) simp
qed simp

lemma length_pad [simp]: "length (pad w n) = w"
  by (induction w n rule: pad.induct) auto

lemma pad_digits [simp]: "list_all is_digit (pad w n)"
  by (induction w n rule: pad.induct) auto

lemma num_of_pad: "n < 10 ^ w \<Longrightarrow> num_of (pad w n) = n"
proof (induction w n rule: pad.induct)
  case (2 w n)
  then have "num_of (pad w (n div 10)) = n div 10"
    by (auto simp: less_mult_imp_div_less mult.commute)
  then show ?case by simp
qed simp

subsection \<open>Times\<close>

record go_time =
  instant :: int
  offset :: int

definition time_before :: "go_time \<Rightarrow> go_time \<Rightarrow> bool" where
  "time_before a b \<longleftrightarrow> instant a < instant b"

definition time_after :: "go_time \<Rightarrow> go_time \<Rightarrow> bool" where
  "time_after a b \<longleftrightarrow> instant b < instant a"

definition add_nanos :: "go_time \<Rightarrow> int \<Rightarrow> go_time" where
  "add_nanos t n = t\<lparr>instant := instant t + n\<rparr>"

text \<open>The day number of 1970-01-01.\<close>

definition epoch_day :: int where
  "epoch_day = 719528"

lemma epoch_day_number: "int (day_number 1970 1 1) = epoch_day"
  by (simp add: epoch_day_def day_number_def days_before_year_def days_before_month_def)

subsection \<open>Parsing\<close>

definition expect :: "char \<Rightarrow> string \<Rightarrow> string option" where
  "expect c s = (case s of [] \<Rightarrow> None | x # r \<Rightarrow> if x = c then Some r else None)"

definition guard :: "bool \<Rightarrow> unit option" where
  "guard b = (if b then Some () else None)"

text \<open>\<open>time.getnum\<close>: two digits, or one when the field is not fixed.\<close>

fun getnum :: "bool \<Rightarrow> string \<Rightarrow> (nat \<times> string) option" where
  "getnum fixed [] = None"
| "getnum fixed [c] = (if is_digit c \<and> \<not> fixed then Some (digit_val c, []) else None)"
| "getnum fixed (c # d # r) =
     (if \<not> is_digit c then None
      else if is_digit d then Some (num_of [c, d], r)
      else if fixed then None
      else Some (digit_val c, d # r))"

definition get_year :: "string \<Rightarrow> (nat \<times> string) option" where
  "get_year s = (if 4 \<le> length s \<and> list_all is_digit (take 4 s)
     then Some (num_of (take 4 s), drop 4 s) else None)"

text \<open>\<open>time.parseNanoseconds\<close>: the first nine digits, scaled.\<close>

definition nanoseconds :: "string \<Rightarrow> nat" where
  "nanoseconds ds = num_of (take 9 ds) * 10 ^ (9 - length (take 9 ds))"

fun get_fraction :: "string \<Rightarrow> nat \<times> string" where
  "get_fraction (p # d # r) =
     (if (p = CHR ''.'' \<or> p = CHR '','') \<and> is_digit d
      then (nanoseconds (takeWhile is_digit (d # r)), dropWhile is_digit (d # r))
      else (0, p # d # r))"
| "get_fraction s = (0, s)"

definition get_zone :: "string \<Rightarrow> int option" where
  "get_zone s = (if s = ''Z'' then Some 0 else (case s of [] \<Rightarrow> None | sign # s1 \<Rightarrow> do {
       guard (sign = CHR ''+'' \<or> sign = CHR ''-'');
       (hh, s2) \<leftarrow> getnum True s1;
       s3 \<leftarrow> expect CHR '':'' s2;
       (mm, s4) \<leftarrow> getnum True s3;
       guard (s4 = [] \<and> hh \<le> 24 \<and> mm \<le> 60);
       let z = int ((hh * 60 + mm) * 60);
       Some (if sign = CHR ''-'' then - z else z) }))"

definition parse_rfc3339 :: "string \<Rightarrow> go_time option" where
  "parse_rfc3339 s = do {
     (y, s1) \<leftarrow> get_year s;
     s2 \<leftarrow> expect CHR ''-'' s1;
     (mo, s3) \<leftarrow> getnum True s2;
     s4 \<leftarrow> expect CHR ''-'' s3;
     (d, s5) \<leftarrow> getnum True s4;
     s6 \<leftarrow> expect CHR ''T'' s5;
     (h, s7) \<leftarrow> getnum False s6;
     s8 \<leftarrow> expect CHR '':'' s7;
     (mi, s9) \<leftarrow> getnum True s8;
     s10 \<leftarrow> expect CHR '':'' s9;
     (sec, s11) \<leftarrow> getnum True s10;
     let (ns, s12) = get_fraction s11;
     off \<leftarrow> get_zone s12;
     guard (valid_date y mo d \<and> h < 24 \<and> mi < 60 \<and> sec < 60);
     let days = int (day_number y mo d) - epoch_day;
     let secs = days * 86400 + int (h * 3600 + mi * 60 + sec) - off;
     Some \<lparr>instant = secs * 1000000000 + int ns, offset = off\<rparr> }"

subsection \<open>Formatting\<close>

text \<open>Year, month and day of a day number that may lie before the year 0: shift it by whole
  periods of 400 years.\<close>

definition civil_int :: "int \<Rightarrow> int \<times> nat \<times> nat" where
  "civil_int n = (let k = (if n < 0 then (- n) div 146097 + 1 else 0);
      (y, m, d) = civil (nat (n + 146097 * k)) in (int y - 400 * k, m, d))"

definition format_year :: "int \<Rightarrow> string" where
  "format_year y = (if y < 0 then CHR ''-'' # append_int 4 (nat (- y)) else append_int 4 (nat y))"

definition format_fraction :: "nat \<Rightarrow> string" where
  "format_fraction ns = (if ns = 0 then []
     else CHR ''.'' # rev (dropWhile (\<lambda>c. c = CHR ''0'') (rev (pad 9 ns))))"

definition format_zone :: "int \<Rightarrow> string" where
  "format_zone off = (if off = 0 then ''Z'' else
     let z = nat \<bar>off\<bar> div 60 in
     (if off < 0 then CHR ''-'' else CHR ''+'') # append_int 2 (z div 60) @ CHR '':'' # append_int 2 (z mod 60))"

definition format_rfc3339nano :: "go_time \<Rightarrow> string" where
  "format_rfc3339nano t =
     (let local = instant t + offset t * 1000000000;
          secs = local div 1000000000;
          ns = nat (local mod 1000000000);
          sod = nat (secs mod 86400);
          (y, m, d) = civil_int (secs div 86400 + epoch_day)
      in format_year y @ CHR ''-'' # append_int 2 m @ CHR ''-'' # append_int 2 d @ CHR ''T'' #
         append_int 2 (sod div 3600) @ CHR '':'' # append_int 2 (sod div 60 mod 60) @ CHR '':'' #
         append_int 2 (sod mod 60) @ format_fraction ns @ format_zone (offset t))"

text \<open>The times the four-digit year and the two-digit offset fields can express.\<close>

definition printable :: "go_time \<Rightarrow> bool" where
  "printable t \<longleftrightarrow>
     (let day = (instant t + offset t * 1000000000) div 1000000000 div 86400 + epoch_day
      in 0 \<le> day \<and> day < int (days_before_year 10000)) \<and>
     offset t mod 60 = 0 \<and> \<bar>offset t\<bar> < 90000"

subsection \<open>The round trip\<close>

lemma pad_2: "pad 2 n = [digit (n div 10 mod 10), digit (n mod 10)]"
  by (simp add: numeral_2_eq_2)

lemma expect_Cons [simp]: "expect c (c # r) = Some r"
  by (simp add: expect_def)

lemma getnum_append_int [simp]: "n < 100 \<Longrightarrow> getnum fixed (append_int 2 n @ r) = Some (n, r)"
  by (simp add: append_int_def pad_2 num_of_def)

lemma get_year_format [simp]:
  "0 \<le> y \<Longrightarrow> y < 10000 \<Longrightarrow> get_year (format_year y @ r) = Some (nat y, r)"
  by (simp add: get_year_def format_year_def append_int_def num_of_pad nat_less_iff)

lemma strip_zeros:
  "rev (dropWhile (\<lambda>c. c = z) (rev s)) @ replicate (length (takeWhile (\<lambda>c. c = z) (rev s))) z = s"
proof -
  have "takeWhile (\<lambda>c. c = z) t = replicate (length (takeWhile (\<lambda>c. c = z) t)) z" for t
    by (induction t) auto
  then have "rev (takeWhile (\<lambda>c. c = z) (rev s)) = replicate (length (takeWhile (\<lambda>c. c = z) (rev s))) z"
    by (metis rev_replicate)
  then show ?thesis
    by (metis rev_append rev_rev_ident takeWhile_dropWhile_id)
qed

lemma num_of_zeros [simp]: "num_of (replicate k CHR ''0'') = 0"
  by (induction k) (simp_all add: num_of_def digit_val_def)

lemma get_fraction_format:
  assumes "ns < 1000000000" and r: "r = c # r'" "\<not> is_digit c" "c \<noteq> CHR ''.''" "c \<noteq> CHR '',''"
  shows "get_fraction (format_fraction ns @ r) = (ns, r)"
proof (cases "ns = 0")
  case True
  with r show ?thesis by (cases r') (auto simp: format_fraction_def)
next
  case False
  define ds where "ds = rev (dropWhile (\<lambda>c. c = CHR ''0'') (rev (pad 9 ns)))"
  obtain k where k: "pad 9 ns = ds @ replicate k CHR ''0''"
    using strip_zeros [of "CHR ''0''" "pad 9 ns"] unfolding ds_def by metis
  have num: "num_of ds * 10 ^ k = ns"
    using num_of_pad [of ns 9] assms(1) by (simp add: k num_of_append)
  have len: "length ds + k = 9" using arg_cong [OF k, of length] by simp
  have digits: "list_all is_digit ds" using pad_digits [of 9 ns] by (simp add: k)
  from num False obtain d ds' where ds: "ds = d # ds'" by (cases ds) auto
  have tw: "takeWhile is_digit (ds @ r) = ds" "dropWhile is_digit (ds @ r) = r"
    using digits r by (auto simp: list_all_iff takeWhile_append dropWhile_append)
  have "get_fraction (CHR ''.'' # ds @ r) = (nanoseconds ds, r)"
    using digits tw by (simp add: ds)
  moreover have "nanoseconds ds = ns"
    using num len by (auto simp: nanoseconds_def)
  ultimately show ?thesis using False by (simp add: format_fraction_def ds_def)
qed

lemma get_zone_numeric:
  assumes "c = CHR ''+'' \<or> c = CHR ''-''" "hh \<le> 24" "mm \<le> 60"
  shows "get_zone (c # append_int 2 hh @ CHR '':'' # append_int 2 mm) =
    Some (if c = CHR ''-'' then - int ((hh * 60 + mm) * 60) else int ((hh * 60 + mm) * 60))"
proof -
  have "getnum True (append_int 2 mm) = Some (mm, [])"
    using assms(3) getnum_append_int [of mm True "[]"] by simp
  then show ?thesis using assms by (simp add: get_zone_def guard_def Let_def)
qed

lemma hms_split: "sod div 3600 * 3600 + sod div 60 mod 60 * 60 + sod mod 60 = (sod::nat)"
proof -
  have "sod div 3600 = sod div 60 div 60" by (simp flip: div_mult2_eq)
  moreover have "sod div 60 div 60 * 60 + sod div 60 mod 60 = sod div 60" by simp
  moreover have "sod div 60 * 60 + sod mod 60 = sod" by simp
  ultimately show ?thesis by linarith
qed

lemma get_zone_format:
  assumes "off mod 60 = 0" "\<bar>off\<bar> < 90000"
  shows "get_zone (format_zone off) = Some off"
proof (cases "off = 0")
  case True
  then show ?thesis by (simp add: format_zone_def get_zone_def)
next
  case False
  let ?z = "nat \<bar>off\<bar> div 60"
  have z_bounds: "?z div 60 \<le> 24" "?z mod 60 < 60" using assms by auto
  obtain k where k: "off = 60 * k" using assms(1) by auto
  then have "nat \<bar>off\<bar> = 60 * nat \<bar>k\<bar>" by (simp add: abs_mult nat_mult_distrib)
  then have whole: "int ((?z div 60 * 60 + ?z mod 60) * 60) = \<bar>off\<bar>"
    by (simp add: k abs_mult)
  show ?thesis
    using False z_bounds whole by (simp add: format_zone_def Let_def get_zone_numeric)
qed

lemma format_zone_head:
  "\<exists>c r. format_zone off = c # r \<and> \<not> is_digit c \<and> c \<noteq> CHR ''.'' \<and> c \<noteq> CHR '',''"
  by (cases "off = 0"; cases "off < 0") (simp_all add: format_zone_def Let_def is_digit_def)

lemma printable_round_trip:
  assumes "printable t"
  shows "parse_rfc3339 (format_rfc3339nano t) = Some t"
proof -
  define local where "local = instant t + offset t * 1000000000"
  define secs where "secs = local div 1000000000"
  define ns where "ns = nat (local mod 1000000000)"
  define sod where "sod = nat (secs mod 86400)"
  define day where "day = secs div 86400 + epoch_day"
  have day: "0 \<le> day" "day < int (days_before_year 10000)"
    and off: "offset t mod 60 = 0" "\<bar>offset t\<bar> < 90000"
    using assms by (auto simp: printable_def Let_def day_def secs_def local_def)
  obtain y m d where ymd: "civil (nat day) = (y, m, d)" by (cases "civil (nat day)") auto
  then have civ: "civil_int day = (int y, m, d)" using day by (simp add: civil_int_def Let_def)
  have date: "valid_date y m d" "int (day_number y m d) = day"
    using civil_correct [OF ymd] day by auto
  have y: "y < 10000" using civil_year_bound [OF ymd, of 10000] day by simp
  have md: "m < 100" "d < 100"
    using date(1) by (auto simp: valid_date_def days_in_def split: if_splits)
  have sod: "sod < 86400" "int sod = secs mod 86400" by (auto simp: sod_def)
  have nsb: "ns < 1000000000" "int ns = local mod 1000000000" by (auto simp: ns_def)
  obtain c r where zone: "format_zone (offset t) = c # r" "\<not> is_digit c" "c \<noteq> CHR ''.''" "c \<noteq> CHR '',''"
    using format_zone_head [of "offset t"] by blast
  have shown: "format_rfc3339nano t =
      format_year (int y) @ CHR ''-'' # append_int 2 m @ CHR ''-'' # append_int 2 d @ CHR ''T'' #
      append_int 2 (sod div 3600) @ CHR '':'' # append_int 2 (sod div 60 mod 60) @ CHR '':'' #
      append_int 2 (sod mod 60) @ format_fraction ns @ format_zone (offset t)"
    unfolding format_rfc3339nano_def Let_def
    using civ by (simp add: local_def secs_def ns_def sod_def day_def)
  have frac: "get_fraction (format_fraction ns @ format_zone (offset t)) = (ns, format_zone (offset t))"
    using get_fraction_format [OF nsb(1) zone] .
  have "(day - epoch_day) * 86400 + int (sod div 3600 * 3600 + sod div 60 mod 60 * 60 + sod mod 60) = secs"
    by (simp only: hms_split) (simp add: day_def sod(2))
  then have inst: "((day - epoch_day) * 86400 + int (sod div 3600 * 3600 + sod div 60 mod 60 * 60 + sod mod 60)
      - offset t) * 1000000000 + int ns = instant t"
    by (simp add: secs_def nsb(2) local_def algebra_simps)
  show ?thesis
    unfolding parse_rfc3339_def shown
    using y md sod(1) date inst
    by (simp add: frac get_zone_format [OF off] guard_def Let_def)
qed

text \<open>Evaluation of a concrete time stamp by the simplifier.\<close>

lemmas parse_eval = parse_rfc3339_def get_year_def expect_def guard_def get_zone_def is_digit_def
  digit_val_def num_of_def nanoseconds_def valid_date_def days_in_def leap_def day_number_def
  days_before_year_def days_before_month_def epoch_day_def

end
