(* ===== verification/UsageFacts.thy ===== *)
theory UsageFacts
  imports Complex_Main GoTime "HOL-Library.Word"
begin

text \<open>
  Usage accounting (src/omp/usage.go, src/omp/usage_transition.go, src/usage_facts.go and the
  accounting part of \<open>publishEvent\<close> in src/agent.go).

  A usage fact observes one provider call, first as \<open>started\<close> and then with its terminal
  counters. Facts reach a seat more than once and out of order (a replay after a reconnect), so
  the transition contract decides which of them counts. The theorems show that the contract
  makes accounting exact: however facts are duplicated or replayed, the totals of the seat are
  the sum of the terminal counters of the calls it has seen, each counted once.
\<close>

subsection \<open>Data\<close>

text \<open>A \<open>float64\<close> that the code only tests for being a number, finite and negative.\<close>

datatype go_float = FNaN | FInf bool | FFin rat

record usage_counters =
  TotalInputTokens :: "int option"
  InputTokens :: "int option"
  OutputTokens :: "int option"
  CacheReadInputTokens :: "int option"
  CacheCreationInputTokens :: "int option"
  ReasoningTokens :: "int option"

definition no_counters :: usage_counters where
  "no_counters = \<lparr>TotalInputTokens = None, InputTokens = None, OutputTokens = None,
     CacheReadInputTokens = None, CacheCreationInputTokens = None, ReasoningTokens = None\<rparr>"

record usage_request_ref =
  RefRequestID :: string
  RefAttemptID :: string

record usage_fact =
  InvocationID :: string
  ProviderAttemptID :: string
  ProviderRequestID :: string
  ProviderResponseID :: string
  Seq :: "64 word"
  CallID :: string
  FactSeat :: string
  FactSession :: string
  Kind :: string
  FactState :: string
  FactProvider :: string
  FactModel :: string
  TurnID :: string
  Requests :: "usage_request_ref slice"
  FactCause :: string
  StartedAt :: string
  FinishedAt :: string
  Counters :: usage_counters
  ContextTokens :: "int option"
  APIEquivalentCostUSD :: "go_float option"
  CounterSource :: string
  CostSource :: string
  Coverage :: string
  ProtocolTokenDeltaTotal :: "int option"

datatype usage_error =
    InvalidIdentity | InvalidScope | InvalidKind | InvalidStart | UnfinishedCounters
  | InvalidFinish | InvalidState | InvalidRequestRef | InvalidCounter | InvalidCost
  | MissingIncoming | IdentityChanged | ConflictingFacts | OlderReplay | ExpectedTerminal
  | SeatMismatch | PageCursor | PageGap | PageUnavailable

subsection \<open>Validation\<close>

definition max_safe :: int where
  "max_safe = 2 ^ 53 - 1"

definition known_states :: "string list" where
  "known_states = [''completed'', ''failed'', ''cancelled'', ''unknown'']"

fun bad_refs :: "string list \<Rightarrow> usage_request_ref list \<Rightarrow> bool" where
  "bad_refs seen [] = False"
| "bad_refs seen (r # rs) =
     (RefRequestID r = [] \<or> RefAttemptID r = [] \<or> RefRequestID r \<in> set seen \<or>
      bad_refs (RefRequestID r # seen) rs)"

definition counter_list :: "usage_fact \<Rightarrow> int option list" where
  "counter_list f =
     [TotalInputTokens (Counters f), InputTokens (Counters f), OutputTokens (Counters f),
      CacheReadInputTokens (Counters f), CacheCreationInputTokens (Counters f),
      ReasoningTokens (Counters f), ContextTokens f, ProtocolTokenDeltaTotal f]"

definition bad_counter :: "int option \<Rightarrow> bool" where
  "bad_counter c = (case c of None \<Rightarrow> False | Some n \<Rightarrow> n < 0 \<or> n > max_safe)"

definition bad_cost :: "usage_fact \<Rightarrow> bool" where
  "bad_cost f = (case APIEquivalentCostUSD f of
       None \<Rightarrow> False
     | Some c \<Rightarrow> (case c of FNaN \<Rightarrow> True | FInf _ \<Rightarrow> True | FFin q \<Rightarrow> q < 0) \<or>
         CostSource f \<noteq> ''provider_adapter_estimate'')"

definition check_finish :: "usage_fact \<Rightarrow> go_time \<Rightarrow> usage_error option" where
  "check_finish f start =
     (if FactState f = ''started'' then
        (if FinishedAt f \<noteq> [] \<or> Counters f \<noteq> no_counters \<or> ContextTokens f \<noteq> None \<or>
            ProtocolTokenDeltaTotal f \<noteq> None \<or> APIEquivalentCostUSD f \<noteq> None
         then Some UnfinishedCounters else None)
      else if FactState f \<in> set known_states then
        (case parse_rfc3339 (FinishedAt f) of
           None \<Rightarrow> Some InvalidFinish
         | Some finish \<Rightarrow> if time_before finish start then Some InvalidFinish else None)
      else Some InvalidState)"

text \<open>\<open>UsageFact.ValidateIdentity\<close>; \<open>None\<close> is the nil error.\<close>

definition validateIdentity :: "usage_fact \<Rightarrow> string \<Rightarrow> string \<Rightarrow> usage_error option" where
  "validateIdentity f seat session =
     (if FactSeat f \<noteq> seat \<or> FactSession f \<noteq> session \<or> blank seat \<or> blank session \<or>
         Seq f = 0 \<or> CallID f = [] \<or> FactProvider f = [] \<or> FactModel f = [] \<or> Requests f = None
      then Some InvalidIdentity
      else if \<not> (Coverage f = ''engine_invocation'' \<and> CounterSource f = ''adapter_normalized_positive'' \<and>
                 InvocationID f = [] \<and> ProviderAttemptID f = []) \<and>
              \<not> (Coverage f = ''provider_attempt'' \<and> CounterSource f = ''provider_reported'' \<and>
                 \<not> blank (InvocationID f) \<and> ProviderAttemptID f = CallID f)
      then Some InvalidScope
      else if Kind f \<noteq> ''model'' \<and> Kind f \<noteq> ''compaction'' then Some InvalidKind
      else (case parse_rfc3339 (StartedAt f) of
          None \<Rightarrow> Some InvalidStart
        | Some start \<Rightarrow> (case check_finish f start of
              Some e \<Rightarrow> Some e
            | None \<Rightarrow>
                if (case Requests f of None \<Rightarrow> False | Some rs \<Rightarrow> bad_refs [] rs) then Some InvalidRequestRef
                else if list_ex bad_counter (counter_list f) then Some InvalidCounter
                else if bad_cost f then Some InvalidCost
                else None)))"

definition valid_fact :: "usage_fact \<Rightarrow> bool" where
  "valid_fact f \<longleftrightarrow> validateIdentity f (FactSeat f) (FactSession f) = None"

definition terminal :: "usage_fact \<Rightarrow> bool" where
  "terminal f \<longleftrightarrow> FactState f \<noteq> ''started''"

subsection \<open>The transition contract\<close>

text \<open>What must not change between two facts of one call.\<close>

definition usage_identity :: "usage_fact \<Rightarrow> usage_fact" where
  "usage_identity f = f\<lparr>Seq := 0, FactState := [], FinishedAt := [], Counters := no_counters,
     ContextTokens := None, ProtocolTokenDeltaTotal := None, APIEquivalentCostUSD := None,
     CostSource := [], ProviderRequestID := [], ProviderResponseID := []\<rparr>"

definition validateUsageTransition :: "usage_fact option \<Rightarrow> usage_fact option \<Rightarrow> usage_error + bool" where
  "validateUsageTransition previous incoming =
     (case incoming of None \<Rightarrow> Inl MissingIncoming
      | Some f \<Rightarrow> (case validateIdentity f (FactSeat f) (FactSession f) of
          Some e \<Rightarrow> Inl e
        | None \<Rightarrow> (case previous of None \<Rightarrow> Inr True
            | Some p \<Rightarrow> (case validateIdentity p (FactSeat p) (FactSession p) of
                Some e \<Rightarrow> Inl e
              | None \<Rightarrow>
                  if usage_identity p \<noteq> usage_identity f then Inl IdentityChanged
                  else if Seq f = Seq p then (if p \<noteq> f then Inl ConflictingFacts else Inr False)
                  else if Seq f < Seq p then
                    (if FactState f = ''started'' \<and> FactState p \<noteq> ''started''
                     then Inr False else Inl OlderReplay)
                  else if FactState p \<noteq> ''started'' \<or> FactState f = ''started'' then Inl ExpectedTerminal
                  else Inr True))))"

subsection \<open>Pages\<close>

record usage_page =
  PageSeat :: string
  PageSession :: string
  Facts :: "usage_fact slice"
  Next :: "64 word"
  More :: bool

definition usagePageLimit :: int where
  "usagePageLimit = 128"

fun check_page_facts :: "string \<Rightarrow> string \<Rightarrow> 64 word \<Rightarrow> usage_fact list \<Rightarrow> usage_error option" where
  "check_page_facts seat session after [] = None"
| "check_page_facts seat session after (f # fs) =
     (if Seq f \<noteq> after + 1 then Some PageGap
      else (case validateIdentity f seat session of
          Some e \<Rightarrow> Some e
        | None \<Rightarrow> check_page_facts seat session (after + 1) fs))"

definition validatePage :: "usage_page option \<Rightarrow> string \<Rightarrow> string \<Rightarrow> 64 word \<Rightarrow> int \<Rightarrow> usage_error option" where
  "validatePage page seat session after limit =
     (case page of None \<Rightarrow> Some PageCursor
      | Some p \<Rightarrow> (case Facts p of None \<Rightarrow> Some PageCursor
         | Some fs \<Rightarrow>
            if blank seat \<or> blank session \<or> limit < 1 \<or> limit > usagePageLimit \<or>
               after > 2 ^ 53 - 1 \<or> PageSeat p \<noteq> seat \<or> PageSession p \<noteq> session \<or>
               int (length fs) > limit \<or> Next p \<noteq> after + of_nat (length fs) \<or> (More p \<and> fs = [])
            then Some PageCursor
            else check_page_facts seat session after fs))"

subsection \<open>Accounting in a seat\<close>

record usage =
  UInput :: "64 word"
  UOutput :: "64 word"
  UCacheCreation :: "64 word"
  UCacheRead :: "64 word"

definition no_usage :: usage where
  "no_usage = \<lparr>UInput = 0, UOutput = 0, UCacheCreation = 0, UCacheRead = 0\<rparr>"

record seat_usage =
  AgentSession :: string
  StartName :: string
  usageCalls :: "(string \<times> usage_fact) list"
  usageErr :: "usage_error option"
  usageCursor :: "64 word"
  totals :: usage

definition token_value :: "int option \<Rightarrow> 64 word" where
  "token_value n = (case n of None \<Rightarrow> 0 | Some k \<Rightarrow> word_of_int k)"

definition fact_usage :: "usage_fact \<Rightarrow> usage" where
  "fact_usage f =
     (if FactState f = ''started'' then no_usage
      else \<lparr>UInput = token_value (InputTokens (Counters f)), UOutput = token_value (OutputTokens (Counters f)),
            UCacheCreation = token_value (CacheCreationInputTokens (Counters f)),
            UCacheRead = token_value (CacheReadInputTokens (Counters f))\<rparr>)"

definition call_key :: "usage_fact \<Rightarrow> string" where
  "call_key f = FactSeat f @ [char_of (0::nat)] @ FactSession f @ [char_of (0::nat)] @ CallID f"

text \<open>\<open>applyUsageFactLocked\<close>: an error, or the updated calls and usage when the fact is fresh.\<close>

definition applyUsageFact :: "seat_usage \<Rightarrow> usage_fact \<Rightarrow> usage_error + (seat_usage \<times> usage) option" where
  "applyUsageFact a f =
     (case validateIdentity f (FactSeat f) (AgentSession a) of
        Some e \<Rightarrow> Inl e
      | None \<Rightarrow>
          if StartName a \<noteq> [] \<and> StartName a \<noteq> FactSeat f then Inl SeatMismatch
          else (case validateUsageTransition (map_of (usageCalls a) (call_key f)) (Some f) of
              Inl e \<Rightarrow> Inl e
            | Inr False \<Rightarrow> Inr None
            | Inr True \<Rightarrow> Inr (Some (a\<lparr>usageCalls := AList.update (call_key f) f (usageCalls a)\<rparr>, fact_usage f))))"

definition add_usage :: "usage \<Rightarrow> usage \<Rightarrow> usage" where
  "add_usage t u =
     (if sint (UInput u) > 0 \<or> sint (UOutput u) > 0 \<or> sint (UCacheCreation u) > 0 \<or> sint (UCacheRead u) > 0
      then \<lparr>UInput = UInput t + UInput u, UOutput = UOutput t + UOutput u,
            UCacheCreation = UCacheCreation t + UCacheCreation u, UCacheRead = UCacheRead t + UCacheRead u\<rparr>
      else t)"

text \<open>The accounting of one fact event in \<open>publishEvent\<close>.\<close>

definition publishFact :: "seat_usage \<Rightarrow> usage_fact \<Rightarrow> seat_usage" where
  "publishFact a f =
     (case applyUsageFact a f of
        Inl e \<Rightarrow> a\<lparr>usageErr := Some e\<rparr>
      | Inr None \<Rightarrow> a
      | Inr (Some (a', u)) \<Rightarrow> a'\<lparr>totals := add_usage (totals a') u\<rparr>)"

text \<open>The loop over a page in \<open>RefreshUsage\<close>: stop when the seat holds an accounting error.\<close>

fun publishPage :: "seat_usage \<Rightarrow> usage_fact list \<Rightarrow> usage_error option \<times> seat_usage" where
  "publishPage a [] = (None, a)"
| "publishPage a (f # fs) =
     (let a' = publishFact a f in
      case usageErr a' of Some e \<Rightarrow> (Some e, a') | None \<Rightarrow> publishPage a' fs)"

lemma publishFact_cursor [simp]:
  "usageCursor (publishFact a f) = usageCursor a" "AgentSession (publishFact a f) = AgentSession a"
  "StartName (publishFact a f) = StartName a"
  by (auto simp: publishFact_def applyUsageFact_def split: sum.splits option.splits prod.splits bool.splits if_splits)

lemma publishPage_cursor: "publishPage a fs = (r, a') \<Longrightarrow>
    usageCursor a' = usageCursor a \<and> AgentSession a' = AgentSession a \<and> StartName a' = StartName a"
  by (induction fs arbitrary: a) (auto simp: Let_def split: option.splits)

text \<open>A valid page that announces another one moves the cursor on.\<close>

lemma validatePage_progress:
  assumes "validatePage (Some p) seat session after limit = None"
  shows "unat (Next p) = unat after + length (case Facts p of None \<Rightarrow> [] | Some fs \<Rightarrow> fs)"
    and "unat after < 2 ^ 53" and "More p \<Longrightarrow> unat after < unat (Next p)"
proof -
  from assms obtain fs where fs: "Facts p = Some fs" "int (length fs) \<le> 128" "\<not> after > 2 ^ 53 - 1"
      "Next p = after + of_nat (length fs)" "More p \<longrightarrow> fs \<noteq> []"
    by (auto simp: validatePage_def usagePageLimit_def split: option.splits if_splits)
  from fs(3) show lt: "unat after < 2 ^ 53"
    by (simp add: word_less_nat_alt word_le_nat_alt not_less)
  have "unat (of_nat (length fs) :: 64 word) = length fs"
    using fs(2) by (simp add: unat_of_nat)
  then have "unat (Next p) = unat after + length fs"
    using lt fs(2) by (simp add: fs(4) unat_word_ariths)
  then show "unat (Next p) = unat after + length (case Facts p of None \<Rightarrow> [] | Some fs \<Rightarrow> fs)"
    and "More p \<Longrightarrow> unat after < unat (Next p)"
    using fs(1,5) by auto
qed

text \<open>
  \<open>RefreshUsage\<close>. The backend answers a cursor with a page or an error (a cancelled context is an
  error); it is a parameter. The loop ends because every page that announces another one
  advances the cursor and no page is accepted past \<open>2 ^ 53\<close>.
\<close>

function refreshUsage ::
  "(64 word \<Rightarrow> usage_error + usage_page option) \<Rightarrow> seat_usage \<Rightarrow> usage_error option \<times> seat_usage" where
  "refreshUsage fetch a =
     (case fetch (usageCursor a) of
        Inl e \<Rightarrow> (Some e, a)
      | Inr None \<Rightarrow> (Some PageUnavailable, a)
      | Inr (Some p) \<Rightarrow>
          (case validatePage (Some p) (StartName a) (AgentSession a) (usageCursor a) usagePageLimit of
             Some e \<Rightarrow> (Some e, a)
           | None \<Rightarrow>
              (case publishPage a (case Facts p of None \<Rightarrow> [] | Some fs \<Rightarrow> fs) of
                 (Some e, a') \<Rightarrow> (Some e, a')
               | (None, a') \<Rightarrow>
                   if More p then refreshUsage fetch (a'\<lparr>usageCursor := Next p\<rparr>)
                   else (None, a'\<lparr>usageCursor := Next p\<rparr>))))"
  by pat_completeness auto
termination
proof (relation "measure (\<lambda>(fetch, a). 2 ^ 54 - unat (usageCursor a))", simp)
  fix fetch a x2 p x' a'
  assume v: "validatePage (Some p) (StartName a) (AgentSession a) (usageCursor a) usagePageLimit = None"
    and "More p"
  then have "unat (usageCursor a) < 2 ^ 53" "unat (usageCursor a) < unat (Next p)"
    using validatePage_progress [OF v] by blast+
  then show "((fetch, a'\<lparr>usageCursor := Next p\<rparr>), (fetch, a)) \<in> measure (\<lambda>(fetch, a). 2 ^ 54 - unat (usageCursor a))"
    by simp
qed

declare refreshUsage.simps [simp del]

subsection \<open>The contract\<close>

text \<open>A fact is applied exactly when it is the first of its call, or the terminal fact that
  follows a stored \<open>started\<close> one.\<close>

lemma transition_apply:
  "validateUsageTransition previous (Some f) = Inr True \<Longrightarrow>
     valid_fact f \<and>
     (case previous of None \<Rightarrow> True
      | Some p \<Rightarrow> valid_fact p \<and> usage_identity p = usage_identity f \<and> Seq p < Seq f \<and>
          \<not> terminal p \<and> terminal f)"
  by (auto simp: validateUsageTransition_def valid_fact_def terminal_def not_less
      split: option.splits if_splits)

lemma transition_replay:
  "valid_fact f \<Longrightarrow> validateUsageTransition (Some f) (Some f) = Inr False"
  by (simp add: validateUsageTransition_def valid_fact_def)

lemma transition_terminal_final:
  "terminal p \<Longrightarrow> validateUsageTransition (Some p) (Some f) \<noteq> Inr True"
  using transition_apply by fastforce

subsection \<open>Exact totals\<close>

text \<open>The counters the totals add up are small enough to be read as non-negative words.\<close>

lemma token_value_nonneg:
  assumes "\<not> bad_counter n"
  shows "0 \<le> sint (token_value n)" "sint (token_value n) = 0 \<longleftrightarrow> token_value n = 0"
proof -
  have "0 \<le> sint (token_value n)"
  proof (cases n)
    case (Some k)
    with assms have k: "0 \<le> k" "k < 2 ^ 53" by (auto simp: bad_counter_def max_safe_def)
    then have "signed_take_bit 63 k = k"
      by (intro signed_take_bit_int_eq_self) auto
    with Some k show ?thesis by (simp add: token_value_def signed_of_int)
  qed (simp add: token_value_def)
  then show "0 \<le> sint (token_value n)" .
  show "sint (token_value n) = 0 \<longleftrightarrow> token_value n = 0" by (simp add: signed_eq_0_iff)
qed

lemma valid_fact_counters: "valid_fact f \<Longrightarrow> c \<in> set (counter_list f) \<Longrightarrow> \<not> bad_counter c"
  by (auto simp: valid_fact_def validateIdentity_def list_ex_iff split: if_splits option.splits)

lemma add_usage_fact:
  assumes "valid_fact f"
  shows "add_usage t (fact_usage f) =
    \<lparr>UInput = UInput t + UInput (fact_usage f), UOutput = UOutput t + UOutput (fact_usage f),
     UCacheCreation = UCacheCreation t + UCacheCreation (fact_usage f),
     UCacheRead = UCacheRead t + UCacheRead (fact_usage f)\<rparr>"
proof -
  have "0 \<le> sint (UInput (fact_usage f))" "0 \<le> sint (UOutput (fact_usage f))"
    "0 \<le> sint (UCacheCreation (fact_usage f))" "0 \<le> sint (UCacheRead (fact_usage f))"
    using valid_fact_counters [OF assms] token_value_nonneg(1)
    by (auto simp: fact_usage_def no_usage_def counter_list_def)
  moreover have "w = 0" if "0 \<le> sint w" "\<not> 0 < sint w" for w :: "64 word"
    using that by (metis antisym_conv not_less signed_eq_0_iff)
  ultimately show ?thesis by (auto simp: add_usage_def)
qed

text \<open>The calls a seat has recorded: distinct keys, each with a valid fact under its own key.\<close>

definition calls_ok :: "seat_usage \<Rightarrow> bool" where
  "calls_ok a \<longleftrightarrow> distinct (map fst (usageCalls a)) \<and>
     (\<forall>(k, f) \<in> set (usageCalls a). k = call_key f \<and> valid_fact f)"

definition call_total :: "(usage \<Rightarrow> 64 word) \<Rightarrow> seat_usage \<Rightarrow> 64 word" where
  "call_total sel a = sum_list (map (\<lambda>(k, f). sel (fact_usage f)) (usageCalls a))"

definition accounted :: "usage \<Rightarrow> seat_usage \<Rightarrow> bool" where
  "accounted start a \<longleftrightarrow> calls_ok a \<and>
     UInput (totals a) = UInput start + call_total UInput a \<and>
     UOutput (totals a) = UOutput start + call_total UOutput a \<and>
     UCacheCreation (totals a) = UCacheCreation start + call_total UCacheCreation a \<and>
     UCacheRead (totals a) = UCacheRead start + call_total UCacheRead a"

lemma started_usage [simp]: "\<not> terminal f \<Longrightarrow> fact_usage f = no_usage"
  by (simp add: terminal_def fact_usage_def)

lemma call_total_update:
  assumes "distinct (map fst (usageCalls a))"
    and "case map_of (usageCalls a) k of None \<Rightarrow> True | Some p \<Rightarrow> \<not> terminal p"
    and "sel no_usage = 0"
  shows "call_total sel (a\<lparr>usageCalls := AList.update k f (usageCalls a)\<rparr>) = call_total sel a + sel (fact_usage f)"
  using assms by (cases "map_of (usageCalls a) k")
    (simp_all add: call_total_def sum_list_update [where g = "\<lambda>f. sel (fact_usage f)"])

lemma calls_ok_update:
  "calls_ok a \<Longrightarrow> valid_fact f \<Longrightarrow>
     calls_ok (a\<lparr>usageCalls := AList.update (call_key f) f (usageCalls a)\<rparr>)"
  by (auto simp: calls_ok_def dest!: in_set_update)

lemma publishFact_accounted:
  assumes "accounted start a"
  shows "accounted start (publishFact a f)"
proof (cases "applyUsageFact a f")
  case (Inl e)
  with assms show ?thesis
    by (simp add: publishFact_def accounted_def calls_ok_def call_total_def)
next
  case (Inr r)
  show ?thesis
  proof (cases r)
    case None
    with Inr assms show ?thesis by (simp add: publishFact_def)
  next
    case (Some au)
    let ?k = "call_key f"
    let ?a = "a\<lparr>usageCalls := AList.update ?k f (usageCalls a)\<rparr>"
    from Inr Some have au: "au = (?a, fact_usage f)"
      and tr: "validateUsageTransition (map_of (usageCalls a) ?k) (Some f) = Inr True"
      by (auto simp: applyUsageFact_def split: option.splits if_splits sum.splits bool.splits)
    from transition_apply [OF tr] have f: "valid_fact f"
      and old: "case map_of (usageCalls a) ?k of None \<Rightarrow> True | Some p \<Rightarrow> \<not> terminal p"
      by (auto split: option.splits)
    have ok: "calls_ok a" using assms by (simp add: accounted_def)
    then have d: "distinct (map fst (usageCalls a))" by (simp add: calls_ok_def)
    note tot = call_total_update [OF d old, of _ f]
    have "calls_ok (?a\<lparr>totals := t\<rparr>)" "call_total sel (?a\<lparr>totals := t\<rparr>) = call_total sel ?a" for sel t
      using calls_ok_update [OF ok f] by (simp_all add: calls_ok_def call_total_def)
    then show ?thesis
      using assms Inr Some
      by (simp add: publishFact_def au accounted_def add_usage_fact [OF f] tot no_usage_def ac_simps)
  qed
qed

text \<open>C3. Exactly-once accounting. Publishing any stream of facts to a seat (replays, duplicates
  and facts the contract refuses included) leaves its four token totals equal to what they were
  plus the sum of the terminal counters of the calls recorded, each call counted once.\<close>

theorem exactly_once_accounting:
  assumes "usageCalls a = []"
  shows "accounted (totals a) (foldl publishFact a fs)"
proof -
  have "accounted (totals a) (foldl publishFact b fs)" if "accounted (totals a) b" for b
    using that by (induction fs arbitrary: b) (auto intro: publishFact_accounted)
  moreover have "accounted (totals a) a"
    using assms by (simp add: accounted_def calls_ok_def call_total_def)
  ultimately show ?thesis .
qed

lemma publishFact_replay:
  assumes "applyUsageFact a f = Inr (Some r)"
  shows "publishFact (publishFact a f) f = publishFact a f"
proof -
  let ?a = "a\<lparr>usageCalls := AList.update (call_key f) f (usageCalls a)\<rparr>"
  from assms have r: "r = (?a, fact_usage f)"
    and id: "validateIdentity f (FactSeat f) (AgentSession a) = None" "\<not> (StartName a \<noteq> [] \<and> StartName a \<noteq> FactSeat f)"
    and tr: "validateUsageTransition (map_of (usageCalls a) (call_key f)) (Some f) = Inr True"
    by (auto simp: applyUsageFact_def split: option.splits if_splits sum.splits bool.splits)
  have "map_of (usageCalls (?a\<lparr>totals := t\<rparr>)) (call_key f) = Some f" for t
    by (simp add: update_conv')
  then have "applyUsageFact (?a\<lparr>totals := t\<rparr>) f = Inr None" for t
    using id transition_apply [OF tr] by (simp add: applyUsageFact_def transition_replay)
  then show ?thesis using assms by (simp add: publishFact_def r)
qed

lemma publishFact_keeps_terminal:
  assumes "map_of (usageCalls a) k = Some p" "terminal p"
  shows "map_of (usageCalls (publishFact a f)) k = Some p"
proof -
  have "\<not> (k = call_key f \<and> validateUsageTransition (map_of (usageCalls a) (call_key f)) (Some f) = Inr True)"
    using assms transition_terminal_final by auto
  then show ?thesis
    using assms by (auto simp: publishFact_def applyUsageFact_def update_conv'
        split: sum.splits option.splits bool.splits prod.splits if_splits)
qed

text \<open>The terminal fact of a call is final: whatever facts are published afterwards, the call
  keeps the fact that ended it.\<close>

lemma terminal_fact_is_final:
  assumes "map_of (usageCalls a) k = Some p" "terminal p"
  shows "map_of (usageCalls (foldl publishFact a fs)) k = Some p"
  using assms by (induction fs arbitrary: a) (auto simp: publishFact_keeps_terminal)

text \<open>A replay changes nothing: a fact a seat has just applied is skipped when it arrives again,
  with no error and no tokens added.\<close>

lemma replayed_fact_is_skipped:
  assumes "applyUsageFact a f = Inr (Some r)"
  shows "foldl publishFact (publishFact a f) (replicate n f) = publishFact a f"
  by (induction n) (simp_all add: publishFact_replay [OF assms])

subsection \<open>Catching up\<close>

lemma applyUsageFact_cursor_update:
  "applyUsageFact (a\<lparr>usageCursor := c\<rparr>) f =
     map_sum id (map_option (map_prod (\<lambda>b. b\<lparr>usageCursor := c\<rparr>) id)) (applyUsageFact a f)"
  by (simp add: applyUsageFact_def split: option.split sum.split bool.split)

lemma publishFact_cursor_update:
  "publishFact (a\<lparr>usageCursor := c\<rparr>) f = (publishFact a f)\<lparr>usageCursor := c\<rparr>"
  by (simp add: publishFact_def applyUsageFact_cursor_update split: option.split sum.split prod.split)

lemma foldl_cursor_update:
  "foldl publishFact (a\<lparr>usageCursor := c\<rparr>) fs = (foldl publishFact a fs)\<lparr>usageCursor := c\<rparr>"
  by (induction fs arbitrary: a) (simp_all add: publishFact_cursor_update)

lemma publishPage_foldl: "publishPage a fs = (None, a') \<Longrightarrow> a' = foldl publishFact a fs"
  by (induction fs arbitrary: a) (auto simp: Let_def split: option.splits)

lemma check_page_facts_seqs:
  "check_page_facts seat session after fs = None \<Longrightarrow>
     map Seq fs = map (\<lambda>i. after + of_nat i + 1) [0..<length fs] \<and> list_all valid_fact fs"
proof (induction fs arbitrary: after)
  case (Cons f fs)
  then have "Seq f = after + 1" "validateIdentity f seat session = None"
    and rest: "map Seq fs = map (\<lambda>i. after + 1 + of_nat i + 1) [0..<length fs]" "list_all valid_fact fs"
    by (auto split: option.splits if_splits)
  moreover from this(2) have "valid_fact f"
    by (auto simp: valid_fact_def validateIdentity_def split: if_splits)
  moreover have "[0..<length (f # fs)] = 0 # map Suc [0..<length fs]"
    by (simp add: upt_conv_Cons map_Suc_upt del: upt_Suc)
  ultimately show ?case by (auto simp: o_def add.assoc add.commute add.left_commute simp del: upt_Suc)
qed simp

definition caught_up :: "seat_usage \<Rightarrow> usage_fact list \<Rightarrow> seat_usage \<Rightarrow> bool" where
  "caught_up a fs a' \<longleftrightarrow>
     a' = (foldl publishFact a fs)\<lparr>usageCursor := usageCursor a'\<rparr> \<and>
     unat (usageCursor a') = unat (usageCursor a) + length fs \<and>
     map Seq fs = map (\<lambda>i. usageCursor a + of_nat i + 1) [0..<length fs] \<and>
     list_all valid_fact fs"

lemma caught_up_page:
  assumes v: "validatePage (Some p) (StartName a) (AgentSession a) (usageCursor a) usagePageLimit = None"
    and pub: "publishPage a (case Facts p of None \<Rightarrow> [] | Some fs \<Rightarrow> fs) = (None, a1)"
  shows "caught_up a (case Facts p of None \<Rightarrow> [] | Some fs \<Rightarrow> fs) (a1\<lparr>usageCursor := Next p\<rparr>)"
proof -
  from v obtain fs where fs: "Facts p = Some fs"
      "check_page_facts (StartName a) (AgentSession a) (usageCursor a) fs = None"
    by (auto simp: validatePage_def split: option.splits if_splits)
  then show ?thesis
    using validatePage_progress(1) [OF v] check_page_facts_seqs [OF fs(2)] publishPage_foldl [OF pub]
    by (simp add: caught_up_def)
qed

lemma caught_up_append:
  assumes "caught_up a fs b" "caught_up b gs c"
  shows "caught_up a (fs @ gs) c"
proof -
  have b: "b = (foldl publishFact a fs)\<lparr>usageCursor := usageCursor b\<rparr>"
    and len: "unat (usageCursor b) = unat (usageCursor a) + length fs"
    using assms(1) by (auto simp: caught_up_def)
  have "usageCursor b = usageCursor a + of_nat (length fs)"
    using arg_cong [OF len, of "of_nat :: nat \<Rightarrow> 64 word"] by simp
  then have seqs: "map Seq gs = map (\<lambda>i. usageCursor a + of_nat (length fs + i) + 1) [0..<length gs]"
    using assms(2) by (simp add: caught_up_def add.assoc)
  have "[0..<length (fs @ gs)] = [0..<length fs] @ map (\<lambda>i. length fs + i) [0..<length gs]"
    using upt_add_eq_append [of 0 "length fs" "length gs"] map_add_upt [of "length fs" "length gs"]
    by (simp add: add.commute)
  then have "map Seq (fs @ gs) = map (\<lambda>i. usageCursor a + of_nat i + 1) [0..<length (fs @ gs)]"
    using seqs assms(1) by (simp add: caught_up_def o_def)
  moreover have "c = (foldl publishFact a (fs @ gs))\<lparr>usageCursor := usageCursor c\<rparr>"
    using assms(2) by (subst (asm) b) (simp add: caught_up_def foldl_cursor_update)
  ultimately show ?thesis using assms len by (simp add: caught_up_def)
qed

text \<open>C36. Catching up is complete and in order. When \<open>RefreshUsage\<close> succeeds, the seat has published
  exactly the facts numbered from its old cursor plus one up to its new cursor, in order and each
  once, and every one of them was valid.\<close>

theorem refresh_publishes_every_fact:
  "refreshUsage fetch a = (None, a') \<Longrightarrow> \<exists>fs. caught_up a fs a'"
proof (induction fetch a rule: refreshUsage.induct)
  case (1 fetch a)
  from "1.prems" obtain p a1 where p: "fetch (usageCursor a) = Inr (Some p)"
      "validatePage (Some p) (StartName a) (AgentSession a) (usageCursor a) usagePageLimit = None"
      "publishPage a (case Facts p of None \<Rightarrow> [] | Some fs \<Rightarrow> fs) = (None, a1)"
    by (subst (asm) refreshUsage.simps) (auto split: sum.splits option.splits prod.splits)
  note here = caught_up_page [OF p(2,3)]
  show ?case
  proof (cases "More p")
    case True
    with "1.prems" p have "refreshUsage fetch (a1\<lparr>usageCursor := Next p\<rparr>) = (None, a')"
      by (simp add: refreshUsage.simps [of fetch a])
    then obtain gs where "caught_up (a1\<lparr>usageCursor := Next p\<rparr>) gs a'"
      using "1.IH" [OF p(1) refl p(2) p(3) [symmetric] refl True] by blast
    with here show ?thesis using caught_up_append by blast
  next
    case False
    with "1.prems" p have "a' = a1\<lparr>usageCursor := Next p\<rparr>"
      by (simp add: refreshUsage.simps [of fetch a])
    with here show ?thesis by blast
  qed
qed

subsection \<open>A concrete call\<close>

text \<open>One call of one seat: its \<open>started\<close> fact and its \<open>completed\<close> fact.\<close>

definition demo_started :: usage_fact where
  "demo_started = \<lparr>InvocationID = [], ProviderAttemptID = [], ProviderRequestID = [], ProviderResponseID = [],
     Seq = 1, CallID = ''c1'', FactSeat = ''seat'', FactSession = ''sess'', Kind = ''model'', FactState = ''started'',
     FactProvider = ''anthropic'', FactModel = ''opus'', TurnID = ''t1'', Requests = Some [], FactCause = [],
     StartedAt = ''2026-10-19T05:04:05Z'', FinishedAt = [], Counters = no_counters, ContextTokens = None,
     APIEquivalentCostUSD = None, CounterSource = ''adapter_normalized_positive'', CostSource = [],
     Coverage = ''engine_invocation'', ProtocolTokenDeltaTotal = None\<rparr>"

definition demo_completed :: usage_fact where
  "demo_completed = demo_started\<lparr>Seq := 2, FactState := ''completed'', FinishedAt := ''2026-10-19T05:04:06Z'',
     Counters := no_counters\<lparr>InputTokens := Some 10, OutputTokens := Some 7\<rparr>\<rparr>"

definition demo_seat :: seat_usage where
  "demo_seat = \<lparr>AgentSession = ''sess'', StartName = ''seat'', usageCalls = [], usageErr = None,
     usageCursor = 0, totals = no_usage\<rparr>"

lemma demo_blank [simp]: "blank ''seat'' = False" "blank ''sess'' = False"
  by (simp_all add: blank_eval)

lemma demo_time [simp]:
  "parse_rfc3339 ''2026-10-19T05:04:05Z'' = Some \<lparr>instant = 1792386245000000000, offset = 0\<rparr>"
  "parse_rfc3339 ''2026-10-19T05:04:06Z'' = Some \<lparr>instant = 1792386246000000000, offset = 0\<rparr>"
  by (simp_all add: parse_eval)

lemma demo_valid [simp]:
  "validateIdentity demo_started ''seat'' ''sess'' = None"
  "validateIdentity demo_completed ''seat'' ''sess'' = None"
  by (simp_all add: validateIdentity_def demo_completed_def demo_started_def check_finish_def known_states_def
      counter_list_def bad_counter_def bad_cost_def no_counters_def max_safe_def time_before_def)

definition demo_page :: usage_page where
  "demo_page = \<lparr>PageSeat = ''seat'', PageSession = ''sess'', Facts = Some [demo_started, demo_completed],
     Next = 2, More = False\<rparr>"

lemma demo_fields [simp]:
  "FactSeat demo_started = ''seat''" "FactSession demo_started = ''sess''" "Seq demo_started = 1"
  "FactSeat demo_completed = ''seat''" "FactSession demo_completed = ''sess''" "Seq demo_completed = 2"
  "FactState demo_started = ''started''" "FactState demo_completed = ''completed''"
  "call_key demo_completed = call_key demo_started" "usage_identity demo_completed = usage_identity demo_started"
  by (simp_all add: demo_started_def demo_completed_def call_key_def usage_identity_def)

lemma demo_seat_page [simp]:
  "AgentSession demo_seat = ''sess''" "StartName demo_seat = ''seat''" "usageCursor demo_seat = 0"
  "Facts demo_page = Some [demo_started, demo_completed]" "Next demo_page = 2" "More demo_page = False"
  by (simp_all add: demo_seat_def demo_page_def)

lemma demo_run [simp]:
  "usageErr (publishFact demo_seat demo_started) = None"
  "usageErr (publishFact (publishFact demo_seat demo_started) demo_completed) = None"
  "usageCalls (publishFact (publishFact demo_seat demo_started) demo_completed) =
     [(call_key demo_started, demo_completed)]"
  by (simp_all add: publishFact_def applyUsageFact_def validateUsageTransition_def demo_seat_def)

theorem exactly_once_accounting_witness:
  "accounted (totals demo_seat)
     (foldl publishFact demo_seat [demo_started, demo_completed, demo_completed, demo_started])"
  by (rule exactly_once_accounting) (simp add: demo_seat_def)

lemma terminal_fact_is_final_witness:
  "map_of (usageCalls (foldl publishFact (publishFact (publishFact demo_seat demo_started) demo_completed)
     [demo_started, demo_completed])) (call_key demo_started) = Some demo_completed"
  by (rule terminal_fact_is_final) (simp_all add: terminal_def)

theorem refresh_publishes_every_fact_witness:
  "\<exists>fs. caught_up demo_seat fs (snd (refreshUsage (\<lambda>_. Inr (Some demo_page)) demo_seat))"
proof (rule refresh_publishes_every_fact)
  have "validatePage (Some demo_page) ''seat'' ''sess'' 0 usagePageLimit = None"
    by (simp add: validatePage_def demo_page_def usagePageLimit_def)
  moreover have "publishPage demo_seat [demo_started, demo_completed] =
      (None, publishFact (publishFact demo_seat demo_started) demo_completed)"
    by (simp add: Let_def)
  ultimately have "refreshUsage (\<lambda>_. Inr (Some demo_page)) demo_seat =
      (None, (publishFact (publishFact demo_seat demo_started) demo_completed)\<lparr>usageCursor := 2\<rparr>)"
    by (simp add: refreshUsage.simps Let_def)
  then show "refreshUsage (\<lambda>_. Inr (Some demo_page)) demo_seat =
      (None, snd (refreshUsage (\<lambda>_. Inr (Some demo_page)) demo_seat))"
    by simp
qed

end
