(* ===== verification/Receipts.thy ===== *)
theory Receipts
  imports GoTime
begin

text \<open>
  Request receipts (src/omp/receipt.go): what one logical request has become. The validation
  decides which receipts a consumer accepts and the control plane stores; the lemmas give its
  verdict per state, and \<open>cancelled_by\<close> is the change a shutdown makes to a receipt left started
  (src/controlplane/replicate.go), which validates again under conditions stated here.
\<close>

record receipt =
  RequestID :: string
  ReceiptSession :: string
  ReceiptSeat :: string
  ReceiptState :: string
  AttemptID :: string
  TurnIDs :: "string slice"
  ReceiptCause :: string
  Reason :: string
  AcceptedAt :: string
  UpdatedAt :: string

datatype receipt_error =
    ReceiptIdentity | ReceiptBadState | ReceiptIncomplete | ReceiptBadTurn | ReceiptTurnsDisagree
  | ReceiptBadCause | ReceiptCauseOnState

definition receipt_states :: "string list" where
  "receipt_states = [''accepted'', ''started'', ''completed'', ''cancelled'', ''failed'']"

definition receipt_causes :: "string list" where
  "receipt_causes = ['''', ''auth'', ''capacity'', ''cancellation'', ''failure'', ''unknown'']"

definition validateReceiptCause :: "string \<Rightarrow> string \<Rightarrow> receipt_error option" where
  "validateReceiptCause state cause =
     (if cause \<notin> set receipt_causes then Some ReceiptBadCause
      else if state \<in> {''accepted'', ''started'', ''completed''} then
        (if cause \<noteq> '''' then Some ReceiptCauseOnState else None)
      else if state = ''cancelled'' then
        (if cause \<noteq> '''' \<and> cause \<noteq> ''cancellation'' then Some ReceiptCauseOnState else None)
      else if state = ''failed'' then
        (if cause \<noteq> '''' \<and> cause \<noteq> ''auth'' \<and> cause \<noteq> ''capacity'' \<and> cause \<noteq> ''failure''
         then Some ReceiptCauseOnState else None)
      else if state = ''unknown'' then
        (if cause \<noteq> '''' \<and> cause \<noteq> ''unknown'' then Some ReceiptCauseOnState else None)
      else None)"

fun bad_turns :: "string list \<Rightarrow> string list \<Rightarrow> bool" where
  "bad_turns seen [] = False"
| "bad_turns seen (t # ts) = (blank t \<or> t \<in> set seen \<or> bad_turns (t # seen) ts)"

definition incomplete :: "receipt \<Rightarrow> bool" where
  "incomplete r \<longleftrightarrow> blank (AttemptID r) \<or> TurnIDs r = None \<or>
     (case (parse_rfc3339 (AcceptedAt r), parse_rfc3339 (UpdatedAt r)) of
        (Some acc, Some upd) \<Rightarrow> time_before upd acc
      | _ \<Rightarrow> True)"

text \<open>\<open>RequestReceipt.ValidateIdentity\<close>; \<open>None\<close> is the nil error.\<close>

definition validateReceipt :: "receipt \<Rightarrow> string \<Rightarrow> string \<Rightarrow> string \<Rightarrow> receipt_error option" where
  "validateReceipt r seat session request =
     (if ReceiptSeat r \<noteq> seat \<or> ReceiptSession r \<noteq> session \<or> RequestID r \<noteq> request then Some ReceiptIdentity
      else if ReceiptState r = ''unknown'' then validateReceiptCause (ReceiptState r) (ReceiptCause r)
      else if ReceiptState r \<notin> set receipt_states then Some ReceiptBadState
      else if incomplete r then Some ReceiptIncomplete
      else if bad_turns [] (case TurnIDs r of None \<Rightarrow> [] | Some ts \<Rightarrow> ts) then Some ReceiptBadTurn
      else if (ReceiptState r = ''accepted'') \<noteq> (case TurnIDs r of None \<Rightarrow> True | Some ts \<Rightarrow> ts = [])
      then Some ReceiptTurnsDisagree
      else validateReceiptCause (ReceiptState r) (ReceiptCause r))"

definition valid_receipt :: "receipt \<Rightarrow> bool" where
  "valid_receipt r \<longleftrightarrow> validateReceipt r (ReceiptSeat r) (ReceiptSession r) (RequestID r) = None"

text \<open>The body of the loop in \<open>CancelStartedReceipts\<close>: \<open>now\<close> is the broker's clock, in UTC.\<close>

definition cancel_updated_at :: "go_time \<Rightarrow> string \<Rightarrow> string" where
  "cancel_updated_at now upd =
     (case parse_rfc3339 upd of
        Some prev \<Rightarrow>
          if \<not> time_after now prev then format_rfc3339nano (add_nanos prev 1) else format_rfc3339nano now
      | None \<Rightarrow> format_rfc3339nano now)"

definition cancelled_by :: "go_time \<Rightarrow> string \<Rightarrow> receipt \<Rightarrow> receipt" where
  "cancelled_by now reason r = r\<lparr>ReceiptState := ''cancelled'', ReceiptCause := ''cancellation'',
     Reason := reason, UpdatedAt := cancel_updated_at now (UpdatedAt r)\<rparr>"

subsection \<open>Turn identities\<close>

lemma bad_turns_iff: "bad_turns seen ts \<longleftrightarrow> \<not> distinct ts \<or> (\<exists>t \<in> set ts. blank t \<or> t \<in> set seen)"
  by (induction ts arbitrary: seen) auto

lemma receipt_shape:
  assumes "valid_receipt r"
  shows "ReceiptState r \<in> set receipt_states \<union> {''unknown''}"
    and "ReceiptState r \<noteq> ''unknown'' \<longrightarrow>
      (\<exists>ts acc upd. TurnIDs r = Some ts \<and> distinct ts \<and> (\<forall>t \<in> set ts. \<not> blank t) \<and>
         (ReceiptState r = ''accepted'' \<longleftrightarrow> ts = []) \<and> \<not> blank (AttemptID r) \<and>
         parse_rfc3339 (AcceptedAt r) = Some acc \<and> parse_rfc3339 (UpdatedAt r) = Some upd \<and>
         instant acc \<le> instant upd)"
    and "ReceiptState r \<in> {''accepted'', ''started'', ''completed''} \<longrightarrow> ReceiptCause r = ''''"
    and "ReceiptCause r = ''auth'' \<or> ReceiptCause r = ''capacity'' \<or> ReceiptCause r = ''failure'' \<longrightarrow>
      ReceiptState r = ''failed''"
proof -
  note v = assms [unfolded valid_receipt_def validateReceipt_def]
  show "ReceiptState r \<in> set receipt_states \<union> {''unknown''}"
    using v by (auto split: if_splits)
  have cause: "validateReceiptCause (ReceiptState r) (ReceiptCause r) = None"
    using v by (auto split: if_splits)
  then show "ReceiptState r \<in> {''accepted'', ''started'', ''completed''} \<longrightarrow> ReceiptCause r = ''''"
    by (auto simp: validateReceiptCause_def split: if_splits)
  from cause \<open>ReceiptState r \<in> _\<close> show "ReceiptCause r = ''auth'' \<or> ReceiptCause r = ''capacity'' \<or>
      ReceiptCause r = ''failure'' \<longrightarrow> ReceiptState r = ''failed''"
    by (auto simp: validateReceiptCause_def receipt_states_def split: if_splits)
  show "ReceiptState r \<noteq> ''unknown'' \<longrightarrow>
      (\<exists>ts acc upd. TurnIDs r = Some ts \<and> distinct ts \<and> (\<forall>t \<in> set ts. \<not> blank t) \<and>
         (ReceiptState r = ''accepted'' \<longleftrightarrow> ts = []) \<and> \<not> blank (AttemptID r) \<and>
         parse_rfc3339 (AcceptedAt r) = Some acc \<and> parse_rfc3339 (UpdatedAt r) = Some upd \<and>
         instant acc \<le> instant upd)"
    using v by (auto simp: incomplete_def bad_turns_iff time_before_def not_less split: if_splits option.splits)
qed

subsection \<open>Cancelling\<close>

lemma cancel_updated_at_later:
  assumes "parse_rfc3339 upd = Some prev" "printable now" "printable (add_nanos prev 1)"
  obtains t where "parse_rfc3339 (cancel_updated_at now upd) = Some t" "instant prev < instant t"
  using assms by (cases "time_after now prev")
    (auto simp: cancel_updated_at_def printable_round_trip time_after_def add_nanos_def)

text \<open>A started receipt, cancelled, is a valid cancelled receipt with a later time stamp.\<close>

lemma cancelled_valid:
  assumes "valid_receipt r" "ReceiptState r = ''started''" "parse_rfc3339 (UpdatedAt r) = Some prev"
    and "printable now" "printable (add_nanos prev 1)"
  shows "valid_receipt (cancelled_by now reason r)"
proof -
  obtain t where t: "parse_rfc3339 (cancel_updated_at now (UpdatedAt r)) = Some t" "instant prev < instant t"
    using cancel_updated_at_later [OF assms(3,4,5)] by blast
  have "validateReceiptCause ''cancelled'' ''cancellation'' = None"
    by (simp add: validateReceiptCause_def receipt_causes_def)
  then show ?thesis
    using assms(1-3) t
    by (auto simp: valid_receipt_def validateReceipt_def cancelled_by_def incomplete_def time_before_def
        receipt_states_def split: if_splits option.splits)
qed

subsection \<open>A concrete receipt\<close>

definition demo_receipt :: receipt where
  "demo_receipt = \<lparr>RequestID = ''r1'', ReceiptSession = ''sess'', ReceiptSeat = ''seat'', ReceiptState = ''started'',
     AttemptID = ''a1'', TurnIDs = Some [''t1''], ReceiptCause = '''', Reason = '''',
     AcceptedAt = ''2026-10-19T05:04:05Z'', UpdatedAt = ''2026-10-19T05:04:06Z''\<rparr>"

lemma demo_receipt_times [simp]:
  "parse_rfc3339 ''2026-10-19T05:04:05Z'' = Some \<lparr>instant = 1792386245000000000, offset = 0\<rparr>"
  "parse_rfc3339 ''2026-10-19T05:04:06Z'' = Some \<lparr>instant = 1792386246000000000, offset = 0\<rparr>"
  by (simp_all add: parse_eval)

lemma demo_receipt_ids [simp]: "blank ''a1'' = False" "blank ''t1'' = False"
  by (simp_all add: blank_eval)

lemma demo_receipt_valid: "valid_receipt demo_receipt"
  by (simp add: valid_receipt_def validateReceipt_def demo_receipt_def receipt_states_def incomplete_def
      time_before_def validateReceiptCause_def receipt_causes_def)

end
