(* ===== verification/GoJson.thy ===== *)
theory GoJson
  imports GoTime
begin

text \<open>
  Go's \<open>encoding/json\<close>, as the modelled code uses it: \<open>json.Unmarshal\<close> of a text into an \<open>any\<close>, or
  into a struct or a map whose members are raw messages, and \<open>json.Marshal\<close> of a struct of strings.
  The reader follows the library: the RFC 8259 grammar, at most 10000 nested arrays and objects,
  strings that hold UTF-8 with invalid bytes and lone surrogates replaced by U+FFFD. \<open>json_text\<close> is
  the value a text stands for, with the members of its objects in the order of the text. Decoding
  it into an \<open>any\<close> rejects a number that does not fit a \<open>float64\<close>, and the last of several members
  with one name wins.

  The main result is that a marshalled struct of strings decodes to an object with exactly the
  struct's member names, whatever bytes the strings hold.
\<close>

datatype json =
    JNull
  | JBool bool
  | JNum string
  | JStr string
  | JArr "json list"
  | JObj "(string \<times> json) list"

subsection \<open>UTF-8\<close>

abbreviation byte :: "char \<Rightarrow> nat" where
  "byte c \<equiv> of_char c"

definition cont :: "char \<Rightarrow> bool" where
  "cont c \<longleftrightarrow> 0x80 \<le> byte c \<and> byte c \<le> 0xBF"

definition between :: "nat \<Rightarrow> nat \<Rightarrow> char \<Rightarrow> bool" where
  "between lo hi c \<longleftrightarrow> lo \<le> byte c \<and> byte c \<le> hi"

definition seq2 :: "char \<Rightarrow> char \<Rightarrow> bool" where
  "seq2 a b \<longleftrightarrow> between 0xC2 0xDF a \<and> cont b"

definition seq3 :: "char \<Rightarrow> char \<Rightarrow> char \<Rightarrow> bool" where
  "seq3 a b c \<longleftrightarrow> between 0xE0 0xEF a \<and> cont c \<and>
     between (if byte a = 0xE0 then 0xA0 else 0x80) (if byte a = 0xED then 0x9F else 0xBF) b"

definition seq4 :: "char \<Rightarrow> char \<Rightarrow> char \<Rightarrow> char \<Rightarrow> bool" where
  "seq4 a b c d \<longleftrightarrow> between 0xF0 0xF4 a \<and> cont c \<and> cont d \<and>
     between (if byte a = 0xF0 then 0x90 else 0x80) (if byte a = 0xF4 then 0x8F else 0xBF) b"

text \<open>The length of the valid UTF-8 encoding at the front of a string, 0 when there is none.\<close>

fun utf8_len :: "string \<Rightarrow> nat" where
  "utf8_len [] = 0"
| "utf8_len [a] = (if byte a < 0x80 then 1 else 0)"
| "utf8_len [a, b] = (if byte a < 0x80 then 1 else if seq2 a b then 2 else 0)"
| "utf8_len [a, b, c] =
     (if byte a < 0x80 then 1 else if seq2 a b then 2 else if seq3 a b c then 3 else 0)"
| "utf8_len (a # b # c # d # s) =
     (if byte a < 0x80 then 1 else if seq2 a b then 2 else if seq3 a b c then 3
      else if seq4 a b c d then 4 else 0)"

definition replacement :: string where
  "replacement = [CHR 0xEF, CHR 0xBF, CHR 0xBD]"

definition encode_rune :: "nat \<Rightarrow> string" where
  "encode_rune u =
     (if u < 0x80 then [char_of u]
      else if u < 0x800 then [char_of (0xC0 + u div 64), char_of (0x80 + u mod 64)]
      else if u < 0x10000 then
        [char_of (0xE0 + u div 4096), char_of (0x80 + u div 64 mod 64), char_of (0x80 + u mod 64)]
      else [char_of (0xF0 + u div 262144), char_of (0x80 + u div 4096 mod 64),
            char_of (0x80 + u div 64 mod 64), char_of (0x80 + u mod 64)])"

subsection \<open>Strings\<close>

definition hex_val :: "char \<Rightarrow> nat option" where
  "hex_val c = (if is_digit c then Some (byte c - 48)
     else if between 97 102 c then Some (byte c - 87)
     else if between 65 70 c then Some (byte c - 55) else None)"

fun hex4 :: "string \<Rightarrow> (nat \<times> string) option" where
  "hex4 (a # b # c # d # r) =
     (case (hex_val a, hex_val b, hex_val c, hex_val d) of
        (Some w, Some x, Some y, Some z) \<Rightarrow> Some (((w * 16 + x) * 16 + y) * 16 + z, r)
      | _ \<Rightarrow> None)"
| "hex4 _ = None"

definition escape_char :: "char \<Rightarrow> char option" where
  "escape_char e =
     map_of [(CHR 0x22, CHR 0x22), (CHR 0x5C, CHR 0x5C), (CHR ''/'', CHR ''/''), (CHR ''b'', CHR 0x08),
       (CHR ''f'', CHR 0x0C), (CHR ''n'', CHR 0x0A), (CHR ''r'', CHR 0x0D), (CHR ''t'', CHR 0x09)] e"

text \<open>The rune a \<open>\\u\<close> escape stands for, with the text after it: a surrogate pair is one rune, a
  lone surrogate is U+FFFD.\<close>

definition unicode_escape :: "nat \<Rightarrow> string \<Rightarrow> string \<times> string" where
  "unicode_escape u r =
     (if 0xD800 \<le> u \<and> u \<le> 0xDFFF then
        (case r of b # x # r' \<Rightarrow>
            (case if b = CHR 0x5C \<and> x = CHR ''u'' then hex4 r' else None of
               Some (v, r2) \<Rightarrow>
                 if u < 0xDC00 \<and> 0xDC00 \<le> v \<and> v \<le> 0xDFFF
                 then (encode_rune (0x10000 + (u - 0xD800) * 1024 + (v - 0xDC00)), r2)
                 else (replacement, r)
             | None \<Rightarrow> (replacement, r))
         | _ \<Rightarrow> (replacement, r))
      else (encode_rune u, r))"

lemma hex4_length: "hex4 s = Some (u, r) \<Longrightarrow> length r < length s"
  by (induction s rule: hex4.induct) (auto split: option.splits)

lemma unicode_escape_length: "unicode_escape u r = (t, r') \<Longrightarrow> length r' \<le> length r"
  by (auto simp: unicode_escape_def split: if_splits list.splits option.splits prod.splits
      dest!: hex4_length)

text \<open>The rest of a string literal after its opening quote: the decoded text and what follows the
  closing quote.\<close>

function jstring :: "string \<Rightarrow> (string \<times> string) option" where
  "jstring s =
     (case s of [] \<Rightarrow> None
      | c # r \<Rightarrow>
          if c = CHR 0x22 then Some ([], r)
          else if c = CHR 0x5C then
            (case r of [] \<Rightarrow> None
             | e # r1 \<Rightarrow>
                (case escape_char e of
                   Some x \<Rightarrow> map_option (apfst ((#) x)) (jstring r1)
                 | None \<Rightarrow>
                     if e = CHR ''u'' then
                       (case hex4 r1 of None \<Rightarrow> None
                        | Some (u, r2) \<Rightarrow>
                            (case unicode_escape u r2 of (t, r3) \<Rightarrow> map_option (apfst ((@) t)) (jstring r3)))
                     else None))
          else if byte c < 0x20 then None
          else if utf8_len s = 0 then map_option (apfst ((@) replacement)) (jstring r)
          else map_option (apfst ((@) (take (utf8_len s) s))) (jstring (drop (utf8_len s) s)))"
  by pat_completeness auto
termination
  by (relation "measure length") (auto dest!: hex4_length unicode_escape_length [OF sym] simp: not_less)

declare jstring.simps [simp del]

subsection \<open>Numbers\<close>

text \<open>The least decimal that \<open>strconv.ParseFloat\<close> rounds to infinity.\<close>

definition float_limit :: int where
  "float_limit = 2 ^ 1024 - 2 ^ 970"

definition overflows :: "string \<Rightarrow> string \<Rightarrow> int \<Rightarrow> bool" where
  "overflows ip fp ex =
     (let m = int (num_of (ip @ fp)); e = ex - int (length fp)
      in if 0 \<le> e then float_limit \<le> m * 10 ^ nat e else float_limit * 10 ^ nat (- e) \<le> m)"

definition jfraction :: "string \<Rightarrow> (string \<times> string) option" where
  "jfraction s = (case s of c # r \<Rightarrow>
       if c = CHR ''.'' then
         (if takeWhile is_digit r = [] then None else Some (takeWhile is_digit r, dropWhile is_digit r))
       else Some ([], s)
     | [] \<Rightarrow> Some ([], s))"

definition jexponent :: "string \<Rightarrow> (int \<times> string) option" where
  "jexponent s = (case s of c # r \<Rightarrow>
       if c = CHR ''e'' \<or> c = CHR ''E'' then
         (let neg = (r \<noteq> [] \<and> hd r = CHR ''-'');
              r1 = (if r \<noteq> [] \<and> (hd r = CHR ''-'' \<or> hd r = CHR ''+'') then tl r else r);
              ds = takeWhile is_digit r1
          in if ds = [] then None
             else Some (if neg then - int (num_of ds) else int (num_of ds), dropWhile is_digit r1))
       else Some (0, s)
     | [] \<Rightarrow> Some (0, s))"

definition jnumber :: "string \<Rightarrow> (json \<times> string) option" where
  "jnumber s =
     (let s1 = (if s \<noteq> [] \<and> hd s = CHR ''-'' then tl s else s) in
      case s1 of [] \<Rightarrow> None
      | c # r \<Rightarrow>
         if \<not> is_digit c then None
         else let ip = (if c = CHR ''0'' then ''0'' else takeWhile is_digit s1);
                  s2 = (if c = CHR ''0'' then r else dropWhile is_digit s1)
              in do {
                (fp, s3) \<leftarrow> jfraction s2;
                (ex, s4) \<leftarrow> jexponent s3;
                Some (JNum (take (length s - length s4) s), s4) })"

text \<open>Whether \<open>strconv.ParseFloat\<close> accepts the literal of a number.\<close>

definition float_fits :: "string \<Rightarrow> bool" where
  "float_fits s =
     (let s1 = (if s \<noteq> [] \<and> hd s = CHR ''-'' then tl s else s) in
      case (do { (fp, s3) \<leftarrow> jfraction (dropWhile is_digit s1); (ex, s4) \<leftarrow> jexponent s3; Some (fp, ex) }) of
        None \<Rightarrow> False
      | Some (fp, ex) \<Rightarrow> \<not> overflows (takeWhile is_digit s1) fp ex)"

subsection \<open>Values\<close>

definition is_ws :: "char \<Rightarrow> bool" where
  "is_ws c \<longleftrightarrow> c \<in> {CHR 0x20, CHR 0x09, CHR 0x0D, CHR 0x0A}"

definition skip_ws :: "string \<Rightarrow> string" where
  "skip_ws s = dropWhile is_ws s"

definition jliteral :: "string \<Rightarrow> (json \<times> string) option" where
  "jliteral s =
     (if starts_with ''true'' s then Some (JBool True, drop 4 s)
      else if starts_with ''false'' s then Some (JBool False, drop 5 s)
      else if starts_with ''null'' s then Some (JNull, drop 4 s)
      else jnumber s)"

definition jobject :: "(string \<times> json) list \<Rightarrow> json" where
  "jobject ms = JObj (fold (\<lambda>(k, v). AList.update k v) ms [])"

lemma skip_ws_length: "length (skip_ws s) \<le> length s"
  by (simp add: skip_ws_def length_dropWhile_le)

text \<open>
  A value, the elements of an array after \<open>[\<close> and the members of an object after \<open>{\<close>; \<open>d\<close> is the
  number of levels that may still be opened. Every value consumes text, so the length tests
  never fail (\<open>jvalue_length\<close>); they are what makes the recursion well-founded.
\<close>

function (sequential) jvalue :: "nat \<Rightarrow> string \<Rightarrow> (json \<times> string) option"
  and jelements :: "nat \<Rightarrow> string \<Rightarrow> (json list \<times> string) option"
  and jmembers :: "nat \<Rightarrow> string \<Rightarrow> ((string \<times> json) list \<times> string) option" where
  "jvalue d s =
     (case skip_ws s of [] \<Rightarrow> None
      | c # r \<Rightarrow>
          if c = CHR 0x22 then map_option (apfst JStr) (jstring r)
          else if c = CHR ''['' then
            (if d = 0 then None
             else (case skip_ws r of [] \<Rightarrow> None
               | c1 # r1 \<Rightarrow> if c1 = CHR '']'' then Some (JArr [], r1)
                   else map_option (apfst JArr) (jelements (d - 1) r)))
          else if c = CHR 0x7B then
            (if d = 0 then None
             else (case skip_ws r of [] \<Rightarrow> None
               | c1 # r1 \<Rightarrow> if c1 = CHR 0x7D then Some (JObj [], r1)
                   else map_option (apfst JObj) (jmembers (d - 1) r)))
          else jliteral (c # r))"
| "jelements d s =
     (case jvalue d s of None \<Rightarrow> None
      | Some (v, r) \<Rightarrow>
          (case skip_ws r of [] \<Rightarrow> None
           | c # r1 \<Rightarrow>
              if c = CHR '']'' then Some ([v], r1)
              else if c = CHR '','' \<and> length r1 < length s
              then map_option (apfst ((#) v)) (jelements d r1)
              else None))"
| "jmembers d s =
     (case skip_ws s of [] \<Rightarrow> None
      | q # s1 \<Rightarrow>
         if q \<noteq> CHR 0x22 then None
         else (case jstring s1 of None \<Rightarrow> None
          | Some (k, r) \<Rightarrow>
             (case skip_ws r of [] \<Rightarrow> None
              | c # r1 \<Rightarrow>
                 if c \<noteq> CHR '':'' \<or> \<not> length r1 < length s then None
                 else (case jvalue d r1 of None \<Rightarrow> None
                  | Some (v, r2) \<Rightarrow>
                     (case skip_ws r2 of [] \<Rightarrow> None
                      | c2 # r3 \<Rightarrow>
                         if c2 = CHR 0x7D then Some ([(k, v)], r3)
                         else if c2 = CHR '','' \<and> length r3 < length s
                         then map_option (apfst ((#) (k, v))) (jmembers d r3)
                         else None)))))"
  by pat_completeness auto
termination
proof (relation "measure (\<lambda>x. case x of Inl (d, s) \<Rightarrow> 2 * length s
    | Inr (Inl (d, s)) \<Rightarrow> 2 * length s + 1 | Inr (Inr (d, s)) \<Rightarrow> 2 * length s + 1)", goal_cases)
  case (2 d s c r)
  then have "length (skip_ws s) = Suc (length r)" by simp
  then show ?case using skip_ws_length [of s] by simp
next
  case (3 d s c r)
  then have "length (skip_ws s) = Suc (length r)" by simp
  then show ?case using skip_ws_length [of s] by simp
qed simp_all

declare jvalue.simps [simp del] jelements.simps [simp del] jmembers.simps [simp del]

text \<open>The value of a text: one value and white space, nothing else.\<close>

definition json_text :: "string \<Rightarrow> json option" where
  "json_text s =
     (case jvalue 10000 s of
        None \<Rightarrow> None
      | Some (v, r) \<Rightarrow> if skip_ws r = [] then Some v else None)"

fun fits :: "json \<Rightarrow> bool" where
  "fits (JNum n) = float_fits n"
| "fits (JArr vs) = list_all fits vs"
| "fits (JObj ms) = list_all (\<lambda>(k, v). fits v) ms"
| "fits _ = True"

fun last_members :: "json \<Rightarrow> json" where
  "last_members (JArr vs) = JArr (map last_members vs)"
| "last_members (JObj ms) = jobject (map (\<lambda>(k, v). (k, last_members v)) ms)"
| "last_members v = v"

text \<open>\<open>json.Unmarshal\<close> into an \<open>any\<close>.\<close>

definition json_unmarshal :: "string \<Rightarrow> json option" where
  "json_unmarshal s =
     (case json_text s of
        None \<Rightarrow> None
      | Some v \<Rightarrow> if fits v then Some (last_members v) else None)"

subsection \<open>Encoding\<close>

definition hex_digit :: "nat \<Rightarrow> char" where
  "hex_digit n = (if n < 10 then char_of (48 + n) else char_of (87 + n))"

text \<open>The escapes of \<open>json.Marshal\<close> inside ASCII; \<open><\<close>, \<open>>\<close> and \<open>&\<close> are escaped for HTML.\<close>

definition escape_ascii :: "char \<Rightarrow> string" where
  "escape_ascii c =
     (if c = CHR 0x22 \<or> c = CHR 0x5C then [CHR 0x5C, c]
      else if c = CHR 0x08 then [CHR 0x5C, CHR ''b'']
      else if c = CHR 0x0C then [CHR 0x5C, CHR ''f'']
      else if c = CHR 0x0A then [CHR 0x5C, CHR ''n'']
      else if c = CHR 0x0D then [CHR 0x5C, CHR ''r'']
      else if c = CHR 0x09 then [CHR 0x5C, CHR ''t'']
      else if byte c < 0x20 \<or> c \<in> {CHR ''<'', CHR ''>'', CHR ''&''}
      then CHR 0x5C # ''u00'' @ [hex_digit (byte c div 16), hex_digit (byte c mod 16)]
      else [c])"

lemma utf8_len_le: "utf8_len s \<le> length s"
  by (induction s rule: utf8_len.induct) (auto split: list.splits)

function jescape :: "string \<Rightarrow> string" where
  "jescape s =
     (case s of [] \<Rightarrow> []
      | c # r \<Rightarrow>
          if byte c < 0x80 then escape_ascii c @ jescape r
          else if utf8_len s = 0 then CHR 0x5C # ''ufffd'' @ jescape r
          else if take 3 s = [CHR 0xE2, CHR 0x80, CHR 0xA8] then CHR 0x5C # ''u2028'' @ jescape (drop 3 s)
          else if take 3 s = [CHR 0xE2, CHR 0x80, CHR 0xA9] then CHR 0x5C # ''u2029'' @ jescape (drop 3 s)
          else take (utf8_len s) s @ jescape (drop (utf8_len s) s))"
  by pat_completeness auto
termination
  by (relation "measure length") auto

declare jescape.simps [simp del]

definition jquote :: "string \<Rightarrow> string" where
  "jquote s = CHR 0x22 # jescape s @ [CHR 0x22]"

fun marshal_members :: "(string \<times> string) list \<Rightarrow> string" where
  "marshal_members [] = []"
| "marshal_members [(k, v)] = jquote k @ CHR '':'' # jquote v"
| "marshal_members ((k, v) # m # ms) = jquote k @ CHR '':'' # jquote v @ CHR '','' # marshal_members (m # ms)"

text \<open>\<open>json.Marshal\<close> of a struct whose fields are strings.\<close>

definition json_marshal :: "(string \<times> string) list \<Rightarrow> string" where
  "json_marshal ms = CHR 0x7B # marshal_members ms @ [CHR 0x7D]"

text \<open>What decoding an encoded string returns: every invalid byte replaced by U+FFFD.\<close>

function utf8_clean :: "string \<Rightarrow> string" where
  "utf8_clean s =
     (case s of [] \<Rightarrow> []
      | c # r \<Rightarrow>
          if byte c < 0x80 then c # utf8_clean r
          else if utf8_len s = 0 then replacement @ utf8_clean r
          else take (utf8_len s) s @ utf8_clean (drop (utf8_len s) s))"
  by pat_completeness auto
termination
  by (relation "measure length") auto

declare utf8_clean.simps [simp del]

subsection \<open>Decoding what was encoded\<close>

lemma utf8_len_ascii [simp]: "byte a < 0x80 \<Longrightarrow> utf8_len (a # x) = 1"
  by (cases "a # x" rule: utf8_len.cases) auto

lemma utf8_len_seq2: "\<not> byte a < 0x80 \<Longrightarrow> seq2 a b \<Longrightarrow> utf8_len (a # b # x) = 2"
  by (cases "a # b # x" rule: utf8_len.cases) auto

lemma utf8_len_seq3: "\<not> byte a < 0x80 \<Longrightarrow> \<not> seq2 a b \<Longrightarrow> seq3 a b c \<Longrightarrow> utf8_len (a # b # c # x) = 3"
  by (cases "a # b # c # x" rule: utf8_len.cases) auto

lemma utf8_len_prefix: "utf8_len s \<noteq> 0 \<Longrightarrow> utf8_len (take (utf8_len s) s @ x) = utf8_len s"
  by (cases s rule: utf8_len.cases) (auto simp: utf8_len_seq2 utf8_len_seq3 numeral_eq_Suc split: if_splits)

lemma append_single [simp]: "(@) [c] = (#) c"
  by (rule ext) simp

lemma hex_val_digit [simp]: "n < 16 \<Longrightarrow> hex_val (hex_digit n) = Some n"
  by (simp add: hex_val_def hex_digit_def is_digit_def between_def)

lemma jstring_escape_ascii:
  assumes "byte c < 0x80"
  shows "jstring (escape_ascii c @ x) = map_option (apfst ((#) c)) (jstring x)"
proof -
  let ?short = "[CHR 0x22, CHR 0x5C, CHR 0x08, CHR 0x0C, CHR 0x0A, CHR 0x0D, CHR 0x09]"
  consider "c \<in> set ?short"
    | "c \<notin> set ?short" "byte c < 0x20 \<or> c \<in> {CHR ''<'', CHR ''>'', CHR ''&''}"
    | "c \<notin> set ?short" "\<not> byte c < 0x20" "c \<notin> {CHR ''<'', CHR ''>'', CHR ''&''}"
    by meson
  then show ?thesis
  proof cases
    case 1
    then show ?thesis by (auto simp: escape_ascii_def jstring.simps escape_char_def)
  next
    case hex: 2
    have small: "byte c div 16 < 16" "byte c mod 16 < 16" using assms by auto
    have "hex_val CHR ''0'' = Some 0" by (simp add: hex_val_def is_digit_def)
    then have h: "hex4 (CHR ''0'' # CHR ''0'' # hex_digit (byte c div 16) # hex_digit (byte c mod 16) # x) = Some (byte c, x)"
      using small by simp
    have u: "unicode_escape (byte c) x = ([c], x)"
      using assms by (simp add: unicode_escape_def encode_rune_def)
    have "jstring (CHR 0x5C # CHR ''u'' # y) = (case hex4 y of None \<Rightarrow> None
        | Some (u, r2) \<Rightarrow> (case unicode_escape u r2 of (t, r3) \<Rightarrow> map_option (apfst ((@) t)) (jstring r3)))" for y
      by (subst jstring.simps) (simp add: escape_char_def)
    then show ?thesis using hex h u by (simp add: escape_ascii_def del: hex4.simps)
  next
    case 3
    then show ?thesis using assms
      by (auto simp: escape_ascii_def jstring.simps [of "c # x"])
  qed
qed

lemma jstring_unicode:
  assumes "hex4 y = Some (u, x)" "\<not> (0xD800 \<le> u \<and> u \<le> 0xDFFF)"
  shows "jstring (CHR 0x5C # CHR ''u'' # y) = map_option (apfst ((@) (encode_rune u))) (jstring x)"
proof -
  have "unicode_escape u x = (encode_rune u, x)" using assms(2) by (auto simp: unicode_escape_def)
  then show ?thesis using assms(1) by (subst jstring.simps) (simp add: escape_char_def)
qed

lemma hex4_constants:
  "hex4 (CHR ''f'' # CHR ''f'' # CHR ''f'' # CHR ''d'' # x) = Some (0xFFFD, x)"
  "hex4 (CHR ''2'' # CHR ''0'' # CHR ''2'' # CHR ''8'' # x) = Some (0x2028, x)"
  "hex4 (CHR ''2'' # CHR ''0'' # CHR ''2'' # CHR ''9'' # x) = Some (0x2029, x)"
  by (simp_all add: hex_val_def is_digit_def between_def)

lemma encode_constants:
  "encode_rune 0xFFFD = replacement"
  "encode_rune 0x2028 = [CHR 0xE2, CHR 0x80, CHR 0xA8]"
  "encode_rune 0x2029 = [CHR 0xE2, CHR 0x80, CHR 0xA9]"
  by (simp_all add: encode_rune_def replacement_def char_of_eq_iff take_bit_eq_mod)

lemma jstring_rune:
  assumes "\<not> byte c < 0x80" "s = c # r" "utf8_len s \<noteq> 0"
  shows "jstring (take (utf8_len s) s @ x) = map_option (apfst ((@) (take (utf8_len s) s))) (jstring x)"
proof -
  obtain t where t: "take (utf8_len s) s = c # t" using assms by (cases "utf8_len s") auto
  have "utf8_len (c # t @ x) = utf8_len s" using utf8_len_prefix [OF assms(3), of x] t by simp
  moreover have "length (c # t) = utf8_len s" using utf8_len_le [of s] t by (metis length_take min.absorb2)
  moreover from this have "take (utf8_len s) (c # t @ x) = c # t" "drop (utf8_len s) (c # t @ x) = x"
    by (metis append_Cons append_eq_conv_conj)+
  moreover have "c \<noteq> CHR 0x22" "c \<noteq> CHR 0x5C" "\<not> byte c < 0x20" using assms(1) by auto
  ultimately show ?thesis
    using assms(3) t by (subst jstring.simps) auto
qed

lemma separators_len:
  "take 3 s = [CHR 0xE2, CHR 0x80, CHR 0xA8] \<or> take 3 s = [CHR 0xE2, CHR 0x80, CHR 0xA9] \<Longrightarrow> utf8_len s = 3"
proof -
  assume "take 3 s = [CHR 0xE2, CHR 0x80, CHR 0xA8] \<or> take 3 s = [CHR 0xE2, CHR 0x80, CHR 0xA9]"
  then obtain c where c: "c = CHR 0xA8 \<or> c = CHR 0xA9" and "take 3 s = [CHR 0xE2, CHR 0x80, c]" by blast
  then have s: "s = CHR 0xE2 # CHR 0x80 # c # drop 3 s" by (metis append_Cons append_Nil append_take_drop_id)
  have "\<not> byte (CHR 0xE2) < 0x80" "\<not> seq2 (CHR 0xE2) (CHR 0x80)" "seq3 (CHR 0xE2) (CHR 0x80) c"
    using c by (auto simp: seq2_def seq3_def between_def cont_def)
  then show ?thesis by (subst s) (rule utf8_len_seq3)
qed

lemma jstring_jescape: "jstring (jescape s @ CHR 0x22 # r) = Some (utf8_clean s, r)"
proof (induction s rule: jescape.induct)
  case (1 s)
  show ?case
  proof (cases s)
    case Nil
    then show ?thesis by (simp add: jescape.simps utf8_clean.simps jstring.simps)
  next
    case (Cons c t)
    show ?thesis
    proof (cases "byte c < 0x80")
      case True
      then show ?thesis
        using 1(1) [OF Cons] Cons
        by (simp add: jescape.simps [of "c # t"] utf8_clean.simps [of "c # t"] jstring_escape_ascii)
    next
      case multi: False
      show ?thesis
      proof (cases "utf8_len s = 0")
      case True
      then show ?thesis
        using 1(2) [OF Cons] Cons multi jstring_unicode [OF hex4_constants(1)]
        by (simp add: jescape.simps [of "c # t"] utf8_clean.simps [of "c # t"] encode_constants(1) del: hex4.simps)
    next
      case False
      note step = jescape.simps [of "c # t"] utf8_clean.simps [of "c # t"]
      show ?thesis
      proof (cases "take 3 s = [CHR 0xE2, CHR 0x80, CHR 0xA8] \<or> take 3 s = [CHR 0xE2, CHR 0x80, CHR 0xA9]")
        case True
        then show ?thesis
          using separators_len [OF True] False multi 1(3,4) [OF Cons] Cons
            jstring_unicode [OF hex4_constants(2)] jstring_unicode [OF hex4_constants(3)]
          by (auto simp: step encode_constants simp del: hex4.simps)
      next
        case plain: False
        have "jstring (take (utf8_len s) s @ x) = map_option (apfst ((@) (take (utf8_len s) s))) (jstring x)" for x
          using False multi Cons by (intro jstring_rune) auto
        then show ?thesis using False multi plain 1(5) [OF Cons] Cons by (auto simp: step)
      qed
    qed
    qed
  qed
qed

text \<open>The members of a marshalled struct decode in order.\<close>

definition decoded :: "(string \<times> string) list \<Rightarrow> (string \<times> json) list" where
  "decoded ms = map (\<lambda>(k, v). (utf8_clean k, JStr (utf8_clean v))) ms"

lemma skip_ws_simps [simp]: "skip_ws (CHR 0x22 # r) = CHR 0x22 # r" "skip_ws (CHR '':'' # r) = CHR '':'' # r"
  "skip_ws (CHR '','' # r) = CHR '','' # r" "skip_ws (CHR 0x7D # r) = CHR 0x7D # r" "skip_ws [] = []"
  "skip_ws (CHR 0x7B # r) = CHR 0x7B # r"
  by (simp_all add: skip_ws_def is_ws_def)

lemma jvalue_quoted: "jvalue d (jquote v @ r) = Some (JStr (utf8_clean v), r)"
  by (simp add: jquote_def jvalue.simps jstring_jescape)

lemma jmembers_member:
  "jmembers d (jquote k @ CHR '':'' # jquote v @ c # r) =
     (if c = CHR 0x7D then Some ([(utf8_clean k, JStr (utf8_clean v))], r)
      else if c = CHR '','' then map_option (apfst ((#) (utf8_clean k, JStr (utf8_clean v)))) (jmembers d r)
      else (case skip_ws (c # r) of [] \<Rightarrow> None | c2 # r3 \<Rightarrow>
         if c2 = CHR 0x7D then Some ([(utf8_clean k, JStr (utf8_clean v))], r3)
         else if c2 = CHR '','' \<and> length r3 < length (jquote k @ CHR '':'' # jquote v @ c # r)
         then map_option (apfst ((#) (utf8_clean k, JStr (utf8_clean v)))) (jmembers d r3) else None))"
  using jvalue_quoted [of d v "c # r"]
  by (subst jmembers.simps) (simp add: jquote_def jstring_jescape)

lemma jmembers_marshal:
  "ms \<noteq> [] \<Longrightarrow> jmembers d (marshal_members ms @ CHR 0x7D # r) = Some (decoded ms, r)"
proof (induction ms rule: marshal_members.induct)
  case (2 k v)
  then show ?case by (simp add: jmembers_member decoded_def)
next
  case (3 k v m ms)
  then show ?case by (simp add: jmembers_member decoded_def)
qed simp

text \<open>Round trip of the JSON codec. Unmarshalling a marshalled struct of strings gives an object
  with the struct's members, each string as it was but for invalid UTF-8, which comes back as
  U+FFFD.\<close>

lemma unmarshal_marshal:
  assumes "ms \<noteq> []"
  shows "json_unmarshal (json_marshal ms) = Some (jobject (decoded ms))"
proof -
  obtain k v ms' where ms: "ms = (k, v) # ms'" using assms by (cases ms) auto
  then obtain y where y: "marshal_members ms @ [CHR 0x7D] = CHR 0x22 # y"
    by (cases ms') (auto simp: jquote_def)
  have "jvalue 10000 (json_marshal ms) = Some (JObj (decoded ms), [])"
    using jmembers_marshal [OF assms, of 9999 "[]"] y by (simp add: json_marshal_def jvalue.simps)
  moreover have "list_all (\<lambda>(k, v). fits v) (decoded ms)" "map (\<lambda>(k, v). (k, last_members v)) (decoded ms) = decoded ms"
    by (auto simp: decoded_def list_all_iff)
  ultimately show ?thesis by (simp add: json_unmarshal_def json_text_def)
qed

end
