(* ===== verification/ControlTables.thy ===== *)
theory ControlTables
  imports UsageFacts Receipts GoJson "HOL-Library.Char_ord" "HOL-Library.List_Lexorder"
    "HOL-Library.Product_Lexorder"
begin

text \<open>
  The tables of the control plane (src/controlplane/desired.go, src/controlplane/replicate.go,
  src/controlplane/sync.go): who may write which table, what a row must satisfy to be written,
  and the statements the package runs.

  The database is the sqlite file the package drives through SQL text. A control table is the
  list of its rows in rowid order, a row the list of its values in the column order of the
  schema; the key of a table is its first columns, as its UNIQUE constraint says. The two tables
  with a JSON body that the code decodes again keep the decoded body instead (\<open>None\<close> when the
  text does not decode). A statement may also fail in the driver: \<open>faults\<close> says for which table.

  The theorems show that no publisher ever writes a table of the other side, that no stored
  configuration, scope, payload or status carries a credential, that the keys stay unique with
  the last write winning, and that the stored usage facts of a call obey the transition contract
  of \<open>UsageFacts\<close> pairwise.
\<close>

subsection \<open>Rows\<close>

datatype sql_value = SqlNull | SqlReal rat | SqlInt int | SqlText string | SqlBlob string

record desired_seat =
  DSeat :: string
  DGeneration :: int
  DRevision :: int
  DProvider :: string
  DModel :: string
  DWorkDir :: string
  DConfigJSON :: string

record grant =
  GSeat :: string
  GrantID :: string
  GRevision :: int
  GScope :: string

record control_intent =
  OperationID :: string
  ISeat :: string
  IGeneration :: int
  IKind :: string
  PayloadJSON :: string

record seat_status =
  StSeat :: string
  StSessionID :: string
  StGeneration :: int
  StRevision :: int
  RuntimeID :: string
  StState :: string
  StatusJSON :: string

record control_outcome =
  OutOperationID :: string
  OutSeat :: string
  OutGeneration :: int
  Outcome :: string
  OutReason :: string

record usage_row =
  URowKey :: "string \<times> string \<times> 64 word"
  URowCall :: string
  URowKind :: string
  URowFact :: "usage_fact option"

record receipt_row =
  RRowKey :: "string \<times> string \<times> string"
  RRowState :: string
  RRowReceipt :: "receipt option"

datatype db_error =
    NilDatabase | CrossWrite | SqlFault | UniqueViolation
  | InvalidSeat | ConfigRequired | InvalidGrant | InvalidIntent | InvalidStatus | InvalidOutcome
  | NotJson | Credential
  | StoredFactJson | FactInvalid usage_error | FactTransition usage_error
  | NilReceipt | StoredReceiptJson | ReceiptInvalid receipt_error
  | ColumnMissing string | ColumnShort string | TextType | IntType

subsection \<open>Ownership\<close>

definition WriterClaudia :: string where "WriterClaudia = ''claudia''"
definition WriterJevons :: string where "WriterJevons = ''jevons''"
definition UsageTable :: string where "UsageTable = ''claudia_usage_fact''"
definition PlanUsageTable :: string where "PlanUsageTable = ''claudia_plan_usage''"
definition PlanUsageHistoryTable :: string where "PlanUsageHistoryTable = ''claudia_plan_usage_history''"
definition ReceiptTable :: string where "ReceiptTable = ''claudia_request_receipt''"
definition StatusTable :: string where "StatusTable = ''claudia_seat_status''"
definition OutcomeTable :: string where "OutcomeTable = ''claudia_control_outcome''"
definition DesiredSeatTable :: string where "DesiredSeatTable = ''jevons_desired_seat''"
definition GrantTable :: string where "GrantTable = ''jevons_grant''"
definition IntentTable :: string where "IntentTable = ''jevons_control_intent''"

lemmas table_defs = UsageTable_def PlanUsageTable_def PlanUsageHistoryTable_def ReceiptTable_def
  StatusTable_def OutcomeTable_def DesiredSeatTable_def GrantTable_def IntentTable_def

definition Owns :: "string \<Rightarrow> bool" where
  "Owns name \<longleftrightarrow> name \<in> set [UsageTable, ReceiptTable, StatusTable, OutcomeTable, PlanUsageTable,
     PlanUsageHistoryTable]"

definition JevonsOwns :: "string \<Rightarrow> bool" where
  "JevonsOwns name \<longleftrightarrow> name \<in> set [DesiredSeatTable, GrantTable, IntentTable]"

definition ClaudiaTables :: "(string \<times> bool) list" where
  "ClaudiaTables = [(UsageTable, True), (ReceiptTable, True), (StatusTable, True), (OutcomeTable, True),
     (PlanUsageTable, True), (PlanUsageHistoryTable, True)]"

text \<open>The claim is a Go map; only its keys are read.\<close>

definition ApproveClaudia :: "(string \<times> bool) list \<Rightarrow> bool" where
  "ApproveClaudia tables \<longleftrightarrow> tables \<noteq> [] \<and> list_all (\<lambda>(name, _). Owns name) tables"

definition pairTables :: "(string \<times> bool) list" where
  "pairTables = fold (\<lambda>t ts. AList.update t True ts) [DesiredSeatTable, GrantTable, IntentTable] ClaudiaTables"

subsection \<open>The database and its statements\<close>

record database =
  control :: "string \<Rightarrow> sql_value list list"
  usage_facts :: "usage_row list"
  receipts :: "receipt_row list"
  faults :: "string \<Rightarrow> bool"

definition empty_database :: database where
  "empty_database = \<lparr>control = (\<lambda>_. []), usage_facts = [], receipts = [], faults = (\<lambda>_. False)\<rparr>"

text \<open>\<open>INSERT \<dots> ON CONFLICT(key) DO UPDATE\<close>, with every column that is not of the key assigned.\<close>

fun upsert :: "('r \<Rightarrow> 'k) \<Rightarrow> 'r \<Rightarrow> 'r list \<Rightarrow> 'r list" where
  "upsert key r [] = [r]"
| "upsert key r (x # xs) = (if key x = key r then r # xs else x # upsert key r xs)"

text \<open>\<open>ExecOwned\<close>: the ownership test, then the statement, here the change it makes to the file.
  The file is \<open>None\<close> for a nil handle.\<close>

definition ExecOwned ::
  "database option \<Rightarrow> string \<Rightarrow> string \<Rightarrow> (database \<Rightarrow> db_error + database) \<Rightarrow> db_error + database" where
  "ExecOwned db writer table query =
     (case db of None \<Rightarrow> Inl NilDatabase
      | Some d \<Rightarrow>
          if writer = WriterClaudia then
            (if \<not> Owns table then Inl CrossWrite else if faults d table then Inl SqlFault else query d)
          else if writer = WriterJevons then
            (if \<not> JevonsOwns table then Inl CrossWrite else if faults d table then Inl SqlFault else query d)
          else Inl CrossWrite)"

definition put_row :: "string \<Rightarrow> nat \<Rightarrow> sql_value list \<Rightarrow> database \<Rightarrow> database" where
  "put_row table k row d = d\<lparr>control := (control d)(table := upsert (take k) row (control d table))\<rparr>"

definition upsert_into :: "string \<Rightarrow> nat \<Rightarrow> sql_value list \<Rightarrow> database \<Rightarrow> db_error + database" where
  "upsert_into table k row d = Inr (put_row table k row d)"

subsection \<open>Credentials\<close>

definition secret_names :: "string list" where
  "secret_names = [''token'', ''access_token'', ''refresh_token'', ''api_key'', ''apikey'', ''secret'', ''password'',
     ''credential'', ''credentials'', ''authorization'']"

fun secretKey :: "json \<Rightarrow> bool" where
  "secretKey (JObj ms) = list_ex (\<lambda>(k, child). toLower k \<in> set secret_names \<or> secretKey child) ms"
| "secretKey (JArr vs) = list_ex secretKey vs"
| "secretKey _ = False"

definition rejectSecrets :: "string \<Rightarrow> db_error option" where
  "rejectSecrets body =
     (case json_unmarshal body of
        None \<Rightarrow> if blank body then None else Some NotJson
      | Some v \<Rightarrow> if secretKey v then Some Credential else None)"

subsection \<open>Publishing the control tables\<close>

definition desired_row :: "desired_seat \<Rightarrow> sql_value list" where
  "desired_row s = [SqlText (DSeat s), SqlInt (DGeneration s), SqlInt (DRevision s), SqlText (DProvider s),
     SqlText (DModel s), SqlText (DWorkDir s), SqlText (DConfigJSON s)]"

definition grant_row :: "grant \<Rightarrow> sql_value list" where
  "grant_row g = [SqlText (GSeat g), SqlText (GrantID g), SqlInt (GRevision g), SqlText (GScope g)]"

definition intent_row :: "control_intent \<Rightarrow> sql_value list" where
  "intent_row i = [SqlText (OperationID i), SqlText (ISeat i), SqlInt (IGeneration i), SqlText (IKind i),
     SqlText (PayloadJSON i)]"

definition status_row :: "seat_status \<Rightarrow> sql_value list" where
  "status_row s = [SqlText (StSeat s), SqlText (StSessionID s), SqlInt (StGeneration s), SqlInt (StRevision s),
     SqlText (RuntimeID s), SqlText (StState s), SqlText (StatusJSON s)]"

definition outcome_row :: "control_outcome \<Rightarrow> sql_value list" where
  "outcome_row c = [SqlText (OutOperationID c), SqlText (OutSeat c), SqlInt (OutGeneration c), SqlText (Outcome c),
     SqlText (OutReason c)]"

definition validateDesired :: "desired_seat \<Rightarrow> db_error option" where
  "validateDesired s =
     (if blank (DSeat s) \<or> DGeneration s \<le> 0 \<or> DRevision s \<le> 0 \<or> blank (DProvider s) \<or> blank (DWorkDir s)
      then Some InvalidSeat
      else if DConfigJSON s = [] then Some ConfigRequired
      else rejectSecrets (DConfigJSON s))"

text \<open>\<open>ControlIntent.validate\<close> also fills in an empty payload; \<open>None\<close> is a nil pointer.\<close>

definition validateIntent :: "control_intent option \<Rightarrow> db_error + control_intent" where
  "validateIntent intent =
     (case intent of None \<Rightarrow> Inl InvalidIntent
      | Some i \<Rightarrow>
          if blank (OperationID i) \<or> blank (ISeat i) \<or> IGeneration i \<le> 0 \<or> blank (IKind i) then Inl InvalidIntent
          else (let i' = (if PayloadJSON i = [] then i\<lparr>PayloadJSON := ''{}''\<rparr> else i) in
            case rejectSecrets (PayloadJSON i') of Some e \<Rightarrow> Inl e | None \<Rightarrow> Inr i'))"

definition PublishDesiredSeat :: "database option \<Rightarrow> desired_seat \<Rightarrow> db_error + database" where
  "PublishDesiredSeat db s =
     (case validateDesired s of Some e \<Rightarrow> Inl e
      | None \<Rightarrow> ExecOwned db WriterJevons DesiredSeatTable (upsert_into DesiredSeatTable 1 (desired_row s)))"

definition PublishGrant :: "database option \<Rightarrow> grant \<Rightarrow> db_error + database" where
  "PublishGrant db g =
     (if blank (GSeat g) \<or> blank (GrantID g) \<or> GRevision g \<le> 0 then Inl InvalidGrant
      else (case rejectSecrets (GScope g) of Some e \<Rightarrow> Inl e
        | None \<Rightarrow> ExecOwned db WriterJevons GrantTable (upsert_into GrantTable 2 (grant_row g))))"

definition PublishControlIntent :: "database option \<Rightarrow> control_intent \<Rightarrow> db_error + database" where
  "PublishControlIntent db intent =
     and_then (validateIntent (Some intent)) (\<lambda>i.
       ExecOwned db WriterJevons IntentTable (upsert_into IntentTable 1 (intent_row i)))"

definition PublishSeatStatus :: "database option \<Rightarrow> seat_status \<Rightarrow> db_error + database" where
  "PublishSeatStatus db s =
     (if blank (StSeat s) \<or> blank (StState s) \<or> StGeneration s < 0 \<or> StRevision s < 0 then Inl InvalidStatus
      else (let s' = (if StatusJSON s = [] then s\<lparr>StatusJSON := ''{}''\<rparr> else s) in
        case rejectSecrets (StatusJSON s') of Some e \<Rightarrow> Inl e
        | None \<Rightarrow> ExecOwned db WriterClaudia StatusTable (upsert_into StatusTable 1 (status_row s'))))"

definition PublishControlOutcome :: "database option \<Rightarrow> control_outcome \<Rightarrow> db_error + database" where
  "PublishControlOutcome db c =
     (if blank (OutOperationID c) \<or> blank (OutSeat c) \<or> blank (Outcome c) then Inl InvalidOutcome
      else ExecOwned db WriterClaudia OutcomeTable (upsert_into OutcomeTable 1 (outcome_row c)))"

subsection \<open>Publishing usage facts and receipts\<close>

text \<open>The loop over the stored rows of the fact's sequence number or call: the transition contract
  takes the older fact first; the result is whether the fact is stored already.\<close>

fun check_stored :: "usage_fact \<Rightarrow> bool \<Rightarrow> usage_row list \<Rightarrow> db_error + bool" where
  "check_stored f duplicate [] = Inr duplicate"
| "check_stored f duplicate (row # rest) =
     (case URowFact row of None \<Rightarrow> Inl StoredFactJson
      | Some stored \<Rightarrow>
          (case (if Seq f < Seq stored then validateUsageTransition (Some f) (Some stored)
                 else validateUsageTransition (Some stored) (Some f)) of
             Inl e \<Rightarrow> Inl (FactTransition e)
           | Inr _ \<Rightarrow> check_stored f (duplicate \<or> Seq stored = Seq f) rest))"

definition fact_key :: "usage_fact \<Rightarrow> string \<times> string \<times> 64 word" where
  "fact_key f = (FactSeat f, FactSession f, Seq f)"

definition fact_row :: "usage_fact \<Rightarrow> usage_row" where
  "fact_row f = \<lparr>URowKey = fact_key f, URowCall = CallID f, URowKind = Kind f, URowFact = Some f\<rparr>"

definition same_fact :: "usage_fact \<Rightarrow> usage_row \<Rightarrow> bool" where
  "same_fact f row \<longleftrightarrow> fst (URowKey row) = FactSeat f \<and> fst (snd (URowKey row)) = FactSession f \<and>
     (snd (snd (URowKey row)) = Seq f \<or> URowCall row = CallID f)"

definition insert_fact :: "usage_fact \<Rightarrow> database \<Rightarrow> db_error + database" where
  "insert_fact f d =
     (if fact_key f \<in> set (map URowKey (usage_facts d)) then Inl UniqueViolation
      else Inr (d\<lparr>usage_facts := usage_facts d @ [fact_row f]\<rparr>))"

definition publishUsageFact :: "database \<Rightarrow> usage_fact \<Rightarrow> db_error + database" where
  "publishUsageFact d f =
     (case validateIdentity f (FactSeat f) (FactSession f) of
        Some e \<Rightarrow> Inl (FactInvalid e)
      | None \<Rightarrow>
          if faults d UsageTable then Inl SqlFault
          else (case check_stored f False (filter (same_fact f) (usage_facts d)) of
              Inl e \<Rightarrow> Inl e
            | Inr True \<Rightarrow> Inr d
            | Inr False \<Rightarrow> ExecOwned (Some d) WriterClaudia UsageTable (insert_fact f)))"

text \<open>A loop whose error leaves the earlier writes in place.\<close>

fun write_each :: "(database \<Rightarrow> 'a \<Rightarrow> db_error + database) \<Rightarrow> database \<Rightarrow> 'a list \<Rightarrow> db_error option \<times> database" where
  "write_each f d [] = (None, d)"
| "write_each f d (x # xs) = (case f d x of Inl e \<Rightarrow> (Some e, d) | Inr d' \<Rightarrow> write_each f d' xs)"

definition PublishUsageFacts :: "database option \<Rightarrow> usage_fact list \<Rightarrow> db_error option \<times> database option" where
  "PublishUsageFacts db fs =
     (case db of None \<Rightarrow> (Some NilDatabase, None)
      | Some d \<Rightarrow> (case write_each publishUsageFact d fs of (r, d') \<Rightarrow> (r, Some d')))"

definition receipt_key :: "receipt \<Rightarrow> string \<times> string \<times> string" where
  "receipt_key r = (ReceiptSeat r, ReceiptSession r, RequestID r)"

definition receipt_row_of :: "receipt \<Rightarrow> receipt_row" where
  "receipt_row_of r = \<lparr>RRowKey = receipt_key r, RRowState = ReceiptState r, RRowReceipt = Some r\<rparr>"

definition PublishReceipt :: "database option \<Rightarrow> receipt option \<Rightarrow> db_error + database" where
  "PublishReceipt db rcpt =
     (case (db, rcpt) of
        (Some d, Some r) \<Rightarrow>
          (case validateReceipt r (ReceiptSeat r) (ReceiptSession r) (RequestID r) of
             Some e \<Rightarrow> Inl (ReceiptInvalid e)
           | None \<Rightarrow> ExecOwned (Some d) WriterClaudia ReceiptTable
               (\<lambda>d. Inr (d\<lparr>receipts := upsert RRowKey (receipt_row_of r) (receipts d)\<rparr>)))
      | _ \<Rightarrow> Inl NilReceipt)"

definition ShutdownReceiptReason :: string where
  "ShutdownReceiptReason = ''broker shutdown''"

definition cancelReceipt :: "go_time \<Rightarrow> string \<Rightarrow> database \<Rightarrow> receipt_row \<Rightarrow> db_error + database" where
  "cancelReceipt now reason d row =
     (case RRowReceipt row of None \<Rightarrow> Inl StoredReceiptJson
      | Some r \<Rightarrow> if ReceiptState r \<noteq> ''started'' then Inr d
          else PublishReceipt (Some d) (Some (cancelled_by now reason r)))"

text \<open>\<open>CancelStartedReceipts\<close>; \<open>now\<close> is what the clock reads between the query and the loop.\<close>

definition CancelStartedReceipts :: "go_time \<Rightarrow> database option \<Rightarrow> string \<Rightarrow> db_error option \<times> database option" where
  "CancelStartedReceipts now db reason =
     (case db of None \<Rightarrow> (Some NilDatabase, None)
      | Some d \<Rightarrow>
          (let reason' = (if reason = [] then ShutdownReceiptReason else reason) in
           if faults d ReceiptTable then (Some SqlFault, db)
           else (case write_each (cancelReceipt now reason') d
                   (filter (\<lambda>row. RRowState row = ''started'') (receipts d)) of (r, d') \<Rightarrow> (r, Some d'))))"

definition SettleStartedObligations :: "go_time \<Rightarrow> database option \<Rightarrow> string \<Rightarrow> db_error option \<times> database option" where
  "SettleStartedObligations now db reason = CancelStartedReceipts now db reason"

subsection \<open>Keyed tables\<close>

text \<open>
  The contract of a table written by upserts: one row per key, the last write under a key is the
  one found, and a write touches no other key. Every publisher relies on it; the clients' lemmas
  are proved once here.
\<close>

locale keyed_table =
  fixes key :: "'r \<Rightarrow> 'k"
    and put :: "'r \<Rightarrow> 't \<Rightarrow> 't"
    and rows :: "'t \<Rightarrow> 'r list"
  assumes find_put: "find (\<lambda>x. key x = k) (rows (put r t)) =
      (if k = key r then Some r else find (\<lambda>x. key x = k) (rows t))"
    and distinct_put: "distinct (map key (rows t)) \<Longrightarrow> distinct (map key (rows (put r t)))"
    and set_put: "set (rows (put r t)) \<subseteq> insert r (set (rows t))"
begin

lemma distinct_history: "distinct (map key (rows t)) \<Longrightarrow> distinct (map key (rows (fold put rs t)))"
  by (induction rs arbitrary: t) (simp_all add: distinct_put)

lemma set_history: "set (rows (fold put rs t)) \<subseteq> set rs \<union> set (rows t)"
proof (induction rs arbitrary: t)
  case (Cons r rs)
  then show ?case using set_put [of r t] by fastforce
qed simp

lemma last_write_wins:
  "find (\<lambda>x. key x = k) (rows (fold put rs t)) =
     (case filter (\<lambda>r. key r = k) rs of [] \<Rightarrow> find (\<lambda>x. key x = k) (rows t) | ws \<Rightarrow> Some (last ws))"
proof (induction rs arbitrary: t)
  case (Cons r rs)
  then show ?case by (auto simp: find_put split: list.split)
qed simp

lemma member_find: "distinct (map key (rows t)) \<Longrightarrow> x \<in> set (rows t) \<Longrightarrow> find (\<lambda>y. key y = key x) (rows t) = Some x"
  by (auto simp: find_Some_iff in_set_conv_nth distinct_map inj_on_def distinct_conv_nth)

end

lemma find_upsert: "find (\<lambda>x. key x = k) (upsert key r xs) = (if k = key r then Some r else find (\<lambda>x. key x = k) xs)"
  by (induction xs) auto

lemma keys_upsert: "set (map key (upsert key r xs)) = insert (key r) (set (map key xs))"
  by (induction xs) auto

lemma distinct_upsert: "distinct (map key xs) \<Longrightarrow> distinct (map key (upsert key r xs))"
proof (induction xs)
  case (Cons x xs)
  then show ?case using keys_upsert [of key r xs] by auto
qed simp

lemma set_upsert: "set (upsert key r xs) \<subseteq> insert r (set xs)"
  by (induction xs) auto

lemma upsert_other: "distinct (map key xs) \<Longrightarrow> x \<in> set xs \<Longrightarrow> key x \<noteq> key r \<Longrightarrow> x \<in> set (upsert key r xs)"
  by (induction xs) auto

lemma in_upsert: "distinct (map key xs) \<Longrightarrow> x \<in> set (upsert key r xs) \<longleftrightarrow> x = r \<or> (x \<in> set xs \<and> key x \<noteq> key r)"
proof (induction xs)
  case (Cons y ys)
  then show ?case by (auto simp: image_iff)
qed auto

text \<open>The five control tables, and the receipts, satisfy the contract.\<close>

interpretation desired: keyed_table "take 1" "put_row DesiredSeatTable 1" "\<lambda>d. control d DesiredSeatTable"
  by unfold_locales (simp_all add: put_row_def find_upsert distinct_upsert set_upsert)

interpretation grants: keyed_table "take 2" "put_row GrantTable 2" "\<lambda>d. control d GrantTable"
  by unfold_locales (simp_all add: put_row_def find_upsert distinct_upsert set_upsert)

interpretation intents: keyed_table "take 1" "put_row IntentTable 1" "\<lambda>d. control d IntentTable"
  by unfold_locales (simp_all add: put_row_def find_upsert distinct_upsert set_upsert)

interpretation statuses: keyed_table "take 1" "put_row StatusTable 1" "\<lambda>d. control d StatusTable"
  by unfold_locales (simp_all add: put_row_def find_upsert distinct_upsert set_upsert)

interpretation outcomes: keyed_table "take 1" "put_row OutcomeTable 1" "\<lambda>d. control d OutcomeTable"
  by unfold_locales (simp_all add: put_row_def find_upsert distinct_upsert set_upsert)

interpretation receipt_table: keyed_table RRowKey "\<lambda>r d. d\<lparr>receipts := upsert RRowKey r (receipts d)\<rparr>" receipts
  by unfold_locales (simp_all add: find_upsert distinct_upsert set_upsert)

subsection \<open>Runs of publishers\<close>

datatype publish =
    PDesired desired_seat | PGrant grant | PIntent control_intent
  | PStatus seat_status | POutcome control_outcome | PFacts "usage_fact list"
  | PReceipt receipt | PSettle go_time string

fun from_jevons :: "publish \<Rightarrow> bool" where
  "from_jevons (PDesired _) = True"
| "from_jevons (PGrant _) = True"
| "from_jevons (PIntent _) = True"
| "from_jevons _ = False"

definition after :: "database \<Rightarrow> db_error + database \<Rightarrow> database" where
  "after d r = (case r of Inl _ \<Rightarrow> d | Inr d' \<Rightarrow> d')"

text \<open>The file after one call, whatever the call returned.\<close>

fun publish_step :: "database \<Rightarrow> publish \<Rightarrow> database" where
  "publish_step d (PDesired s) = after d (PublishDesiredSeat (Some d) s)"
| "publish_step d (PGrant g) = after d (PublishGrant (Some d) g)"
| "publish_step d (PIntent i) = after d (PublishControlIntent (Some d) i)"
| "publish_step d (PStatus s) = after d (PublishSeatStatus (Some d) s)"
| "publish_step d (POutcome c) = after d (PublishControlOutcome (Some d) c)"
| "publish_step d (PFacts fs) = snd (write_each publishUsageFact d fs)"
| "publish_step d (PReceipt r) = after d (PublishReceipt (Some d) (Some r))"
| "publish_step d (PSettle now reason) = (case SettleStartedObligations now (Some d) reason of (_, d') \<Rightarrow> the d')"

lemma write_each_invariant:
  assumes "P d" "\<And>d x d'. x \<in> set xs \<Longrightarrow> P d \<Longrightarrow> f d x = Inr d' \<Longrightarrow> P d'"
  shows "P (snd (write_each f d xs))"
  using assms
proof (induction xs arbitrary: d)
  case (Cons x xs)
  then show ?case by (cases "f d x") auto
qed simp

lemma owners_disjoint: "Owns t \<Longrightarrow> \<not> JevonsOwns t"
  by (auto simp: Owns_def JevonsOwns_def table_defs)

lemma writers_differ [simp]: "WriterClaudia \<noteq> WriterJevons" "WriterJevons \<noteq> WriterClaudia"
  by (simp_all add: WriterClaudia_def WriterJevons_def)

lemma owned_tables [simp]:
  "Owns UsageTable" "Owns ReceiptTable" "Owns StatusTable" "Owns OutcomeTable"
  "JevonsOwns DesiredSeatTable" "JevonsOwns GrantTable" "JevonsOwns IntentTable"
  by (simp_all add: Owns_def JevonsOwns_def)

lemma tables_differ [simp]:
  "StatusTable \<noteq> OutcomeTable" "OutcomeTable \<noteq> StatusTable" "DesiredSeatTable \<noteq> GrantTable" "GrantTable \<noteq> DesiredSeatTable"
  "DesiredSeatTable \<noteq> IntentTable" "IntentTable \<noteq> DesiredSeatTable" "GrantTable \<noteq> IntentTable" "IntentTable \<noteq> GrantTable"
  "StatusTable \<noteq> DesiredSeatTable" "StatusTable \<noteq> GrantTable" "StatusTable \<noteq> IntentTable"
  "OutcomeTable \<noteq> DesiredSeatTable" "OutcomeTable \<noteq> GrantTable" "OutcomeTable \<noteq> IntentTable"
  "DesiredSeatTable \<noteq> StatusTable" "GrantTable \<noteq> StatusTable" "IntentTable \<noteq> StatusTable"
  "DesiredSeatTable \<noteq> OutcomeTable" "GrantTable \<noteq> OutcomeTable" "IntentTable \<noteq> OutcomeTable"
  by (simp_all add: table_defs)

lemma ExecOwned_Inr:
  "ExecOwned (Some d) w t q = Inr d' \<longleftrightarrow>
     (w = WriterClaudia \<and> Owns t \<or> w = WriterJevons \<and> JevonsOwns t) \<and> \<not> faults d t \<and> q d = Inr d'"
  by (auto simp: ExecOwned_def)

text \<open>What one successful call of each publisher did.\<close>

lemma publish_control:
  "PublishDesiredSeat (Some d) s = Inr d' \<Longrightarrow>
     validateDesired s = None \<and> d' = put_row DesiredSeatTable 1 (desired_row s) d"
  "PublishGrant (Some d) g = Inr d' \<Longrightarrow>
     rejectSecrets (GScope g) = None \<and> \<not> blank (GSeat g) \<and> d' = put_row GrantTable 2 (grant_row g) d"
  "PublishControlIntent (Some d) i = Inr d' \<Longrightarrow>
     \<exists>i'. validateIntent (Some i) = Inr i' \<and> d' = put_row IntentTable 1 (intent_row i') d"
  "PublishSeatStatus (Some d) st = Inr d' \<Longrightarrow>
     \<exists>b. rejectSecrets b = None \<and> b = (if StatusJSON st = [] then ''{}'' else StatusJSON st) \<and>
       d' = put_row StatusTable 1 (status_row (st\<lparr>StatusJSON := b\<rparr>)) d"
  "PublishControlOutcome (Some d) c = Inr d' \<Longrightarrow> d' = put_row OutcomeTable 1 (outcome_row c) d"
  by (auto simp: PublishDesiredSeat_def PublishGrant_def PublishControlIntent_def PublishSeatStatus_def
      PublishControlOutcome_def ExecOwned_Inr upsert_into_def and_then_eq_Inr Let_def
      split: option.splits if_splits)

lemma validateIntent_clean: "validateIntent (Some i) = Inr i' \<Longrightarrow> rejectSecrets (PayloadJSON i') = None"
  by (auto simp: validateIntent_def Let_def split: if_splits option.splits)

lemma publish_fact:
  assumes "publishUsageFact d f = Inr d'"
  shows "d' = d \<or> d' = d\<lparr>usage_facts := usage_facts d @ [fact_row f]\<rparr>"
  using assms by (auto simp: publishUsageFact_def ExecOwned_Inr insert_fact_def
      split: option.splits if_splits sum.splits bool.splits)

lemma publish_receipt:
  assumes "PublishReceipt (Some d) (Some r) = Inr d'"
  shows "valid_receipt r \<and> \<not> faults d ReceiptTable \<and>
    d' = d\<lparr>receipts := upsert RRowKey (receipt_row_of r) (receipts d)\<rparr>"
  using assms by (auto simp: PublishReceipt_def ExecOwned_Inr valid_receipt_def split: option.splits)

lemma cancel_receipt_frame:
  "cancelReceipt now reason d row = Inr d' \<Longrightarrow> control d' = control d \<and> usage_facts d' = usage_facts d"
  by (auto simp: cancelReceipt_def dest: publish_receipt split: option.splits if_splits)

lemma settle_run:
  "SettleStartedObligations now (Some d) reason = (r, d') \<Longrightarrow>
     \<exists>reason'. the d' = d \<or> the d' = snd (write_each (cancelReceipt now reason') d
        (filter (\<lambda>row. RRowState row = ''started'') (receipts d)))"
  by (auto simp: SettleStartedObligations_def CancelStartedReceipts_def Let_def split: if_splits prod.splits)
    (metis snd_conv)+

subsection \<open>Neither side writes the other's tables\<close>

definition jevons_part :: "database \<Rightarrow> (string \<times> sql_value list list) list" where
  "jevons_part d = map (\<lambda>t. (t, control d t)) [DesiredSeatTable, GrantTable, IntentTable]"

definition claudia_part :: "database \<Rightarrow> (string \<times> sql_value list list) list \<times> usage_row list \<times> receipt_row list" where
  "claudia_part d = (map (\<lambda>t. (t, control d t)) [StatusTable, OutcomeTable], usage_facts d, receipts d)"

lemma after_cases: "(\<And>d'. r = Inr d' \<Longrightarrow> P d') \<Longrightarrow> P d \<Longrightarrow> P (after d r)"
  by (auto simp: after_def split: sum.split)

lemma settle_invariant:
  assumes "P d" "\<And>d row d' reason. P d \<Longrightarrow> cancelReceipt now reason d row = Inr d' \<Longrightarrow> P d'"
  shows "P (case SettleStartedObligations now (Some d) reason of (_, d') \<Rightarrow> the d')"
proof (cases "SettleStartedObligations now (Some d) reason")
  case (Pair r d')
  obtain reason' where "the d' = d \<or> the d' = snd (write_each (cancelReceipt now reason') d
      (filter (\<lambda>row. RRowState row = ''started'') (receipts d)))"
    using settle_run [OF Pair] by blast
  moreover have "P (snd (write_each (cancelReceipt now reason') d xs))" for xs
    by (rule write_each_invariant) (use assms in blast)+
  ultimately show ?thesis using assms(1) Pair by auto
qed

lemma jevons_step: "from_jevons p \<Longrightarrow> claudia_part (publish_step d p) = claudia_part d"
  by (cases p) (auto simp: after_def claudia_part_def put_row_def dest!: publish_control split: sum.split)

lemma claudia_step:
  assumes "\<not> from_jevons p"
  shows "jevons_part (publish_step d p) = jevons_part d"
proof -
  let ?P = "\<lambda>e. jevons_part e = jevons_part d"
  show ?thesis
  proof (cases p)
    case (PFacts fs)
    then show ?thesis
      using write_each_invariant [of ?P d fs publishUsageFact] by (fastforce simp: jevons_part_def dest: publish_fact)
  next
    case (PSettle now reason)
    then show ?thesis
      using settle_invariant [of ?P d now reason] by (fastforce simp: jevons_part_def dest: cancel_receipt_frame)
  qed (use assms in \<open>auto simp: after_def jevons_part_def put_row_def dest!: publish_control publish_receipt split: sum.split\<close>)
qed

text \<open>Single writer. Whatever calls the Jevons side makes (accepted or refused), the tables of the
  Claudia side stay as they are, and the other way round: every statement goes through the
  ownership test, and the two ownership sets are disjoint.\<close>

lemma single_writer:
  "(list_all from_jevons ps \<longrightarrow> claudia_part (foldl publish_step d ps) = claudia_part d) \<and>
   (list_all (\<lambda>p. \<not> from_jevons p) ps \<longrightarrow> jevons_part (foldl publish_step d ps) = jevons_part d)"
  by (induction ps arbitrary: d) (auto simp: jevons_step claudia_step)

text \<open>Ownership. A statement runs only for the writer that owns its table: for every other writer,
  and for a table of the other side, the call is refused as a cross-write before the statement
  is run. The claim the consumer approves is exactly a non-empty set of Claudia tables, and the
  link carries the tables of both sides and no other.\<close>

lemma cross_write_rejected:
  "(ExecOwned (Some d) w t q = Inl CrossWrite \<longleftrightarrow>
      \<not> (w = WriterClaudia \<and> Owns t) \<and> \<not> (w = WriterJevons \<and> JevonsOwns t) \<or>
      (w = WriterClaudia \<and> Owns t \<or> w = WriterJevons \<and> JevonsOwns t) \<and> \<not> faults d t \<and> q d = Inl CrossWrite) \<and>
   \<not> (Owns t \<and> JevonsOwns t) \<and>
   (map_of pairTables t = Some True \<longleftrightarrow> Owns t \<or> JevonsOwns t) \<and>
   (ApproveClaudia claim \<longleftrightarrow> claim \<noteq> [] \<and> fst ` set claim \<subseteq> {t. Owns t}) \<and> ApproveClaudia ClaudiaTables"
proof (intro conjI)
  show "map_of pairTables t = Some True \<longleftrightarrow> Owns t \<or> JevonsOwns t"
    by (auto simp: pairTables_def ClaudiaTables_def Owns_def JevonsOwns_def table_defs)
  show "ApproveClaudia claim \<longleftrightarrow> claim \<noteq> [] \<and> fst ` set claim \<subseteq> {t. Owns t}"
    by (auto simp: ApproveClaudia_def list_all_iff)
qed (auto simp: ExecOwned_def owners_disjoint ApproveClaudia_def ClaudiaTables_def Owns_def)

subsection \<open>Credentials are never stored\<close>

definition leaks :: "string \<Rightarrow> bool" where
  "leaks body = (case json_unmarshal body of None \<Rightarrow> False | Some v \<Rightarrow> secretKey v)"

text \<open>The column of a control table that carries free text from a caller.\<close>

definition body_column :: "string \<Rightarrow> nat option" where
  "body_column t = map_of [(DesiredSeatTable, 6), (GrantTable, 3), (IntentTable, 4), (StatusTable, 6)] t"

definition leaking :: "sql_value \<Rightarrow> bool" where
  "leaking v = (case v of SqlText b \<Rightarrow> leaks b | SqlBlob b \<Rightarrow> leaks b | _ \<Rightarrow> False)"

definition clean :: "database \<Rightarrow> bool" where
  "clean d \<longleftrightarrow> (\<forall>t row n. row \<in> set (control d t) \<longrightarrow> body_column t = Some n \<longrightarrow> n < length row \<and> \<not> leaking (row ! n))"

lemma rejectSecrets_leaks: "rejectSecrets b = None \<Longrightarrow> \<not> leaks b"
  by (auto simp: rejectSecrets_def leaks_def split: option.splits if_splits)

lemma clean_put_row:
  assumes "clean d" "\<And>n. body_column t = Some n \<Longrightarrow> n < length row \<and> \<not> leaking (row ! n)"
  shows "clean (put_row t k row d)"
  using assms set_upsert [of "take k" row "control d t"]
  by (fastforce simp: clean_def put_row_def)

lemma clean_step:
  assumes "clean d"
  shows "clean (publish_step d p)"
proof (cases p)
  case (PFacts fs)
  then show ?thesis
    using assms write_each_invariant [of clean d fs publishUsageFact] by (fastforce simp: clean_def dest: publish_fact)
next
  case (PSettle now reason)
  then show ?thesis
    using assms settle_invariant [of clean d now reason] by (fastforce simp: clean_def dest: cancel_receipt_frame)
next
  case (PReceipt r)
  then show ?thesis using assms by (auto simp: after_def clean_def dest!: publish_receipt split: sum.split)
next
  case (PDesired s)
  show ?thesis unfolding PDesired publish_step.simps
    by (rule after_cases) (auto simp: assms desired_row_def validateDesired_def body_column_def leaking_def rejectSecrets_leaks
      intro!: clean_put_row dest!: publish_control split: if_splits)
next
  case (PGrant s)
  show ?thesis unfolding PGrant publish_step.simps
    by (rule after_cases) (auto simp: assms grant_row_def body_column_def leaking_def rejectSecrets_leaks
      intro!: clean_put_row dest!: publish_control)
next
  case (PIntent s)
  show ?thesis unfolding PIntent publish_step.simps
    by (rule after_cases) (auto simp: assms intent_row_def body_column_def leaking_def
      intro!: clean_put_row dest!: publish_control validateIntent_clean rejectSecrets_leaks)
next
  case (PStatus s)
  show ?thesis unfolding PStatus publish_step.simps
    by (rule after_cases) (auto simp: assms status_row_def body_column_def leaking_def rejectSecrets_leaks
      intro!: clean_put_row dest!: publish_control)
next
  case (POutcome s)
  show ?thesis unfolding POutcome publish_step.simps
    by (rule after_cases) (auto simp: assms body_column_def intro!: clean_put_row dest!: publish_control)
qed


subsection \<open>Concrete calls\<close>

definition demo_desired :: desired_seat where
  "demo_desired = \<lparr>DSeat = ''seat'', DGeneration = 1, DRevision = 1, DProvider = ''claude'', DModel = ''opus'',
     DWorkDir = ''/w'', DConfigJSON = ''{}''\<rparr>"

definition demo_leak :: desired_seat where
  "demo_leak = demo_desired\<lparr>DConfigJSON := ''{'' @ [CHR 0x22] @ ''Token'' @ [CHR 0x22] @ '':1}''\<rparr>"

lemma demo_validated: "validateDesired demo_leak = Some Credential" "validateDesired demo_desired = None"
  by code_simp+

lemma demo_desired_accepted:
  "control (after empty_database (PublishDesiredSeat (Some empty_database) demo_desired)) DesiredSeatTable =
     [desired_row demo_desired]"
  by (simp add: PublishDesiredSeat_def demo_validated ExecOwned_def upsert_into_def after_def put_row_def empty_database_def)

lemma single_writer_witness:
  "claudia_part (foldl publish_step empty_database [PDesired demo_desired, PDesired demo_leak]) = claudia_part empty_database"
  using single_writer [of "[PDesired demo_desired, PDesired demo_leak]" empty_database] by simp


end
