(* ===== verification/ControlRecords.thy ===== *)
theory ControlRecords
  imports ControlTables
begin

text \<open>
  What the control file guarantees about the two Claudia tables with a JSON body
  (src/controlplane/replicate.go): the usage facts stored for one call obey the transition
  contract pairwise, a sequence number is written once, and settling leaves no receipt started.
\<close>

subsection \<open>Stored usage facts\<close>

definition same_call :: "usage_fact \<Rightarrow> usage_fact \<Rightarrow> bool" where
  "same_call f g \<longleftrightarrow> FactSeat f = FactSeat g \<and> FactSession f = FactSession g \<and> CallID f = CallID g"

definition in_contract :: "usage_fact \<Rightarrow> usage_fact \<Rightarrow> bool" where
  "in_contract f g \<longleftrightarrow> FactState f = ''started'' \<and> FactState g \<noteq> ''started'' \<and> usage_identity f = usage_identity g"

definition stored :: "database \<Rightarrow> usage_fact set" where
  "stored d = {f. fact_row f \<in> set (usage_facts d)}"

definition facts_ok :: "database \<Rightarrow> bool" where
  "facts_ok d \<longleftrightarrow> distinct (map URowKey (usage_facts d)) \<and>
     (\<forall>row \<in> set (usage_facts d). \<exists>f. row = fact_row f \<and> valid_fact f) \<and>
     (\<forall>f \<in> stored d. \<forall>g \<in> stored d. same_call f g \<and> Seq f < Seq g \<longrightarrow> in_contract f g)"

lemma fact_row_inject [simp]: "fact_row f = fact_row g \<longleftrightarrow> f = g"
  by (auto simp: fact_row_def)

lemma fact_row_simps [simp]:
  "URowKey (fact_row f) = fact_key f" "URowCall (fact_row f) = CallID f" "URowFact (fact_row f) = Some f"
  by (simp_all add: fact_row_def)

lemma stored_key: "facts_ok d \<Longrightarrow> f \<in> stored d \<Longrightarrow> g \<in> stored d \<Longrightarrow> fact_key f = fact_key g \<Longrightarrow> f = g"
  unfolding facts_ok_def stored_def distinct_map inj_on_def by fastforce

text \<open>Two valid facts, the first of them older: the contract in one line.\<close>

lemma transition_older:
  assumes "valid_fact p" "valid_fact f" "Seq p < Seq f"
  shows "(\<exists>t. validateUsageTransition (Some p) (Some f) = Inr t) \<longleftrightarrow> in_contract p f"
  using assms by (auto simp: validateUsageTransition_def valid_fact_def in_contract_def)

lemma transition_same:
  assumes "valid_fact p" "valid_fact f" "Seq p = Seq f"
  shows "(\<exists>t. validateUsageTransition (Some p) (Some f) = Inr t) \<longleftrightarrow> p = f"
  using assms by (auto simp: validateUsageTransition_def valid_fact_def)

definition agrees :: "usage_fact \<Rightarrow> usage_row \<Rightarrow> bool" where
  "agrees f row \<longleftrightarrow> (\<exists>g t. URowFact row = Some g \<and>
     (if Seq f < Seq g then validateUsageTransition (Some f) (Some g)
      else validateUsageTransition (Some g) (Some f)) = Inr t)"

lemma check_stored_Inr:
  "check_stored f dup rows = Inr b \<longleftrightarrow> (\<forall>row \<in> set rows. agrees f row) \<and>
     b = (dup \<or> (\<exists>row \<in> set rows. \<exists>g. URowFact row = Some g \<and> Seq g = Seq f))"
  by (induction rows arbitrary: dup) (auto simp: agrees_def split: option.splits sum.splits)

lemma agrees_fact_row:
  assumes "valid_fact f" "valid_fact g"
  shows "agrees f (fact_row g) \<longleftrightarrow>
    (if Seq f < Seq g then in_contract f g else if Seq g < Seq f then in_contract g f else f = g)"
  using assms by (auto simp: agrees_def transition_older transition_same)

lemma same_fact_row:
  "same_fact f (fact_row g) \<longleftrightarrow> fact_key g = fact_key f \<or> same_call g f"
  by (auto simp: same_fact_def fact_key_def same_call_def)

text \<open>A fact is inserted only when every stored fact of its call agrees with it.\<close>

lemma publish_fact_ok:
  assumes "facts_ok d" "publishUsageFact d f = Inr d'"
  shows "facts_ok d'"
proof (cases "d' = d")
  case False
  with assms(2) have v: "valid_fact f" and new: "fact_key f \<notin> set (map URowKey (usage_facts d))"
    and chk: "check_stored f False (filter (same_fact f) (usage_facts d)) = Inr False"
    and d': "d' = d\<lparr>usage_facts := usage_facts d @ [fact_row f]\<rparr>"
    by (auto simp: publishUsageFact_def valid_fact_def ExecOwned_Inr insert_fact_def
        split: option.splits if_splits sum.splits bool.splits)
  have stored': "stored d' = insert f (stored d)"
    by (auto simp: d' stored_def)
  have agree: "agrees f (fact_row g)" if "g \<in> stored d" "same_call g f" for g
    using chk that by (auto simp: check_stored_Inr stored_def same_fact_row)
  have valid: "valid_fact g" if "g \<in> stored d" for g
    using assms(1) that by (auto simp: facts_ok_def stored_def)
  have "in_contract a b" if "a \<in> stored d'" "b \<in> stored d'" "same_call a b" "Seq a < Seq b" for a b
  proof -
    consider "a = f" "b \<in> stored d" | "b = f" "a \<in> stored d" | "a \<in> stored d" "b \<in> stored d"
      using \<open>a \<in> _\<close> \<open>b \<in> _\<close> \<open>Seq a < Seq b\<close> stored' by auto
    then show ?thesis
    proof cases
      case 1
      then have "agrees f (fact_row b)" using agree that by (simp add: same_call_def)
      then show ?thesis using agrees_fact_row [OF v valid] 1 that by simp
    next
      case 2
      then have "agrees f (fact_row a)" using agree that by (simp add: same_call_def)
      then show ?thesis using agrees_fact_row [OF v valid] 2 that by simp
    next
      case 3
      then show ?thesis using assms(1) that by (auto simp: facts_ok_def)
    qed
  qed
  then show ?thesis using assms(1) v new unfolding facts_ok_def by (auto simp: d')
qed (use assms in simp)

definition call_facts :: "database \<Rightarrow> usage_fact \<Rightarrow> usage_row list" where
  "call_facts d f = filter (\<lambda>row. \<exists>g. row = fact_row g \<and> same_call g f) (usage_facts d)"

lemma at_most_two:
  assumes "facts_ok d"
  shows "length (call_facts d f) \<le> 2"
proof (rule ccontr)
  assume "\<not> length (call_facts d f) \<le> 2"
  then obtain x y z rest where l: "call_facts d f = x # y # z # rest"
    by (cases "call_facts d f" rule: remdups_adj.cases; force simp: neq_Nil_conv)
  have dist: "distinct (map URowKey (call_facts d f))"
    using assms by (auto simp: facts_ok_def call_facts_def distinct_map_filter)
  have "row \<in> set (call_facts d f) \<Longrightarrow> \<exists>g. row = fact_row g \<and> g \<in> stored d \<and> same_call g f" for row
    by (auto simp: call_facts_def stored_def)
  then obtain a b c where "x = fact_row a" "y = fact_row b" "z = fact_row c"
    and abc: "a \<in> stored d" "b \<in> stored d" "c \<in> stored d" "same_call a f" "same_call b f" "same_call c f"
    using l by (metis list.set_intros)
  with dist l have ne: "Seq a \<noteq> Seq b" "Seq a \<noteq> Seq c" "Seq b \<noteq> Seq c"
    by (auto simp: fact_key_def same_call_def)
  have sc: "same_call u v" if "u \<in> {a, b, c}" "v \<in> {a, b, c}" for u v
    using abc that by (auto simp: same_call_def)
  have step: "in_contract u v" if "u \<in> {a, b, c}" "v \<in> {a, b, c}" "Seq u < Seq v" for u v
    using assms abc sc that unfolding facts_ok_def by blast
  have clash: False if "u \<in> {a, b, c}" "v \<in> {a, b, c}" "w \<in> {a, b, c}" "Seq u < Seq v" "Seq v < Seq w" for u v w
    using step [OF that(1,2,4)] step [OF that(2,3,5)] by (simp add: in_contract_def)
  show False
    using ne clash [of a b c] clash [of a c b] clash [of b a c] clash [of b c a] clash [of c a b] clash [of c b a]
    by (auto simp: neq_iff)
qed

text \<open>C34. The stored usage facts obey the contract. Whatever slices of facts are published, every stored
  fact is valid, a sequence number of a session is stored once, and a call has at most two stored
  facts: one \<open>started\<close> and, with a higher sequence number and the same identity, one terminal.\<close>

theorem stored_facts_obey_contract:
  assumes "facts_ok d" and "PublishUsageFacts (Some d) fs = (r, Some d')"
  shows "facts_ok d' \<and> length (call_facts d' f) \<le> 2"
proof -
  from assms(2) have "d' = snd (write_each publishUsageFact d fs)"
    by (auto simp: PublishUsageFacts_def split: prod.splits)
  moreover have "facts_ok (snd (write_each publishUsageFact d fs))"
    by (rule write_each_invariant) (use assms(1) publish_fact_ok in blast)+
  ultimately show ?thesis using at_most_two by simp
qed

text \<open>A sequence number is written once. Publishing a stored fact again changes nothing and is no
  error; a different fact under a stored sequence number is refused.\<close>

lemma stored_fact_is_written_once:
  assumes "facts_ok d" "\<not> faults d UsageTable" "g \<in> stored d" "fact_key f = fact_key g"
  shows "(f = g \<longrightarrow> publishUsageFact d f = Inr d) \<and> (f \<noteq> g \<longrightarrow> (\<exists>e. publishUsageFact d f = Inl e))"
proof (intro conjI impI)
  have valid: "valid_fact h" if "h \<in> stored d" for h
    using assms(1) that by (auto simp: facts_ok_def stored_def)
  have gin: "fact_row g \<in> set (filter (same_fact f) (usage_facts d))"
    using assms(3,4) by (auto simp: stored_def same_fact_row)
  assume "f = g"
  have "agrees g row" if row: "row \<in> set (filter (same_fact g) (usage_facts d))" for row
  proof -
    obtain h where h: "row = fact_row h" "h \<in> stored d" "fact_key h = fact_key g \<or> same_call h g"
    proof -
      obtain h where "row = fact_row h" using row assms(1) by (auto simp: facts_ok_def)
      then show thesis using row that [of h] by (auto simp: stored_def same_fact_row)
    qed
    have "in_contract u v" if "u \<in> {g, h}" "v \<in> {g, h}" "Seq u < Seq v" for u v
    proof -
      have "same_call h g" using h(3) that by (auto simp: fact_key_def)
      then have "same_call u v" "u \<in> stored d" "v \<in> stored d"
        using that h(2) assms(3) by (auto simp: same_call_def)
      then show ?thesis using assms(1) that(3) unfolding facts_ok_def by blast
    qed
    moreover have "g = h" if "Seq g = Seq h"
    proof (rule stored_key [OF assms(1,3) h(2)])
      show "fact_key g = fact_key h" using h(3) that by (auto simp: fact_key_def same_call_def)
    qed
    ultimately show ?thesis using agrees_fact_row [OF valid [OF assms(3)] valid [OF h(2)]] h(1) by auto
  qed
  then have "check_stored g False (filter (same_fact g) (usage_facts d)) = Inr True"
    using gin \<open>f = g\<close> unfolding check_stored_Inr by (metis fact_row_simps(3))
  then show "publishUsageFact d f = Inr d"
    using valid [OF assms(3)] assms(2) \<open>f = g\<close> by (simp add: publishUsageFact_def valid_fact_def)
next
  assume "f \<noteq> g"
  have v: "valid_fact g" using assms(1,3) by (auto simp: facts_ok_def stored_def)
  have gin: "fact_row g \<in> set (filter (same_fact f) (usage_facts d))"
    using assms(3,4) by (auto simp: stored_def same_fact_row)
  have "check_stored f False (filter (same_fact f) (usage_facts d)) \<noteq> Inr b" if "valid_fact f" for b
    using gin agrees_fact_row [OF that v] assms(4) \<open>f \<noteq> g\<close> unfolding check_stored_Inr fact_key_def
    by (metis less_irrefl prod.inject)
  then show "\<exists>e. publishUsageFact d f = Inl e"
    using assms(2) by (cases "validateIdentity f (FactSeat f) (FactSession f)";
      cases "check_stored f False (filter (same_fact f) (usage_facts d))")
      (auto simp: publishUsageFact_def valid_fact_def)
qed

subsection \<open>Settling receipts\<close>

definition receipts_ok :: "database \<Rightarrow> bool" where
  "receipts_ok d \<longleftrightarrow> distinct (map RRowKey (receipts d)) \<and>
     (\<forall>row \<in> set (receipts d). \<exists>r. row = receipt_row_of r \<and> valid_receipt r)"

lemma receipt_row_simps [simp]:
  "RRowKey (receipt_row_of r) = receipt_key r" "RRowState (receipt_row_of r) = ReceiptState r"
  "RRowReceipt (receipt_row_of r) = Some r" "receipt_row_of r = receipt_row_of q \<longleftrightarrow> r = q"
  by (auto simp: receipt_row_of_def)

lemma cancelled_by_simps [simp]:
  "receipt_key (cancelled_by now reason r) = receipt_key r" "ReceiptState (cancelled_by now reason r) = ''cancelled''"
  by (simp_all add: cancelled_by_def receipt_key_def)

lemma publish_receipt_ok:
  assumes "receipts_ok d" "PublishReceipt (Some d) (Some r) = Inr d'"
  shows "receipts_ok d'"
  using assms publish_receipt [OF assms(2)] receipt_table.distinct_put [of d "receipt_row_of r"]
    receipt_table.set_put [of "receipt_row_of r" d]
  by (auto simp: receipts_ok_def)

text \<open>The clock reading can be written with four year digits, and so can the instant after each
  stored update: what lets the cancelled receipt be read back.\<close>

definition cancellable :: "go_time \<Rightarrow> receipt \<Rightarrow> bool" where
  "cancellable now r \<longleftrightarrow> printable now \<and>
     (case parse_rfc3339 (UpdatedAt r) of None \<Rightarrow> True | Some prev \<Rightarrow> printable (add_nanos prev 1))"

lemma cancel_receipt:
  assumes "valid_receipt r" "ReceiptState r = ''started''" "cancellable now r" "\<not> faults d ReceiptTable"
  shows "cancelReceipt now reason d (receipt_row_of r) =
    Inr (d\<lparr>receipts := upsert RRowKey (receipt_row_of (cancelled_by now reason r)) (receipts d)\<rparr>)"
proof -
  obtain prev where prev: "parse_rfc3339 (UpdatedAt r) = Some prev"
    using receipt_shape(2) [OF assms(1)] assms(2) by auto
  with assms(3) have "valid_receipt (cancelled_by now reason r)"
    using cancelled_valid [OF assms(1,2) prev] by (simp add: cancellable_def)
  then show ?thesis
    using assms(2,4) by (simp add: cancelReceipt_def PublishReceipt_def valid_receipt_def ExecOwned_def)
qed

definition settled_by :: "go_time \<Rightarrow> string \<Rightarrow> receipt_row \<Rightarrow> receipt_row" where
  "settled_by now reason row =
     (case RRowReceipt row of
        Some r \<Rightarrow> if RRowState row = ''started'' then receipt_row_of (cancelled_by now reason r) else row
      | None \<Rightarrow> row)"

lemma upsert_present:
  "distinct (map key xs) \<Longrightarrow> x \<in> set xs \<Longrightarrow> key r = key x \<Longrightarrow>
     upsert key r xs = map (\<lambda>y. if key y = key x then r else y) xs"
proof (induction xs)
  case (Cons y ys)
  then show ?case by (auto intro!: map_idI [symmetric] simp: rev_image_eqI)
qed simp

text \<open>The loop cancels the rows it is given, one after the other, and no other.\<close>

lemma cancel_loop:
  assumes "receipts_ok d" "\<not> faults d ReceiptTable" "distinct (map RRowKey rows)" "set rows \<subseteq> set (receipts d)"
    and "\<forall>row \<in> set rows. \<exists>r. row = receipt_row_of r \<and> ReceiptState r = ''started'' \<and> cancellable now r"
  shows "write_each (cancelReceipt now reason) d rows = (None, d\<lparr>receipts :=
    map (\<lambda>row. if RRowKey row \<in> RRowKey ` set rows then settled_by now reason row else row) (receipts d)\<rparr>)"
  using assms
proof (induction rows arbitrary: d)
  case (Cons row rows)
  then obtain r where r: "row = receipt_row_of r" "ReceiptState r = ''started''" "cancellable now r" "valid_receipt r"
    by (force simp: receipts_ok_def)
  let ?c = "receipt_row_of (cancelled_by now reason r)"
  let ?d = "d\<lparr>receipts := upsert RRowKey ?c (receipts d)\<rparr>"
  have one: "cancelReceipt now reason d row = Inr ?d"
    using cancel_receipt [OF r(4,2,3) Cons.prems(2)] r(1) by simp
  have ok: "receipts_ok ?d"
    using publish_receipt_ok [OF Cons.prems(1), of "cancelled_by now reason r"] one r
    by (simp add: cancelReceipt_def)
  have eq: "receipts ?d = map (\<lambda>y. if RRowKey y = RRowKey row then ?c else y) (receipts d)"
    using Cons.prems(1,4) r(1) upsert_present [of RRowKey "receipts d" row ?c] by (simp add: receipts_ok_def)
  have rest: "set rows \<subseteq> set (receipts ?d)"
    using Cons.prems(3,4) by (auto simp: eq image_iff)
  have same: "y = row" if "y \<in> set (receipts d)" "RRowKey y = RRowKey row" for y
    using Cons.prems(1,4) that by (auto simp: receipts_ok_def distinct_map inj_on_def)
  have c: "settled_by now reason row = ?c" using r by (simp add: settled_by_def)
  have "write_each (cancelReceipt now reason) d (row # rows) = write_each (cancelReceipt now reason) ?d rows"
    using one by simp
  also have "\<dots> = (None, ?d\<lparr>receipts :=
      map (\<lambda>y. if RRowKey y \<in> RRowKey ` set rows then settled_by now reason y else y) (receipts ?d)\<rparr>)"
    using Cons.IH [OF ok _ _ rest] Cons.prems by simp
  also have "map (\<lambda>y. if RRowKey y \<in> RRowKey ` set rows then settled_by now reason y else y) (receipts ?d) =
      map (\<lambda>y. if RRowKey y \<in> RRowKey ` set (row # rows) then settled_by now reason y else y) (receipts d)"
    unfolding eq map_map o_def
  proof (rule map_cong [OF refl])
    fix y assume y: "y \<in> set (receipts d)"
    show "(if RRowKey (if RRowKey y = RRowKey row then ?c else y) \<in> RRowKey ` set rows
        then settled_by now reason (if RRowKey y = RRowKey row then ?c else y)
        else (if RRowKey y = RRowKey row then ?c else y)) =
      (if RRowKey y \<in> RRowKey ` set (row # rows) then settled_by now reason y else y)"
      using same [OF y] Cons.prems(3) c r(1) by auto
  qed
  finally show ?case by simp
qed simp

text \<open>A stop settles every started obligation and touches nothing else. With a clock and stored
  times inside the four-digit years, settling succeeds; afterwards each receipt that was started is
  cancelled with the reason of the stop, every other receipt is unchanged, all of them are still
  valid and none is started. Usage facts and control tables do not change.\<close>

lemma settle_cancels_started:
  assumes "receipts_ok d" "\<not> faults d ReceiptTable" "reason \<noteq> []"
    and "\<And>r. receipt_row_of r \<in> set (receipts d) \<Longrightarrow> ReceiptState r = ''started'' \<Longrightarrow> cancellable now r"
  shows "\<exists>d'. SettleStartedObligations now (Some d) reason = (None, Some d') \<and>
    receipts d' = map (settled_by now reason) (receipts d) \<and> receipts_ok d' \<and>
    (\<forall>row \<in> set (receipts d'). RRowState row \<noteq> ''started'') \<and>
    control d' = control d \<and> usage_facts d' = usage_facts d"
proof -
  let ?rows = "filter (\<lambda>row. RRowState row = ''started'') (receipts d)"
  let ?d = "d\<lparr>receipts := map (settled_by now reason) (receipts d)\<rparr>"
  have keys: "distinct (map RRowKey (receipts d))"
    and form: "row \<in> set (receipts d) \<Longrightarrow> \<exists>r. row = receipt_row_of r \<and> valid_receipt r" for row
    using assms(1) by (auto simp: receipts_ok_def)
  have "write_each (cancelReceipt now reason) d ?rows = (None, d\<lparr>receipts :=
    map (\<lambda>row. if RRowKey row \<in> RRowKey ` set ?rows then settled_by now reason row else row) (receipts d)\<rparr>)"
    using assms(4) form keys by (intro cancel_loop assms) (fastforce simp: distinct_map_filter)+
  moreover have "map (\<lambda>row. if RRowKey row \<in> RRowKey ` set ?rows then settled_by now reason row else row) (receipts d) =
      map (settled_by now reason) (receipts d)"
    using keys by (auto simp: settled_by_def distinct_map inj_on_def image_iff split: option.split)
  ultimately have run: "write_each (cancelReceipt now reason) d ?rows = (None, ?d)" by simp
  have "receipts_ok (snd (write_each (cancelReceipt now reason) d ?rows))"
    by (rule write_each_invariant)
      (auto simp: assms(1) cancelReceipt_def intro: publish_receipt_ok split: option.splits if_splits)
  moreover have "RRowState (settled_by now reason row) \<noteq> ''started''" if "row \<in> set (receipts d)" for row
    using form [OF that] by (auto simp: settled_by_def split: if_splits)
  ultimately show ?thesis
    using run assms(2,3) by (intro exI [of _ ?d])
      (auto simp: SettleStartedObligations_def CancelStartedReceipts_def Let_def)
qed

subsection \<open>Concrete files\<close>

definition demo_file :: database where
  "demo_file = empty_database\<lparr>usage_facts := [fact_row demo_started, fact_row demo_completed],
     receipts := [receipt_row_of demo_receipt]\<rparr>"

lemma demo_facts_valid [simp]: "valid_fact demo_started" "valid_fact demo_completed"
  by (simp_all add: valid_fact_def)

lemma demo_calls [simp]: "CallID demo_started = ''c1''" "CallID demo_completed = ''c1''"
  "fact_key demo_started = (''seat'', ''sess'', 1)" "fact_key demo_completed = (''seat'', ''sess'', 2)"
  by (simp_all add: demo_completed_def demo_started_def fact_key_def)

lemma demo_facts_ok: "facts_ok demo_file"
  by (auto simp: facts_ok_def demo_file_def stored_def in_contract_def)

lemma demo_published:
  "PublishUsageFacts (Some empty_database) [demo_started, demo_completed] =
     (None, Some (empty_database\<lparr>usage_facts := [fact_row demo_started, fact_row demo_completed]\<rparr>))"
  by (simp add: PublishUsageFacts_def publishUsageFact_def empty_database_def ExecOwned_def insert_fact_def
      same_fact_def validateUsageTransition_def)

theorem stored_facts_obey_contract_witness:
  "facts_ok (empty_database\<lparr>usage_facts := [fact_row demo_started, fact_row demo_completed]\<rparr>) \<and>
   length (call_facts (empty_database\<lparr>usage_facts := [fact_row demo_started, fact_row demo_completed]\<rparr>) demo_started) \<le> 2"
  by (rule stored_facts_obey_contract [OF _ demo_published]) (simp add: facts_ok_def empty_database_def stored_def)

lemma stored_fact_is_written_once_witness:
  "publishUsageFact demo_file demo_started = Inr demo_file \<and>
   (\<exists>e. publishUsageFact demo_file (demo_started\<lparr>TurnID := ''t2''\<rparr>) = Inl e)"
proof -
  have "demo_started \<in> stored demo_file" "\<not> faults demo_file UsageTable"
    by (simp_all add: stored_def demo_file_def empty_database_def)
  note once = stored_fact_is_written_once [OF demo_facts_ok this(2,1)]
  have "demo_started\<lparr>TurnID := ''t2''\<rparr> \<noteq> demo_started"
    "fact_key (demo_started\<lparr>TurnID := ''t2''\<rparr>) = fact_key demo_started"
    by (simp_all add: demo_started_def fact_key_def)
  with once [of demo_started] once [of "demo_started\<lparr>TurnID := ''t2''\<rparr>"] show ?thesis by blast
qed

definition demo_now :: go_time where
  "demo_now = \<lparr>instant = 1792386247000000000, offset = 0\<rparr>"

lemma demo_cancellable: "cancellable demo_now demo_receipt"
  by (simp add: cancellable_def demo_receipt_def printable_def demo_now_def add_nanos_def epoch_day_def
      days_before_year_def)

lemma settle_cancels_started_witness:
  "\<exists>d'. SettleStartedObligations demo_now (Some demo_file) ''sidecar exited'' = (None, Some d') \<and>
    receipts d' = [receipt_row_of (cancelled_by demo_now ''sidecar exited'' demo_receipt)]"
proof -
  have "receipts_ok demo_file"
    by (simp add: receipts_ok_def demo_file_def) (use demo_receipt_valid in blast)
  moreover have "settled_by demo_now ''sidecar exited'' (receipt_row_of demo_receipt) =
      receipt_row_of (cancelled_by demo_now ''sidecar exited'' demo_receipt)"
    by (simp add: settled_by_def) (simp add: demo_receipt_def)
  moreover have "receipts demo_file = [receipt_row_of demo_receipt]" "\<not> faults demo_file ReceiptTable"
    by (simp_all add: demo_file_def empty_database_def)
  ultimately show ?thesis
    using settle_cancels_started [of demo_file "''sidecar exited''" demo_now] demo_cancellable by auto
qed

end
