(* ===== verification/ControlReads.thy ===== *)
theory ControlReads
  imports ControlTables
begin

text \<open>
  Reading the control tables (the readers of src/controlplane/reconcile.go): a query returns the
  rows in the order of the key, and each row is scanned column by column, by name, with an error
  for a missing or short column and for a value of another storage class. The lemmas show that
  every row a publisher writes scans back to the value published, and that a reader returns
  exactly the published rows, once per key and in key order.
\<close>

subsection \<open>The order of sqlite values\<close>

text \<open>NULL first, then numbers by value, then text and then blobs by their bytes. Two numbers of
  equal value but different storage class are told apart to make the order total; a key column
  never holds them.\<close>

definition sql_rank :: "sql_value \<Rightarrow> nat \<times> rat \<times> nat \<times> string" where
  "sql_rank v = (case v of SqlNull \<Rightarrow> (0, 0, 0, []) | SqlReal q \<Rightarrow> (1, q, 0, []) | SqlInt n \<Rightarrow> (1, of_int n, 1, [])
     | SqlText s \<Rightarrow> (2, 0, 0, s) | SqlBlob s \<Rightarrow> (3, 0, 0, s))"

lemma sql_rank_inject: "sql_rank v = sql_rank w \<longleftrightarrow> v = w"
  by (cases v; cases w) (auto simp: sql_rank_def)

instantiation sql_value :: linorder
begin

definition less_eq_sql_value :: "sql_value \<Rightarrow> sql_value \<Rightarrow> bool" where
  "less_eq_sql_value v w \<longleftrightarrow> sql_rank v \<le> sql_rank w"

definition less_sql_value :: "sql_value \<Rightarrow> sql_value \<Rightarrow> bool" where
  "less_sql_value v w \<longleftrightarrow> sql_rank v < sql_rank w"

instance
  by standard (auto simp: less_eq_sql_value_def less_sql_value_def less_le_not_le sql_rank_inject antisym)

end

subsection \<open>Cells\<close>

fun colIndex :: "string list \<Rightarrow> string \<Rightarrow> nat option" where
  "colIndex [] name = None"
| "colIndex (c # cols) name = (if c = name then Some 0 else map_option Suc (colIndex cols name))"

definition cell :: "string list \<Rightarrow> sql_value list \<Rightarrow> string \<Rightarrow> db_error + sql_value" where
  "cell cols row name =
     (case colIndex cols name of
        None \<Rightarrow> Inl (ColumnMissing name)
      | Some i \<Rightarrow> if i \<ge> length row then Inl (ColumnShort name) else Inr (row ! i))"

definition sqlText :: "sql_value \<Rightarrow> db_error + string" where
  "sqlText v = (case v of SqlText s \<Rightarrow> Inr s | SqlBlob s \<Rightarrow> Inr s | _ \<Rightarrow> Inl TextType)"

definition sqlInt :: "sql_value \<Rightarrow> db_error + int" where
  "sqlInt v = (case v of SqlInt n \<Rightarrow> Inr n | _ \<Rightarrow> Inl IntType)"

definition cellText :: "string list \<Rightarrow> sql_value list \<Rightarrow> string \<Rightarrow> db_error + string" where
  "cellText cols row name = and_then (cell cols row name) sqlText"

definition cellInt :: "string list \<Rightarrow> sql_value list \<Rightarrow> string \<Rightarrow> db_error + int" where
  "cellInt cols row name = and_then (cell cols row name) sqlInt"

lemmas cell_defs = cellText_def cellInt_def cell_def sqlText_def sqlInt_def

subsection \<open>Scanning a row\<close>

definition scanDesired :: "string list \<Rightarrow> sql_value list \<Rightarrow> db_error + desired_seat" where
  "scanDesired cols row =
     and_then (cellText cols row ''seat'') (\<lambda>seat.
     and_then (cellInt cols row ''generation'') (\<lambda>generation.
     and_then (cellInt cols row ''revision'') (\<lambda>revision.
     and_then (cellText cols row ''provider'') (\<lambda>provider.
     and_then (cellText cols row ''model'') (\<lambda>model.
     and_then (cellText cols row ''work_dir'') (\<lambda>workDir.
     and_then (cellText cols row ''config_json'') (\<lambda>config.
       Inr \<lparr>DSeat = seat, DGeneration = generation, DRevision = revision, DProvider = provider, DModel = model,
            DWorkDir = workDir, DConfigJSON = config\<rparr>)))))))"

definition scanGrant :: "string list \<Rightarrow> sql_value list \<Rightarrow> db_error + grant" where
  "scanGrant cols row =
     and_then (cellText cols row ''seat'') (\<lambda>seat.
     and_then (cellText cols row ''grant_id'') (\<lambda>grant_id.
     and_then (cellInt cols row ''revision'') (\<lambda>revision.
     and_then (cellText cols row ''scope'') (\<lambda>scope.
       Inr \<lparr>GSeat = seat, GrantID = grant_id, GRevision = revision, GScope = scope\<rparr>))))"

definition scanStatus :: "string list \<Rightarrow> sql_value list \<Rightarrow> db_error + seat_status" where
  "scanStatus cols row =
     and_then (cellText cols row ''seat'') (\<lambda>seat.
     and_then (cellText cols row ''session_id'') (\<lambda>session.
     and_then (cellInt cols row ''generation'') (\<lambda>generation.
     and_then (cellInt cols row ''revision'') (\<lambda>revision.
     and_then (cellText cols row ''runtime_id'') (\<lambda>runtime.
     and_then (cellText cols row ''state'') (\<lambda>state.
     and_then (cellText cols row ''status_json'') (\<lambda>body.
       Inr \<lparr>StSeat = seat, StSessionID = session, StGeneration = generation, StRevision = revision,
            RuntimeID = runtime, StState = state, StatusJSON = body\<rparr>)))))))"

definition scanIntent :: "string list \<Rightarrow> sql_value list \<Rightarrow> db_error + control_intent" where
  "scanIntent cols row =
     and_then (cellText cols row ''operation_id'') (\<lambda>operation.
     and_then (cellText cols row ''seat'') (\<lambda>seat.
     and_then (cellInt cols row ''generation'') (\<lambda>generation.
     and_then (cellText cols row ''kind'') (\<lambda>kind.
     and_then (cellText cols row ''payload_json'') (\<lambda>payload.
       Inr \<lparr>OperationID = operation, ISeat = seat, IGeneration = generation, IKind = kind, PayloadJSON = payload\<rparr>)))))"

definition scanOutcome :: "string list \<Rightarrow> sql_value list \<Rightarrow> db_error + control_outcome" where
  "scanOutcome cols row =
     and_then (cellText cols row ''operation_id'') (\<lambda>operation.
     and_then (cellText cols row ''seat'') (\<lambda>seat.
     and_then (cellInt cols row ''generation'') (\<lambda>generation.
     and_then (cellText cols row ''outcome'') (\<lambda>outcome.
     and_then (cellText cols row ''reason'') (\<lambda>reason.
       Inr \<lparr>OutOperationID = operation, OutSeat = seat, OutGeneration = generation, Outcome = outcome,
            OutReason = reason\<rparr>)))))"

definition desired_cols :: "string list" where
  "desired_cols = [''seat'', ''generation'', ''revision'', ''provider'', ''model'', ''work_dir'', ''config_json'']"

definition grant_cols :: "string list" where
  "grant_cols = [''seat'', ''grant_id'', ''revision'', ''scope'']"

definition status_cols :: "string list" where
  "status_cols = [''seat'', ''session_id'', ''generation'', ''revision'', ''runtime_id'', ''state'', ''status_json'']"

definition intent_cols :: "string list" where
  "intent_cols = [''operation_id'', ''seat'', ''generation'', ''kind'', ''payload_json'']"

definition outcome_cols :: "string list" where
  "outcome_cols = [''operation_id'', ''seat'', ''generation'', ''outcome'', ''reason'']"

subsection \<open>Readers\<close>

text \<open>\<open>SELECT \<dots> FROM table ORDER BY key\<close>, every column named in the order of the schema.\<close>

definition select_all :: "database \<Rightarrow> string \<Rightarrow> nat \<Rightarrow> db_error + sql_value list list" where
  "select_all d table k = (if faults d table then Inl SqlFault else Inr (sort_key (take k) (control d table)))"

fun scan_rows :: "('r \<Rightarrow> 'e + 'a) \<Rightarrow> 'r list \<Rightarrow> 'e + 'a list" where
  "scan_rows scan [] = Inr []"
| "scan_rows scan (row # rows) = and_then (scan row) (\<lambda>x. and_then (scan_rows scan rows) (\<lambda>xs. Inr (x # xs)))"

definition DesiredSeats :: "database \<Rightarrow> db_error + desired_seat list" where
  "DesiredSeats d = and_then (select_all d DesiredSeatTable 1) (scan_rows (scanDesired desired_cols))"

definition Grants :: "database \<Rightarrow> db_error + grant list" where
  "Grants d = and_then (select_all d GrantTable 2) (scan_rows (scanGrant grant_cols))"

definition SeatStatuses :: "database \<Rightarrow> db_error + (string \<rightharpoonup> seat_status)" where
  "SeatStatuses d = and_then (and_then (select_all d StatusTable 1) (scan_rows (scanStatus status_cols)))
     (\<lambda>xs. Inr (fold (\<lambda>s out. out(StSeat s \<mapsto> s)) xs Map.empty))"

definition ControlIntents :: "database \<Rightarrow> db_error + control_intent list" where
  "ControlIntents d = and_then (select_all d IntentTable 1) (scan_rows (scanIntent intent_cols))"

definition ControlOutcomes :: "database \<Rightarrow> db_error + (string \<rightharpoonup> control_outcome)" where
  "ControlOutcomes d = and_then (and_then (select_all d OutcomeTable 1) (scan_rows (scanOutcome outcome_cols)))
     (\<lambda>xs. Inr (fold (\<lambda>c out. out(OutOperationID c \<mapsto> c)) xs Map.empty))"

subsection \<open>Rows scan back\<close>

lemma scan_round_trip [simp]:
  "scanDesired desired_cols (desired_row s) = Inr s"
  "scanGrant grant_cols (grant_row g) = Inr g"
  "scanStatus status_cols (status_row st) = Inr st"
  "scanIntent intent_cols (intent_row i) = Inr i"
  "scanOutcome outcome_cols (outcome_row c) = Inr c"
  by (simp_all add: scanDesired_def desired_cols_def desired_row_def scanGrant_def grant_cols_def grant_row_def
      scanStatus_def status_cols_def status_row_def scanIntent_def intent_cols_def intent_row_def
      scanOutcome_def outcome_cols_def outcome_row_def cell_defs)

subsection \<open>Reading after writing\<close>

text \<open>A keyed table whose rows are encoded values: the contract of the readers.\<close>

locale scanned_table = keyed_table key put rows
  for key :: "'r \<Rightarrow> 'k::linorder" and put :: "'r \<Rightarrow> 't \<Rightarrow> 't" and rows :: "'t \<Rightarrow> 'r list" +
  fixes enc :: "'a \<Rightarrow> 'r" and dec :: "'r \<Rightarrow> 'e + 'a"
  assumes dec_enc: "dec (enc x) = Inr x"
begin

lemma enc_inject: "enc x = enc y \<longleftrightarrow> x = y"
  by (metis dec_enc sum.inject(2))

lemma scan_encoded: "scan_rows dec (map enc xs) = Inr xs"
  by (induction xs) (simp_all add: dec_enc)

lemma read_all:
  assumes "set (rows t) \<subseteq> range enc" "distinct (map key (rows t))"
  shows "\<exists>xs. scan_rows dec (sort_key key (rows t)) = Inr xs \<and> enc ` set xs = set (rows t) \<and>
    distinct (map (\<lambda>x. key (enc x)) xs) \<and> sorted (map (\<lambda>x. key (enc x)) xs)"
proof -
  have "set (sort_key key (rows t)) \<subseteq> range enc" using assms(1) by simp
  then obtain xs where xs: "sort_key key (rows t) = map enc xs"
    by (metis ex_map_conv subset_image_iff subsetD image_iff)
  have "distinct (map key (sort_key key (rows t)))"
    using assms(2) by (simp add: distinct_map)
  then have "distinct (map (\<lambda>x. key (enc x)) xs)" "sorted (map (\<lambda>x. key (enc x)) xs)"
    using sorted_sort_key [of key "rows t"] by (simp_all add: xs o_def)
  moreover have "enc ` set xs = set (rows t)" by (metis xs set_map set_sort)
  ultimately show ?thesis using xs scan_encoded by auto
qed

lemma found: "distinct (map key (rows t)) \<Longrightarrow> find (\<lambda>x. key x = key r) (rows t) = Some r \<longleftrightarrow> r \<in> set (rows t)"
  using member_find by (auto simp: find_Some_iff)

lemma in_put:
  assumes "distinct (map key (rows t))"
  shows "y \<in> set (rows (put r t)) \<longleftrightarrow> y = r \<or> key y \<noteq> key r \<and> y \<in> set (rows t)"
  using found [OF assms, of y] found [OF distinct_put [OF assms, of r], of y] find_put [of "key y" r t] by (auto split: if_splits)

lemma read_after_put:
  assumes "set (rows t) \<subseteq> range enc" "distinct (map key (rows t))"
  shows "\<exists>xs xs'. scan_rows dec (sort_key key (rows t)) = Inr xs \<and>
    scan_rows dec (sort_key key (rows (put (enc x) t))) = Inr xs' \<and>
    set xs' = insert x {y \<in> set xs. key (enc y) \<noteq> key (enc x)} \<and>
    distinct (map (\<lambda>x. key (enc x)) xs') \<and> sorted (map (\<lambda>x. key (enc x)) xs')"
proof -
  obtain xs where xs: "scan_rows dec (sort_key key (rows t)) = Inr xs" "enc ` set xs = set (rows t)"
    using read_all [OF assms] by blast
  have "set (rows (put (enc x) t)) \<subseteq> range enc"
    using set_put [of "enc x" t] assms(1) by blast
  from read_all [OF this distinct_put [OF assms(2)]] obtain xs' where
    xs': "scan_rows dec (sort_key key (rows (put (enc x) t))) = Inr xs'" "enc ` set xs' = set (rows (put (enc x) t))"
      "distinct (map (\<lambda>x. key (enc x)) xs')" "sorted (map (\<lambda>x. key (enc x)) xs')" by blast
  have "y \<in> set xs' \<longleftrightarrow> y = x \<or> y \<in> set xs \<and> key (enc y) \<noteq> key (enc x)" for y
    using in_put [OF assms(2), of "enc y" "enc x"] unfolding xs(2) [symmetric] xs'(2) [symmetric]
    by (auto simp: enc_inject image_iff)
  then have "set xs' = insert x {y \<in> set xs. key (enc y) \<noteq> key (enc x)}" by blast
  with xs xs' show ?thesis by blast
qed

end

interpretation desired_scan: scanned_table "take 1" "put_row DesiredSeatTable 1" "\<lambda>d. control d DesiredSeatTable"
    desired_row "scanDesired desired_cols"
  by unfold_locales simp

interpretation grant_scan: scanned_table "take 2" "put_row GrantTable 2" "\<lambda>d. control d GrantTable"
    grant_row "scanGrant grant_cols"
  by unfold_locales simp

interpretation intent_scan: scanned_table "take 1" "put_row IntentTable 1" "\<lambda>d. control d IntentTable"
    intent_row "scanIntent intent_cols"
  by unfold_locales simp

interpretation status_scan: scanned_table "take 1" "put_row StatusTable 1" "\<lambda>d. control d StatusTable"
    status_row "scanStatus status_cols"
  by unfold_locales simp

interpretation outcome_scan: scanned_table "take 1" "put_row OutcomeTable 1" "\<lambda>d. control d OutcomeTable"
    outcome_row "scanOutcome outcome_cols"
  by unfold_locales simp

text \<open>A control table as the publishers leave it.\<close>

definition table_ok :: "('a \<Rightarrow> sql_value list) \<Rightarrow> nat \<Rightarrow> string \<Rightarrow> database \<Rightarrow> bool" where
  "table_ok row k t d \<longleftrightarrow> set (control d t) \<subseteq> range row \<and> distinct (map (take k) (control d t))"

definition tables_ok :: "database \<Rightarrow> bool" where
  "tables_ok d \<longleftrightarrow> table_ok desired_row 1 DesiredSeatTable d \<and> table_ok grant_row 2 GrantTable d \<and>
     table_ok intent_row 1 IntentTable d \<and> table_ok status_row 1 StatusTable d \<and>
     table_ok outcome_row 1 OutcomeTable d"

lemma table_ok_put:
  assumes "table_ok row k t d"
  shows "table_ok row k t (put_row t k (row x) d)"
  using assms set_upsert [of "take k" "row x" "control d t"] distinct_upsert [of "take k" "control d t" "row x"]
  by (auto simp: table_ok_def put_row_def)

lemma table_ok_other: "t \<noteq> t' \<Longrightarrow> table_ok row k t (put_row t' k' r d) = table_ok row k t d"
  by (simp add: table_ok_def put_row_def)

lemma tables_ok_control: "control d' = control d \<Longrightarrow> tables_ok d' = tables_ok d"
  by (simp add: tables_ok_def table_ok_def)

lemma tables_ok_records [simp]:
  "tables_ok (d\<lparr>usage_facts := us\<rparr>) = tables_ok d" "tables_ok (d\<lparr>receipts := rs\<rparr>) = tables_ok d"
  by (rule tables_ok_control, simp)+

lemma tables_ok_put:
  assumes "tables_ok d"
  shows "tables_ok (put_row DesiredSeatTable 1 (desired_row s) d)" "tables_ok (put_row GrantTable 2 (grant_row g) d)"
    "tables_ok (put_row IntentTable 1 (intent_row i) d)" "tables_ok (put_row StatusTable 1 (status_row st) d)"
    "tables_ok (put_row OutcomeTable 1 (outcome_row c) d)"
  using assms unfolding tables_ok_def by (simp_all only: table_ok_put table_ok_other tables_differ simp_thms)

lemma tables_ok_step:
  assumes "tables_ok d"
  shows "tables_ok (publish_step d p)"
proof (cases p)
  case (PFacts fs)
  have "tables_ok (snd (write_each publishUsageFact d fs))"
    by (rule write_each_invariant) (use assms in \<open>auto dest!: publish_fact\<close>)
  then show ?thesis by (simp add: PFacts)
next
  case (PSettle now reason)
  show ?thesis unfolding PSettle publish_step.simps
    by (rule settle_invariant) (use assms cancel_receipt_frame tables_ok_control in blast)+
next
  case (PReceipt r)
  show ?thesis unfolding PReceipt publish_step.simps
    by (rule after_cases) (use assms in \<open>auto dest!: publish_receipt\<close>)
next
  case (PDesired s)
  show ?thesis unfolding PDesired publish_step.simps
    by (rule after_cases) (use assms tables_ok_put(1) in \<open>blast dest: publish_control(1)\<close>)+
next
  case (PGrant g)
  show ?thesis unfolding PGrant publish_step.simps
    by (rule after_cases) (use assms tables_ok_put(2) in \<open>blast dest: publish_control(2)\<close>)+
next
  case (PIntent i)
  show ?thesis unfolding PIntent publish_step.simps
    by (rule after_cases) (use assms tables_ok_put(3) in \<open>blast dest: publish_control(3)\<close>)+
next
  case (PStatus s)
  show ?thesis unfolding PStatus publish_step.simps
    by (rule after_cases) (use assms tables_ok_put(4) in \<open>blast dest: publish_control(4)\<close>)+
next
  case (POutcome c)
  show ?thesis unfolding POutcome publish_step.simps
    by (rule after_cases) (use assms tables_ok_put(5) in \<open>blast dest: publish_control(5)\<close>)+
qed


text \<open>Read what was written. After a desired seat is published, reading the table returns it, and
  every other desired seat as it was, once each and ordered by seat.\<close>

lemma desired_seat_reads_back:
  assumes "tables_ok d" "PublishDesiredSeat (Some d) s = Inr d'" "\<not> faults d DesiredSeatTable"
  shows "\<exists>xs xs'. DesiredSeats d = Inr xs \<and> DesiredSeats d' = Inr xs' \<and>
    set xs' = insert s {x \<in> set xs. DSeat x \<noteq> DSeat s} \<and> distinct (map DSeat xs') \<and> sorted (map DSeat xs')"
proof -
  have key: "take 1 (desired_row x) = [SqlText (DSeat x)]" for x by (simp add: desired_row_def)
  have le: "[SqlText a] \<le> [SqlText b] \<longleftrightarrow> a \<le> b" for a b
    by (simp add: list_le_def list_less_def less_sql_value_def sql_rank_def le_less)
  have d': "d' = put_row DesiredSeatTable 1 (desired_row s) d" using publish_control(1) [OF assms(2)] by simp
  have f: "\<not> faults d' DesiredSeatTable" using assms(3) by (simp add: d' put_row_def)
  from assms(1) have "set (control d DesiredSeatTable) \<subseteq> range desired_row"
      "distinct (map (take 1) (control d DesiredSeatTable))"
    by (simp_all only: tables_ok_def table_ok_def)
  from desired_scan.read_after_put [OF this, of s, unfolded key] obtain xs xs' where
    r: "scan_rows (scanDesired desired_cols) (sort_key (take 1) (control d DesiredSeatTable)) = Inr xs"
      "scan_rows (scanDesired desired_cols) (sort_key (take 1) (control d' DesiredSeatTable)) = Inr xs'"
    and s: "set xs' = insert s {y \<in> set xs. [SqlText (DSeat y)] \<noteq> [SqlText (DSeat s)]}"
      "distinct (map (\<lambda>x. [SqlText (DSeat x)]) xs')" "sorted (map (\<lambda>x. [SqlText (DSeat x)]) xs')"
    unfolding d' by blast
  have "DesiredSeats d = Inr xs" "DesiredSeats d' = Inr xs'"
    using r assms(3) f by (simp_all add: DesiredSeats_def select_all_def)
  moreover have "sorted (map DSeat xs')" using s(3) by (simp only: sorted_map le)
  moreover have "distinct (map DSeat xs')" using s(2) by (simp add: distinct_map inj_on_def)
  ultimately show ?thesis using s(1) by simp
qed

subsection \<open>Concrete reads\<close>

lemma demo_tables_ok: "tables_ok empty_database"
  by (simp add: tables_ok_def table_ok_def empty_database_def)


theorem desired_seat_reads_back_witness:
  "\<exists>xs xs'. DesiredSeats empty_database = Inr xs \<and>
     DesiredSeats (put_row DesiredSeatTable 1 (desired_row demo_desired) empty_database) = Inr xs' \<and>
     set xs' = insert demo_desired {x \<in> set xs. DSeat x \<noteq> DSeat demo_desired} \<and>
     distinct (map DSeat xs') \<and> sorted (map DSeat xs')"
  by (rule desired_seat_reads_back [OF demo_tables_ok])
    (simp_all add: PublishDesiredSeat_def demo_validated ExecOwned_def upsert_into_def empty_database_def)

end
