(* ===== verification/AgentDefs.thy ===== *)
theory AgentDefs
  imports Prelude
begin

text \<open>
  Agent definitions (src/registry.go, src/registry_lifecycle.go, src/mcp.go, src/provider.go,
  src/catalog.go): the persistent record of a named agent, the configuration a start is given, and
  the translations between provider names. A Go map of strings is the list of its entries in key
  order, so that equal maps are equal lists; \<open>None\<close> is the nil map or slice.
\<close>

subsection \<open>Providers\<close>

type_synonym provider = string

definition ProviderClaude :: provider where "ProviderClaude = ''claude''"
definition ProviderCodex :: provider where "ProviderCodex = ''codex''"
definition ProviderGrok :: provider where "ProviderGrok = ''grok''"
definition ProviderBedrock :: provider where "ProviderBedrock = ''bedrock''"
definition ProviderOllama :: provider where "ProviderOllama = ''ollama''"
definition ProviderCursor :: provider where "ProviderCursor = ''cursor''"

lemmas provider_defs = ProviderClaude_def ProviderCodex_def ProviderGrok_def ProviderBedrock_def
  ProviderOllama_def ProviderCursor_def

definition PlanProvider :: "provider \<Rightarrow> provider" where
  "PlanProvider p =
     (if p = ''anthropic'' then ProviderClaude
      else if p = ''openai-codex'' then ProviderCodex
      else if p = ''xai-oauth'' then ProviderGrok
      else p)"

definition SubscriptionSeatProvider :: "provider \<Rightarrow> provider" where
  "SubscriptionSeatProvider p =
     (let q = PlanProvider p in
      if q = ProviderClaude then ''anthropic''
      else if q = ProviderCodex then ''openai-codex''
      else if q = ProviderGrok then ''xai-oauth''
      else p)"

definition ompProviderID :: "provider \<Rightarrow> string" where
  "ompProviderID p =
     (if p \<in> {'''', ''anthropic'', ProviderClaude} then ''anthropic''
      else if p \<in> {''openai-codex'', ProviderCodex} then ''openai-codex''
      else if p = ProviderCursor then ''cursor''
      else if p \<in> {''xai-oauth'', ProviderGrok} then ''xai-oauth''
      else '''')"

definition useOMP :: "provider \<Rightarrow> bool" where
  "useOMP p \<longleftrightarrow> ompProviderID p \<noteq> ''''"

definition isClaudeProvider :: "provider \<Rightarrow> bool" where
  "isClaudeProvider p \<longleftrightarrow> p = '''' \<or> p = ProviderClaude"

subsection \<open>The model catalog\<close>

record catalog_model =
  CatProvider :: provider
  CatModel :: string
  CatAccess :: string
  CatQuality :: string
  CatTask :: bool
  CatSession :: bool

definition plan_row :: "provider \<Rightarrow> string \<Rightarrow> string \<Rightarrow> catalog_model" where
  "plan_row p model quality = \<lparr>CatProvider = p, CatModel = model, CatAccess = ''plan'', CatQuality = quality,
     CatTask = False, CatSession = True\<rparr>"

definition ModelCatalog :: "catalog_model list" where
  "ModelCatalog =
     [plan_row ProviderClaude ''claude-sonnet-5'' ''standard'',
      plan_row ProviderClaude ''claude-opus-5'' ''frontier'',
      plan_row ProviderClaude ''claude-fable-5'' ''frontier'',
      plan_row ProviderClaude ''claude-haiku-4-5'' ''economy'',
      plan_row ProviderGrok ''grok-4.5'' ''standard'',
      plan_row ProviderGrok ''grok-4.6'' ''frontier'',
      plan_row ProviderGrok ''grok-4'' ''economy'',
      plan_row ProviderCodex ''gpt-6-astra'' ''frontier'',
      plan_row ProviderCodex ''gpt-6-sol'' ''standard'',
      plan_row ProviderCodex ''gpt-6-luna'' ''economy'',
      plan_row ProviderCursor ''composer-2.5'' ''standard'',
      \<lparr>CatProvider = ProviderBedrock, CatModel = '''', CatAccess = ''direct'', CatQuality = ''standard'',
       CatTask = True, CatSession = False\<rparr>,
      \<lparr>CatProvider = ProviderOllama, CatModel = '''', CatAccess = ''direct'', CatQuality = ''economy'',
       CatTask = True, CatSession = False\<rparr>]"

subsection \<open>Definitions\<close>

record mcp_server =
  MName :: string
  MType :: string
  MURL :: string
  MCommand :: string
  MArgs :: "string slice"
  MEnv :: "(string \<times> string) slice"
  MDurableTools :: "string slice"
  MHeaders :: "(string \<times> string) slice"
  MHeadersHelper :: string
  MBearerTokenEnv :: string
  MAuth :: string
  MProviders :: "provider slice"

record protected_path_rule =
  Pattern :: string
  PReason :: string

record agent_def =
  Name :: string
  WorkDir :: string
  SessionID :: string
  Materialized :: bool
  Provider :: provider
  PreferProvider :: provider
  AllowedProviders :: "provider slice"
  ExcludeProviders :: "provider slice"
  HostMayInterrupt :: bool
  HostNeverPark :: bool
  Model :: string
  AutoStart :: bool
  Parent :: string
  Purpose :: string
  Role :: string
  Description :: string
  TargetID :: string
  DisallowTools :: "string slice"
  ConnectURL :: string
  ConnectPID :: int
  GrokConnect :: bool
  SandboxMode :: string
  ApprovalPolicy :: string
  SandboxWritableRoots :: "string slice"
  SandboxNetworkAccess :: bool
  SandboxGitWrite :: bool
  ProtectedPaths :: "protected_path_rule slice"
  Goal :: string
  MCPServers :: "mcp_server slice"
  MCPExclusive :: bool
  PermissionMode :: string
  MCPConfig :: string
  ExtraArgs :: "string slice"
  TermLogPath :: string
  OMP :: bool
  ContextPreserve :: string
  ContextPins :: "string slice"

text \<open>The zero value of the struct.\<close>

definition zero_def :: agent_def where
  "zero_def = \<lparr>Name = '''', WorkDir = '''', SessionID = '''', Materialized = False, Provider = '''',
     PreferProvider = '''', AllowedProviders = None, ExcludeProviders = None, HostMayInterrupt = False,
     HostNeverPark = False, Model = '''', AutoStart = False, Parent = '''', Purpose = '''', Role = '''',
     Description = '''', TargetID = '''', DisallowTools = None, ConnectURL = '''', ConnectPID = 0,
     GrokConnect = False, SandboxMode = '''', ApprovalPolicy = '''', SandboxWritableRoots = None,
     SandboxNetworkAccess = False, SandboxGitWrite = False, ProtectedPaths = None, Goal = '''',
     MCPServers = None, MCPExclusive = False, PermissionMode = '''', MCPConfig = '''', ExtraArgs = None,
     TermLogPath = '''', OMP = False, ContextPreserve = '''', ContextPins = None\<rparr>"

definition launch_part :: "agent_def \<Rightarrow> agent_def" where
  "launch_part d = d\<lparr>AutoStart := False, Parent := '''', Purpose := '''', Role := '''', Description := '''',
     TargetID := '''', PreferProvider := '''', AllowedProviders := None, ExcludeProviders := None,
     HostMayInterrupt := False, HostNeverPark := False\<rparr>"

definition sameLaunchDefinition :: "agent_def \<Rightarrow> agent_def \<Rightarrow> bool" where
  "sameLaunchDefinition a b \<longleftrightarrow> launch_part a = launch_part b"

subsection \<open>The configuration of a start\<close>

text \<open>The fields of \<open>Config\<close> that a registry start sets.\<close>

record config =
  CName :: string
  CProvider :: provider
  CWorkDir :: string
  CSessionID :: string
  CRequireResume :: bool
  CModel :: string
  CDisallowTools :: "string slice"
  CMCPServers :: "mcp_server slice"
  CMCPExclusive :: bool
  CGrokConnect :: bool
  CConnectURL :: string
  CConnectPID :: int
  CSandboxMode :: string
  CApprovalPolicy :: string
  CSandboxWritableRoots :: "string slice"
  CSandboxNetworkAccess :: bool
  CSandboxGitWrite :: bool
  CGoal :: string
  CPermissionMode :: string
  CMCPConfig :: string
  CExtraArgs :: "string slice"
  CTermLogPath :: string
  COMP :: bool
  CContextPreserve :: string
  CContextPins :: "string slice"
  CProtectedPaths :: "protected_path_rule slice"
  CAdoptOnly :: bool

definition registryConfig :: "agent_def \<Rightarrow> bool \<Rightarrow> config" where
  "registryConfig d requireResume = \<lparr>CName = Name d, CProvider = Provider d, CWorkDir = WorkDir d,
     CSessionID = SessionID d, CRequireResume = requireResume, CModel = Model d, CDisallowTools = DisallowTools d,
     CMCPServers = MCPServers d, CMCPExclusive = MCPExclusive d,
     CGrokConnect = (GrokConnect d \<or> ConnectURL d \<noteq> ''''), CConnectURL = ConnectURL d,
     CConnectPID = ConnectPID d, CSandboxMode = SandboxMode d, CApprovalPolicy = ApprovalPolicy d,
     CSandboxWritableRoots = SandboxWritableRoots d, CSandboxNetworkAccess = SandboxNetworkAccess d,
     CSandboxGitWrite = SandboxGitWrite d, CGoal = Goal d, CPermissionMode = PermissionMode d,
     CMCPConfig = MCPConfig d, CExtraArgs = ExtraArgs d, CTermLogPath = TermLogPath d, COMP = OMP d,
     CContextPreserve = ContextPreserve d, CContextPins = ContextPins d, CProtectedPaths = ProtectedPaths d,
     CAdoptOnly = False\<rparr>"

subsection \<open>Provider names\<close>

lemma plan_provider_idem [simp]: "PlanProvider (PlanProvider p) = PlanProvider p"
  by (simp add: PlanProvider_def provider_defs)

lemma plan_of_subscription: "PlanProvider (SubscriptionSeatProvider p) = PlanProvider p"
  by (auto simp: SubscriptionSeatProvider_def PlanProvider_def provider_defs Let_def)

text \<open>A plan and the sidecar's name for it are the same seat backend.\<close>

lemma omp_of_subscription: "ompProviderID (SubscriptionSeatProvider p) = ompProviderID p"
  by (auto simp: SubscriptionSeatProvider_def PlanProvider_def ompProviderID_def provider_defs Let_def)

lemma registryConfig_simps [simp]:
  "CSessionID (registryConfig d w) = SessionID d" "CRequireResume (registryConfig d w) = w"
  "CName (registryConfig d w) = Name d" "CProvider (registryConfig d w) = Provider d"
  by (simp_all add: registryConfig_def)

lemma sameLaunchDefinition_refl [simp]: "sameLaunchDefinition d d"
  by (simp add: sameLaunchDefinition_def)

text \<open>Definitions that launch the same way start with the same configuration.\<close>

lemma sameLaunch_config:
  assumes "sameLaunchDefinition a b"
  shows "registryConfig a w = registryConfig b w"
proof -
  have "registryConfig d w = registryConfig (launch_part d) w" for d
    by (simp add: registryConfig_def launch_part_def)
  then show ?thesis using assms by (metis sameLaunchDefinition_def)
qed

lemma sameLaunch_fields:
  assumes "sameLaunchDefinition a b"
  shows "Name a = Name b" "SessionID a = SessionID b" "Materialized a = Materialized b" "Provider a = Provider b"
proof -
  have "Name d = Name (launch_part d)" "SessionID d = SessionID (launch_part d)"
    "Materialized d = Materialized (launch_part d)" "Provider d = Provider (launch_part d)" for d
    by (simp_all add: launch_part_def)
  then show "Name a = Name b" "SessionID a = SessionID b" "Materialized a = Materialized b" "Provider a = Provider b"
    using assms by (metis sameLaunchDefinition_def)+
qed

end
