(* ===== verification/Registry.thy ===== *)
theory Registry
  imports AgentDefs
begin

text \<open>
  The registry of named agents (src/registry.go, src/registry_switch.go): definitions by name,
  the handles of running processes, the latch of refused resumes and the sessions minted in this
  process. An operation is a function on the registry record; its critical sections are the
  steps between which other callers may act, which \<open>interfere\<close> stands for.

  What the registry calls but does not implement is an argument, in \<open>environment\<close>: the providers
  that start and adopt a process, the daemon, the transcript store, the context. Each such call
  that has an effect outside the registry leaves an entry in \<open>trace\<close>, in order, so that a theorem
  can say what was started and stopped. Writing the definitions to disk succeeds or fails with
  \<open>disk_ok\<close>; \<open>disk\<close> is what was last written.
\<close>

subsection \<open>State\<close>

record proc =
  ProcID :: nat
  PAlive :: bool
  PSession :: string
  PProvider :: provider
  PModel :: string
  PConnectURL :: string
  PPID :: int

datatype reg_error =
    NotRegistered | SessionRequired | LifecycleInProgress | SaveFailed | UnsupportedPreferred | UnsupportedProvider
  | Canceled | NoBroker | GrantHeld | SeatIdentityMismatch | NoSessionWindow | CursorResumeDenied
  | NoProcess | RemintRefused | NilDefinition | NotThisProcess | TurnInFlight | TurnDidNotEnd
  | CannotChangeProvider | SeatNotAttached | SeatStartedMeanwhile | External string

datatype effect =
    EBroker config bool bool | EAdopt config | EStart config | EReap string int
  | EStop nat | EDiscard nat | EInterrupt nat | ESwitch nat provider string

record registry =
  agents :: "(string \<times> agent_def) list"
  procs :: "string \<rightharpoonup> proc"
  resumeDenied :: "string \<rightharpoonup> reg_error"
  freshSession :: "string \<rightharpoonup> string"
  busy :: "string \<Rightarrow> bool"
  direct :: bool
  disk_ok :: bool
  disk :: "(string \<times> agent_def) list"
  trace :: "effect list"

record environment =
  ctx_err :: "reg_error option"
  ctx_err_later :: "reg_error option"
  ensureOwned :: "proc \<Rightarrow> reg_error option"
  usingBroker :: bool
  startViaBroker :: "config \<Rightarrow> bool \<Rightarrow> bool \<Rightarrow> proc option \<times> reg_error option"
  mcpAttach :: "mcp_server slice \<Rightarrow> mcp_server slice"
  startProc :: "config \<Rightarrow> proc option \<times> reg_error option"
  adoptProc :: "config \<Rightarrow> proc option \<times> reg_error option"
  sessionExists :: "string \<Rightarrow> string \<Rightarrow> bool"
  interfere :: "registry \<Rightarrow> registry"
  stops_waiting :: bool
  begin_err :: "reg_error option"

definition log :: "effect \<Rightarrow> registry \<Rightarrow> registry" where
  "log e r = r\<lparr>trace := trace r @ [e]\<rparr>"

subsection \<open>Persistence\<close>

definition save :: "registry \<Rightarrow> reg_error option \<times> registry" where
  "save r = (if disk_ok r then (None, r\<lparr>disk := agents r\<rparr>) else (Some SaveFailed, r))"

definition NewRegistry :: "(string \<times> agent_def) list \<Rightarrow> registry" where
  "NewRegistry file = \<lparr>agents = fold (\<lambda>(_, d). AList.update (Name d) d) file [], procs = Map.empty,
     resumeDenied = Map.empty, freshSession = Map.empty, busy = (\<lambda>_. False), direct = False, disk_ok = True,
     disk = file, trace = []\<rparr>"

definition Def :: "registry \<Rightarrow> string \<Rightarrow> agent_def option" where
  "Def r name = map_of (agents r) name"

definition Get :: "registry \<Rightarrow> string \<Rightarrow> proc option" where
  "Get r name = procs r name"

definition set_def :: "string \<Rightarrow> agent_def \<Rightarrow> registry \<Rightarrow> registry" where
  "set_def name d r = r\<lparr>agents := AList.update name d (agents r)\<rparr>"

subsection \<open>Registering\<close>

definition registerLocked :: "registry \<Rightarrow> agent_def \<Rightarrow> reg_error option \<times> registry" where
  "registerLocked r d =
     (if SessionID d = '''' then (Some SessionRequired, r)
      else
        let old = Def r (Name d) in
        if busy r (Name d) \<and> (case old of None \<Rightarrow> True | Some o' \<Rightarrow> \<not> sameLaunchDefinition o' d)
        then (Some LifecycleInProgress, r)
        else
          let r1 = (case old of
                Some o' \<Rightarrow> if SessionID o' \<noteq> SessionID d
                  then r\<lparr>resumeDenied := (resumeDenied r)(Name d := None),
                         freshSession := (freshSession r)(Name d \<mapsto> SessionID d)\<rparr>
                  else r
              | None \<Rightarrow> r\<lparr>freshSession := (freshSession r)(Name d \<mapsto> SessionID d)\<rparr>)
          in save (set_def (Name d) d r1))"

definition Register :: "registry \<Rightarrow> agent_def \<Rightarrow> reg_error option \<times> registry" where
  "Register r d = registerLocked r d"

text \<open>\<open>uuid\<close> is the new session identity that \<open>uuid.New\<close> returns.\<close>

definition EnsureAgentWithParent ::
  "registry \<Rightarrow> string \<Rightarrow> string \<Rightarrow> string \<Rightarrow> string \<Rightarrow> string \<Rightarrow> bool \<Rightarrow> (reg_error + agent_def) \<times> registry" where
  "EnsureAgentWithParent r uuid name workDir model parent autoStart =
     (case Def r name of
        Some d \<Rightarrow> (Inr d, r)
      | None \<Rightarrow>
          let d = zero_def\<lparr>Name := name, WorkDir := workDir, SessionID := uuid, Model := model, AutoStart := autoStart,
                Parent := parent\<rparr> in
          (case registerLocked r d of (Some e, r') \<Rightarrow> (Inl e, r') | (None, r') \<Rightarrow> (Inr d, r')))"

definition EnsureAgent ::
  "registry \<Rightarrow> string \<Rightarrow> string \<Rightarrow> string \<Rightarrow> string \<Rightarrow> bool \<Rightarrow> (reg_error + agent_def) \<times> registry" where
  "EnsureAgent r uuid name workDir model autoStart = EnsureAgentWithParent r uuid name workDir model '''' autoStart"

definition plan_providers :: "provider list" where
  "plan_providers = map CatProvider (filter (\<lambda>row. CatAccess row = ''plan'' \<and> CatSession row) ModelCatalog)"

text \<open>The result of normalising a list of providers, or the error of the first unsupported one.\<close>

definition normalise :: "provider slice \<Rightarrow> reg_error + provider slice" where
  "normalise ps =
     (case ps of None \<Rightarrow> Inr None
      | Some xs \<Rightarrow> if list_all (\<lambda>p. PlanProvider p \<in> set plan_providers) xs then Inr (Some (map PlanProvider xs))
          else Inl UnsupportedProvider)"

definition SetSeatPlanPolicy ::
  "registry \<Rightarrow> string \<Rightarrow> provider \<Rightarrow> provider slice \<Rightarrow> provider slice \<Rightarrow> bool \<Rightarrow> bool \<Rightarrow> reg_error option \<times> registry" where
  "SetSeatPlanPolicy r name prefer allowed excluded mayInterrupt neverPark =
     (if PlanProvider prefer \<noteq> '''' \<and> PlanProvider prefer \<notin> set plan_providers then (Some UnsupportedPreferred, r)
      else (case (normalise allowed, normalise excluded) of
          (Inl e, _) \<Rightarrow> (Some e, r)
        | (Inr _, Inl e) \<Rightarrow> (Some e, r)
        | (Inr allowed', Inr excluded') \<Rightarrow>
            (case Def r name of
               None \<Rightarrow> (Some NotRegistered, r)
             | Some current \<Rightarrow>
                 let nxt = current\<lparr>PreferProvider := PlanProvider prefer, AllowedProviders := allowed',
                       ExcludeProviders := excluded', HostMayInterrupt := mayInterrupt, HostNeverPark := neverPark\<rparr> in
                 (case save (set_def name nxt r) of
                    (None, r') \<Rightarrow> (None, r')
                  | (Some _, r') \<Rightarrow> (Some SaveFailed, set_def name current r')))))"

definition MarkMaterialized :: "registry \<Rightarrow> string \<Rightarrow> reg_error option \<times> registry" where
  "MarkMaterialized r name =
     (case Def r name of
        None \<Rightarrow> (Some NotRegistered, r)
      | Some d \<Rightarrow> if Materialized d then (None, r) else save (set_def name (d\<lparr>Materialized := True\<rparr>) r))"

definition recordSwitch :: "registry \<Rightarrow> string \<Rightarrow> proc \<Rightarrow> reg_error option \<times> registry" where
  "recordSwitch r name p =
     (case Def r name of
        None \<Rightarrow> (Some NotThisProcess, r)
      | Some d \<Rightarrow>
          if map_option ProcID (procs r name) \<noteq> Some (ProcID p) then (Some NotThisProcess, r)
          else (case save (set_def name (d\<lparr>Provider := PProvider p, Model := PModel p\<rparr>) r) of
              (None, r') \<Rightarrow> (None, r')
            | (Some _, r') \<Rightarrow> (Some SaveFailed, set_def name d r')))"

subsection \<open>Starting\<close>

definition requireResume :: "registry \<Rightarrow> agent_def \<Rightarrow> bool" where
  "requireResume r d \<longleftrightarrow> Materialized d \<or>
     SessionID d \<noteq> '''' \<and> useOMP (Provider d) \<and> freshSession r (Name d) \<noteq> Some (SessionID d)"

definition claudeSessionEvidence :: "environment \<Rightarrow> provider \<Rightarrow> string \<Rightarrow> string \<Rightarrow> bool" where
  "claudeSessionEvidence env p sessionID workDir \<longleftrightarrow>
     isClaudeProvider p \<and> sessionID \<noteq> '''' \<and> workDir \<noteq> '''' \<and> sessionExists env sessionID workDir"

definition brokerFellThrough :: "reg_error option \<Rightarrow> bool" where
  "brokerFellThrough err \<longleftrightarrow> err = Some NoBroker"

text \<open>Asking the daemon: the process and error, whether the daemon answered, and the effects.\<close>

definition ask_broker ::
  "environment \<Rightarrow> bool \<Rightarrow> config \<Rightarrow> bool \<Rightarrow> bool \<Rightarrow> proc option \<times> reg_error option \<times> bool \<times> effect list" where
  "ask_broker env dir cfg adopt fallback =
     (if usingBroker env \<and> \<not> dir then
        (case startViaBroker env cfg adopt fallback of
           (p, err) \<Rightarrow> if brokerFellThrough err then (None, None, False, [EBroker cfg adopt fallback])
             else (p, err, True, [EBroker cfg adopt fallback]))
      else (None, None, False, []))"

definition reapCursorACPDef :: "agent_def \<Rightarrow> effect list" where
  "reapCursorACPDef d = (if Provider d = ProviderCursor then [EReap (SessionID d) (ConnectPID d)] else [])"

text \<open>The adopt cases, in the order of the switch.\<close>

definition try_adopt :: "environment \<Rightarrow> agent_def \<Rightarrow> config \<Rightarrow> proc option \<times> reg_error option \<times> effect list" where
  "try_adopt env d cfg =
     (if isClaudeProvider (Provider d) then (case adoptProc env cfg of (p, err) \<Rightarrow> (p, err, [EAdopt cfg]))
      else if ompProviderID (Provider d) \<noteq> '''' \<and> ConnectURL d = '''' \<and> ConnectPID d = 0 then
        (let only = cfg\<lparr>CAdoptOnly := True\<rparr> in
         case startProc env only of
           (p, err) \<Rightarrow> (p, err, EAdopt only #
             (if err \<noteq> None \<and> Provider d = ProviderCursor then reapCursorACPDef d else [])))
      else if Provider d = ProviderGrok \<and> (ConnectURL d \<noteq> '''' \<or> ConnectPID d > 0) then
        (case startProc env cfg of (p, err) \<Rightarrow> (p, err, [EAdopt cfg]))
      else if Provider d = ProviderCursor then (None, Some NoSessionWindow, reapCursorACPDef d)
      else (None, Some NoSessionWindow, []))"

text \<open>May a start follow: no process, no answer of the daemon, and either no adopt was asked for or
  the adopt failed in a way that does not mean the seat lives elsewhere.\<close>

definition may_launch :: "environment \<Rightarrow> bool \<Rightarrow> bool \<Rightarrow> bool \<Rightarrow> proc option \<Rightarrow> reg_error option \<Rightarrow> bool" where
  "may_launch env answered adopt fallback p err \<longleftrightarrow> p = None \<and> \<not> answered \<and>
     (\<not> adopt \<or> (fallback \<and> err \<noteq> None \<and> ctx_err_later env = None \<and> err \<noteq> Some GrantHeld \<and> err \<noteq> Some SeatIdentityMismatch))"

text \<open>Everything between the two critical sections: the daemon, the adopt and the launch.\<close>

definition start_attempt ::
  "environment \<Rightarrow> bool \<Rightarrow> agent_def \<Rightarrow> config \<Rightarrow> bool \<Rightarrow> bool \<Rightarrow> proc option \<times> reg_error option \<times> bool \<times> effect list" where
  "start_attempt env dir d cfg adopt fallback =
     (let (p1, e1, answered, t1) = ask_broker env dir cfg adopt fallback;
          adopt' = (adopt \<and> \<not> answered);
          cfg' = (if p1 = None \<and> e1 = None then cfg\<lparr>CMCPServers := mcpAttach env (CMCPServers cfg)\<rparr> else cfg);
          (p2, e2, t2) = (if p1 = None \<and> e1 = None \<and> adopt' then try_adopt env d cfg' else (p1, e1, []))
      in if may_launch env answered adopt' fallback p2 e2
         then (case startProc env cfg' of (p3, e3) \<Rightarrow> (p3, e3, answered, t1 @ t2 @ [EStart cfg']))
         else (p2, e2, answered, t1 @ t2))"

text \<open>What a published start writes into the newest definition, and whether it changed it.\<close>

definition published_def :: "environment \<Rightarrow> bool \<Rightarrow> proc \<Rightarrow> agent_def \<Rightarrow> agent_def" where
  "published_def env brokerSwitched p current =
     (let c1 = (if brokerSwitched then current\<lparr>Provider := PProvider p, Model := PModel p\<rparr> else current);
          c2 = (if PSession p \<noteq> '''' \<and> PSession p \<noteq> SessionID c1 then c1\<lparr>SessionID := PSession p\<rparr> else c1);
          c3 = c2\<lparr>ConnectURL := PConnectURL p, ConnectPID := PPID p\<rparr> in
      if \<not> Materialized c3 \<and> claudeSessionEvidence env (Provider c3) (SessionID c3) (WorkDir c3)
      then c3\<lparr>Materialized := True\<rparr> else c3)"

definition publish_proc :: "environment \<Rightarrow> string \<Rightarrow> bool \<Rightarrow> proc \<Rightarrow> agent_def \<Rightarrow> registry \<Rightarrow> registry" where
  "publish_proc env name brokerSwitched p current r =
     (let nxt = published_def env brokerSwitched p current;
          r1 = set_def name nxt (r\<lparr>resumeDenied := (resumeDenied r)(name := None)\<rparr>);
          r2 = (if brokerSwitched \<or> nxt \<noteq> current then snd (save r1) else r1)
      in r2\<lparr>procs := (procs r2)(name \<mapsto> p)\<rparr>)"

text \<open>The second critical section of a start: stop intent first, then errors, then the refusal of a
  changed session, then publication.\<close>

definition publish_start ::
  "environment \<Rightarrow> string \<Rightarrow> agent_def \<Rightarrow> bool \<Rightarrow> bool \<Rightarrow> proc option \<Rightarrow> reg_error option \<Rightarrow> registry \<Rightarrow>
     (reg_error + proc) \<times> registry" where
  "publish_start env name d wantResume switchable p err r =
     (if stops_waiting env then (Inl Canceled, (case p of None \<Rightarrow> r | Some q \<Rightarrow> log (EStop (ProcID q)) r))
      else (case err of
          Some e \<Rightarrow> (Inl e, if e = CursorResumeDenied then r\<lparr>resumeDenied := (resumeDenied r)(name \<mapsto> e)\<rparr> else r)
        | None \<Rightarrow> (case p of None \<Rightarrow> (Inl NoProcess, r)
            | Some q \<Rightarrow> (case Def r name of None \<Rightarrow> (Inl NilDefinition, r)
                | Some current \<Rightarrow>
                    if PSession q \<noteq> '''' \<and> PSession q \<noteq> SessionID d \<and> (wantResume \<or> Materialized current)
                    then (Inl RemintRefused, log (EStop (ProcID q)) r)
                    else (Inr q, publish_proc env name
                      (switchable \<and> PlanProvider (PProvider q) \<noteq> PlanProvider (Provider d)) q current r)))))"

definition startHeld ::
  "environment \<Rightarrow> registry \<Rightarrow> string \<Rightarrow> bool \<Rightarrow> bool \<Rightarrow> (reg_error + proc) \<times> registry" where
  "startHeld env r name adopt fallback =
     (case Def r name of
        None \<Rightarrow> (Inl NotRegistered, r)
      | Some d \<Rightarrow>
          let wantResume = requireResume r d in
          (case ctx_err env of Some e \<Rightarrow> (Inl e, r)
           | None \<Rightarrow>
               if (case procs r name of None \<Rightarrow> False | Some p \<Rightarrow> PAlive p) then
                 (case ensureOwned env (the (procs r name)) of
                    Some e \<Rightarrow> (Inl e, r)
                  | None \<Rightarrow> (Inr (the (procs r name)), r))
               else (case resumeDenied r name of Some e \<Rightarrow> (Inl e, r)
                 | None \<Rightarrow>
                     let (p, err, answered, t) =
                           start_attempt env (direct r) d (registryConfig d wantResume) adopt fallback
                     in publish_start env name d wantResume (answered \<and> adopt) p err
                          (interfere env (r\<lparr>trace := trace r @ t\<rparr>)))))"

definition startLifecycle ::
  "environment \<Rightarrow> registry \<Rightarrow> string \<Rightarrow> bool \<Rightarrow> bool \<Rightarrow> (reg_error + proc) \<times> registry" where
  "startLifecycle env r name adopt fallback =
     (case begin_err env of Some e \<Rightarrow> (Inl e, r) | None \<Rightarrow> startHeld env r name adopt fallback)"

definition Launch :: "environment \<Rightarrow> registry \<Rightarrow> string \<Rightarrow> (reg_error + proc) \<times> registry" where
  "Launch env r name = startLifecycle env r name False False"

definition Adopt :: "environment \<Rightarrow> registry \<Rightarrow> string \<Rightarrow> (reg_error + proc) \<times> registry" where
  "Adopt env r name = startLifecycle env r name True False"

definition AdoptOrLaunch :: "environment \<Rightarrow> registry \<Rightarrow> string \<Rightarrow> (reg_error + proc) \<times> registry" where
  "AdoptOrLaunch env r name = startLifecycle env r name True True"

subsection \<open>Stopping and removing\<close>

datatype stop_kind = StopOnly | RemoveKeep | RemoveDiscard

definition stopHeld :: "environment \<Rightarrow> registry \<Rightarrow> string \<Rightarrow> stop_kind \<Rightarrow> reg_error option \<times> registry" where
  "stopHeld env r name kind =
     (let r1 = (case procs r name of
            Some p \<Rightarrow> log (EStop (ProcID p)) (if kind = RemoveDiscard then log (EDiscard (ProcID p)) r else r)
          | None \<Rightarrow> (case Def r name of Some d \<Rightarrow> r\<lparr>trace := trace r @ reapCursorACPDef d\<rparr> | None \<Rightarrow> r));
          r2 = interfere env r1;
          r3 = r2\<lparr>procs := (procs r2)(name := None)\<rparr>
      in if kind \<noteq> StopOnly then
           save (r3\<lparr>agents := AList.delete name (agents r3), resumeDenied := (resumeDenied r3)(name := None),
                    freshSession := (freshSession r3)(name := None)\<rparr>)
         else (case Def r3 name of
             Some current \<Rightarrow> if ConnectURL current \<noteq> '''' \<or> ConnectPID current \<noteq> 0
               then save (set_def name (current\<lparr>ConnectURL := '''', ConnectPID := 0\<rparr>) r3) else (None, r3)
           | None \<Rightarrow> (None, r3)))"

definition stopLifecycle :: "environment \<Rightarrow> registry \<Rightarrow> string \<Rightarrow> stop_kind \<Rightarrow> reg_error option \<times> registry" where
  "stopLifecycle env r name kind =
     (case begin_err env of Some e \<Rightarrow> (Some e, r) | None \<Rightarrow> stopHeld env r name kind)"

definition Stop :: "environment \<Rightarrow> registry \<Rightarrow> string \<Rightarrow> registry" where
  "Stop env r name = snd (stopLifecycle env r name StopOnly)"

definition Remove :: "environment \<Rightarrow> registry \<Rightarrow> string \<Rightarrow> reg_error option \<times> registry" where
  "Remove env r name = stopLifecycle env r name RemoveDiscard"

definition RemoveKeepingBackend :: "environment \<Rightarrow> registry \<Rightarrow> string \<Rightarrow> reg_error option \<times> registry" where
  "RemoveKeepingBackend env r name = stopLifecycle env r name RemoveKeep"

subsection \<open>The whole fleet\<close>

text \<open>A Go map is walked in any order; \<open>env name\<close> is the environment the call for \<open>name\<close> meets.\<close>

definition StartAll :: "(string \<Rightarrow> environment) \<Rightarrow> registry \<Rightarrow> registry" where
  "StartAll env r = foldl (\<lambda>r name. snd (Launch (env name) r name)) r (map fst (filter (\<lambda>(_, d). AutoStart d) (agents r)))"

definition StopAll :: "(string \<Rightarrow> environment) \<Rightarrow> registry \<Rightarrow> registry" where
  "StopAll env r = foldl (\<lambda>r name. Stop (env name) r name) r (map fst (agents r))"

text \<open>\<open>StartAllPreferAdoptContext\<close>: \<open>canceled name\<close> is whether the context has ended when the loop reaches
  \<open>name\<close>.\<close>

fun adopt_all :: "(string \<Rightarrow> environment) \<Rightarrow> (string \<Rightarrow> bool) \<Rightarrow> registry \<Rightarrow> string list \<Rightarrow> registry" where
  "adopt_all env canceled r [] = r"
| "adopt_all env canceled r (name # names) =
     (if canceled name then r else adopt_all env canceled (snd (AdoptOrLaunch (env name) r name)) names)"

definition StartAllPreferAdopt :: "(string \<Rightarrow> environment) \<Rightarrow> (string \<Rightarrow> bool) \<Rightarrow> registry \<Rightarrow> registry" where
  "StartAllPreferAdopt env canceled r = adopt_all env canceled r (map fst (filter (\<lambda>(_, d). AutoStart d) (agents r)))"

end
