(* ===== verification/RegistryProps.thy ===== *)
theory RegistryProps
  imports Registry
begin

text \<open>
  What the registry guarantees. The invariant \<open>registry_ok\<close> holds after every operation; a start
  of a seat that must resume keeps its session; a running seat is not started again; a process
  that a start obtained is either published or stopped; a policy change is atomic.
\<close>

subsection \<open>Lookups and updates\<close>

lemma Def_set_def [simp]: "Def (set_def n d r) m = (if m = n then Some d else Def r m)"
  by (simp add: Def_def set_def_def update_conv')

lemma set_def_frame [simp]:
  "procs (set_def n d r) = procs r" "freshSession (set_def n d r) = freshSession r" "trace (set_def n d r) = trace r"
  "resumeDenied (set_def n d r) = resumeDenied r" "disk (set_def n d r) = disk r" "disk_ok (set_def n d r) = disk_ok r"
  "fst ` set (agents (set_def n d r)) = insert n (fst ` set (agents r))"
  by (simp_all add: set_def_def dom_update)

lemma save_frame:
  "save r = (e, r') \<Longrightarrow> agents r' = agents r \<and> procs r' = procs r \<and> freshSession r' = freshSession r \<and>
     resumeDenied r' = resumeDenied r \<and> trace r' = trace r \<and> (e = None \<longrightarrow> disk r' = agents r) \<and>
     (e \<noteq> None \<longrightarrow> r' = r)"
  by (auto simp: save_def split: if_splits)

lemma save_simps [simp]:
  "agents (snd (save r)) = agents r" "procs (snd (save r)) = procs r" "freshSession (snd (save r)) = freshSession r"
  "trace (snd (save r)) = trace r" "resumeDenied (snd (save r)) = resumeDenied r"
  by (simp_all add: save_def)

lemma Def_cong: "agents r' = agents r \<Longrightarrow> Def r' = Def r"
  by (auto simp: Def_def fun_eq_iff)

lemma Def_updates [simp]:
  "Def (r\<lparr>procs := ps\<rparr>) = Def r" "Def (r\<lparr>trace := t\<rparr>) = Def r" "Def (r\<lparr>resumeDenied := x\<rparr>) = Def r"
  "Def (r\<lparr>freshSession := y\<rparr>) = Def r" "Def (snd (save r)) = Def r" "Def (log e r) = Def r" "Def (r\<lparr>disk := z\<rparr>) = Def r"
  by (rule Def_cong, simp add: log_def)+

lemma log_simps [simp]: "procs (log e r) = procs r" "agents (log e r) = agents r" "trace (log e r) = trace r @ [e]"
  "freshSession (log e r) = freshSession r"
  by (simp_all add: log_def)

subsection \<open>The invariant\<close>

definition registry_ok :: "registry \<Rightarrow> bool" where
  "registry_ok r \<longleftrightarrow> distinct (map fst (agents r)) \<and>
     (\<forall>n d. Def r n = Some d \<longrightarrow> Name d = n \<and> SessionID d \<noteq> '''') \<and>
     (\<forall>n. Def r n = None \<longrightarrow> procs r n = None \<and> freshSession r n = None)"

lemma registry_ok_cong:
  "agents r' = agents r \<Longrightarrow> procs r' = procs r \<Longrightarrow> freshSession r' = freshSession r \<Longrightarrow> registry_ok r' = registry_ok r"
  using Def_cong [of r' r] by (simp add: registry_ok_def)

lemma registry_ok_updates [simp]:
  "registry_ok (r\<lparr>trace := t\<rparr>) = registry_ok r" "registry_ok (r\<lparr>resumeDenied := x\<rparr>) = registry_ok r"
  "registry_ok (snd (save r)) = registry_ok r" "registry_ok (log e r) = registry_ok r"
  by (rule registry_ok_cong, simp_all)+

lemma registry_ok_set_def:
  assumes "registry_ok r" "Name d = n" "SessionID d \<noteq> ''''"
  shows "registry_ok (set_def n d r)"
  using assms by (auto simp: registry_ok_def) (simp add: set_def_def distinct_update)

lemma registry_ok_fresh:
  assumes "registry_ok r" "Name d = n" "SessionID d \<noteq> ''''"
  shows "registry_ok (set_def n d (r\<lparr>resumeDenied := x, freshSession := (freshSession r)(n \<mapsto> s)\<rparr>))"
    "registry_ok (set_def n d (r\<lparr>freshSession := (freshSession r)(n \<mapsto> s)\<rparr>))"
proof -
  let ?r = "(set_def n d r)\<lparr>freshSession := (freshSession r)(n \<mapsto> s)\<rparr>"
  have "registry_ok ?r"
    using registry_ok_set_def [OF assms] unfolding registry_ok_def by simp
  moreover have "set_def n d (r\<lparr>resumeDenied := x, freshSession := (freshSession r)(n \<mapsto> s)\<rparr>) = ?r\<lparr>resumeDenied := x\<rparr>"
    "set_def n d (r\<lparr>freshSession := (freshSession r)(n \<mapsto> s)\<rparr>) = ?r"
    by (simp_all add: set_def_def)
  ultimately show "registry_ok (set_def n d (r\<lparr>resumeDenied := x, freshSession := (freshSession r)(n \<mapsto> s)\<rparr>))"
    "registry_ok (set_def n d (r\<lparr>freshSession := (freshSession r)(n \<mapsto> s)\<rparr>))"
    by (simp_all only: registry_ok_updates)
qed

lemma register_ok:
  assumes "registry_ok r"
  shows "registry_ok (snd (registerLocked r d))"
  using registry_ok_set_def [OF assms, of d "Name d"] registry_ok_fresh [OF assms, of d "Name d"]
  by (simp add: registerLocked_def Let_def assms split: option.split)

lemma ensure_ok:
  assumes "registry_ok r"
  shows "registry_ok (snd (EnsureAgentWithParent r uuid n w m p a))"
  using register_ok [OF assms, of "zero_def\<lparr>Name := n, WorkDir := w, SessionID := uuid, Model := m, AutoStart := a, Parent := p\<rparr>"]
  by (auto simp: EnsureAgentWithParent_def Let_def assms split: option.split prod.split)

lemma known_def: "registry_ok r \<Longrightarrow> Def r n = Some d \<Longrightarrow> Name d = n \<and> SessionID d \<noteq> ''''"
  by (auto simp: registry_ok_def)

lemma snd_save_case: "snd (case save r of (None, r') \<Rightarrow> (None, r') | (Some e, r') \<Rightarrow> (Some x, f r')) =
    (if disk_ok r then snd (save r) else f r)"
  by (simp add: save_def)

lemma set_def_undo: "Def r n = Some d \<Longrightarrow> registry_ok r \<Longrightarrow> set_def n d (set_def n d' r) = r"
proof -
  have "map_of xs n = Some d \<Longrightarrow> distinct (map fst xs) \<Longrightarrow> AList.update n d (AList.update n d' xs) = xs" for xs
    by (induction xs) (auto split: if_splits)
  then show "Def r n = Some d \<Longrightarrow> registry_ok r \<Longrightarrow> set_def n d (set_def n d' r) = r"
    by (simp add: set_def_def registry_ok_def Def_def)
qed

lemma policy_ok:
  assumes "registry_ok r"
  shows "registry_ok (snd (SetSeatPlanPolicy r n p a x m k))"
  using known_def [OF assms, of n]
  by (simp add: SetSeatPlanPolicy_def Let_def assms snd_save_case set_def_undo registry_ok_set_def split: option.split sum.split)

lemma materialize_ok: "registry_ok r \<Longrightarrow> registry_ok (snd (MarkMaterialized r n))"
  using known_def [of r n] by (simp add: MarkMaterialized_def registry_ok_set_def split: option.split)

lemma record_ok: "registry_ok r \<Longrightarrow> registry_ok (snd (recordSwitch r n p))"
  using known_def [of r n]
  by (simp add: recordSwitch_def snd_save_case set_def_undo registry_ok_set_def split: option.split)

lemma published_def_keeps:
  "Name (published_def env b p c) = Name c" "SessionID c \<noteq> '''' \<Longrightarrow> SessionID (published_def env b p c) \<noteq> ''''"
  "SessionID (published_def env b p c) = (if PSession p \<noteq> '''' then PSession p else SessionID c)"
  "Materialized c \<Longrightarrow> Materialized (published_def env b p c)"
  by (simp_all add: published_def_def Let_def)

lemma publish_proc_Def: "Def (publish_proc env n b p c r) m = (if m = n then Some (published_def env b p c) else Def r m)"
  by (simp add: publish_proc_def Let_def)

lemma publish_proc_frame [simp]:
  "procs (publish_proc env n b p c r) = (procs r)(n \<mapsto> p)" "trace (publish_proc env n b p c r) = trace r"
  by (simp_all add: publish_proc_def Let_def)

lemma publish_proc_ok:
  assumes "registry_ok r" "Def r n = Some c"
  shows "registry_ok (publish_proc env n b p c r)"
proof -
  let ?r = "set_def n (published_def env b p c) (r\<lparr>resumeDenied := (resumeDenied r)(n := None)\<rparr>)"
  have "registry_ok ?r"
    by (rule registry_ok_set_def) (use assms known_def [OF assms] in \<open>simp_all add: published_def_keeps\<close>)
  then have "registry_ok (if Q then snd (save ?r) else ?r)" "Def (if Q then snd (save ?r) else ?r) n \<noteq> None" for Q
    by simp_all
  moreover have "registry_ok (x\<lparr>procs := (procs x)(n \<mapsto> p)\<rparr>)" if "registry_ok x" "Def x n \<noteq> None" for x
    using that by (auto simp: registry_ok_def)
  ultimately show ?thesis unfolding publish_proc_def Let_def by blast
qed

lemma publish_ok: "registry_ok r \<Longrightarrow> registry_ok (snd (publish_start env n d w s p err r))"
  by (simp add: publish_start_def publish_proc_ok split: option.split)

text \<open>What others do while a provider works keeps the invariant and does not remove the seat: the
  reservation of the name keeps removals out.\<close>

definition benign :: "environment \<Rightarrow> string \<Rightarrow> bool" where
  "benign env name \<longleftrightarrow> (\<forall>r. registry_ok r \<longrightarrow> registry_ok (interfere env r) \<and>
     (Def r name \<noteq> None \<longrightarrow> Def (interfere env r) name \<noteq> None))"

lemma start_ok:
  assumes "registry_ok r" "benign env n"
  shows "registry_ok (snd (startHeld env r n a f))"
  using assms publish_ok by (auto simp: startHeld_def Let_def benign_def split: option.split prod.split)

lemma Def_delete [simp]: "Def (r\<lparr>agents := AList.delete n (agents r)\<rparr>) m = (if m = n then None else Def r m)"
  by (simp add: Def_def delete_conv')

lemma stop_ok:
  assumes "registry_ok r" "benign env n"
  shows "registry_ok (snd (stopHeld env r n k))"
proof -
  define r1 where "r1 = (case procs r n of
      Some p \<Rightarrow> log (EStop (ProcID p)) (if k = RemoveDiscard then log (EDiscard (ProcID p)) r else r)
    | None \<Rightarrow> (case Def r n of Some d \<Rightarrow> r\<lparr>trace := trace r @ reapCursorACPDef d\<rparr> | None \<Rightarrow> r))"
  define r2 where "r2 = interfere env r1"
  define r3 where "r3 = r2\<lparr>procs := (procs r2)(n := None)\<rparr>"
  have "registry_ok r1" using assms(1) by (simp add: r1_def split: option.split)
  then have "registry_ok r2" using assms(2) by (simp add: r2_def benign_def)
  then have r3: "registry_ok r3" by (simp add: r3_def registry_ok_def)
  moreover have "procs r3 n = None" by (simp add: r3_def)
  ultimately have "registry_ok (r3\<lparr>agents := AList.delete n (agents r3), resumeDenied := (resumeDenied r3)(n := None),
      freshSession := (freshSession r3)(n := None)\<rparr>)"
    by (auto simp: registry_ok_def Def_def delete_conv' distinct_delete)
  moreover have "registry_ok (set_def n (c\<lparr>ConnectURL := [], ConnectPID := 0\<rparr>) r3)" if "Def r3 n = Some c" for c
    by (rule registry_ok_set_def) (use r3 known_def [OF r3 that] in simp_all)
  ultimately show ?thesis
    using r3 unfolding stopHeld_def r1_def [symmetric] Let_def r2_def [symmetric] r3_def [symmetric]
    by (simp split: option.split)
qed

subsection \<open>Runs of operations\<close>

datatype reg_op =
    ORegister agent_def
  | OEnsure string string string string string bool
  | OPolicy string provider "provider slice" "provider slice" bool bool
  | OMaterialize string
  | ORecord string proc
  | OStart environment string bool bool
  | OStop environment string stop_kind

fun reg_apply :: "registry \<Rightarrow> reg_op \<Rightarrow> registry" where
  "reg_apply r (ORegister d) = snd (Register r d)"
| "reg_apply r (OEnsure uuid n w m p a) = snd (EnsureAgentWithParent r uuid n w m p a)"
| "reg_apply r (OPolicy n p a x m k) = snd (SetSeatPlanPolicy r n p a x m k)"
| "reg_apply r (OMaterialize n) = snd (MarkMaterialized r n)"
| "reg_apply r (ORecord n p) = snd (recordSwitch r n p)"
| "reg_apply r (OStart env n a f) = snd (startLifecycle env r n a f)"
| "reg_apply r (OStop env n k) = snd (stopLifecycle env r n k)"

fun benign_op :: "reg_op \<Rightarrow> bool" where
  "benign_op (OStart env n a f) = benign env n"
| "benign_op (OStop env n k) = benign env n"
| "benign_op _ = True"

lemma reg_apply_ok: "registry_ok r \<Longrightarrow> benign_op op \<Longrightarrow> registry_ok (reg_apply r op)"
  by (cases op) (simp_all add: Register_def register_ok ensure_ok policy_ok materialize_ok record_ok
      startLifecycle_def stopLifecycle_def start_ok stop_ok split: option.split)

text \<open>C8. The registry invariant. After any sequence of operations (failed ones and failed writes
  included), every name has one definition, under its own name and with a session, and a process
  or a session minted here only exists for a name that is still registered.\<close>

theorem registry_invariant:
  "registry_ok r \<Longrightarrow> list_all benign_op ops \<Longrightarrow> registry_ok (foldl reg_apply r ops)"
  by (induction ops arbitrary: r) (simp_all add: reg_apply_ok)

subsection \<open>Sessions are not reminted\<close>

text \<open>How a start can go: refused at once, answered by the running process, or an attempt whose
  outcome the second critical section publishes.\<close>

lemma startHeld_cases:
  assumes "startHeld env r n a f = (res, r')"
  obtains (refused) e where "res = Inl e" "r' = r"
  | (running) p where "procs r n = Some p" "PAlive p" "res = Inr p" "r' = r"
  | (attempt) d p err answered t where "Def r n = Some d" "\<And>p. procs r n = Some p \<Longrightarrow> \<not> PAlive p"
      "resumeDenied r n = None"
      "start_attempt env (direct r) d (registryConfig d (requireResume r d)) a f = (p, err, answered, t)"
      "publish_start env n d (requireResume r d) (answered \<and> a) p err (interfere env (r\<lparr>trace := trace r @ t\<rparr>)) = (res, r')"
proof (cases "Def r n")
  case None
  then show ?thesis using assms by (intro refused) (auto simp: startHeld_def)
next
  case (Some d)
  note def = Some
  show ?thesis
  proof (cases "ctx_err env")
    case (Some e)
    then show ?thesis using assms def by (intro refused) (auto simp: startHeld_def Let_def)
  next
    case None
    note run = assms [unfolded startHeld_def Let_def def None option.case]
    show ?thesis
    proof (cases "\<exists>p. procs r n = Some p \<and> PAlive p")
      case True
      then obtain p where p: "procs r n = Some p" "PAlive p" by blast
      show ?thesis
      proof (cases "ensureOwned env p")
        case None
        show ?thesis by (rule running [OF p]) (use run p None in simp_all)
      next
        case (Some e)
        show ?thesis by (rule refused [of e]) (use run p Some in simp_all)
      qed
    next
      case False
      then have "(case procs r n of None \<Rightarrow> False | Some p \<Rightarrow> PAlive p) = False" by (auto split: option.split)
      note run = run [unfolded this if_False]
      obtain p err answered t where
        at: "start_attempt env (direct r) d (registryConfig d (requireResume r d)) a f = (p, err, answered, t)"
        by (metis prod_cases4)
      show ?thesis
      proof (cases "resumeDenied r n")
        case None
        show ?thesis by (rule attempt [OF def _ None at]) (use False run None at in auto)
      next
        case (Some e)
        show ?thesis by (rule refused [of e]) (use run Some in simp_all)
      qed
    qed
  qed
qed

lemma publish_result:
  assumes "publish_start env n d w s p err r = (Inr q, r')"
  shows "\<exists>c. p = Some q \<and> Def r n = Some c \<and> \<not> stops_waiting env \<and>
    (PSession q = '''' \<or> PSession q = SessionID d \<or> \<not> w \<and> \<not> Materialized c) \<and>
    r' = publish_proc env n (s \<and> PlanProvider (PProvider q) \<noteq> PlanProvider (Provider d)) q c r"
  using assms by (auto simp: publish_start_def split: option.splits if_splits)

lemma publish_failure:
  assumes "publish_start env n d w s p err r = (Inl e, r')"
  shows "agents r' = agents r \<and> procs r' = procs r \<and> freshSession r' = freshSession r \<and>
    (\<forall>q. p = Some q \<longrightarrow> err = None \<longrightarrow> trace r' = trace r @ [EStop (ProcID q)] \<or> e = NilDefinition \<and> Def r n = None) \<and>
    (\<forall>q. p = Some q \<longrightarrow> stops_waiting env \<longrightarrow> trace r' = trace r @ [EStop (ProcID q)])"
  using assms by (auto simp: publish_start_def split: option.splits if_splits)

definition session_of :: "registry \<Rightarrow> string \<Rightarrow> string option" where
  "session_of r n = map_option SessionID (Def r n)"

definition keeps_session :: "environment \<Rightarrow> string \<Rightarrow> bool" where
  "keeps_session env n \<longleftrightarrow> (\<forall>r. session_of (interfere env r) n = session_of r n)"

lemma start_session:
  assumes "Def r n = Some d" "requireResume r d" "keeps_session env n"
    and "startHeld env r n a f = (res, r')"
  shows "session_of r' n = Some (SessionID d) \<and>
    (\<forall>p. res = Inr p \<longrightarrow> procs r n = Some p \<and> PAlive p \<or> PSession p = '''' \<or> PSession p = SessionID d)"
  using assms(4)
proof (cases rule: startHeld_cases)
  case (attempt d' p err answered t)
  let ?r = "interfere env (r\<lparr>trace := trace r @ t\<rparr>)"
  have d': "d' = d" using attempt(1) assms(1) by simp
  have s: "session_of ?r n = Some (SessionID d)"
    using assms(1,3) by (simp add: keeps_session_def session_of_def)
  show ?thesis
  proof (cases res)
    case (Inl e)
    then have "agents r' = agents ?r" using attempt(5) publish_failure by blast
    then show ?thesis using s Inl Def_cong [of r' ?r] by (simp add: session_of_def)
  next
    case (Inr q)
    from publish_result [OF attempt(5) [unfolded Inr d']] obtain c b where
      c: "Def ?r n = Some c" "PSession q = '''' \<or> PSession q = SessionID d"
        "r' = publish_proc env n b q c ?r" using assms(2) by blast
    then have "SessionID c = SessionID d" using s by (simp add: session_of_def)
    then show ?thesis using c Inr by (auto simp: session_of_def publish_proc_Def published_def_keeps)
  qed
qed (use assms(1) in \<open>auto simp: session_of_def\<close>)


subsection \<open>No second process\<close>

definition is_start :: "effect \<Rightarrow> bool" where
  "is_start e = (case e of EStart _ \<Rightarrow> True | _ \<Rightarrow> False)"

text \<open>What an attempt did: the configurations it used carry the session and the resume flag, and a
  launch is last, comes only when the daemon gave no answer, and does not follow a refusal that
  means the seat is held elsewhere.\<close>

definition same_seat :: "config \<Rightarrow> effect \<Rightarrow> bool" where
  "same_seat cfg e = (case e of
       EBroker c _ _ \<Rightarrow> c = cfg
     | EAdopt c \<Rightarrow> CSessionID c = CSessionID cfg \<and> CRequireResume c = CRequireResume cfg
     | EStart c \<Rightarrow> CSessionID c = CSessionID cfg \<and> CRequireResume c = CRequireResume cfg
     | EReap _ _ \<Rightarrow> True
     | _ \<Rightarrow> False)"

lemma ask_broker_effects:
  "ask_broker env dir cfg a f = (p, err, answered, t) \<Longrightarrow> list_all (same_seat cfg) t \<and> filter is_start t = [] \<and>
     (answered \<longleftrightarrow> usingBroker env \<and> \<not> dir \<and> \<not> brokerFellThrough (snd (startViaBroker env cfg a f))) \<and>
     (\<not> answered \<longrightarrow> p = None \<and> err = None)"
  by (auto simp: ask_broker_def same_seat_def is_start_def split: if_splits prod.splits)

lemma try_adopt_effects:
  "try_adopt env d cfg = (p, err, t) \<Longrightarrow> CSessionID cfg = CSessionID cfg' \<Longrightarrow> CRequireResume cfg = CRequireResume cfg' \<Longrightarrow>
     list_all (same_seat cfg') t \<and> filter is_start t = []"
  by (auto simp: try_adopt_def reapCursorACPDef_def same_seat_def is_start_def Let_def split: if_splits prod.splits)

definition adopt_error :: "environment \<Rightarrow> agent_def \<Rightarrow> config \<Rightarrow> reg_error option" where
  "adopt_error env d cfg = fst (snd (try_adopt env d (cfg\<lparr>CMCPServers := mcpAttach env (CMCPServers cfg)\<rparr>)))"

lemma start_attempt_effects:
  assumes "start_attempt env dir d cfg a f = (p, err, answered, t)"
  shows "list_all (same_seat cfg) t" "length (filter is_start t) \<le> 1"
    and "EStart c \<in> set t \<Longrightarrow> \<not> answered \<and> startProc env c = (p, err) \<and>
       (a \<longrightarrow> adopt_error env d cfg \<notin> {None, Some GrantHeld, Some SeatIdentityMismatch})"
proof -
  obtain p1 e1 an t1 where b: "ask_broker env dir cfg a f = (p1, e1, an, t1)" by (metis prod_cases4)
  define cfg' where "cfg' = (if p1 = None \<and> e1 = None then cfg\<lparr>CMCPServers := mcpAttach env (CMCPServers cfg)\<rparr> else cfg)"
  obtain p2 e2 t2 where ad: "(if p1 = None \<and> e1 = None \<and> a \<and> \<not> an then try_adopt env d cfg' else (p1, e1, [])) = (p2, e2, t2)"
    by (metis prod_cases3)
  obtain p3 e3 where st: "startProc env cfg' = (p3, e3)" by (metis surj_pair)
  have t: "(p, err, answered, t) = (if may_launch env an (a \<and> \<not> an) f p2 e2
      then (p3, e3, an, t1 @ t2 @ [EStart cfg']) else (p2, e2, an, t1 @ t2))"
    using assms [symmetric] by (simp only: start_attempt_def b Let_def prod.case cfg'_def [symmetric] ad st)
  have same: "CSessionID cfg' = CSessionID cfg" "CRequireResume cfg' = CRequireResume cfg" by (simp_all add: cfg'_def)
  have e1: "list_all (same_seat cfg) t1" "filter is_start t1 = []" and ans: "\<not> an \<longrightarrow> p1 = None \<and> e1 = None"
    using ask_broker_effects [OF b] by auto
  have e2: "list_all (same_seat cfg) t2" "filter is_start t2 = []"
    using ad try_adopt_effects [of env d cfg' p2 e2 t2 cfg] same by (auto split: if_splits)
  show "list_all (same_seat cfg) t" using t e1 e2 same by (auto simp: same_seat_def split: if_splits)
  show "length (filter is_start t) \<le> 1" using t e1 e2 by (auto simp: is_start_def split: if_splits)
  show "\<not> answered \<and> startProc env c = (p, err) \<and>
      (a \<longrightarrow> adopt_error env d cfg \<notin> {None, Some GrantHeld, Some SeatIdentityMismatch})" if "EStart c \<in> set t"
  proof -
    have "EStart c \<notin> set t1" "EStart c \<notin> set t2" using e1(2) e2(2) by (auto simp: is_start_def filter_empty_conv)
    with that t have l: "may_launch env an (a \<and> \<not> an) f p2 e2" "c = cfg'" "answered = an" "p = p3" "err = e3"
      by (auto split: if_splits)
    moreover have "adopt_error env d cfg = e2" if a
      using that ad ans l(1) by (auto simp: adopt_error_def cfg'_def may_launch_def)
    ultimately show ?thesis using st by (auto simp: may_launch_def)
  qed
qed

definition trace_quiet :: "environment \<Rightarrow> bool" where
  "trace_quiet env \<longleftrightarrow> (\<forall>r. trace (interfere env r) = trace r)"

lemma publish_trace:
  assumes "publish_start env n d w s p err r = (res, r')"
  shows "\<exists>t. trace r' = trace r @ t \<and> (\<forall>e \<in> set t. \<not> is_start e)"
  using assms by (auto simp: publish_start_def is_start_def split: option.splits if_splits)

text \<open>C7. One writer per session. A start launches at most one process, under the seat's session and with
  the resume flag the seat requires. It launches none when the seat's process is alive, when the
  resume is latched as refused, or when the adopt was refused because the seat is held elsewhere.\<close>

theorem at_most_one_launch:
  assumes "startHeld env r n a f = (res, r')" "trace_quiet env"
  shows "\<exists>t. trace r' = trace r @ t \<and> length (filter is_start t) \<le> 1 \<and>
    (\<forall>c. EStart c \<in> set t \<longrightarrow> (\<exists>d. Def r n = Some d \<and>
       CSessionID c = SessionID d \<and> CRequireResume c = requireResume r d \<and>
       (\<forall>p. procs r n = Some p \<longrightarrow> \<not> PAlive p) \<and> resumeDenied r n = None \<and>
       (a \<longrightarrow> adopt_error env d (registryConfig d (requireResume r d)) \<notin>
          {None, Some GrantHeld, Some SeatIdentityMismatch})))"
  using assms(1)
proof (cases rule: startHeld_cases)
  case (attempt d p err answered t)
  from publish_trace [OF attempt(5)] obtain u where
    u: "trace r' = trace r @ t @ u" "\<forall>e \<in> set u. \<not> is_start e"
    using assms(2) by (auto simp: trace_quiet_def)
  have none: "filter is_start u = []" using u(2) by (simp add: filter_empty_conv)
  have quiet: "EStart c \<notin> set u" for c using u(2) by (force simp: is_start_def)
  note eff = start_attempt_effects [OF attempt(4)]
  have "CSessionID c = SessionID d \<and> CRequireResume c = requireResume r d" if "EStart c \<in> set t" for c
    using eff(1) that by (auto simp: list_all_iff same_seat_def)
  with u(1) none quiet eff attempt(1-3) show ?thesis by (intro exI [of _ "t @ u"]) auto
qed auto

text \<open>A process that is not published is stopped. When a start fails although a process came up (a
  stop is waiting, or the process runs another session than the one required), the last thing the
  start does is to stop that process, and neither the handles nor the definitions change.\<close>

lemma failed_start_leaves_no_process:
  assumes "startHeld env r n a f = (Inl e, r')" "trace_quiet env" "benign env n" "registry_ok r"
    and "Def r n = Some d"
    and "start_attempt env (direct r) d (registryConfig d (requireResume r d)) a f = (Some q, None, answered, t)"
  shows "trace r' = trace r \<or> trace r' = trace r @ t @ [EStop (ProcID q)]"
  using assms(1)
proof (cases rule: startHeld_cases)
  case (attempt d' p err answered' t')
  let ?r = "interfere env (r\<lparr>trace := trace r @ t'\<rparr>)"
  have d': "d' = d" using attempt(1) assms(5) by simp
  have eq: "p = Some q" "err = None" "t' = t" using attempt(4) assms(6) by (auto simp: d')
  have "Def ?r n \<noteq> None" using assms(3,4,5) by (simp add: benign_def)
  then show ?thesis
    using publish_failure [OF attempt(5)] eq assms(2) by (auto simp: trace_quiet_def)
qed auto

text \<open>Stop intent wins. While a stop of the seat waits, no start of it publishes a process: unless
  the seat was running already, the start fails and the handles stay as the others left them.\<close>

lemma stop_intent_wins:
  assumes "startHeld env r n a f = (res, r')" "stops_waiting env"
    and "\<forall>p. procs r n = Some p \<longrightarrow> \<not> PAlive p"
  shows "\<exists>e. res = Inl e \<and> (r' = r \<or> (\<exists>t. procs r' = procs (interfere env (r\<lparr>trace := trace r @ t\<rparr>))))"
  using assms(1)
proof (cases rule: startHeld_cases)
  case (attempt d p err answered t)
  then have "res = Inl Canceled" using assms(2) by (auto simp: publish_start_def)
  with publish_failure attempt(5) show ?thesis by metis
qed (use assms(3) in auto)

subsection \<open>Policy\<close>

text \<open>A policy change is atomic and touches the policy only. It either fails and leaves the registry
  and the file as they were, or it rewrites the five policy fields with plan providers of the
  catalog and persists them.\<close>

lemma policy_is_atomic:
  assumes "registry_ok r" "SetSeatPlanPolicy r n prefer allowed excluded mi np = (res, r')"
  shows "(res \<noteq> None \<longrightarrow> r' = r) \<and>
    (res = None \<longrightarrow> (\<exists>d al ex. Def r n = Some d \<and> disk r' = agents r' \<and>
       Def r' = (Def r)(n \<mapsto> d\<lparr>PreferProvider := PlanProvider prefer, AllowedProviders := al, ExcludeProviders := ex,
         HostMayInterrupt := mi, HostNeverPark := np\<rparr>) \<and>
       (\<forall>ps \<in> {al, ex}. \<forall>xs. ps = Some xs \<longrightarrow> set xs \<subseteq> set plan_providers) \<and>
       (allowed = None \<longleftrightarrow> al = None) \<and> (excluded = None \<longleftrightarrow> ex = None)))"
proof -
  have norm: "set xs \<subseteq> set plan_providers" if "normalise ps = Inr (Some xs)" for ps xs
    using that by (auto simp: normalise_def list_all_iff split: option.splits if_splits)
  have nil: "ps = None \<longleftrightarrow> q = None" if "normalise ps = Inr q" for ps q
    using that by (auto simp: normalise_def split: option.splits if_splits)
  show ?thesis
  proof (cases res)
    case None
    then obtain d al ex where r: "Def r n = Some d" "normalise allowed = Inr al" "normalise excluded = Inr ex"
      "save (set_def n (d\<lparr>PreferProvider := PlanProvider prefer, AllowedProviders := al, ExcludeProviders := ex,
         HostMayInterrupt := mi, HostNeverPark := np\<rparr>) r) = (None, r')"
      using assms(2) by (auto simp: SetSeatPlanPolicy_def Let_def split: option.splits if_splits sum.splits prod.splits)
    note sv = save_frame [OF r(4)]
    have "Def r' = (Def r)(n \<mapsto> d\<lparr>PreferProvider := PlanProvider prefer, AllowedProviders := al, ExcludeProviders := ex,
         HostMayInterrupt := mi, HostNeverPark := np\<rparr>)" "disk r' = agents r'"
      using sv Def_cong [of r'] by (auto simp: fun_eq_iff)
    then show ?thesis using None r(1) norm [of allowed] norm [of excluded] nil [OF r(2)] nil [OF r(3)] r(2,3) by blast
  next
    case (Some e)
    then show ?thesis
      using assms(2) set_def_undo [OF _ assms(1), of n]
      by (auto simp: SetSeatPlanPolicy_def Let_def save_def split: option.splits if_splits sum.splits)
  qed
qed

subsection \<open>A concrete seat\<close>

definition demo_def :: agent_def where
  "demo_def = zero_def\<lparr>Name := ''a'', WorkDir := ''/w'', SessionID := ''s1'', Materialized := True\<rparr>"

definition demo_registry :: registry where
  "demo_registry = NewRegistry [(''a'', demo_def)]"

definition demo_proc :: proc where
  "demo_proc = \<lparr>ProcID = 7, PAlive = True, PSession = ''s2'', PProvider = ''claude'', PModel = '''', PConnectURL = '''', PPID = 42\<rparr>"

text \<open>Providers that answer a start with a process of another session.\<close>

definition demo_env :: environment where
  "demo_env = \<lparr>ctx_err = None, ctx_err_later = None, ensureOwned = (\<lambda>_. None), usingBroker = False,
     startViaBroker = (\<lambda>_ _ _. (None, Some NoBroker)), mcpAttach = id, startProc = (\<lambda>_. (Some demo_proc, None)),
     adoptProc = (\<lambda>_. (None, Some NoSessionWindow)), sessionExists = (\<lambda>_ _. False), interfere = id,
     stops_waiting = False, begin_err = None\<rparr>"

lemma demo_registry_simps [simp]:
  "Def demo_registry ''a'' = Some demo_def" "procs demo_registry n = None" "resumeDenied demo_registry n = None"
  "direct demo_registry = False" "trace demo_registry = []" "freshSession demo_registry n = None"
  "agents demo_registry = [(''a'', demo_def)]"
  by (simp_all add: demo_registry_def NewRegistry_def Def_def demo_def_def)

lemma demo_def_simps [simp]: "Name demo_def = ''a''" "SessionID demo_def = ''s1''" "Materialized demo_def" "Provider demo_def = ''''"
  by (simp_all add: demo_def_def zero_def_def)

lemma demo_env_simps [simp]:
  "ctx_err demo_env = None" "usingBroker demo_env = False" "startProc demo_env c = (Some demo_proc, None)"
  "interfere demo_env = id" "stops_waiting demo_env = False" "mcpAttach demo_env = id"
  by (simp_all add: demo_env_def)

lemma demo_ok [simp]: "registry_ok demo_registry" "benign demo_env n" "trace_quiet demo_env" "keeps_session demo_env n"
  by (auto simp: registry_ok_def benign_def trace_quiet_def keeps_session_def Def_def)

lemma demo_resume [simp]: "requireResume demo_registry demo_def"
  by (simp add: requireResume_def)

lemma demo_attempt:
  "start_attempt demo_env False demo_def (registryConfig demo_def True) False False =
     (Some demo_proc, None, False, [EStart (registryConfig demo_def True)])"
  by (simp add: start_attempt_def ask_broker_def may_launch_def Let_def registryConfig_def)

text \<open>The process of another session is stopped and refused.\<close>

lemma demo_start: "startHeld demo_env demo_registry ''a'' False False =
    (Inl RemintRefused, demo_registry\<lparr>trace := [EStart (registryConfig demo_def True), EStop 7]\<rparr>)"
  by (simp add: startHeld_def Let_def demo_attempt publish_start_def demo_proc_def log_def)

theorem registry_invariant_witness:
  "registry_ok (foldl reg_apply demo_registry
     [OEnsure ''u'' ''b'' ''/w'' ''m'' ''a'' True, OStart demo_env ''a'' False False, OStop demo_env ''b'' RemoveDiscard])"
  by (rule registry_invariant) simp_all


theorem at_most_one_launch_witness:
  "\<exists>t. trace (snd (startHeld demo_env demo_registry ''a'' False False)) = t \<and> length (filter is_start t) \<le> 1"
  using at_most_one_launch [OF demo_start] by (auto simp: demo_start)

theorem failed_start_leaves_no_process_witness:
  "trace (snd (startHeld demo_env demo_registry ''a'' False False)) = [EStart (registryConfig demo_def True), EStop 7]"
  using failed_start_leaves_no_process [OF demo_start, of demo_def demo_proc False "[EStart (registryConfig demo_def True)]"]
  by (simp add: demo_attempt demo_start)

lemma stop_intent_wins_witness:
  "\<exists>e. fst (startHeld (demo_env\<lparr>stops_waiting := True\<rparr>) demo_registry ''a'' False False) = Inl e"
  using stop_intent_wins [of "demo_env\<lparr>stops_waiting := True\<rparr>" demo_registry "''a''" False False,
      OF surjective_pairing] by auto

lemma policy_is_atomic_witness:
  "(\<exists>e. SetSeatPlanPolicy demo_registry ''a'' ''nope'' None None True False = (Some e, demo_registry)) \<and>
   disk (snd (SetSeatPlanPolicy demo_registry ''a'' ''anthropic'' (Some [''xai-oauth'']) None True False)) =
   agents (snd (SetSeatPlanPolicy demo_registry ''a'' ''anthropic'' (Some [''xai-oauth'']) None True False))"
proof -
  have ne: "fst (SetSeatPlanPolicy demo_registry ''a'' ''nope'' None None True False) \<noteq> None"
    by (simp add: SetSeatPlanPolicy_def PlanProvider_def plan_providers_def ModelCatalog_def plan_row_def provider_defs)
  have ok: "fst (SetSeatPlanPolicy demo_registry ''a'' ''anthropic'' (Some [''xai-oauth'']) None True False) = None"
    by (simp add: SetSeatPlanPolicy_def normalise_def PlanProvider_def plan_providers_def ModelCatalog_def plan_row_def
        provider_defs Let_def save_def demo_registry_def NewRegistry_def set_def_def Def_def)
  note once = policy_is_atomic [OF demo_ok(1) surjective_pairing]
  from once [THEN conjunct1, rule_format, OF ne] once [THEN conjunct2, rule_format, OF ok] ne show ?thesis
    by (metis option.exhaust surjective_pairing)
qed

end
