(* ===== verification/Reconcile.thy ===== *)
theory Reconcile
  imports ControlReads RegistryProps
begin

text \<open>
  Reconciliation (src/controlplane/reconcile.go): the broker reads the desired seats, grants and
  control intents from its control file and applies them to the registry, publishing a status per
  seat and an outcome per operation. A pass is a function on the file and the registry; the
  environment of each registry call, the new session identities and the context are arguments.
\<close>

subsection \<open>A pass\<close>

datatype rec_error =
    RDb db_error | RReg reg_error | RUnknownProvider | RReminted | RNilDefinition | RContext | RNotOwner | RClosed | RClaims

record world =
  env_of :: "string \<Rightarrow> environment"
  uuid_of :: "string \<Rightarrow> string"
  ctx_ended :: "string \<Rightarrow> bool"
  ctx_ended_first :: bool

definition zero_status :: seat_status where
  "zero_status = \<lparr>StSeat = '''', StSessionID = '''', StGeneration = 0, StRevision = 0, RuntimeID = '''', StState = '''',
     StatusJSON = ''''\<rparr>"

text \<open>A missing key of a Go map of structs reads as the zero value.\<close>

definition status_at :: "(string \<rightharpoonup> seat_status) \<Rightarrow> string \<Rightarrow> seat_status" where
  "status_at m seat = (case m seat of None \<Rightarrow> zero_status | Some s \<Rightarrow> s)"

definition parseProvider :: "string \<Rightarrow> rec_error + provider" where
  "parseProvider s = (if s \<in> set [ProviderClaude, ProviderCodex, ProviderGrok, ProviderCursor] then Inr s
     else Inl RUnknownProvider)"

definition statusBody :: "desired_seat \<Rightarrow> string" where
  "statusBody seat = json_marshal [(''provider'', DProvider seat), (''model'', DModel seat)]"

definition alignDef :: "world \<Rightarrow> registry \<Rightarrow> desired_seat \<Rightarrow> (rec_error + string) \<times> registry" where
  "alignDef w r seat =
     (case parseProvider (DProvider seat) of
        Inl e \<Rightarrow> (Inl e, r)
      | Inr p \<Rightarrow>
          (case (case Def r (DSeat seat) of
                   Some d \<Rightarrow> (Inr d, r)
                 | None \<Rightarrow> EnsureAgent r (uuid_of w (DSeat seat)) (DSeat seat) (DWorkDir seat) (DModel seat) False) of
             (Inl e, r1) \<Rightarrow> (Inl (RReg e), r1)
           | (Inr d, r1) \<Rightarrow>
               let d' = d\<lparr>Provider := p, Model := DModel seat, WorkDir := DWorkDir seat, AutoStart := False\<rparr> in
               (case Register r1 d' of
                  (Some e, r2) \<Rightarrow> (Inl (RReg e), r2)
                | (None, r2) \<Rightarrow> (Inr (SessionID d'), r2))))"

definition publish_status ::
  "database \<Rightarrow> registry \<Rightarrow> seat_status \<Rightarrow> (rec_error + seat_status) \<times> database \<times> registry" where
  "publish_status d r s =
     (case PublishSeatStatus (Some d) s of Inl e \<Rightarrow> (Inl (RDb e), d, r) | Inr d' \<Rightarrow> (Inr s, d', r))"

text \<open>A changed generation: the running process is stopped and the definition removed.\<close>

definition retire :: "world \<Rightarrow> registry \<Rightarrow> string \<Rightarrow> reg_error option \<times> registry" where
  "retire w r seat =
     (let env = env_of w seat;
          r1 = (case Get r seat of
                  Some p \<Rightarrow> if PAlive p then Stop env r seat else r
                | None \<Rightarrow> r)
      in if Def r1 seat \<noteq> None then Remove env r1 seat else (None, r1))"

text \<open>Bringing the seat up: the state and the runtime, unless the launch replaced the session.\<close>

definition bring_up :: "world \<Rightarrow> registry \<Rightarrow> string \<Rightarrow> (rec_error + string \<times> string) \<times> registry" where
  "bring_up w r seat =
     (if (case Get r seat of Some p \<Rightarrow> PAlive p | None \<Rightarrow> False)
      then (Inr (''running'', PSession (the (Get r seat))), r)
      else (case Def r seat of
          None \<Rightarrow> (Inl RNilDefinition, r)
        | Some before \<Rightarrow>
            (case Launch (env_of w seat) r seat of
               (res, r') \<Rightarrow>
                 if session_of r' seat \<noteq> Some (SessionID before) then (Inl RReminted, r')
                 else (case res of
                     Inl _ \<Rightarrow> (Inr (''reattach_refused'', SessionID before), r')
                   | Inr p \<Rightarrow> (Inr (''running'', PSession p), r')))))"

definition status_for :: "desired_seat \<Rightarrow> string \<Rightarrow> string \<Rightarrow> string \<Rightarrow> seat_status" where
  "status_for seat session runtime state = \<lparr>StSeat = DSeat seat, StSessionID = session, StGeneration = DGeneration seat,
     StRevision = DRevision seat, RuntimeID = runtime, StState = state, StatusJSON = statusBody seat\<rparr>"

text \<open>The granted part of \<open>reconcileSeat\<close>, after a changed generation was retired.\<close>

definition settle_seat ::
  "world \<Rightarrow> database \<Rightarrow> registry \<Rightarrow> desired_seat \<Rightarrow> (rec_error + seat_status) \<times> database \<times> registry" where
  "settle_seat w d r seat =
     (case alignDef w r seat of
        (Inl e, r1) \<Rightarrow> (Inl e, d, r1)
      | (Inr sessionID, r1) \<Rightarrow>
          (case bring_up w r1 (DSeat seat) of
             (Inl e, r2) \<Rightarrow> (Inl e, d, r2)
           | (Inr (state, runtime), r2) \<Rightarrow> publish_status d r2 (status_for seat sessionID runtime state)))"

definition reconcileSeat ::
  "world \<Rightarrow> database \<Rightarrow> registry \<Rightarrow> desired_seat \<Rightarrow> bool \<Rightarrow> bool \<Rightarrow> seat_status \<Rightarrow>
     (rec_error + seat_status) \<times> database \<times> registry" where
  "reconcileSeat w d r seat granted stoodDown prev =
     (if \<not> granted \<or> stoodDown then
        publish_status d r (status_for seat (StSessionID prev) (RuntimeID prev) ''ungranted'')
      else if StSeat prev \<noteq> '''' \<and> StGeneration prev \<noteq> DGeneration seat then
        (case retire w r (DSeat seat) of
           (Some e, r1) \<Rightarrow> (Inl (RReg e), d, r1)
         | (None, r1) \<Rightarrow> settle_seat w d r1 seat)
      else settle_seat w d r seat)"

definition outcome_for :: "control_intent \<Rightarrow> string \<Rightarrow> string \<Rightarrow> control_outcome" where
  "outcome_for i outcome reason = \<lparr>OutOperationID = OperationID i, OutSeat = ISeat i, OutGeneration = IGeneration i,
     Outcome = outcome, OutReason = reason\<rparr>"

definition publish_outcome ::
  "database \<Rightarrow> registry \<Rightarrow> control_outcome \<Rightarrow> (rec_error + control_outcome) \<times> database \<times> registry" where
  "publish_outcome d r c =
     (case PublishControlOutcome (Some d) c of Inl e \<Rightarrow> (Inl (RDb e), d, r) | Inr d' \<Rightarrow> (Inr c, d', r))"

definition reconcileIntent ::
  "world \<Rightarrow> database \<Rightarrow> registry \<Rightarrow> control_intent \<Rightarrow> seat_status \<Rightarrow>
     (rec_error + control_outcome) \<times> database \<times> registry" where
  "reconcileIntent w d r i status =
     (if StGeneration status \<noteq> IGeneration i \<or> StState status = '''' then
        publish_outcome d r (outcome_for i ''stale'' ''generation'')
      else if IKind i = ''interrupt'' then publish_outcome d r (outcome_for i ''accepted'' ''recorded'')
      else if IKind i = ''stop'' then
        (let r1 = Stop (env_of w (ISeat i)) r (ISeat i) in
         case PublishSeatStatus (Some d) (status\<lparr>StState := ''stopped''\<rparr>) of
           Inl e \<Rightarrow> (Inl (RDb e), d, r1)
         | Inr d1 \<Rightarrow> publish_outcome d1 r1 (outcome_for i ''accepted'' ''stopped''))
      else if IKind i = ''external'' then publish_outcome d r (outcome_for i ''uncertain'' ''external effect'')
      else publish_outcome d r (outcome_for i ''rejected'' ''unknown kind''))"

text \<open>The two loops of a pass.\<close>

fun reconcile_seats ::
  "world \<Rightarrow> (string \<Rightarrow> bool) \<Rightarrow> (string \<Rightarrow> bool) \<Rightarrow> (string \<rightharpoonup> seat_status) \<Rightarrow> database \<Rightarrow> registry \<Rightarrow> desired_seat list \<Rightarrow>
     (rec_error + (string \<rightharpoonup> seat_status)) \<times> database \<times> registry" where
  "reconcile_seats w granted stoodDown statuses d r [] = (Inr statuses, d, r)"
| "reconcile_seats w granted stoodDown statuses d r (seat # seats) =
     (if ctx_ended w (DSeat seat) then (Inl RContext, d, r)
      else (case reconcileSeat w d r seat (granted (DSeat seat)) (stoodDown (DSeat seat)) (status_at statuses (DSeat seat)) of
          (Inl e, d1, r1) \<Rightarrow> (Inl e, d1, r1)
        | (Inr status, d1, r1) \<Rightarrow>
            reconcile_seats w granted stoodDown (statuses(DSeat seat \<mapsto> status)) d1 r1 seats))"

fun reconcile_intents ::
  "world \<Rightarrow> (string \<rightharpoonup> seat_status) \<Rightarrow> (string \<rightharpoonup> control_outcome) \<Rightarrow> database \<Rightarrow> registry \<Rightarrow> control_intent list \<Rightarrow>
     rec_error option \<times> database \<times> registry" where
  "reconcile_intents w statuses outcomes d r [] = (None, d, r)"
| "reconcile_intents w statuses outcomes d r (i # is) =
     (if outcomes (OperationID i) \<noteq> None then reconcile_intents w statuses outcomes d r is
      else (case reconcileIntent w d r i (status_at statuses (ISeat i)) of
          (Inl e, d1, r1) \<Rightarrow> (Some e, d1, r1)
        | (Inr outcome, d1, r1) \<Rightarrow>
            reconcile_intents w statuses (outcomes(OperationID i \<mapsto> outcome)) d1 r1 is))"

definition reconcile ::
  "world \<Rightarrow> database \<Rightarrow> registry \<Rightarrow> (string \<Rightarrow> bool) \<Rightarrow> rec_error option \<times> database \<times> registry" where
  "reconcile w d r stoodDown =
     (if ctx_ended_first w then (Some RContext, d, r)
      else (case and_then (DesiredSeats d) (\<lambda>desired. and_then (Grants d) (\<lambda>gs. and_then (SeatStatuses d) (\<lambda>statuses.
              and_then (ControlIntents d) (\<lambda>intents. and_then (ControlOutcomes d) (\<lambda>outcomes.
                Inr (desired, gs, statuses, intents, outcomes)))))) of
          Inl e \<Rightarrow> (Some (RDb e), d, r)
        | Inr (desired, gs, statuses, intents, outcomes) \<Rightarrow>
            (case reconcile_seats w (\<lambda>s. s \<in> set (map GSeat gs)) stoodDown statuses d r desired of
               (Inl e, d1, r1) \<Rightarrow> (Some e, d1, r1)
             | (Inr statuses', d1, r1) \<Rightarrow> reconcile_intents w statuses' outcomes d1 r1 intents)))"

text \<open>\<open>ReconcileFile\<close>: only the file this broker opened is reconciled; \<open>owned\<close> is that file and its path,
  with \<open>None\<close> inside once it is closed, and \<open>claims\<close> what reading the claims file returns.\<close>

definition ReconcileFile ::
  "world \<Rightarrow> (database option \<times> string) option \<Rightarrow> string \<Rightarrow> (string \<Rightarrow> bool) option \<Rightarrow> registry \<Rightarrow>
     rec_error option \<times> database option \<times> registry" where
  "ReconcileFile w owned path claims r =
     (case owned of
        None \<Rightarrow> (Some RNotOwner, None, r)
      | Some (db, opened) \<Rightarrow>
          if opened \<noteq> path then (Some RNotOwner, db, r)
          else (case claims of None \<Rightarrow> (Some RClaims, db, r)
            | Some stoodDown \<Rightarrow>
                if ctx_ended_first w then (Some RContext, db, r)
                else (case db of None \<Rightarrow> (Some RClosed, None, r)
                  | Some d \<Rightarrow> (case reconcile w d r stoodDown of (e, d', r') \<Rightarrow> (e, Some d', r')))))"

subsection \<open>Statuses are never rejected\<close>

text \<open>The body is JSON, whatever bytes the provider and model names hold, without a credential's name.\<close>

lemma status_body_accepted: "rejectSecrets (statusBody seat) = None"
proof -
  have clean: "utf8_clean ''provider'' = ''provider''" "utf8_clean ''model'' = ''model''"
    by (simp_all add: utf8_clean.simps)
  have "json_unmarshal (statusBody seat) =
      Some (JObj [(''provider'', JStr (utf8_clean (DProvider seat))), (''model'', JStr (utf8_clean (DModel seat)))])"
    by (simp add: statusBody_def unmarshal_marshal decoded_def clean jobject_def)
  moreover have "toLower ''provider'' = ''provider''" "toLower ''model'' = ''model''"
    by (simp_all add: lower_char_def starts_with_def)
  ultimately show ?thesis by (simp add: rejectSecrets_def secret_names_def)
qed

lemma status_published:
  assumes "\<not> blank (DSeat seat)" "0 \<le> DGeneration seat" "0 \<le> DRevision seat" "\<not> blank state" "\<not> faults d StatusTable"
  shows "publish_status d r (status_for seat session runtime state) =
    (Inr (status_for seat session runtime state),
     put_row StatusTable 1 (status_row (status_for seat session runtime state)) d, r)"
proof -
  have "statusBody seat \<noteq> []" by (simp add: statusBody_def json_marshal_def)
  then show ?thesis
    using assms status_body_accepted [of seat]
    by (simp add: publish_status_def PublishSeatStatus_def status_for_def ExecOwned_def upsert_into_def)
qed

lemma pass_states: "\<not> blank ''running''" "\<not> blank ''ungranted''" "\<not> blank ''reattach_refused''"
  by (simp_all add: blank_eval)

text \<open>A status is never refused. For a desired seat that was accepted into the table, and whatever
  bytes its provider and model names hold, the status a pass publishes is accepted in each of its
  states: only a failing statement can stop it.\<close>

lemma every_status_is_published:
  assumes "validateDesired seat = None" "state \<in> {''running'', ''ungranted'', ''reattach_refused''}"
    and "\<not> faults d StatusTable"
  shows "publish_status d r (status_for seat session runtime state) =
    (Inr (status_for seat session runtime state),
     put_row StatusTable 1 (status_row (status_for seat session runtime state)) d, r)"
  by (rule status_published) (use assms pass_states in \<open>auto simp: validateDesired_def split: if_splits\<close>)

subsection \<open>What a pass may do to the registry\<close>

lemma publish_status_cases:
  assumes "publish_status d r s = (res, d', r')"
  obtains (refused) e where "res = Inl e" "d' = d" "r' = r"
  | (published) b where "res = Inr s" "r' = r" "d' = put_row StatusTable 1 (status_row (s\<lparr>StatusJSON := b\<rparr>)) d"
  using assms by (auto simp: publish_status_def dest: publish_control(4) split: sum.splits)

lemma publish_outcome_cases:
  assumes "publish_outcome d r c = (res, d', r')"
  obtains (refused) e where "res = Inl e" "d' = d" "r' = r"
  | (published) "res = Inr c" "r' = r" "d' = put_row OutcomeTable 1 (outcome_row c) d"
  using assms by (auto simp: publish_outcome_def dest: publish_control(5) split: sum.splits)

text \<open>The verdict on an operation.\<close>

definition verdict :: "control_intent \<Rightarrow> seat_status \<Rightarrow> string" where
  "verdict i st = (if StGeneration st \<noteq> IGeneration i \<or> StState st = '''' then ''stale''
     else if IKind i \<in> {''interrupt'', ''stop''} then ''accepted''
     else if IKind i = ''external'' then ''uncertain'' else ''rejected'')"

text \<open>Only a stop of the current generation acts. An operation of another generation is answered as
  stale and nothing is done; of the operations of the current generation only a stop touches the
  registry, and what it does is to stop its seat.\<close>

lemma only_a_current_stop_acts:
  assumes "reconcileIntent w d r i st = (res, d', r')"
  shows "(r' = r \<or> IKind i = ''stop'' \<and> StGeneration st = IGeneration i \<and> StState st \<noteq> '''' \<and>
      r' = Stop (env_of w (ISeat i)) r (ISeat i)) \<and>
    (\<forall>c. res = Inr c \<longrightarrow> Outcome c = verdict i st \<and> OutOperationID c = OperationID i)"
proof -
  have pub: "r' = r0 \<and> (\<forall>c. res = Inr c \<longrightarrow> Outcome c = v \<and> OutOperationID c = OperationID i)"
    if "publish_outcome d0 r0 (outcome_for i v x) = (res, d', r')" for d0 r0 v x
    using that by (auto elim!: publish_outcome_cases simp: outcome_for_def)
  show ?thesis
  proof (cases "IKind i = ''stop'' \<and> StGeneration st = IGeneration i \<and> StState st \<noteq> ''''")
    case True
    note run = assms [unfolded reconcileIntent_def Let_def]
    let ?r = "Stop (env_of w (ISeat i)) r (ISeat i)"
    show ?thesis
    proof (cases "PublishSeatStatus (Some d) (st\<lparr>StState := ''stopped''\<rparr>)")
      case (Inl e)
      then show ?thesis using run True by auto
    next
      case (Inr d1)
      then have "publish_outcome d1 ?r (outcome_for i ''accepted'' ''stopped'') = (res, d', r')" using run True by simp
      moreover have "verdict i st = ''accepted''" using True by (simp add: verdict_def)
      ultimately show ?thesis using pub True by metis
    qed
  next
    case False
    then have "\<exists>reason. publish_outcome d r (outcome_for i (verdict i st) reason) = (res, d', r')"
      using assms by (auto simp: reconcileIntent_def verdict_def split: if_splits)
    then show ?thesis using pub by blast
  qed
qed

lemma register_session:
  assumes "Name d = n" "Register r d = (None, r')"
  shows "session_of r' n = Some (SessionID d)"
  using assms by (auto simp: Register_def registerLocked_def Let_def save_def session_of_def split: if_splits option.splits)

lemma register_same:
  assumes "Def r (Name d) = Some old" "SessionID old = SessionID d" "SessionID d \<noteq> ''''" "\<not> busy r (Name d)" "disk_ok r"
  shows "Register r d = (None, (set_def (Name d) d r)\<lparr>disk := agents (set_def (Name d) d r)\<rparr>)"
  using assms by (simp add: Register_def registerLocked_def Let_def save_def)

lemma align_session:
  assumes "registry_ok r" "alignDef w r seat = (Inr sid, r')"
  shows "session_of r' (DSeat seat) = Some sid"
    and "Def r (DSeat seat) = Some def \<Longrightarrow> sid = SessionID def"
proof -
  let ?n = "DSeat seat"
  let ?a = "case Def r ?n of Some d \<Rightarrow> (Inr d, r)
    | None \<Rightarrow> EnsureAgent r (uuid_of w ?n) ?n (DWorkDir seat) (DModel seat) False"
  from assms(2) obtain p d r1 where p: "parseProvider (DProvider seat) = Inr p" and a: "?a = (Inr d, r1)"
    and reg: "Register r1 (d\<lparr>Provider := p, Model := DModel seat, WorkDir := DWorkDir seat, AutoStart := False\<rparr>) = (None, r')"
    and sid: "sid = SessionID d"
    by (auto simp: alignDef_def Let_def split: sum.splits prod.splits option.splits)
  have "Name d = ?n"
    using a known_def [OF assms(1), of ?n]
    by (auto simp: EnsureAgent_def EnsureAgentWithParent_def Let_def split: option.splits prod.splits)
  with reg sid show "session_of r' ?n = Some sid"
    using register_session [of "d\<lparr>Provider := p, Model := DModel seat, WorkDir := DWorkDir seat, AutoStart := False\<rparr>" ?n r1 r']
    by simp
  show "Def r ?n = Some def \<Longrightarrow> sid = SessionID def" using a sid by simp
qed

lemma bring_up_session:
  assumes "bring_up w r n = (Inr (state, runtime), r')" "session_of r n = Some sid"
  shows "session_of r' n = Some sid"
  using assms by (auto simp: bring_up_def session_of_def split: if_splits option.splits prod.splits sum.splits)

lemma settle_seat_session:
  assumes "registry_ok r" "settle_seat w d r seat = (Inr st, d', r')"
  shows "session_of r' (DSeat seat) = Some (StSessionID st)"
    and "Def r (DSeat seat) = Some def \<Longrightarrow> StSessionID st = SessionID def"
proof -
  from assms(2) obtain sid r1 state runtime r2 where
    a: "alignDef w r seat = (Inr sid, r1)" "bring_up w r1 (DSeat seat) = (Inr (state, runtime), r2)"
      "publish_status d r2 (status_for seat sid runtime state) = (Inr st, d', r')"
    by (auto simp: settle_seat_def split: sum.splits prod.splits)
  have st: "st = status_for seat sid runtime state" "r' = r2"
    using a(3) by (auto elim!: publish_status_cases)
  show "session_of r' (DSeat seat) = Some (StSessionID st)"
    using bring_up_session [OF a(2) align_session(1) [OF assms(1) a(1)]] st by (simp add: status_for_def)
  show "Def r (DSeat seat) = Some def \<Longrightarrow> StSessionID st = SessionID def"
    using align_session(2) [OF assms(1) a(1)] st by (simp add: status_for_def)
qed

text \<open>An unchanged generation mints no session. When a granted seat is reconciled at the generation
  it already has and the pass reports a status, the seat still has the session it had, and the
  status names it; a seat without a grant, or stood down, leaves the registry untouched.\<close>

lemma unchanged_generation_keeps_session:
  assumes "registry_ok r" "reconcileSeat w d r seat granted stoodDown prev = (Inr st, d', r')"
  shows "(\<not> granted \<or> stoodDown \<longrightarrow> r' = r \<and> StSessionID st = StSessionID prev) \<and>
    (granted \<and> \<not> stoodDown \<longrightarrow> session_of r' (DSeat seat) = Some (StSessionID st) \<or> StGeneration prev \<noteq> DGeneration seat) \<and>
    (granted \<and> \<not> stoodDown \<and> (StSeat prev = '''' \<or> StGeneration prev = DGeneration seat) \<longrightarrow>
      (\<forall>def. Def r (DSeat seat) = Some def \<longrightarrow> StSessionID st = SessionID def \<and>
         session_of r' (DSeat seat) = Some (SessionID def)))"
proof (cases "granted \<and> \<not> stoodDown")
  case False
  then have "publish_status d r (status_for seat (StSessionID prev) (RuntimeID prev) ''ungranted'') = (Inr st, d', r')"
    using assms(2) by (simp add: reconcileSeat_def split: if_splits)
  then show ?thesis using False by (auto elim!: publish_status_cases simp: status_for_def)
next
  case True
  show ?thesis
  proof (cases "StSeat prev = '''' \<or> StGeneration prev = DGeneration seat")
    case same: True
    then have "settle_seat w d r seat = (Inr st, d', r')" using True assms(2) by (auto simp: reconcileSeat_def)
    with settle_seat_session [OF assms(1) this] True same show ?thesis by auto
  qed (use True in auto)
qed

text \<open>The generation fence does not hold across a pass without a grant. A pass over a seat that is not
  granted already records the seat's new generation, so when the grant arrives the next pass sees
  an unchanged generation: the process of the old generation is reported as the running runtime
  of the new one, and nothing is stopped.\<close>

lemma ungranted_pass_loses_generation_fence:
  assumes "reconcileSeat w d r seat False stoodDown prev = (Inr st1, d1, r1)"
    and "reconcileSeat w d1 r1 seat True False st1 = (Inr st2, d2, r2)"
    and "procs r (DSeat seat) = Some p" "PAlive p" "registry_ok r"
  shows "r1 = r \<and> StGeneration st2 = DGeneration seat \<and> RuntimeID st2 = PSession p \<and> StState st2 = ''running'' \<and>
    procs r2 = procs r \<and> trace r2 = trace r"
proof -
  from assms(1) have st1: "st1 = status_for seat (StSessionID prev) (RuntimeID prev) ''ungranted''" "r1 = r"
    by (auto simp: reconcileSeat_def elim!: publish_status_cases)
  with assms(2) have "settle_seat w d1 r seat = (Inr st2, d2, r2)"
    by (auto simp: reconcileSeat_def status_for_def)
  then obtain sid r3 state runtime r4 where
    a: "alignDef w r seat = (Inr sid, r3)" "bring_up w r3 (DSeat seat) = (Inr (state, runtime), r4)"
      "publish_status d1 r4 (status_for seat sid runtime state) = (Inr st2, d2, r2)"
    by (auto simp: settle_seat_def split: sum.splits prod.splits)
  obtain def where "Def r (DSeat seat) = Some def"
    using assms(3,5) by (cases "Def r (DSeat seat)") (auto simp: registry_ok_def)
  with a(1) have r3: "procs r3 = procs r" "trace r3 = trace r"
    by (auto simp: alignDef_def Let_def Register_def registerLocked_def save_def
        split: sum.splits prod.splits option.splits if_splits)
  then have "r4 = r3" "state = ''running''" "runtime = PSession p"
    using a(2) assms(3,4) by (auto simp: bring_up_def Get_def)
  with a(3) r3 st1(2) show ?thesis by (auto elim!: publish_status_cases simp: status_for_def)
qed

subsection \<open>Operations are applied once\<close>

lemma option_ext: "(\<And>y. a = Some y \<longleftrightarrow> b = Some y) \<Longrightarrow> a = b"
  by (cases a; cases b) auto

lemma fold_keyed:
  "distinct (map k xs) \<Longrightarrow>
     fold (\<lambda>x m. m(k x \<mapsto> x)) xs m0 a = (case find (\<lambda>x. k x = a) xs of Some x \<Rightarrow> Some x | None \<Rightarrow> m0 a)"
proof (induction xs arbitrary: m0)
  case (Cons x xs)
  have "k y \<noteq> k x" if "y \<in> set xs" for y
    using Cons.prems that by (metis distinct.simps(2) image_eqI list.simps(9) set_map)
  then have "find (\<lambda>y. k y = k x) xs = None" by (simp add: find_None_iff)
  then show ?case using Cons by (auto split: option.split)
qed simp

lemma fold_keyed_iff:
  assumes "distinct (map k xs)"
  shows "fold (\<lambda>x m. m(k x \<mapsto> x)) xs Map.empty a = Some y \<longleftrightarrow> y \<in> set xs \<and> k y = a"
proof -
  have "find (\<lambda>x. k x = a) xs = Some y \<longleftrightarrow> y \<in> set xs \<and> k y = a"
    using assms by (induction xs) auto
  then show ?thesis using fold_keyed [OF assms, of Map.empty a] by (auto split: option.splits)
qed

text \<open>The map of outcomes after one was published.\<close>

lemma outcomes_after_publish:
  assumes "tables_ok d" "ControlOutcomes d = Inr os"
  shows "ControlOutcomes (put_row OutcomeTable 1 (outcome_row c) d) = Inr (os(OutOperationID c \<mapsto> c))"
proof -
  let ?d = "put_row OutcomeTable 1 (outcome_row c) d" and ?m = "\<lambda>c out. out(OutOperationID c \<mapsto> c)"
  have key: "take 1 (outcome_row x) = [SqlText (OutOperationID x)]" for x by (simp add: outcome_row_def)
  from assms(1) have ok: "set (control d OutcomeTable) \<subseteq> range outcome_row" "distinct (map (take 1) (control d OutcomeTable))"
    by (simp_all only: tables_ok_def table_ok_def)
  have f: "\<not> faults d OutcomeTable" "\<not> faults ?d OutcomeTable"
    using assms(2) by (auto simp: ControlOutcomes_def select_all_def put_row_def split: if_splits)
  from outcome_scan.read_after_put [OF ok, of c, unfolded key] obtain xs xs' where
    r: "scan_rows (scanOutcome outcome_cols) (sort_key (take 1) (control d OutcomeTable)) = Inr xs"
      "scan_rows (scanOutcome outcome_cols) (sort_key (take 1) (control ?d OutcomeTable)) = Inr xs'"
    and s: "set xs' = insert c {y \<in> set xs. [SqlText (OutOperationID y)] \<noteq> [SqlText (OutOperationID c)]}"
      "distinct (map (\<lambda>x. [SqlText (OutOperationID x)]) xs')" by blast
  from outcome_scan.read_all [OF ok, unfolded key] r(1) have "distinct (map (\<lambda>x. [SqlText (OutOperationID x)]) xs)" by auto
  with s(2) have dist: "distinct (map OutOperationID xs)" "distinct (map OutOperationID xs')"
    by (simp_all add: distinct_map inj_on_def)
  have os: "os = fold ?m xs Map.empty" using assms(2) r(1) f(1) by (simp add: ControlOutcomes_def select_all_def)
  have "fold ?m xs' Map.empty a = (os(OutOperationID c \<mapsto> c)) a" for a
  proof (cases "a = OutOperationID c")
    case True
    then show ?thesis using fold_keyed_iff [OF dist(2), of a c] s(1) by simp
  next
    case False
    have "fold ?m xs' Map.empty a = Some y \<longleftrightarrow> os a = Some y" for y
      using fold_keyed_iff [OF dist(2), of a y] fold_keyed_iff [OF dist(1), of a y] s(1) False unfolding os by auto
    then have "fold ?m xs' Map.empty a = os a" by (rule option_ext)
    then show ?thesis using False by simp
  qed
  then have "fold ?m xs' Map.empty = os(OutOperationID c \<mapsto> c)" by (rule ext)
  then show ?thesis using r(2) f(2) by (simp only: ControlOutcomes_def select_all_def if_False and_then_Inr)
qed

lemma status_keeps_outcomes:
  "ControlOutcomes (put_row StatusTable k row d) = ControlOutcomes d"
  "ControlIntents (put_row StatusTable k row d) = ControlIntents d"
  by (simp_all add: ControlOutcomes_def ControlIntents_def select_all_def put_row_def)

lemma publish_status_tables:
  assumes "publish_status d r s = (res, d', r')" "tables_ok d"
  shows "tables_ok d' \<and> ControlOutcomes d' = ControlOutcomes d"
  using assms tables_ok_put(4) [OF assms(2)] by (auto elim!: publish_status_cases simp: status_keeps_outcomes)

lemma reconcileSeat_tables:
  assumes "reconcileSeat w d r seat g sd prev = (res, d', r')" "tables_ok d"
  shows "tables_ok d' \<and> ControlOutcomes d' = ControlOutcomes d"
proof -
  have settle: "tables_ok d' \<and> ControlOutcomes d' = ControlOutcomes d" if "settle_seat w d r0 seat = (res, d', r')" for r0
    using that assms(2) by (auto simp: settle_seat_def dest!: publish_status_tables split: prod.splits sum.splits)
  show ?thesis
    using assms settle by (auto simp: reconcileSeat_def dest!: publish_status_tables split: if_splits prod.splits option.splits)
qed

lemma reconcile_seats_tables:
  "reconcile_seats w g sd sts d r seats = (res, d', r') \<Longrightarrow> tables_ok d \<Longrightarrow>
     tables_ok d' \<and> ControlOutcomes d' = ControlOutcomes d"
proof (induction seats arbitrary: sts d r)
  case (Cons s ss)
  obtain res1 d1 r1 where one: "reconcileSeat w d r s (g (DSeat s)) (sd (DSeat s)) (status_at sts (DSeat s)) = (res1, d1, r1)"
    by (metis prod_cases3)
  note ok = reconcileSeat_tables [OF one Cons.prems(2)]
  show ?case
  proof (cases "ctx_ended w (DSeat s)")
    case False
    with Cons.prems(1) one Cons.IH [of _ d1 r1] ok show ?thesis by (cases res1) auto
  qed (use Cons.prems in auto)
qed simp

lemma publish_outcome_tables:
  assumes "publish_outcome d r c = (Inr c', d', r')" "tables_ok d" "ControlOutcomes d = Inr os"
  shows "tables_ok d' \<and> ControlOutcomes d' = Inr (os(OutOperationID c \<mapsto> c)) \<and> c' = c"
  using assms tables_ok_put(5) [OF assms(2)] outcomes_after_publish [OF assms(2,3)]
  by (auto elim!: publish_outcome_cases)

lemma reconcileIntent_tables:
  assumes "reconcileIntent w d r i st = (Inr c, d', r')" "tables_ok d" "ControlOutcomes d = Inr os"
  shows "tables_ok d' \<and> ControlOutcomes d' = Inr (os(OperationID i \<mapsto> c))"
proof -
  have pub: "tables_ok d' \<and> ControlOutcomes d' = Inr (os(OperationID i \<mapsto> c))"
    if "publish_outcome d0 r0 (outcome_for i x y) = (Inr c, d', r')" "tables_ok d0" "ControlOutcomes d0 = Inr os" for d0 r0 x y
    using publish_outcome_tables [OF that] by (simp add: outcome_for_def)
  show ?thesis
  proof (cases "\<exists>x y. publish_outcome d r (outcome_for i x y) = (Inr c, d', r')")
    case True
    then show ?thesis using pub assms(2,3) by blast
  next
    case False
    with assms(1) obtain d1 where d1: "PublishSeatStatus (Some d) (st\<lparr>StState := ''stopped''\<rparr>) = Inr d1"
      "\<exists>r0. publish_outcome d1 r0 (outcome_for i ''accepted'' ''stopped'') = (Inr c, d', r')"
      by (auto simp: reconcileIntent_def Let_def split: if_splits sum.splits)
    then have "tables_ok d1" "ControlOutcomes d1 = Inr os"
      using publish_control(4) [OF d1(1)] tables_ok_put(4) [OF assms(2)] assms(3) by (auto simp: status_keeps_outcomes)
    then show ?thesis using pub d1(2) by blast
  qed
qed

lemma reconcile_intents_done:
  "reconcile_intents w sts os d r is = (None, d', r') \<Longrightarrow> tables_ok d \<Longrightarrow> ControlOutcomes d = Inr os \<Longrightarrow>
     \<exists>os'. tables_ok d' \<and> ControlOutcomes d' = Inr os' \<and> os \<subseteq>\<^sub>m os' \<and> (\<forall>i \<in> set is. os' (OperationID i) \<noteq> None)"
proof (induction "is" arbitrary: os d r)
  case (Cons i "is")
  show ?case
  proof (cases "os (OperationID i)")
    case None
    with Cons.prems(1) obtain c d1 r1 where one: "reconcileIntent w d r i (status_at sts (ISeat i)) = (Inr c, d1, r1)"
      and rest: "reconcile_intents w sts (os(OperationID i \<mapsto> c)) d1 r1 is = (None, d', r')"
      by (auto split: sum.splits prod.splits)
    note t = reconcileIntent_tables [OF one Cons.prems(2,3)]
    from Cons.IH [OF rest] t obtain os' where os': "tables_ok d'" "ControlOutcomes d' = Inr os'"
      "os(OperationID i \<mapsto> c) \<subseteq>\<^sub>m os'" "\<forall>j \<in> set is. os' (OperationID j) \<noteq> None" by blast
    have "os \<subseteq>\<^sub>m os(OperationID i \<mapsto> c)" using None by (auto simp: map_le_def dom_def)
    then have "os \<subseteq>\<^sub>m os'" using os'(3) map_le_trans by blast
    moreover have "os' (OperationID i) = Some c" using os'(3) by (auto simp: map_le_def split: if_splits)
    ultimately show ?thesis using os' by auto
  next
    case (Some c)
    with Cons obtain os' where "tables_ok d'" "ControlOutcomes d' = Inr os'" "os \<subseteq>\<^sub>m os'"
      "\<forall>j \<in> set is. os' (OperationID j) \<noteq> None" by fastforce
    moreover from this Some have "os' (OperationID i) \<noteq> None" by (auto simp: map_le_def dom_def)
    ultimately show ?thesis by auto
  qed
qed auto

lemma reconcile_intents_skip:
  "\<forall>i \<in> set is. os (OperationID i) \<noteq> None \<Longrightarrow> reconcile_intents w sts os d r is = (None, d, r)"
  by (induction "is") auto


subsection \<open>Concrete passes\<close>

definition demo_world :: world where
  "demo_world = \<lparr>env_of = (\<lambda>_. demo_env), uuid_of = (\<lambda>_. ''u''), ctx_ended = (\<lambda>_. False), ctx_ended_first = False\<rparr>"

definition demo_second :: desired_seat where
  "demo_second = demo_desired\<lparr>DSeat := ''a'', DGeneration := 2\<rparr>"

text \<open>The registry with a live process of the first generation, and the status of that generation.\<close>

definition demo_live :: registry where
  "demo_live = demo_registry\<lparr>procs := [''a'' \<mapsto> demo_proc]\<rparr>"

definition demo_first :: seat_status where
  "demo_first = \<lparr>StSeat = ''a'', StSessionID = ''s1'', StGeneration = 1, StRevision = 1, RuntimeID = ''s1'', StState = ''running'',
     StatusJSON = ''{}''\<rparr>"

lemma demo_second_simps [simp]: "DSeat demo_second = ''a''" "DGeneration demo_second = 2" "DRevision demo_second = 1"
  "DProvider demo_second = ''claude''"
  by (simp_all add: demo_second_def demo_desired_def)

lemma demo_not_blank: "\<not> blank ''a''" "\<not> blank ''o1''"
  by (simp_all add: blank_eval)

lemma demo_live_ok: "registry_ok demo_live" "procs demo_live ''a'' = Some demo_proc"
  by (auto simp: registry_ok_def demo_live_def Def_def split: if_splits)

lemma demo_publish:
  "\<not> faults d StatusTable \<Longrightarrow> \<not> blank state \<Longrightarrow> publish_status d r (status_for demo_second session runtime state) =
    (Inr (status_for demo_second session runtime state),
     put_row StatusTable 1 (status_row (status_for demo_second session runtime state)) d, r)"
  by (rule status_published) (simp_all add: demo_not_blank)

lemma demo_ungranted:
  "reconcileSeat demo_world empty_database demo_live demo_second False False demo_first =
     (Inr (status_for demo_second ''s1'' ''s1'' ''ungranted''),
      put_row StatusTable 1 (status_row (status_for demo_second ''s1'' ''s1'' ''ungranted'')) empty_database, demo_live)"
  using demo_publish [of empty_database "''ungranted''" demo_live "''s1''" "''s1''"] pass_states
  by (simp add: reconcileSeat_def demo_first_def empty_database_def)

text \<open>The pass after the grant arrived: it finds the process of the first generation and keeps it.\<close>

lemma demo_granted:
  assumes "\<not> faults d StatusTable"
  shows "\<exists>st d2 r2. reconcileSeat demo_world d demo_live demo_second True False
    (status_for demo_second ''s1'' ''s1'' ''ungranted'') = (Inr st, d2, r2)"
proof -
  let ?d = "demo_def\<lparr>Provider := ''claude'', Model := DModel demo_second, WorkDir := DWorkDir demo_second, AutoStart := False\<rparr>"
  let ?r = "set_def ''a'' ?d demo_live"
  have "Register demo_live ?d = (None, ?r\<lparr>disk := agents ?r\<rparr>)"
    using register_same [of demo_live ?d demo_def]
    by (simp add: demo_live_def) (simp add: demo_registry_def NewRegistry_def)
  then have "alignDef demo_world demo_live demo_second = (Inr ''s1'', ?r\<lparr>disk := agents ?r\<rparr>)"
    by (simp add: alignDef_def parseProvider_def provider_defs Let_def demo_live_def)
  then obtain r1 where a: "alignDef demo_world demo_live demo_second = (Inr ''s1'', r1)" "procs r1 = procs demo_live" by simp
  show ?thesis
    using a demo_publish [OF assms pass_states(1)]
    by (simp add: reconcileSeat_def status_for_def settle_seat_def bring_up_def Get_def demo_live_def demo_proc_def)
qed

lemma every_status_is_published_witness:
  "fst (publish_status empty_database demo_registry (status_for demo_desired ''s'' ''s'' ''running'')) =
     Inr (status_for demo_desired ''s'' ''s'' ''running'')"
  using every_status_is_published [of demo_desired "''running''" empty_database] demo_validated
  by (simp add: empty_database_def)

lemma only_a_current_stop_acts_witness:
  "snd (snd (reconcileIntent demo_world empty_database demo_live
     \<lparr>OperationID = ''o1'', ISeat = ''a'', IGeneration = 2, IKind = ''stop'', PayloadJSON = ''{}''\<rparr> demo_first)) = demo_live"
  using only_a_current_stop_acts [of demo_world empty_database demo_live
      "\<lparr>OperationID = ''o1'', ISeat = ''a'', IGeneration = 2, IKind = ''stop'', PayloadJSON = ''{}''\<rparr>" demo_first]
  by (metis control_intent.select_convs(3) demo_first_def one_eq_numeral_iff prod.exhaust_sel seat_status.select_convs(3) semiring_norm(83))

theorem unchanged_generation_keeps_session_witness:
  "\<exists>st d2 r2. reconcileSeat demo_world empty_database demo_live demo_second True False
     (status_for demo_second ''s1'' ''s1'' ''ungranted'') = (Inr st, d2, r2) \<and>
     StSessionID st = ''s1'' \<and> session_of r2 ''a'' = Some ''s1''"
proof -
  obtain st d2 r2 where run: "reconcileSeat demo_world empty_database demo_live demo_second True False
     (status_for demo_second ''s1'' ''s1'' ''ungranted'') = (Inr st, d2, r2)"
    using demo_granted [of empty_database] by (auto simp: empty_database_def)
  have "Def demo_live (DSeat demo_second) = Some demo_def" by (simp add: demo_live_def)
  with unchanged_generation_keeps_session [OF demo_live_ok(1) run] run show ?thesis by (auto simp: status_for_def)
qed

lemma ungranted_pass_loses_generation_fence_witness:
  "StGeneration demo_first = 1 \<and> (\<exists>st1 d1 r1 st2 d2 r2.
     reconcileSeat demo_world empty_database demo_live demo_second False False demo_first = (Inr st1, d1, r1) \<and>
     reconcileSeat demo_world d1 r1 demo_second True False st1 = (Inr st2, d2, r2) \<and>
     StGeneration st2 = 2 \<and> RuntimeID st2 = PSession demo_proc \<and> trace r2 = trace demo_live)"
proof -
  let ?d = "put_row StatusTable 1 (status_row (status_for demo_second ''s1'' ''s1'' ''ungranted'')) empty_database"
  obtain st d2 r2 where run: "reconcileSeat demo_world ?d demo_live demo_second True False
     (status_for demo_second ''s1'' ''s1'' ''ungranted'') = (Inr st, d2, r2)"
    using demo_granted [of ?d] by (auto simp: empty_database_def put_row_def)
  have "PAlive demo_proc" by (simp add: demo_proc_def)
  from ungranted_pass_loses_generation_fence [OF demo_ungranted run _ this demo_live_ok(1)] demo_live_ok(2) demo_ungranted run
  show ?thesis by (auto simp: demo_first_def)
qed


end
