(* ===== verification/Lineage.thy ===== *)
theory Lineage
  imports Registry
begin

text \<open>
  Fleet lineage (\<open>IsAncestor\<close> and \<open>Descendants\<close> of src/registry.go): walking the Parent links of the
  registered definitions. \<open>IsAncestor\<close> keeps a set of visited names and always ends; the theorem
  says that it decides the transitive closure of the links. \<open>Descendants\<close> recurses without such a
  set: it is modelled with a bound on the depth of the recursion, where \<open>None\<close> means that the
  bound was reached. It ends with the descendants when there is no cycle below the root, and
  with one there is no bound at which it ends.
\<close>

subsection \<open>Ancestors\<close>

function walk_up :: "(string \<times> agent_def) list \<Rightarrow> string \<Rightarrow> string list \<Rightarrow> string \<Rightarrow> bool" where
  "walk_up ags ancestor seen cur =
     (if cur = '''' \<or> cur \<in> set seen then False
      else (case map_of ags cur of
          None \<Rightarrow> False
        | Some d \<Rightarrow>
            if Parent d = '''' then False
            else if Parent d = ancestor then True
            else walk_up ags ancestor (cur # seen) (Parent d)))"
  by pat_completeness auto
termination
proof (relation "measure (\<lambda>(ags, _, seen, _). card (fst ` set ags - set seen))")
  fix ags :: "(string \<times> agent_def) list" and ancestor cur :: string and seen :: "string list" and d :: agent_def
  assume "\<not> (cur = '''' \<or> cur \<in> set seen)" "map_of ags cur = Some d"
  then have "cur \<in> fst ` set ags - set seen" by (force dest: map_of_SomeD)
  then have "fst ` set ags - set (cur # seen) \<subset> fst ` set ags - set seen" by auto
  then show "((ags, ancestor, cur # seen, Parent d), ags, ancestor, seen, cur) \<in>
      measure (\<lambda>(ags, _, seen, _). card (fst ` set ags - set seen))"
    by (simp add: psubset_card_mono)
qed simp

declare walk_up.simps [simp del]

definition IsAncestor :: "registry \<Rightarrow> string \<Rightarrow> string \<Rightarrow> bool" where
  "IsAncestor r ancestor name =
     (if ancestor = '''' \<or> name = '''' \<or> ancestor = name then False else walk_up (agents r) ancestor [] name)"

text \<open>The links: a registered, named agent and its parent.\<close>

definition parent_link :: "(string \<times> agent_def) list \<Rightarrow> (string \<times> string) set" where
  "parent_link ags = {(n, p). n \<noteq> '''' \<and> p \<noteq> '''' \<and> (\<exists>d. map_of ags n = Some d \<and> Parent d = p)}"

lemma walk_up_sound: "walk_up ags a seen cur \<Longrightarrow> (cur, a) \<in> (parent_link ags)\<^sup>+"
proof (induction ags a seen cur rule: walk_up.induct)
  case (1 ags a seen cur)
  from "1.prems" obtain d where d: "cur \<noteq> ''''" "cur \<notin> set seen" "map_of ags cur = Some d" "Parent d \<noteq> ''''"
      "Parent d = a \<or> walk_up ags a (cur # seen) (Parent d)"
    by (subst (asm) walk_up.simps) (auto split: if_splits option.splits)
  then have "(cur, Parent d) \<in> parent_link ags" by (auto simp: parent_link_def)
  then show ?case
  proof (cases "Parent d = a")
    case False
    with d have "(Parent d, a) \<in> (parent_link ags)\<^sup>+" using "1.IH" by blast
    with \<open>(cur, Parent d) \<in> _\<close> show ?thesis by (rule trancl_into_trancl2)
  qed auto
qed

text \<open>A failed walk leaves a set of names closed under the links, none of them linked to the ancestor.\<close>

lemma walk_up_complete:
  assumes "\<not> walk_up ags a seen cur"
    and "\<And>x p. x \<in> set seen \<Longrightarrow> (x, p) \<in> parent_link ags \<Longrightarrow> p \<noteq> a \<and> (p \<in> set seen \<or> p = cur)"
  shows "\<exists>S. set seen \<subseteq> S \<and> cur \<in> S \<and> (\<forall>x \<in> S. \<forall>p. (x, p) \<in> parent_link ags \<longrightarrow> p \<noteq> a \<and> p \<in> S)"
  using assms
proof (induction ags a seen cur rule: walk_up.induct)
  case (1 ags a seen cur)
  show ?case
  proof (cases "cur = '''' \<or> cur \<in> set seen \<or> (\<forall>p. (cur, p) \<notin> parent_link ags)")
    case True
    then show ?thesis using "1.prems"(2) by (intro exI [of _ "insert cur (set seen)"]) (auto simp: parent_link_def)
  next
    case False
    then obtain d where d: "cur \<noteq> ''''" "cur \<notin> set seen" "map_of ags cur = Some d" "Parent d \<noteq> ''''"
      by (auto simp: parent_link_def)
    with "1.prems"(1) have n: "Parent d \<noteq> a" "\<not> walk_up ags a (cur # seen) (Parent d)"
      by (auto simp: walk_up.simps [of ags a seen cur] split: if_splits)
    have "\<exists>S. set (cur # seen) \<subseteq> S \<and> Parent d \<in> S \<and> (\<forall>x \<in> S. \<forall>p. (x, p) \<in> parent_link ags \<longrightarrow> p \<noteq> a \<and> p \<in> S)"
    proof (rule "1.IH" [OF _ d(3,4) n])
      show "\<not> (cur = '''' \<or> cur \<in> set seen)" using d by simp
      show "p \<noteq> a \<and> (p \<in> set (cur # seen) \<or> p = Parent d)"
        if "x \<in> set (cur # seen)" "(x, p) \<in> parent_link ags" for x p
        using that "1.prems"(2) d(3) n(1) by (auto simp: parent_link_def)
    qed
    then show ?thesis by auto
  qed
qed

text \<open>Ancestry is decided exactly, cycles included. \<open>IsAncestor\<close> always ends, and it holds exactly when
  the ancestor is another, named agent that the chain of Parent links from the agent reaches.\<close>

lemma is_ancestor_iff:
  "IsAncestor r a n \<longleftrightarrow> a \<noteq> '''' \<and> n \<noteq> '''' \<and> a \<noteq> n \<and> (n, a) \<in> (parent_link (agents r))\<^sup>+"
proof
  assume "IsAncestor r a n"
  then show "a \<noteq> '''' \<and> n \<noteq> '''' \<and> a \<noteq> n \<and> (n, a) \<in> (parent_link (agents r))\<^sup>+"
    using walk_up_sound by (auto simp: IsAncestor_def split: if_splits)
next
  assume a: "a \<noteq> '''' \<and> n \<noteq> '''' \<and> a \<noteq> n \<and> (n, a) \<in> (parent_link (agents r))\<^sup>+"
  show "IsAncestor r a n"
  proof (rule ccontr)
    assume "\<not> IsAncestor r a n"
    with a have "\<not> walk_up (agents r) a [] n" by (simp add: IsAncestor_def)
    from walk_up_complete [OF this] obtain S where
      S: "n \<in> S" "\<forall>x \<in> S. \<forall>p. (x, p) \<in> parent_link (agents r) \<longrightarrow> p \<noteq> a \<and> p \<in> S" by auto
    have "y \<in> S \<and> y \<noteq> a" if "(n, y) \<in> (parent_link (agents r))\<^sup>+" for y
      using that S by (induction rule: trancl_induct) blast+
    then show False using a by blast
  qed
qed

subsection \<open>Descendants\<close>

fun descend :: "nat \<Rightarrow> (string \<times> agent_def) list \<Rightarrow> (string \<times> agent_def) list \<Rightarrow> string \<Rightarrow> string list option" where
  "descend fuel ags [] parent = Some []"
| "descend 0 ags (x # xs) parent = None"
| "descend (Suc fuel) ags ((name, d) # xs) parent =
     (if Parent d = parent then
        (case descend fuel ags ags name of
           None \<Rightarrow> None
         | Some below \<Rightarrow> map_option (\<lambda>rest. name # below @ rest) (descend (Suc fuel) ags xs parent))
      else descend (Suc fuel) ags xs parent)"

definition Descendants :: "nat \<Rightarrow> registry \<Rightarrow> string \<Rightarrow> string list option" where
  "Descendants fuel r root = descend fuel (agents r) (agents r) root"

definition child_link :: "(string \<times> agent_def) list \<Rightarrow> (string \<times> string) set" where
  "child_link ags = {(n, p). \<exists>d. (n, d) \<in> set ags \<and> Parent d = p}"

lemma finite_child_link: "finite (child_link ags)"
proof -
  have "child_link ags = (\<lambda>(n, d). (n, Parent d)) ` set ags" by (auto simp: child_link_def image_iff)
  then show ?thesis by simp
qed

lemma descend_mono: "descend k ags xs p = Some ns \<Longrightarrow> k \<le> l \<Longrightarrow> descend l ags xs p = Some ns"
proof (induction k ags xs p arbitrary: l ns rule: descend.induct)
  case (3 k ags n d xs p)
  from "3.prems"(2) obtain l' where l: "l = Suc l'" "k \<le> l'" by (cases l) auto
  show ?case
  proof (cases "Parent d = p")
    case True
    with "3.prems"(1) obtain below rest where b: "descend k ags ags n = Some below"
        "descend (Suc k) ags xs p = Some rest" "ns = n # below @ rest"
      by (auto split: option.splits)
    have "descend l' ags ags n = Some below" "descend (Suc l') ags xs p = Some rest"
      using "3.IH"(1) [OF True b(1) l(2)] "3.IH"(2) [OF True b(1) b(2)] l by simp_all
    then show ?thesis using True b(3) l(1) by simp
  next
    case False
    with "3.prems"(1) have "descend (Suc k) ags xs p = Some ns" by simp
    then have "descend l ags xs p = Some ns" using "3.IH"(3) [OF False _ "3.prems"(2)] by blast
    then show ?thesis using False l(1) by simp
  qed
qed simp_all

text \<open>A walk that ends has walked below every child, with less fuel.\<close>

lemma descend_child:
  "descend k ags xs p = Some ns \<Longrightarrow> (n, d) \<in> set xs \<Longrightarrow> Parent d = p \<Longrightarrow> \<exists>l < k. \<exists>ms. descend l ags ags n = Some ms"
proof (induction k ags xs p arbitrary: ns rule: descend.induct)
  case (3 k ags m e xs p)
  then show ?case by (cases "(n, d) = (m, e)") (auto split: if_splits option.splits)
qed simp_all

lemma descend_link:
  assumes "(n, p) \<in> child_link ags" "descend k ags ags p = Some ns"
  shows "\<exists>l < k. \<exists>ms. descend l ags ags n = Some ms"
proof -
  obtain d where "(n, d) \<in> set ags" "Parent d = p" using assms(1) by (auto simp: child_link_def)
  with assms(2) show ?thesis by (rule descend_child)
qed

lemma descend_below:
  "(n, p) \<in> (child_link ags)\<^sup>+ \<Longrightarrow> descend k ags ags p = Some ns \<Longrightarrow> \<exists>l < k. \<exists>ms. descend l ags ags n = Some ms"
proof (induction arbitrary: k ns rule: trancl_induct)
  case (base p)
  then show ?case by (rule descend_link)
next
  case (step p q)
  obtain l ms where "l < k" "descend l ags ags p = Some ms"
    using descend_link [OF step.hyps(2) step.prems] by blast
  with step.IH show ?case by (meson less_trans)
qed

lemma descend_set:
  assumes "\<And>n d. (n, d) \<in> set xs \<Longrightarrow> Parent d = p \<Longrightarrow>
      \<exists>k ms. descend k ags ags n = Some ms \<and> set ms = {m. (m, n) \<in> (child_link ags)\<^sup>+}"
  shows "\<exists>k ns. descend (Suc k) ags xs p = Some ns \<and>
    set ns = (\<Union>(n, d) \<in> {(n, d) \<in> set xs. Parent d = p}. insert n {m. (m, n) \<in> (child_link ags)\<^sup>+})"
  using assms
proof (induction xs)
  case (Cons x xs)
  obtain n d where x: "x = (n, d)" by (cases x)
  obtain k ns where k: "descend (Suc k) ags xs p = Some ns"
      "set ns = (\<Union>(n, d) \<in> {(n, d) \<in> set xs. Parent d = p}. insert n {m. (m, n) \<in> (child_link ags)\<^sup>+})"
  proof -
    have "\<exists>k ns. descend (Suc k) ags xs p = Some ns \<and>
        set ns = (\<Union>(n, d) \<in> {(n, d) \<in> set xs. Parent d = p}. insert n {m. (m, n) \<in> (child_link ags)\<^sup>+})"
      by (rule Cons.IH) (rule Cons.prems, simp_all)
    then show ?thesis using that by blast
  qed
  show ?case
  proof (cases "Parent d = p")
    case True
    then obtain l ms where l: "descend l ags ags n = Some ms" "set ms = {m. (m, n) \<in> (child_link ags)\<^sup>+}"
      using Cons.prems [of n d] x by auto
    have "descend (Suc (max k l)) ags (x # xs) p = Some (n # ms @ ns)"
      using True x descend_mono [OF l(1), of "max k l"] descend_mono [OF k(1), of "Suc (max k l)"] by simp
    moreover have "set (n # ms @ ns) = (\<Union>(n, d) \<in> {(n, d) \<in> set (x # xs). Parent d = p}.
        insert n {m. (m, n) \<in> (child_link ags)\<^sup>+})"
      using True x k(2) l(2) by auto
    ultimately show ?thesis by blast
  next
    case False
    then have "descend (Suc k) ags (x # xs) p = Some ns" using x k(1) by simp
    moreover have "{(n, d) \<in> set (x # xs). Parent d = p} = {(n, d) \<in> set xs. Parent d = p}" using False x by auto
    ultimately show ?thesis using k(2) by metis
  qed
qed auto

text \<open>C40. Descendants are complete without cycles, and the walk does not end on a cycle. When the links
  have no cycle, some depth of recursion is enough and the result is exactly the set of agents
  below the root. When an agent below the root is its own descendant, no depth is enough.\<close>

theorem descendants_iff_acyclic:
  "(acyclic (child_link (agents r)) \<longrightarrow>
     (\<exists>k ns. Descendants k r root = Some ns \<and> set ns = {n. (n, root) \<in> (child_link (agents r))\<^sup>+})) \<and>
   ((n, n) \<in> (child_link (agents r))\<^sup>+ \<and> (n, root) \<in> (child_link (agents r))\<^sup>+ \<longrightarrow> (\<forall>k. Descendants k r root = None))"
proof (intro conjI impI allI)
  let ?c = "child_link (agents r)"
  assume "acyclic ?c"
  then have "wf ?c" by (rule finite_acyclic_wf [OF finite_child_link])
  then have "wf ((?c)\<^sup>+)" by (rule wf_trancl)
  then have "\<exists>k ns. descend k (agents r) (agents r) root = Some ns \<and> set ns = {n. (n, root) \<in> ?c\<^sup>+}"
  proof (induction root rule: wf_induct_rule)
    case (less root)
    have "\<exists>k ms. descend k (agents r) (agents r) m = Some ms \<and> set ms = {i. (i, m) \<in> ?c\<^sup>+}"
      if "(m, d) \<in> set (agents r)" "Parent d = root" for m d
      by (rule less) (use that in \<open>auto simp: child_link_def\<close>)
    then have "\<exists>k ns. descend (Suc k) (agents r) (agents r) root = Some ns \<and>
        set ns = (\<Union>(n, d) \<in> {(n, d) \<in> set (agents r). Parent d = root}. insert n {m. (m, n) \<in> ?c\<^sup>+})"
      by (rule descend_set)
    then obtain k ns where
      "descend (Suc k) (agents r) (agents r) root = Some ns"
      "set ns = (\<Union>(n, d) \<in> {(n, d) \<in> set (agents r). Parent d = root}. insert n {m. (m, n) \<in> ?c\<^sup>+})" by blast
    moreover have "(\<Union>(n, d) \<in> {(n, d) \<in> set (agents r). Parent d = root}. insert n {m. (m, n) \<in> ?c\<^sup>+}) =
        {n. (n, root) \<in> ?c\<^sup>+}"
      by (subst trancl_unfold_right) (auto simp: child_link_def rtrancl_eq_or_trancl relcomp_unfold)
    ultimately show ?case by (metis (no_types, lifting))
  qed
  then show "\<exists>k ns. Descendants k r root = Some ns \<and> set ns = {n. (n, root) \<in> ?c\<^sup>+}"
    by (simp add: Descendants_def)
next
  let ?c = "child_link (agents r)" and ?e = "\<lambda>k. \<exists>ms. descend k (agents r) (agents r) n = Some ms"
  fix k
  assume cyc: "(n, n) \<in> ?c\<^sup>+ \<and> (n, root) \<in> ?c\<^sup>+"
  have "\<not> ?e k" for k
  proof (induction k rule: less_induct)
    case (less k)
    then show ?case using descend_below [OF conjunct1 [OF cyc]] by blast
  qed
  then show "Descendants k r root = None"
    using descend_below [OF conjunct2 [OF cyc]] by (metis Descendants_def not_None_eq)
qed

subsection \<open>Concrete lineages\<close>

definition demo_child :: registry where
  "demo_child = NewRegistry [(''b'', zero_def\<lparr>Name := ''b'', Parent := ''a''\<rparr>)]"

definition demo_loop :: registry where
  "demo_loop = NewRegistry [(''a'', zero_def\<lparr>Name := ''a'', Parent := ''a''\<rparr>)]"

theorem descendants_iff_acyclic_witness:
  "(\<exists>k ns. Descendants k demo_child ''a'' = Some ns \<and> set ns = {n. (n, ''a'') \<in> (child_link (agents demo_child))\<^sup>+}) \<and>
   Descendants 100 demo_loop ''a'' = None"
proof -
  have "child_link (agents demo_child) = {(''b'', ''a'')}"
    by (auto simp: child_link_def demo_child_def NewRegistry_def zero_def_def)
  moreover have "acyclic ({} :: (string \<times> string) set)" by (simp add: acyclic_def)
  ultimately have "acyclic (child_link (agents demo_child))" by (simp add: acyclic_insert)
  moreover have "(''a'', ''a'') \<in> (child_link (agents demo_loop))\<^sup>+"
    by (rule r_into_trancl) (auto simp: child_link_def demo_loop_def NewRegistry_def zero_def_def)
  ultimately show ?thesis
    using descendants_iff_acyclic [of demo_child "''a''" "''a''"] descendants_iff_acyclic [of demo_loop "''a''" "''a''"] by blast
qed

end
