(* ===== verification/Lifecycle.thy ===== *)
theory Lifecycle
  imports AgentDefs "HOL-Library.Word"
begin

text \<open>
  The lifecycle reservation of one agent name (src/registry_lifecycle.go, \<open>beginLifecycle\<close> and the
  closures it returns). Starts and stops of a name run one at a time: each caller registers in the
  entry of the name, waits for the gate, checks that it may still go on, holds the reservation
  while it works and then leaves; the last to leave deletes the entry. A stop that registers
  interrupts the holder and turns away the starts that are waiting.

  Callers are numbered, and where a caller is in the code is its \<open>pc\<close>. The code between two lock
  operations is one action; \<open>act\<close> performs an action if it is enabled. The epoch is the 64-bit
  counter of the code and wraps around.
\<close>

subsection \<open>The entry and its callers\<close>

record lifecycle_op =
  gate :: bool
  refs :: int
  stops :: int
  epoch :: "64 word"
  cancel :: "nat option"

datatype pc =
    Out
  | Waiting bool "64 word"
  | Acquired bool "64 word"
  | Refusing bool
  | Held bool
  | Clearing bool
  | Leaving bool

record lifecycle =
  entry :: "lifecycle_op option"
  pcs :: "nat \<Rightarrow> pc"
  interrupted :: "nat list"

definition fresh_op :: lifecycle_op where
  "fresh_op = \<lparr>gate = False, refs = 0, stops = 0, epoch = 0, cancel = None\<rparr>"

definition no_lifecycle :: lifecycle where
  "no_lifecycle = \<lparr>entry = None, pcs = (\<lambda>_. Out), interrupted = []\<rparr>"

datatype action = Begin nat bool | Acquire nat | GiveUp nat | Check nat | Finish nat | Drain nat | Release nat

definition goto :: "nat \<Rightarrow> pc \<Rightarrow> lifecycle_op \<Rightarrow> lifecycle \<Rightarrow> lifecycle" where
  "goto c p o' s = s\<lparr>entry := Some o', pcs := (pcs s)(c := p)\<rparr>"

text \<open>The first critical section: a start is turned away while a stop is registered; a stop counts
  itself, moves the epoch and cancels the context of the holder.\<close>

definition begin_op :: "nat \<Rightarrow> bool \<Rightarrow> lifecycle \<Rightarrow> lifecycle option" where
  "begin_op c stop s =
     (let o' = (case entry s of None \<Rightarrow> fresh_op | Some x \<Rightarrow> x) in
      if pcs s c \<noteq> Out \<or> (\<not> stop \<and> stops o' > 0) then None
      else if stop then
        Some (goto c (Waiting True (epoch o')) (o'\<lparr>refs := refs o' + 1, stops := stops o' + 1, epoch := epoch o' + 1\<rparr>)
          (s\<lparr>interrupted := (case cancel o' of None \<Rightarrow> interrupted s | Some h \<Rightarrow> h # interrupted s)\<rparr>))
      else Some (goto c (Waiting False (epoch o')) (o'\<lparr>refs := refs o' + 1\<rparr>) s))"

text \<open>The second critical section, after the gate: a start goes on only when no stop is registered and
  none has registered since it began.\<close>

definition check_op :: "nat \<Rightarrow> lifecycle \<Rightarrow> lifecycle option" where
  "check_op c s =
     (case (entry s, pcs s c) of
        (Some o', Acquired stop e) \<Rightarrow>
          if \<not> stop \<and> (stops o' > 0 \<or> e \<noteq> epoch o') then Some (goto c (Refusing stop) o' s)
          else Some (goto c (Held stop) (o'\<lparr>cancel := Some c\<rparr>) s)
      | _ \<Rightarrow> None)"

text \<open>\<open>release\<close>: the last caller deletes the entry.\<close>

definition release_op :: "nat \<Rightarrow> lifecycle \<Rightarrow> lifecycle option" where
  "release_op c s =
     (case (entry s, pcs s c) of
        (Some o', Leaving stop) \<Rightarrow>
          (let o'' = o'\<lparr>refs := refs o' - 1, stops := (if stop then stops o' - 1 else stops o')\<rparr> in
           Some (s\<lparr>entry := (if refs o'' = 0 then None else Some o''), pcs := (pcs s)(c := Out)\<rparr>))
      | _ \<Rightarrow> None)"

definition acquire_op :: "nat \<Rightarrow> lifecycle \<Rightarrow> lifecycle option" where
  "acquire_op c s =
     (case (entry s, pcs s c) of
        (Some o', Waiting stop e) \<Rightarrow> if gate o' then None else Some (goto c (Acquired stop e) (o'\<lparr>gate := True\<rparr>) s)
      | _ \<Rightarrow> None)"

definition giveup_op :: "nat \<Rightarrow> lifecycle \<Rightarrow> lifecycle option" where
  "giveup_op c s =
     (case (entry s, pcs s c) of (Some o', Waiting stop e) \<Rightarrow> Some (goto c (Leaving stop) o' s) | _ \<Rightarrow> None)"

text \<open>\<open>finish\<close>: first the cancel function is cleared, then the gate is emptied.\<close>

definition finish_op :: "nat \<Rightarrow> lifecycle \<Rightarrow> lifecycle option" where
  "finish_op c s =
     (case (entry s, pcs s c) of (Some o', Held stop) \<Rightarrow> Some (goto c (Clearing stop) (o'\<lparr>cancel := None\<rparr>) s) | _ \<Rightarrow> None)"

definition drain_op :: "nat \<Rightarrow> lifecycle \<Rightarrow> lifecycle option" where
  "drain_op c s =
     (case (entry s, pcs s c) of
        (Some o', Clearing stop) \<Rightarrow> if gate o' then Some (goto c (Leaving stop) (o'\<lparr>gate := False\<rparr>) s) else None
      | (Some o', Refusing stop) \<Rightarrow> if gate o' then Some (goto c (Leaving stop) (o'\<lparr>gate := False\<rparr>) s) else None
      | _ \<Rightarrow> None)"

fun act :: "action \<Rightarrow> lifecycle \<Rightarrow> lifecycle option" where
  "act (Begin c stop) s = begin_op c stop s"
| "act (Acquire c) s = acquire_op c s"
| "act (GiveUp c) s = giveup_op c s"
| "act (Check c) s = check_op c s"
| "act (Finish c) s = finish_op c s"
| "act (Drain c) s = drain_op c s"
| "act (Release c) s = release_op c s"

lemmas op_defs = begin_op_def acquire_op_def giveup_op_def check_op_def finish_op_def drain_op_def release_op_def

inductive lc_step :: "lifecycle \<Rightarrow> lifecycle \<Rightarrow> bool" where
  lc_step: "act a s = Some s' \<Longrightarrow> lc_step s s'"

inductive_cases lc_stepE: "lc_step s s'"

inductive lc_reachable :: "lifecycle \<Rightarrow> bool" where
  lc_init: "lc_reachable no_lifecycle"
| lc_next: "lc_reachable s \<Longrightarrow> lc_step s s' \<Longrightarrow> lc_reachable s'"

text \<open>A schedule, action by action.\<close>

fun run :: "action list \<Rightarrow> lifecycle \<Rightarrow> lifecycle option" where
  "run [] s = Some s"
| "run (a # as) s = (case act a s of None \<Rightarrow> None | Some s' \<Rightarrow> run as s')"

subsection \<open>The invariant\<close>

fun inside :: "pc \<Rightarrow> bool" where
  "inside (Acquired _ _) = True"
| "inside (Refusing _) = True"
| "inside (Held _) = True"
| "inside (Clearing _) = True"
| "inside _ = False"

fun stopping :: "pc \<Rightarrow> bool" where
  "stopping Out = False"
| "stopping (Waiting b _) = b"
| "stopping (Acquired b _) = b"
| "stopping (Refusing b) = b"
| "stopping (Held b) = b"
| "stopping (Clearing b) = b"
| "stopping (Leaving b) = b"

definition count :: "(pc \<Rightarrow> bool) \<Rightarrow> lifecycle \<Rightarrow> int" where
  "count P s = int (card {c. P (pcs s c)})"

definition active :: "lifecycle \<Rightarrow> nat set" where
  "active s = {c. pcs s c \<noteq> Out}"

definition lc_ok :: "lifecycle \<Rightarrow> bool" where
  "lc_ok s \<longleftrightarrow> finite (active s) \<and>
     (case entry s of
        None \<Rightarrow> active s = {}
      | Some o' \<Rightarrow> active s \<noteq> {} \<and> refs o' = count (\<lambda>p. p \<noteq> Out) s \<and> stops o' = count stopping s \<and>
          (gate o' \<longleftrightarrow> (\<exists>c. inside (pcs s c))) \<and>
          (\<forall>c d. inside (pcs s c) \<longrightarrow> inside (pcs s d) \<longrightarrow> c = d) \<and>
          (\<forall>c. cancel o' = Some c \<longleftrightarrow> (\<exists>b. pcs s c = Held b)))"

lemma count_upd:
  assumes "finite {d. P (f d)}"
  shows "int (card {d. P ((f(c := x)) d)}) = int (card {d. P (f d)}) + (if P x then 1 else 0) - (if P (f c) then 1 else 0)"
proof -
  let ?A = "{d. P (f d)}"
  have "{d. P ((f(c := x)) d)} = (if P x then insert c (?A - {c}) else ?A - {c})" by auto
  moreover have "int (card ?A) = int (card (?A - {c})) + (if P (f c) then 1 else 0)"
    using assms card.remove [of ?A c] by (cases "P (f c)") simp_all
  ultimately show ?thesis using assms by (simp add: card.insert_remove)
qed

lemma finite_counts:
  assumes "finite (active s)"
  shows "finite {c. pcs s c \<noteq> Out}" "finite {c. stopping (pcs s c)}"
proof -
  show "finite {c. pcs s c \<noteq> Out}" using assms by (simp add: active_def)
  moreover have "{c. stopping (pcs s c)} \<subseteq> {c. pcs s c \<noteq> Out}" by auto
  ultimately show "finite {c. stopping (pcs s c)}" by (rule rev_finite_subset)
qed

lemma count_move:
  assumes "finite (active s)" "pcs s' = (pcs s)(c := p)"
  shows "count (\<lambda>p. p \<noteq> Out) s' = count (\<lambda>p. p \<noteq> Out) s + (if p \<noteq> Out then 1 else 0) - (if pcs s c \<noteq> Out then 1 else 0)"
    and "count stopping s' = count stopping s + (if stopping p then 1 else 0) - (if stopping (pcs s c) then 1 else 0)"
  using count_upd [where P = "\<lambda>p. p \<noteq> Out" and f = "pcs s", OF finite_counts(1) [OF assms(1)], of c p]
    count_upd [where P = stopping and f = "pcs s", OF finite_counts(2) [OF assms(1)], of c p]
  by (simp_all add: count_def assms(2))

lemma goto_simps [simp]:
  "entry (goto c p x s) = Some x" "pcs (goto c p x s) = (pcs s)(c := p)" "interrupted (goto c p x s) = interrupted s"
  by (simp_all add: goto_def)

lemma active_upd: "p \<noteq> Out \<Longrightarrow> active (goto c p x s) = insert c (active s)"
  by (auto simp: active_def)

text \<open>A caller that is registered already moves on, and the counters stay.\<close>

lemma lc_ok_move:
  assumes "lc_ok s" "entry s = Some x" "pcs s c \<noteq> Out" "p \<noteq> Out" "stopping p = stopping (pcs s c)"
    and "refs y = refs x" "stops y = stops x"
    and "gate y \<longleftrightarrow> inside p \<or> (\<exists>d. d \<noteq> c \<and> inside (pcs s d))"
    and "\<And>d. inside p \<Longrightarrow> d \<noteq> c \<Longrightarrow> \<not> inside (pcs s d)"
    and "\<And>d. cancel y = Some d \<longleftrightarrow> (\<exists>b. ((pcs s)(c := p)) d = Held b)"
  shows "lc_ok (goto c p y s)"
proof -
  have fin: "finite (active s)" using assms(1) by (simp add: lc_ok_def)
  have "refs y = count (\<lambda>p. p \<noteq> Out) (goto c p y s)" "stops y = count stopping (goto c p y s)"
    using assms(1-7) count_move [OF fin, of "goto c p y s" c p] by (simp_all add: lc_ok_def)
  moreover have "active (goto c p y s) \<noteq> {}" "finite (active (goto c p y s))"
    using fin active_upd [OF assms(4)] by simp_all
  moreover have "gate y \<longleftrightarrow> (\<exists>d. inside (pcs (goto c p y s) d))" using assms(8) by auto
  moreover have "d = e" if "inside (pcs (goto c p y s) d)" "inside (pcs (goto c p y s) e)" for d e
  proof -
    have "a = b" if "inside (pcs s a)" "inside (pcs s b)" for a b using that assms(1,2) by (simp add: lc_ok_def)
    then show ?thesis using that assms(9) by (auto split: if_splits)
  qed
  moreover have "cancel y = Some d \<longleftrightarrow> (\<exists>b. pcs (goto c p y s) d = Held b)" for d using assms(10) by simp
  ultimately show ?thesis unfolding lc_ok_def goto_simps option.case by blast
qed

lemma lc_ok_begin:
  assumes "lc_ok s" "begin_op c stop s = Some s'"
  shows "lc_ok s'"
proof -
  define x where "x = (case entry s of None \<Rightarrow> fresh_op | Some x \<Rightarrow> x)"
  define y where "y = (if stop then x\<lparr>refs := refs x + 1, stops := stops x + 1, epoch := epoch x + 1\<rparr> else x\<lparr>refs := refs x + 1\<rparr>)"
  let ?s = "s\<lparr>interrupted := (if stop then (case cancel x of None \<Rightarrow> interrupted s | Some h \<Rightarrow> h # interrupted s) else interrupted s)\<rparr>"
  have out: "pcs s c = Out" and s': "s' = goto c (Waiting stop (epoch x)) y ?s"
    using assms(2) by (auto simp: begin_op_def x_def [symmetric] y_def Let_def goto_def split: if_splits)
  have fin: "finite (active s)" using assms(1) by (simp add: lc_ok_def)
  have none: "entry s = None \<Longrightarrow> pcs s d = Out" for d using assms(1) by (auto simp: lc_ok_def active_def)
  have x: "refs x = count (\<lambda>p. p \<noteq> Out) s" "stops x = count stopping s"
    "gate x \<longleftrightarrow> (\<exists>d. inside (pcs s d))" "\<And>d. cancel x = Some d \<longleftrightarrow> (\<exists>b. pcs s d = Held b)"
    "\<And>d e. inside (pcs s d) \<Longrightarrow> inside (pcs s e) \<Longrightarrow> d = e"
    using assms(1) none by (cases "entry s"; simp add: x_def lc_ok_def fresh_op_def count_def)+
  have "refs y = count (\<lambda>p. p \<noteq> Out) s'" "stops y = count stopping s'"
    using x(1,2) out count_move [OF fin, of s' c "Waiting stop (epoch x)"] by (simp_all add: s' y_def)
  moreover have "active s' = insert c (active s)" by (auto simp: s' active_def)
  moreover have "gate y = gate x" "cancel y = cancel x" by (simp_all add: y_def)
  moreover have "inside (pcs s' d) \<longleftrightarrow> inside (pcs s d)" "(\<exists>b. pcs s' d = Held b) \<longleftrightarrow> (\<exists>b. pcs s d = Held b)" for d
    using out by (auto simp: s')
  ultimately show ?thesis using fin x(3-5) by (auto simp: lc_ok_def s')
qed

lemma lc_ok_release:
  assumes "lc_ok s" "release_op c s = Some s'"
  shows "lc_ok s'"
proof -
  obtain x stop where x: "entry s = Some x" "pcs s c = Leaving stop"
    using assms(2) by (auto simp: release_op_def split: option.splits pc.splits)
  define y where "y = x\<lparr>refs := refs x - 1, stops := (if stop then stops x - 1 else stops x)\<rparr>"
  have s': "s' = s\<lparr>entry := (if refs y = 0 then None else Some y), pcs := (pcs s)(c := Out)\<rparr>"
    using assms(2) x by (auto simp: release_op_def y_def Let_def)
  have fin: "finite (active s)" using assms(1) by (simp add: lc_ok_def)
  have act: "active s' = active s - {c}" by (auto simp: s' active_def)
  have cnt: "refs y = count (\<lambda>p. p \<noteq> Out) s'" "stops y = count stopping s'"
    using assms(1) x count_move [OF fin, of s' c Out] by (simp_all add: s' y_def lc_ok_def)
  have "count (\<lambda>p. p \<noteq> Out) s' = int (card (active s'))" by (simp add: count_def active_def)
  then have empty: "refs y = 0 \<longleftrightarrow> active s' = {}" using cnt(1) fin act by auto
  have same: "inside (pcs s' d) \<longleftrightarrow> inside (pcs s d)" "(\<exists>b. pcs s' d = Held b) \<longleftrightarrow> (\<exists>b. pcs s d = Held b)" for d
    using x(2) by (auto simp: s')
  have y: "gate y = gate x" "cancel y = cancel x" by (simp_all add: y_def)
  have old: "gate x \<longleftrightarrow> (\<exists>d. inside (pcs s d))" "\<And>d. cancel x = Some d \<longleftrightarrow> (\<exists>b. pcs s d = Held b)"
    "\<And>d e. inside (pcs s d) \<Longrightarrow> inside (pcs s e) \<Longrightarrow> d = e"
    using assms(1) x(1) by (simp_all add: lc_ok_def)
  show ?thesis
  proof (cases "refs y = 0")
    case True
    then have "entry s' = None" by (simp add: s')
    then show ?thesis using True empty fin act by (simp add: lc_ok_def)
  next
    case False
    then have "entry s' = Some y" by (simp add: s')
    moreover have "active s' \<noteq> {}" "finite (active s')" using False empty fin act by simp_all
    ultimately show ?thesis unfolding lc_ok_def using cnt same y old by simp
  qed
qed

lemma lc_ok_other:
  assumes "lc_ok s" "act a s = Some s'" "\<And>c b. a \<noteq> Begin c b" "\<And>c. a \<noteq> Release c"
  shows "lc_ok s'"
proof -
  from assms(2-4) obtain c x where x: "entry s = Some x"
    and step: "act a s = Some s'" "a \<in> {Acquire c, GiveUp c, Check c, Finish c, Drain c}"
    by (cases a) (auto simp: op_defs split: option.splits)
  have inv: "gate x \<longleftrightarrow> (\<exists>d. inside (pcs s d))" "\<And>d. cancel x = Some d \<longleftrightarrow> (\<exists>b. pcs s d = Held b)"
    "\<And>d e. inside (pcs s d) \<Longrightarrow> inside (pcs s e) \<Longrightarrow> d = e"
    using assms(1) x by (simp_all add: lc_ok_def)
  have alone: "d \<noteq> c \<Longrightarrow> \<not> inside (pcs s d)" if "inside (pcs s c)" for d using inv(3) that by blast
  have held: "inside (pcs s d)" if "pcs s d = Held b" for d b using that by simp
  from step(2) consider "a = Acquire c" | "a = GiveUp c" | "a = Check c" | "a = Finish c" | "a = Drain c" by blast
  then show ?thesis
  proof cases
    case 1
    with step(1) x obtain b e where c: "pcs s c = Waiting b e" "\<not> gate x" "s' = goto c (Acquired b e) (x\<lparr>gate := True\<rparr>) s"
      by (auto simp: acquire_op_def split: pc.splits if_splits)
    then have "\<not> inside (pcs s d)" for d using inv(1) by blast
    then show ?thesis unfolding c(3) by (intro lc_ok_move [OF assms(1) x]) (use c inv(2) held in auto)
  next
    case 2
    with step(1) x obtain b e where c: "pcs s c = Waiting b e" "s' = goto c (Leaving b) x s"
      by (auto simp: giveup_op_def split: pc.splits)
    have "gate x \<longleftrightarrow> (\<exists>d. d \<noteq> c \<and> inside (pcs s d))" using inv(1) c(1) by (metis inside.simps(6))
    then show ?thesis unfolding c(2) by (intro lc_ok_move [OF assms(1) x]) (use c inv(2) in auto)
  next
    case 3
    with step(1) x obtain b e where c: "pcs s c = Acquired b e"
      "s' = goto c (Refusing b) x s \<or> s' = goto c (Held b) (x\<lparr>cancel := Some c\<rparr>) s"
      by (auto simp: check_op_def split: pc.splits if_splits)
    have "gate x" using inv(1) c(1) by (metis inside.simps(1))
    have none: "pcs s d \<noteq> Held b'" for d b' using alone [of d] held [of d b'] c(1) by (cases "d = c") auto
    from c(2) show ?thesis
    proof
      assume "s' = goto c (Refusing b) x s"
      then show ?thesis by (simp only:) (intro lc_ok_move [OF assms(1) x], use c(1) \<open>gate x\<close> alone inv(2) none in auto)
    next
      assume "s' = goto c (Held b) (x\<lparr>cancel := Some c\<rparr>) s"
      then show ?thesis by (simp only:) (intro lc_ok_move [OF assms(1) x], use c(1) \<open>gate x\<close> alone none in auto)
    qed
  next
    case 4
    with step(1) x obtain b where c: "pcs s c = Held b" "s' = goto c (Clearing b) (x\<lparr>cancel := None\<rparr>) s"
      by (auto simp: finish_op_def split: pc.splits)
    have "gate x" using inv(1) c(1) by (metis inside.simps(3))
    have none: "pcs s d \<noteq> Held b'" if "d \<noteq> c" for d b' using alone [of d] held [of d b'] c(1) that by auto
    show ?thesis unfolding c(2)
      by (intro lc_ok_move [OF assms(1) x]) (use c(1) \<open>gate x\<close> alone none in auto)
  next
    case 5
    with step(1) x obtain b where c: "pcs s c = Clearing b \<or> pcs s c = Refusing b"
      "s' = goto c (Leaving b) (x\<lparr>gate := False\<rparr>) s"
      by (auto simp: drain_op_def split: pc.splits if_splits)
    have c1: "inside (pcs s c)" "stopping (pcs s c) = b" "pcs s c \<noteq> Out" "\<And>b. pcs s c \<noteq> Held b" using c(1) by auto
    have none: "pcs s d \<noteq> Held b'" for d b' using alone [OF c1(1), of d] held [of d b'] c1(4) by (cases "d = c") auto
    have "\<not> (\<exists>d. d \<noteq> c \<and> inside (pcs s d))" using alone [OF c1(1)] by blast
    then show ?thesis unfolding c(2)
      by (intro lc_ok_move [OF assms(1) x]) (use c1 inv(2) none in simp_all)
  qed
qed

lemma lc_ok_act:
  assumes "lc_ok s" "act a s = Some s'"
  shows "lc_ok s'"
proof (cases "(\<exists>c b. a = Begin c b) \<or> (\<exists>c. a = Release c)")
  case True
  then show ?thesis using assms(2) lc_ok_begin [OF assms(1)] lc_ok_release [OF assms(1)] by fastforce
next
  case False
  then show ?thesis using lc_ok_other [OF assms] by blast
qed

lemma lc_reachable_ok: "lc_reachable s \<Longrightarrow> lc_ok s"
proof (induction rule: lc_reachable.induct)
  case lc_init
  then show ?case by (simp add: lc_ok_def no_lifecycle_def active_def)
next
  case (lc_next s s')
  then show ?case using lc_ok_act by (auto elim: lc_stepE)
qed

subsection \<open>One at a time\<close>

text \<open>C9. Reservations are exclusive and leave nothing behind. Whatever starts and stops of a name overlap,
  at most one caller is past the gate, the counters of the entry are the numbers of registered
  callers and of registered stops, and the entry exists exactly as long as someone is registered.\<close>

theorem reservation_is_exclusive:
  assumes "lc_reachable s"
  shows "(\<forall>c d. inside (pcs s c) \<and> inside (pcs s d) \<longrightarrow> c = d) \<and> (entry s = None \<longleftrightarrow> active s = {}) \<and>
    (\<forall>x. entry s = Some x \<longrightarrow> refs x = int (card (active s)) \<and> stops x = int (card {c. stopping (pcs s c)}) \<and>
       (gate x \<longleftrightarrow> (\<exists>c. inside (pcs s c))))"
proof -
  note ok = lc_reachable_ok [OF assms, unfolded lc_ok_def]
  show ?thesis
  proof (cases "entry s")
    case None
    then have "pcs s c = Out" for c using ok by (auto simp: active_def)
    then show ?thesis using None by (simp add: active_def)
  next
    case (Some x)
    then show ?thesis using ok by (simp add: count_def active_def)
  qed
qed

lemma run_reachable: "run as s = Some s' \<Longrightarrow> lc_reachable s \<Longrightarrow> lc_reachable s'"
proof (induction as arbitrary: s)
  case (Cons a as)
  then obtain t where t: "act a s = Some t" "run as t = Some s'" by (auto split: option.splits)
  show ?case by (rule Cons.IH [OF t(2)]) (rule lc_next [OF Cons.prems(2) lc_step [OF t(1)]])
qed simp

text \<open>A state with a start that holds the reservation and a stop that waits for it.\<close>

definition contended :: lifecycle where
  "contended = the (run [Begin 1 False, Acquire 1, Check 1, Begin 2 True] no_lifecycle)"

lemmas run_simps = op_defs Let_def goto_def fresh_op_def no_lifecycle_def

lemma contended_state:
  "contended = \<lparr>entry = Some \<lparr>gate = True, refs = 2, stops = 1, epoch = 1, cancel = Some 1\<rparr>,
     pcs = (\<lambda>_. Out)(1 := Held False, 2 := Waiting True 0), interrupted = [1]\<rparr>"
  by (simp add: contended_def run_simps fun_eq_iff)

lemma contended_reachable: "lc_reachable contended"
proof (rule run_reachable [OF _ lc_init])
  show "run [Begin 1 False, Acquire 1, Check 1, Begin 2 True] no_lifecycle = Some contended"
    by (simp add: contended_def run_simps)
qed

lemma contended_active: "active contended = {1, 2}"
  by (auto simp: active_def contended_state)

theorem reservation_is_exclusive_witness:
  "refs (the (entry contended)) = 2 \<and> stops (the (entry contended)) = 1 \<and> {c. stopping (pcs contended c)} \<noteq> {}"
proof -
  have "entry contended = Some (the (entry contended))" by (simp add: contended_state)
  then have "refs (the (entry contended)) = int (card (active contended))"
    "stops (the (entry contended)) = int (card {c. stopping (pcs contended c)})"
    using reservation_is_exclusive [OF contended_reachable] by blast+
  moreover have "{c. stopping (pcs contended c)} = {2}" by (auto simp: contended_state)
  ultimately show ?thesis by (simp add: contended_active)
qed


subsection \<open>Stops overtake waiting starts\<close>

definition is_begin :: "action \<Rightarrow> bool" where
  "is_begin a = (case a of Begin _ _ \<Rightarrow> True | _ \<Rightarrow> False)"

definition stops_begun :: "action list \<Rightarrow> nat" where
  "stops_begun as = length (filter (\<lambda>a. case a of Begin _ b \<Rightarrow> b | _ \<Rightarrow> False) as)"

fun caller :: "action \<Rightarrow> nat" where
  "caller (Begin c _) = c" | "caller (Acquire c) = c" | "caller (GiveUp c) = c" | "caller (Check c) = c"
| "caller (Finish c) = c" | "caller (Drain c) = c" | "caller (Release c) = c"

lemma act_other: "act a s = Some s' \<Longrightarrow> d \<noteq> caller a \<Longrightarrow> pcs s' d = pcs s d"
  by (cases a) (auto simp: op_defs Let_def goto_def split: option.splits pc.splits if_splits)

lemma stays_out: "run as s = Some s' \<Longrightarrow> \<forall>b. Begin c b \<notin> set as \<Longrightarrow> pcs s c = Out \<Longrightarrow> pcs s' c = Out"
proof (induction as arbitrary: s)
  case (Cons a as)
  then obtain t where t: "act a s = Some t" "run as t = Some s'" by (auto split: option.splits)
  have "a \<noteq> Begin c b" for b using Cons.prems(2) by auto
  then have "pcs t c = Out"
    using t(1) act_other [OF t(1), of c] Cons.prems(3) by (cases "caller a = c"; cases a) (auto simp: op_defs split: option.splits pc.splits)
  with Cons.IH [OF t(2)] Cons.prems(2) show ?case by auto
qed simp

lemma act_epoch:
  assumes "act a s = Some s'" "entry s = Some x" "lc_ok s" "active s' \<noteq> {}"
  shows "\<exists>y. entry s' = Some y \<and> epoch y = epoch x + (if \<exists>c. a = Begin c True then 1 else 0)"
proof -
  have "lc_ok s'" using lc_ok_act assms(1,3) by blast
  then obtain y where y: "entry s' = Some y" using assms(4) by (auto simp: lc_ok_def split: option.splits)
  then have "epoch y = epoch x + (if \<exists>c. a = Begin c True then 1 else 0)"
    using assms(1,2) by (cases a) (auto simp: op_defs Let_def goto_def split: option.splits pc.splits if_splits)
  with y show ?thesis by blast
qed

lemma run_epoch:
  "run as s = Some s' \<Longrightarrow> lc_ok s \<Longrightarrow> entry s = Some x \<Longrightarrow> \<forall>b. Begin c b \<notin> set as \<Longrightarrow> pcs s' c \<noteq> Out \<Longrightarrow>
     \<exists>y. entry s' = Some y \<and> epoch y = epoch x + of_nat (stops_begun as) \<and> lc_ok s'"
proof (induction as arbitrary: s x)
  case (Cons a as)
  then obtain t where t: "act a s = Some t" "run as t = Some s'" by (auto split: option.splits)
  have ok: "lc_ok t" using lc_ok_act Cons.prems(2) t(1) by blast
  have nb: "\<forall>b. Begin c b \<notin> set as" using Cons.prems(4) by auto
  have "pcs t c \<noteq> Out" using stays_out [OF t(2) nb] Cons.prems(5) by blast
  then have "active t \<noteq> {}" by (auto simp: active_def)
  from act_epoch [OF t(1) Cons.prems(3,2) this] obtain y where
    y: "entry t = Some y" "epoch y = epoch x + (if \<exists>c. a = Begin c True then 1 else 0)" by blast
  from Cons.IH [OF t(2) ok y(1) nb Cons.prems(5)] obtain z where
    z: "entry s' = Some z" "epoch z = epoch y + of_nat (stops_begun as)" "lc_ok s'" by blast
  have "stops_begun (a # as) = (if \<exists>c. a = Begin c True then 1 else 0) + stops_begun as"
    by (cases a) (auto simp: stops_begun_def)
  with y z show ?case by (simp add: add.assoc)
qed (simp add: stops_begun_def)

text \<open>C33. A stop turns away the starts that were waiting. When one or more stops began while a start was
  waiting (fewer than \<open>2 ^ 64\<close>, where the epoch comes round), then even if all of them have come and
  gone by the time the start gets the gate, its check refuses it: it never holds the reservation.\<close>

theorem overtaken_start_is_refused:
  assumes "lc_reachable s" "entry s = Some x" "pcs s c = Waiting False (epoch x)"
    and "run as s = Some s'" "\<forall>b. Begin c b \<notin> set as" "pcs s' c = Acquired False (epoch x)"
    and "0 < stops_begun as" "stops_begun as < 2 ^ 64" "act (Check c) s' = Some t"
  shows "pcs t c = Refusing False"
proof -
  from run_epoch [OF assms(4) lc_reachable_ok [OF assms(1)] assms(2,5)] assms(6) obtain y where
    y: "entry s' = Some y" "epoch y = epoch x + of_nat (stops_begun as)" by auto
  have "unat (of_nat (stops_begun as) :: 64 word) = stops_begun as"
    using assms(8) by (simp add: unat_of_nat)
  then have "(of_nat (stops_begun as) :: 64 word) \<noteq> 0" using assms(7) by auto
  then have "epoch x \<noteq> epoch y" using y(2) by simp
  then show ?thesis using assms(6,9) y(1) by (auto simp: check_op_def)
qed

text \<open>The start waits behind another start; a stop comes and goes before it gets the gate.\<close>

theorem overtaken_start_is_refused_witness:
  "pcs (the (run [Begin 1 False, Begin 2 True, Acquire 2, Check 2, Finish 2, Drain 2, Release 2, Acquire 1, Check 1] no_lifecycle)) 1
     = Refusing False"
proof -
  define s where "s = the (run [Begin 1 False] no_lifecycle)"
  define rest where "rest = [Begin 2 True, Acquire 2, Check 2, Finish 2, Drain 2, Release 2, Acquire 1]"
  have "lc_reachable s" by (rule run_reachable [of "[Begin 1 False]", OF _ lc_init]) (simp add: s_def run_simps)
  moreover have "run [Begin 1 False] no_lifecycle = Some s" by (simp add: s_def run_simps)
  ultimately show ?thesis
    using overtaken_start_is_refused [of s "the (entry s)" 1 rest "the (run rest s)" "the (act (Check 1) (the (run rest s)))"]
    by (simp add: s_def rest_def run_simps stops_begun_def)
qed


subsection \<open>Everybody gets out\<close>

fun rank :: "pc \<Rightarrow> nat" where
  "rank Out = 0"
| "rank (Leaving _) = 1"
| "rank (Clearing _) = 2"
| "rank (Refusing _) = 2"
| "rank (Held _) = 3"
| "rank (Acquired _ _) = 4"
| "rank (Waiting _ _) = 5"

definition work_left :: "lifecycle \<Rightarrow> nat" where
  "work_left s = (\<Sum>c \<in> active s. rank (pcs s c))"

lemma rank_le: "rank p \<le> 5"
  by (cases p) auto

lemma work_left_bound: "finite (active s) \<Longrightarrow> work_left s \<le> 5 * card (active s)"
  unfolding work_left_def using sum_bounded_above [of "active s" "\<lambda>c. rank (pcs s c)" 5] rank_le by (simp add: mult.commute)

lemma work_left_move:
  assumes "finite (active s)" "pcs s' = (pcs s)(c := p)"
  shows "work_left s' + rank (pcs s c) = work_left s + rank p"
proof -
  have all: "work_left t = (\<Sum>d \<in> insert c (active s). rank (pcs t d))" if "active t \<subseteq> insert c (active s)" for t
    unfolding work_left_def using assms(1) that by (intro sum.mono_neutral_left) (auto simp: active_def)
  have "active s' \<subseteq> insert c (active s)" by (auto simp: active_def assms(2))
  then have "work_left s' = (\<Sum>d \<in> insert c (active s). rank (((pcs s)(c := p)) d))" using all [of s'] by (simp add: assms(2))
  also have "\<dots> = rank p + (\<Sum>d \<in> active s - {c}. rank (pcs s d))"
    using assms(1) by (simp add: sum.insert_remove)
  finally show ?thesis using all [of s] assms(1) by (simp add: sum.insert_remove subset_insertI)
qed

lemma act_decreases:
  assumes "lc_ok s" "act a s = Some s'" "\<not> is_begin a"
  shows "work_left s' < work_left s"
proof -
  have "finite (active s)" using assms(1) by (simp add: lc_ok_def)
  moreover have "\<exists>p. pcs s' = (pcs s)(caller a := p) \<and> rank p < rank (pcs s (caller a))"
    using assms(2,3) by (cases a) (auto simp: op_defs is_begin_def Let_def goto_def split: option.splits pc.splits if_splits)
  ultimately show ?thesis using work_left_move [of s s' "caller a"] by fastforce
qed

text \<open>No deadlock: when someone is registered, someone can move on without waiting for the context.\<close>

lemma someone_moves:
  assumes "lc_ok s" "active s \<noteq> {}"
  shows "\<exists>a s'. act a s = Some s' \<and> \<not> is_begin a \<and> (\<forall>c. a \<noteq> GiveUp c)"
proof -
  obtain x where x: "entry s = Some x" and gate: "gate x \<longleftrightarrow> (\<exists>c. inside (pcs s c))"
    using assms by (auto simp: lc_ok_def split: option.splits)
  show ?thesis
  proof (cases "gate x")
    case True
    then obtain c where "inside (pcs s c)" using gate by blast
    then consider b e where "pcs s c = Acquired b e" | b where "pcs s c = Refusing b" | b where "pcs s c = Held b"
      | b where "pcs s c = Clearing b" by (cases "pcs s c") auto
    then show ?thesis
    proof cases
      case 1
      then have "act (Check c) s \<noteq> None" using x by (simp add: check_op_def)
      then show ?thesis by (force simp: is_begin_def)
    next
      case 2
      then have "act (Drain c) s \<noteq> None" using x True by (simp add: drain_op_def)
      then show ?thesis by (force simp: is_begin_def)
    next
      case 3
      then have "act (Finish c) s \<noteq> None" using x by (simp add: finish_op_def)
      then show ?thesis by (force simp: is_begin_def)
    next
      case 4
      then have "act (Drain c) s \<noteq> None" using x True by (simp add: drain_op_def)
      then show ?thesis by (force simp: is_begin_def)
    qed
  next
    case False
    obtain c where c: "pcs s c \<noteq> Out" using assms(2) by (auto simp: active_def)
    have "\<not> inside (pcs s c)" using False gate by blast
    with c consider b e where "pcs s c = Waiting b e" | b where "pcs s c = Leaving b" by (cases "pcs s c") auto
    then show ?thesis
    proof cases
      case 1
      then have "act (Acquire c) s \<noteq> None" using x False by (simp add: acquire_op_def)
      then show ?thesis by (force simp: is_begin_def)
    next
      case 2
      then have "act (Release c) s \<noteq> None" using x by (simp add: release_op_def Let_def)
      then show ?thesis by (force simp: is_begin_def)
    qed
  qed
qed

lemma run_bounded:
  "run as s = Some s' \<Longrightarrow> lc_ok s \<Longrightarrow> list_all (\<lambda>a. \<not> is_begin a) as \<Longrightarrow> lc_ok s' \<and> work_left s' + length as \<le> work_left s"
proof (induction as arbitrary: s)
  case (Cons a as)
  then obtain t where t: "act a s = Some t" "run as t = Some s'" by (auto split: option.splits)
  have "lc_ok t" using lc_ok_act Cons.prems(2) t(1) by blast
  moreover have "work_left t < work_left s" using act_decreases [OF Cons.prems(2) t(1)] Cons.prems(3) by simp
  ultimately show ?case using Cons.IH [OF t(2)] Cons.prems(3) by fastforce
qed simp

text \<open>C11. Every caller gets out. Once no new caller begins, the callers inside make at most five moves each,
  and as long as one is registered some move is possible that does not need a cancelled context;
  so every run ends, and it ends with all callers gone and the entry deleted.\<close>

theorem lifecycle_drains:
  assumes "lc_reachable s" "run as s = Some s'" "list_all (\<lambda>a. \<not> is_begin a) as"
  shows "length as \<le> 5 * card (active s) \<and>
    (active s' = {} \<and> entry s' = None \<or>
     (\<exists>a t. act a s' = Some t \<and> \<not> is_begin a \<and> (\<forall>c. a \<noteq> GiveUp c)))"
proof -
  note ok = lc_reachable_ok [OF assms(1)]
  have s': "lc_ok s'" "work_left s' + length as \<le> work_left s" using run_bounded [OF assms(2) ok assms(3)] by auto
  have "work_left s \<le> 5 * card (active s)" using ok work_left_bound by (simp add: lc_ok_def)
  with s'(2) have "length as \<le> 5 * card (active s)" by simp
  moreover have "entry s' = None" if "active s' = {}" using s'(1) that by (auto simp: lc_ok_def split: option.splits)
  ultimately show ?thesis using someone_moves [OF s'(1)] by blast
qed

theorem lifecycle_drains_witness:
  "length [Finish 1, Drain 1, Release 1, Acquire 2] \<le> 5 * card (active contended) \<and>
   (\<exists>a t. act a (the (run [Finish 1, Drain 1, Release 1, Acquire 2] contended)) = Some t \<and> \<not> is_begin a)"
proof -
  let ?as = "[Finish 1, Drain 1, Release 1, Acquire 2]"
  have run: "run ?as contended = Some (the (run ?as contended))" by (simp add: contended_state run_simps)
  have "entry (the (run ?as contended)) \<noteq> None" by (simp add: contended_state run_simps)
  then show ?thesis using lifecycle_drains [OF contended_reachable run] by (auto simp: is_begin_def)
qed


subsection \<open>The contract a reservation implements\<close>

text \<open>The abstract view: who holds the reservation, and which stops are pending. A start is let in only
  when nobody holds it and no stop is pending; a stop when nobody holds it.\<close>

record reservation =
  holders :: "(nat \<times> bool) set"
  pending :: "nat set"

inductive reservation_step :: "reservation \<Rightarrow> reservation \<Rightarrow> bool" where
  others: "holders b = holders a \<Longrightarrow> reservation_step a b"
| let_in: "holders a = {} \<Longrightarrow> holders b = {(c, stop)} \<Longrightarrow> pending b = pending a \<Longrightarrow> (if stop then c \<in> pending a else pending a = {}) \<Longrightarrow>
    reservation_step a b"
| let_out: "holders a = {(c, stop)} \<Longrightarrow> holders b = {} \<Longrightarrow> pending b = pending a \<Longrightarrow> reservation_step a b"

definition reservation_of :: "lifecycle \<Rightarrow> reservation" where
  "reservation_of s = \<lparr>holders = {(c, b). pcs s c = Held b}, pending = {c. stopping (pcs s c)}\<rparr>"

lemma count_zero: "finite (active s) \<Longrightarrow> count stopping s = 0 \<longleftrightarrow> {c. stopping (pcs s c)} = {}"
  using finite_counts(2) by (simp add: count_def)

lemma reservation_simulates:
  assumes "lc_ok s" "act a s = Some s'"
  shows "reservation_step (reservation_of s) (reservation_of s')"
proof (cases "{(c, b). pcs s' c = Held b} = {(c, b). pcs s c = Held b}")
  case True
  then show ?thesis by (intro others) (simp add: reservation_of_def)
next
  case False
  have fin: "finite (active s)" using assms(1) by (simp add: lc_ok_def)
  from False assms(2) obtain c x where x: "entry s = Some x" and ca: "a = Check c \<or> a = Finish c"
  proof (cases a)
    case (Begin c b)
    then show ?thesis using False assms(2)
      by (auto simp: begin_op_def Let_def goto_def fun_upd_def split: if_splits option.splits)
  qed (use False assms(2) in \<open>auto simp: op_defs goto_def Let_def fun_upd_def split: option.splits pc.splits if_splits\<close>)
  have inv: "gate x \<longleftrightarrow> (\<exists>d. inside (pcs s d))" "\<And>d e. inside (pcs s d) \<Longrightarrow> inside (pcs s e) \<Longrightarrow> d = e" "stops x = count stopping s"
    using assms(1) x by (simp_all add: lc_ok_def)
  have alone: "pcs s d \<noteq> Held b" if "inside (pcs s c)" "d \<noteq> c" for d b using inv(2) [of d c] that by (metis inside.simps(3))
  from ca show ?thesis
  proof
    assume "a = Check c"
    with assms(2) x False obtain b e where c: "pcs s c = Acquired b e" "b \<or> stops x \<le> 0" "pcs s' = (pcs s)(c := Held b)"
      by (auto simp: check_op_def goto_def fun_upd_def split: pc.splits if_splits)
    have none: "pcs s d \<noteq> Held b'" for d b' using alone [of d b'] c(1) by (cases "d = c") auto
    have "count stopping s \<ge> 0" by (simp add: count_def)
    then have "\<not> b \<Longrightarrow> {c. stopping (pcs s c)} = {}" using c(2) inv(3) count_zero [OF fin] by simp
    then show ?thesis using none c
      by (intro let_in [of _ _ c b]) (auto simp: reservation_of_def split: if_splits)
  next
    assume "a = Finish c"
    with assms(2) x obtain b where c: "pcs s c = Held b" "pcs s' = (pcs s)(c := Clearing b)"
      by (auto simp: finish_op_def goto_def split: pc.splits)
    have none: "pcs s d = Held b' \<longleftrightarrow> d = c \<and> b' = b" for d b' using alone [of d b'] c(1) by (cases "d = c") auto
    have "{d. stopping (pcs s' d)} = {d. stopping (pcs s d)}" using c by auto
    then show ?thesis using c(2) none by (intro let_out [of _ c b]) (auto simp: reservation_of_def)
  qed
qed

interpretation gate: forward_simulation lc_ok lc_step reservation_step reservation_of
  by unfold_locales (auto elim!: lc_stepE intro: lc_ok_act reservation_simulates)

lemma reachable_run: "lc_reachable s \<longleftrightarrow> lc_step\<^sup>*\<^sup>* no_lifecycle s"
proof
  assume "lc_reachable s"
  then show "lc_step\<^sup>*\<^sup>* no_lifecycle s"
    by (induction rule: lc_reachable.induct) (auto intro: rtranclp.rtrancl_into_rtrancl)
next
  assume "lc_step\<^sup>*\<^sup>* no_lifecycle s"
  then show "lc_reachable s" by (induction rule: rtranclp_induct) (auto intro: lc_reachable.intros)
qed



end
