(* ===== verification/Framing.thy ===== *)
theory Framing
  imports Prelude "HOL-Library.Word"
begin

unbundle bit_operations_syntax

text \<open>
  The frames of the control socket (src/controlplane/link.go, \<open>readFrame\<close> and \<open>writeFrame\<close>). A message
  travels as its length, four bytes with the most significant first, and its bytes; an empty message
  and one over 64 MiB are refused on both sides. A stream is the list of the bytes that are still to
  come before it ends.
\<close>

type_synonym octet = "8 word"

definition maxFrame :: nat where
  "maxFrame = 64 * 2 ^ 20"

datatype frame_error = EndOfStream | UnexpectedEnd | FrameOf nat | WriteFailed

text \<open>\<open>io.ReadFull\<close>: the end of the stream before the first byte is told from the end inside.\<close>

definition read_full :: "nat \<Rightarrow> octet list \<Rightarrow> frame_error + octet list \<times> octet list" where
  "read_full n s =
     (if n \<le> length s then Inr (take n s, drop n s) else Inl (if s = [] then EndOfStream else UnexpectedEnd))"

text \<open>\<open>binary.BigEndian\<close>.\<close>

definition put_uint32 :: "32 word \<Rightarrow> octet list" where
  "put_uint32 v = [ucast (drop_bit 24 v), ucast (drop_bit 16 v), ucast (drop_bit 8 v), ucast v]"

fun uint32_of :: "octet list \<Rightarrow> 32 word" where
  "uint32_of [a, b, c, d] =
     ucast d OR push_bit 8 (ucast c) OR push_bit 16 (ucast b) OR push_bit 24 (ucast a)"
| "uint32_of _ = 0"

definition readFrame :: "octet list \<Rightarrow> frame_error + octet list \<times> octet list" where
  "readFrame s =
     and_then (read_full 4 s) (\<lambda>(hdr, r).
       let n = uint32_of hdr in
       if n = 0 \<or> unat n > maxFrame then Inl (FrameOf (unat n)) else read_full (unat n) r)"

text \<open>\<open>fails\<close> says that the write to the socket is refused; otherwise the header and the bytes go out in
  one write.\<close>

definition writeFrame :: "bool \<Rightarrow> octet list \<Rightarrow> octet list \<Rightarrow> frame_error + octet list" where
  "writeFrame fails out b =
     (if b = [] \<or> length b > maxFrame then Inl (FrameOf (length b))
      else if fails then Inl WriteFailed
      else Inr (out @ put_uint32 (of_nat (length b)) @ b))"

text \<open>The receiving side of a link: frames are read until one is refused or the stream ends.\<close>

function read_frames :: "octet list \<Rightarrow> octet list list \<times> frame_error" where
  "read_frames s =
     (case readFrame s of
        Inl e \<Rightarrow> ([], e)
      | Inr (b, r) \<Rightarrow> if length r < length s then (case read_frames r of (bs, e) \<Rightarrow> (b # bs, e)) else ([], UnexpectedEnd))"
  by pat_completeness auto
termination by (relation "measure length") auto

declare read_frames.simps [simp del]

subsection \<open>Headers\<close>

lemma length_put_uint32 [simp]: "length (put_uint32 v) = 4"
  by (simp add: put_uint32_def)

lemma uint32_put [simp]: "uint32_of (put_uint32 v) = v"
proof (rule bit_word_eqI)
  fix n assume "n < LENGTH(32)"
  then show "bit (uint32_of (put_uint32 v)) n \<longleftrightarrow> bit v n"
    by (cases "n < 24"; cases "n < 16") (auto simp: put_uint32_def bit_or_iff bit_push_bit_iff bit_ucast_iff bit_drop_bit_eq not_less)
qed

lemma put_uint32_of:
  assumes "length h = 4"
  shows "put_uint32 (uint32_of h) = h"
proof -
  obtain a b c d where h: "h = [a, b, c, d]"
    using assms by (auto simp: length_Suc_conv numeral_eq_Suc)
  have bits: "bit x n \<Longrightarrow> n < 8" for x :: octet and n using bit_imp_le_length [of x n] by simp
  have "ucast (drop_bit 24 (uint32_of h)) = a" "ucast (drop_bit 16 (uint32_of h)) = b"
    "ucast (drop_bit 8 (uint32_of h)) = c" "ucast (uint32_of h) = d"
    unfolding h
    by (rule bit_word_eqI; auto simp: bit_or_iff bit_push_bit_iff bit_ucast_iff bit_drop_bit_eq dest: bits)+
  then show ?thesis by (simp add: put_uint32_def h)
qed

lemma unat_length [simp]: "n \<le> maxFrame \<Longrightarrow> unat (of_nat n :: 32 word) = n"
  by (simp add: maxFrame_def unat_of_nat)


subsection \<open>One frame\<close>

definition sendable :: "octet list \<Rightarrow> bool" where
  "sendable b \<longleftrightarrow> b \<noteq> [] \<and> length b \<le> maxFrame"

definition frame :: "octet list \<Rightarrow> octet list" where
  "frame b = put_uint32 (of_nat (length b)) @ b"

lemma writeFrame_frame: "sendable b \<Longrightarrow> writeFrame False out b = Inr (out @ frame b)"
  by (auto simp: writeFrame_def sendable_def frame_def)

lemma readFrame_frame:
  assumes "sendable b"
  shows "readFrame (frame b @ r) = Inr (b, r)"
proof -
  let ?n = "of_nat (length b) :: 32 word"
  have "unat ?n = length b" using assms by (simp add: sendable_def)
  moreover have "?n \<noteq> 0" using assms calculation by (metis length_0_conv sendable_def unat_0)
  ultimately show ?thesis using assms by (simp add: readFrame_def read_full_def frame_def sendable_def)
qed

lemma readFrame_accepts:
  assumes "readFrame s = Inr (b, r)"
  shows "sendable b \<and> s = frame b @ r"
proof -
  obtain h t where h: "read_full 4 s = Inr (h, t)" and n: "uint32_of h \<noteq> 0" "unat (uint32_of h) \<le> maxFrame"
    and t: "read_full (unat (uint32_of h)) t = Inr (b, r)"
    using assms by (auto simp: readFrame_def and_then_eq_Inr Let_def split: if_splits)
  have len: "length h = 4" "s = h @ t" using h by (auto simp: read_full_def split: if_splits)
  have b: "length b = unat (uint32_of h)" "t = b @ r" using t by (auto simp: read_full_def split: if_splits)
  have "b \<noteq> []" using b(1) n(1) by (auto simp: unat_eq_0)
  moreover have "of_nat (length b) = uint32_of h" by (simp add: b(1))
  ultimately show ?thesis using n(2) len b put_uint32_of [OF len(1)] by (simp add: sendable_def frame_def)
qed

subsection \<open>Streams of frames\<close>

text \<open>What a sender and a receiver of a stream of messages rely on: a message is recovered from the front
  of the stream it was put on, and its encoding is not empty.\<close>

locale stream_codec =
  fixes ok :: "'m \<Rightarrow> bool" and enc :: "'m \<Rightarrow> 'b list" and dec :: "'b list \<Rightarrow> 'e + 'm \<times> 'b list"
  assumes dec_enc: "ok m \<Longrightarrow> dec (enc m @ r) = Inr (m, r)"
    and dec_ok: "dec s = Inr (m, r) \<Longrightarrow> ok m \<and> s = enc m @ r"
    and enc_nonempty: "ok m \<Longrightarrow> enc m \<noteq> []"
begin

lemma enc_injective: "ok m \<Longrightarrow> ok n \<Longrightarrow> enc m @ r = enc n @ s \<Longrightarrow> m = n \<and> r = s"
  by (metis dec_enc prod.inject sum.inject(2))

lemma concat_injective:
  "list_all ok ms \<Longrightarrow> list_all ok ns \<Longrightarrow> concat (map enc ms) = concat (map enc ns) \<Longrightarrow> ms = ns"
proof (induction ms arbitrary: ns)
  case Nil
  then show ?case using enc_nonempty by (cases ns) auto
next
  case (Cons m ms)
  then obtain n ns' where ns: "ns = n # ns'" using enc_nonempty by (cases ns) auto
  have "m = n \<and> concat (map enc ms) = concat (map enc ns')"
    by (rule enc_injective) (use Cons.prems ns in simp_all)
  then show ?case using Cons.IH [of ns'] Cons.prems ns by simp
qed

end

interpretation frames: stream_codec sendable frame readFrame
proof
  show "sendable m \<Longrightarrow> readFrame (frame m @ r) = Inr (m, r)" for m r by (rule readFrame_frame)
  show "readFrame s = Inr (m, r) \<Longrightarrow> sendable m \<and> s = frame m @ r" for s m r by (rule readFrame_accepts)
  show "sendable m \<Longrightarrow> frame m \<noteq> []" for m by (simp add: frame_def put_uint32_def)
qed

text \<open>The sending side of a link: one write per message, until one fails.\<close>

definition send_all :: "octet list list \<Rightarrow> frame_error + octet list" where
  "send_all ms = each (writeFrame False) [] ms"

lemma each_writeFrame: "list_all sendable ms \<Longrightarrow> each (writeFrame False) out ms = Inr (out @ concat (map frame ms))"
  by (induction ms arbitrary: out) (simp_all add: writeFrame_frame)

lemma read_frames_Inr: "readFrame s = Inr (b, r) \<Longrightarrow> read_frames s = (b # fst (read_frames r), snd (read_frames r))"
  using frames.dec_ok [of s b r]
  by (subst read_frames.simps) (simp add: frame_def split: prod.splits)

lemma read_frames_concat:
  "list_all sendable ms \<Longrightarrow> read_frames (concat (map frame ms) @ t) = (ms @ fst (read_frames t), snd (read_frames t))"
  by (induction ms) (simp_all add: read_frames_Inr [OF frames.dec_enc])

lemma read_frames_Nil: "read_frames [] = ([], EndOfStream)"
  by (simp add: read_frames.simps readFrame_def read_full_def)

text \<open>C32. Messages arrive as they were sent. Whatever messages the writer accepts, the reader gets back
  exactly those, in order, and then sees the end of the stream; and a writer never lets two different
  sequences of messages make the same bytes.\<close>

theorem frames_round_trip:
  assumes "send_all ms = Inr bytes"
  shows "read_frames bytes = (ms, EndOfStream) \<and> (\<forall>ns. send_all ns = Inr bytes \<longrightarrow> ns = ms)"
proof -
  have sent: "list_all sendable ns \<and> b = out @ concat (map frame ns)" if "each (writeFrame False) out ns = Inr b" for ns b out
    using that
  proof (induction ns arbitrary: out)
    case (Cons n ns)
    have "writeFrame False out n \<in> range Inl" if "\<not> sendable n"
      using that by (auto simp: writeFrame_def sendable_def not_le)
    then have "sendable n" using Cons.prems by (cases "sendable n") (auto simp: and_then_eq_Inr)
    then show ?case using Cons.IH [of "out @ frame n"] Cons.prems by (simp add: writeFrame_frame)
  qed simp
  have ms: "list_all sendable ms" "bytes = concat (map frame ms)"
    using sent [of "[]" ms bytes] assms by (simp_all add: send_all_def)
  have "ns = ms" if "send_all ns = Inr bytes" for ns
    using frames.concat_injective [of ns ms] sent [of "[]" ns bytes] that ms by (simp add: send_all_def)
  then show ?thesis using read_frames_concat [OF ms(1), of "[]"] by (simp add: ms(2) read_frames_Nil)
qed

theorem frames_round_trip_witness: "read_frames [0, 0, 0, 2, 7, 8, 0, 0, 0, 1, 9] = ([[7, 8], [9]], EndOfStream)"
proof -
  have "send_all [[7, 8], [9]] = Inr [0, 0, 0, 2, 7, 8, 0, 0, 0, 1, 9]"
    by (simp add: send_all_def writeFrame_def maxFrame_def put_uint32_def)
  then show ?thesis using frames_round_trip by blast
qed

text \<open>A peer cannot make the reader take more than a frame allows. Every message that is accepted has
  between one byte and 64 MiB and consumes its four header bytes and its own; a header that names
  any other length is refused with that length before a byte of the body is read, whatever follows.\<close>

lemma frame_length_is_bounded:
  "(readFrame s = Inr (b, r) \<longrightarrow> 0 < length b \<and> length b \<le> maxFrame \<and> length s = 4 + length b + length r) \<and>
   (n = 0 \<or> unat n > maxFrame \<longrightarrow> readFrame (put_uint32 n @ body) = Inl (FrameOf (unat n)))"
proof
  show "readFrame s = Inr (b, r) \<longrightarrow> 0 < length b \<and> length b \<le> maxFrame \<and> length s = 4 + length b + length r"
    using frames.dec_ok [of s b r] by (auto simp: sendable_def frame_def)
  show "n = 0 \<or> unat n > maxFrame \<longrightarrow> readFrame (put_uint32 n @ body) = Inl (FrameOf (unat n))"
    by (auto simp: readFrame_def read_full_def)
qed

lemma frame_length_is_bounded_witness:
  "length [7, 8 :: octet] \<le> maxFrame \<and> readFrame (put_uint32 0xFFFFFFFF @ [7]) = Inl (FrameOf (2 ^ 32 - 1))"
  using frame_length_is_bounded [of "[0, 0, 0, 2, 7, 8]" "[7, 8]" "[]" "0xFFFFFFFF" "[7]"]
  by (simp add: readFrame_def read_full_def maxFrame_def unat_of_nat)

end
