(* ===== verification/LinkSlot.thy ===== *)
theory LinkSlot
  imports Prelude "HOL-Library.Word"
begin

text \<open>
  Which consumer the broker talks to (src/controlplane/observe.go, \<open>consumerLinkSlot\<close> and
  \<open>plane.serve\<close>). The accept loop closes the connection of a consumer that has died, admits a new
  one unless another live process holds the slot, and starts a worker for each connection it admits.
  A worker waits for the worker before it, runs the link, clears the slot if the slot is still its
  own, and then lets the next worker go.

  Connections are numbered. Which processes are alive is asked of the operating system at each use,
  so each answer is an argument of the step that asks. The generation is the 64-bit counter of the
  code.
\<close>

record link_slot =
  gen :: "64 word"
  busy :: bool
  conn :: "nat option"
  pid :: int

definition free_slot :: link_slot where
  "free_slot = \<lparr>gen = 0, busy = False, conn = None, pid = 0\<rparr>"

text \<open>The connections an operation closes are the second result.\<close>

definition close_conn :: "nat option \<Rightarrow> nat set \<Rightarrow> nat set" where
  "close_conn c closed = (case c of None \<Rightarrow> closed | Some n \<Rightarrow> insert n closed)"

definition evictStale :: "(int \<Rightarrow> bool) \<Rightarrow> link_slot \<Rightarrow> nat set \<Rightarrow> nat set" where
  "evictStale alive s closed =
     (if \<not> busy s \<or> conn s = None then closed
      else if pid s > 0 \<and> alive (pid s) then closed
      else close_conn (conn s) closed)"

definition begin_link :: "(int \<Rightarrow> bool) \<Rightarrow> nat \<Rightarrow> int \<Rightarrow> link_slot \<Rightarrow> nat set \<Rightarrow> (64 word \<times> link_slot \<times> nat set) option" where
  "begin_link alive c p s closed =
     (let held = pid s; live = held > 0 \<and> alive held in
      if busy s \<and> live \<and> p > 0 \<and> held > 0 \<and> p \<noteq> held then None
      else
        let closed' = (if busy s then close_conn (conn s) closed else closed) in
        Some (gen s + 1, \<lparr>gen = gen s + 1, busy = True, conn = Some c, pid = p\<rparr>, closed'))"

definition end_link :: "64 word \<Rightarrow> link_slot \<Rightarrow> link_slot" where
  "end_link g s = (if gen s = g then s\<lparr>busy := False, conn := None, pid := 0\<rparr> else s)"

subsection \<open>The accept loop and its workers\<close>

text \<open>A worker waits for the one before it, runs the link, has closed its connection when the link
  returns, has given up the slot, and is done when it has let the next one go.\<close>

datatype phase = Waiting | Running | Ended | Left | Done

record worker =
  wconn :: nat
  wgen :: "64 word"
  phase :: phase

record serving =
  slot :: link_slot
  workers :: "worker list"
  closed :: "nat set"

definition serve_start :: serving where
  "serve_start = \<lparr>slot = free_slot, workers = [], closed = {}\<rparr>"

definition accept :: "nat \<Rightarrow> int \<Rightarrow> (int \<Rightarrow> bool) \<Rightarrow> (int \<Rightarrow> bool) \<Rightarrow> serving \<Rightarrow> serving" where
  "accept c p alive alive' s =
     (let evicted = evictStale alive (slot s) (closed s) in
      case begin_link alive' c p (slot s) evicted of
        None \<Rightarrow> s\<lparr>closed := insert c evicted\<rparr>
      | Some (g, sl, cl) \<Rightarrow>
          \<lparr>slot = sl, workers = workers s @ [\<lparr>wconn = c, wgen = g, phase = Waiting\<rparr>], closed = cl\<rparr>)"

definition set_phase :: "nat \<Rightarrow> phase \<Rightarrow> serving \<Rightarrow> serving" where
  "set_phase k p s = s\<lparr>workers := (workers s)[k := (workers s ! k)\<lparr>phase := p\<rparr>]\<rparr>"

datatype link_action =
    Accept nat int "int \<Rightarrow> bool" "int \<Rightarrow> bool"
  | Start nat
  | LinkReturns nat
  | GiveUpSlot nat
  | LetNextGo nat

fun link_act :: "link_action \<Rightarrow> serving \<Rightarrow> serving option" where
  "link_act (Accept c p alive alive') s =
     (if c \<in> closed s \<or> c \<in> wconn ` set (workers s) then None else Some (accept c p alive alive' s))"
| "link_act (Start k) s =
     (if k < length (workers s) \<and> phase (workers s ! k) = Waiting \<and> (k = 0 \<or> phase (workers s ! (k - 1)) = Done)
      then Some (set_phase k Running s) else None)"
| "link_act (LinkReturns k) s =
     (if k < length (workers s) \<and> phase (workers s ! k) = Running
      then Some (set_phase k Ended (s\<lparr>closed := insert (wconn (workers s ! k)) (closed s)\<rparr>)) else None)"
| "link_act (GiveUpSlot k) s =
     (if k < length (workers s) \<and> phase (workers s ! k) = Ended
      then Some (set_phase k Left (s\<lparr>slot := end_link (wgen (workers s ! k)) (slot s)\<rparr>)) else None)"
| "link_act (LetNextGo k) s =
     (if k < length (workers s) \<and> phase (workers s ! k) = Left then Some (set_phase k Done s) else None)"

inductive link_reachable :: "serving \<Rightarrow> bool" where
  link_init: "link_reachable serve_start"
| link_next: "link_reachable s \<Longrightarrow> link_act a s = Some s' \<Longrightarrow> link_reachable s'"

subsection \<open>The invariant\<close>

definition open_link :: "serving \<Rightarrow> nat \<Rightarrow> bool" where
  "open_link s k \<longleftrightarrow> k < length (workers s) \<and> wconn (workers s ! k) \<notin> closed s"

definition in_link :: "serving \<Rightarrow> nat \<Rightarrow> bool" where
  "in_link s k \<longleftrightarrow> k < length (workers s) \<and> phase (workers s ! k) \<in> {Running, Ended, Left}"

definition slot_ok :: "serving \<Rightarrow> bool" where
  "slot_ok s \<longleftrightarrow>
     gen (slot s) = of_nat (length (workers s)) \<and>
     (\<forall>k < length (workers s). wgen (workers s ! k) = of_nat (Suc k)) \<and>
     (busy (slot s) \<longrightarrow> workers s \<noteq> [] \<and> conn (slot s) = Some (wconn (last (workers s)))) \<and>
     (\<forall>k. open_link s k \<longrightarrow> Suc k = length (workers s) \<and> busy (slot s)) \<and>
     (\<forall>k < length (workers s). phase (workers s ! k) \<in> {Ended, Left, Done} \<longrightarrow> wconn (workers s ! k) \<in> closed s)"

definition turns_ok :: "serving \<Rightarrow> bool" where
  "turns_ok s \<longleftrightarrow> (\<forall>k. 0 < k \<longrightarrow> k < length (workers s) \<longrightarrow> phase (workers s ! k) \<noteq> Waiting \<longrightarrow> phase (workers s ! (k - 1)) = Done)"

lemma set_phase_simps [simp]:
  "slot (set_phase k p s) = slot s" "closed (set_phase k p s) = closed s"
  "length (workers (set_phase k p s)) = length (workers s)"
  "workers (set_phase k p s) = [] \<longleftrightarrow> workers s = []"
  by (simp_all add: set_phase_def)

lemma workers_set_phase:
  "j < length (workers s) \<Longrightarrow> workers (set_phase k p s) ! j = (workers s ! j)\<lparr>phase := if j = k then p else phase (workers s ! j)\<rparr>"
  by (cases "j = k") (simp_all add: set_phase_def)

lemma last_set_phase [simp]: "workers s \<noteq> [] \<Longrightarrow> wconn (last (workers (set_phase k p s))) = wconn (last (workers s))"
  by (simp add: last_conv_nth workers_set_phase)

lemma open_set_phase [simp]: "open_link (set_phase k p s) j = open_link s j"
  by (auto simp: open_link_def workers_set_phase)

lemma turns_ok_phase:
  assumes "turns_ok s" "phase (workers s ! k) \<noteq> Done"
    and "phase (workers s ! k) = Waiting \<longrightarrow> k = 0 \<or> phase (workers s ! (k - 1)) = Done"
  shows "turns_ok (set_phase k p s)"
  unfolding turns_ok_def
proof (intro allI impI)
  fix j assume j: "0 < j" "j < length (workers (set_phase k p s))" "phase (workers (set_phase k p s) ! j) \<noteq> Waiting"
  then have len: "j < length (workers s)" "j - 1 < length (workers s)" by auto
  have prev: "phase (workers s ! (j - 1)) = Done"
  proof (cases "j = k")
    case True
    then show ?thesis using assms j len by (cases "phase (workers s ! k) = Waiting") (auto simp: turns_ok_def)
  next
    case False
    then show ?thesis using assms(1) j len by (auto simp: turns_ok_def workers_set_phase)
  qed
  then have "j - 1 \<noteq> k" using assms(2) by auto
  then show "phase (workers (set_phase k p s) ! (j - 1)) = Done" using prev len by (simp add: workers_set_phase)
qed

lemma turns_ok_act: "turns_ok s \<Longrightarrow> link_act a s = Some s' \<Longrightarrow> turns_ok s'"
proof (cases a)
  case (Accept c p al al')
  assume s: "turns_ok s" "link_act a s = Some s'"
  have grow: "turns_ok (x\<lparr>workers := workers s @ [w]\<rparr>)" if "phase w = Waiting" for x :: serving and w
    using s(1) that by (auto simp: turns_ok_def nth_append less_Suc_eq)
  show ?thesis
  proof (cases "begin_link al' c p (slot s) (evictStale al (slot s) (closed s))")
    case None
    then show ?thesis using s Accept by (auto simp: accept_def turns_ok_def split: if_splits)
  next
    case (Some r)
    obtain g sl cl where "r = (g, sl, cl)" by (rule prod_cases3)
    then show ?thesis
      using s Accept Some grow [of "\<lparr>wconn = c, wgen = g, phase = Waiting\<rparr>" "\<lparr>slot = sl, workers = [], closed = cl\<rparr>"]
      by (auto simp: accept_def split: if_splits)
  qed
next
  case (Start k)
  assume "turns_ok s" "link_act a s = Some s'"
  then show ?thesis using Start by (auto intro!: turns_ok_phase split: if_splits)
next
  case (LinkReturns k)
  assume s: "turns_ok s" "link_act a s = Some s'"
  have "turns_ok (s\<lparr>closed := x\<rparr>)" for x using s(1) by (simp add: turns_ok_def)
  then show ?thesis using s LinkReturns by (auto intro!: turns_ok_phase split: if_splits)
next
  case (GiveUpSlot k)
  assume s: "turns_ok s" "link_act a s = Some s'"
  have "turns_ok (s\<lparr>slot := x\<rparr>)" for x using s(1) by (simp add: turns_ok_def)
  then show ?thesis using s GiveUpSlot by (auto intro!: turns_ok_phase split: if_splits)
next
  case (LetNextGo k)
  assume "turns_ok s" "link_act a s = Some s'"
  then show ?thesis using LetNextGo by (auto intro!: turns_ok_phase split: if_splits)
qed

text \<open>Workers before the first that is not done are done, so only one can be inside its link.\<close>

lemma done_before:
  assumes "turns_ok s" "k < length (workers s)" "phase (workers s ! k) \<noteq> Waiting" "j < k"
  shows "phase (workers s ! j) = Done"
  using assms
proof (induction k)
  case (Suc k)
  then have "phase (workers s ! k) = Done" by (force simp: turns_ok_def)
  then show ?case using Suc by (cases "j = k") auto
qed simp

lemma one_in_link: "turns_ok s \<Longrightarrow> in_link s j \<Longrightarrow> in_link s k \<Longrightarrow> j = k"
  using done_before [of s j k] done_before [of s k j] by (fastforce simp: in_link_def linorder_neq_iff)

lemma slot_ok_closed: "slot_ok s \<Longrightarrow> closed s \<subseteq> C \<Longrightarrow> slot_ok (s\<lparr>closed := C\<rparr>)"
  by (auto simp: slot_ok_def open_link_def)

lemma slot_ok_phase:
  assumes "slot_ok s" "p \<in> {Ended, Left, Done} \<longrightarrow> wconn (workers s ! k) \<in> closed s"
  shows "slot_ok (set_phase k p s)"
  using assms by (auto simp: slot_ok_def workers_set_phase)

lemma close_conn_mono: "C \<subseteq> close_conn c C"
  by (auto simp: close_conn_def split: option.splits)

lemma evictStale_mono: "C \<subseteq> evictStale al sl C"
  using close_conn_mono by (simp add: evictStale_def)

lemma last_worker: "k < length (workers s) \<Longrightarrow> Suc k = length (workers s) \<Longrightarrow> workers s ! k = last (workers s)"
  by (metis diff_Suc_1 last_conv_nth list.size(3) not_less_zero)

lemma admitted_closes_all:
  assumes "slot_ok s" "begin_link al' c p (slot s) (evictStale al (slot s) (closed s)) = Some (g, sl, cl)" "k < length (workers s)"
  shows "wconn (workers s ! k) \<in> cl"
proof (cases "open_link s k")
  case True
  then have "busy (slot s)" "conn (slot s) = Some (wconn (workers s ! k))"
    using assms(1,3) last_worker [of k s] by (auto simp: slot_ok_def)
  then show ?thesis using assms(2) by (auto simp: begin_link_def Let_def close_conn_def split: if_splits)
next
  case False
  then have "wconn (workers s ! k) \<in> evictStale al (slot s) (closed s)"
    using assms(3) evictStale_mono by (auto simp: open_link_def)
  then show ?thesis using assms(2) close_conn_mono by (auto simp: begin_link_def Let_def split: if_splits)
qed

lemma slot_ok_accept:
  assumes "slot_ok s"
  shows "slot_ok (accept c p al al' s)"
proof (cases "begin_link al' c p (slot s) (evictStale al (slot s) (closed s))")
  case None
  then show ?thesis using slot_ok_closed [OF assms] evictStale_mono by (simp add: accept_def subset_insertI2)
next
  case (Some r)
  obtain g sl cl where r: "r = (g, sl, cl)" by (rule prod_cases3)
  note all = admitted_closes_all [OF assms Some [unfolded r]]
  have sl: "g = gen (slot s) + 1" "sl = \<lparr>gen = g, busy = True, conn = Some c, pid = p\<rparr>"
    using Some r by (auto simp: begin_link_def Let_def split: if_splits)
  show ?thesis using assms all sl Some r
    by (auto simp: accept_def slot_ok_def open_link_def nth_append less_Suc_eq)
qed

lemma slot_ok_give_up:
  assumes "slot_ok s" "k < length (workers s)" "phase (workers s ! k) = Ended" "length (workers s) < 2 ^ 64"
  shows "slot_ok (s\<lparr>slot := end_link (wgen (workers s ! k)) (slot s)\<rparr>)"
proof (cases "gen (slot s) = wgen (workers s ! k)")
  case True
  then have "(of_nat (length (workers s)) :: 64 word) = of_nat (Suc k)"
    using assms(1,2) unfolding slot_ok_def by metis
  then have "unat (of_nat (length (workers s)) :: 64 word) = unat (of_nat (Suc k) :: 64 word)" by simp
  then have "Suc k = length (workers s)" using assms(2,4) by (simp only: unat_of_nat) simp
  then have "\<not> open_link s j" for j
    using assms(1-3) by (cases "j = k") (auto simp: slot_ok_def open_link_def)
  then show ?thesis using assms(1) by (auto simp: slot_ok_def end_link_def open_link_def)
next
  case False
  then show ?thesis using assms(1) by (simp add: slot_ok_def end_link_def open_link_def)
qed

lemma slot_ok_act:
  assumes "slot_ok s" "link_act a s = Some s'" "length (workers s) < 2 ^ 64"
  shows "slot_ok s'"
proof (cases a)
  case (LinkReturns k)
  let ?t = "s\<lparr>closed := insert (wconn (workers s ! k)) (closed s)\<rparr>"
  have "slot_ok ?t" by (rule slot_ok_closed [OF assms(1)]) auto
  then show ?thesis using slot_ok_phase [of ?t Ended k] assms(2) LinkReturns by (auto split: if_splits)
next
  case (GiveUpSlot k)
  let ?t = "s\<lparr>slot := end_link (wgen (workers s ! k)) (slot s)\<rparr>"
  have k: "k < length (workers s)" "phase (workers s ! k) = Ended" "s' = set_phase k Left ?t"
    using assms(2) GiveUpSlot by (auto split: if_splits)
  then have "wconn (workers s ! k) \<in> closed s" using assms(1) by (simp add: slot_ok_def)
  then show ?thesis using slot_ok_phase [of ?t Left k] slot_ok_give_up [OF assms(1) k(1,2) assms(3)] k(3) by simp
next
  case (LetNextGo k)
  then have k: "k < length (workers s)" "phase (workers s ! k) = Left" "s' = set_phase k Done s"
    using assms(2) by (auto split: if_splits)
  then have "wconn (workers s ! k) \<in> closed s" using assms(1) by (simp add: slot_ok_def)
  then show ?thesis using slot_ok_phase [OF assms(1), of Done k] k(3) by simp
qed (use assms slot_ok_accept slot_ok_phase in \<open>auto split: if_splits\<close>)

lemma workers_grow: "link_act a s = Some s' \<Longrightarrow> length (workers s) \<le> length (workers s')"
  by (cases a) (auto simp: accept_def Let_def split: if_splits option.splits)

lemma reachable_turns_ok: "link_reachable s \<Longrightarrow> turns_ok s"
proof (induction rule: link_reachable.induct)
  case link_init
  then show ?case by (simp add: turns_ok_def serve_start_def)
qed (rule turns_ok_act)

lemma reachable_slot_ok: "link_reachable s \<Longrightarrow> length (workers s) < 2 ^ 64 \<Longrightarrow> slot_ok s"
proof (induction rule: link_reachable.induct)
  case link_init
  then show ?case by (simp add: slot_ok_def serve_start_def free_slot_def open_link_def)
next
  case (link_next s a s')
  then have "length (workers s) < 2 ^ 64" using workers_grow [of a s s'] by linarith
  then show ?case using link_next slot_ok_act by blast
qed

subsection \<open>One consumer\<close>

text \<open>C31. One consumer writes the consumer's tables. However connections, deaths and ending links
  interleave, at most one admitted connection is open, it is the one in the slot, and at most one
  worker is inside its link (for the first \<open>2 ^ 64\<close> connections, after which generations repeat).\<close>

theorem one_consumer_link:
  assumes "link_reachable s" "length (workers s) < 2 ^ 64"
  shows "(\<forall>j k. open_link s j \<and> open_link s k \<longrightarrow> j = k) \<and> (\<forall>j k. in_link s j \<and> in_link s k \<longrightarrow> j = k) \<and>
    (\<forall>k. open_link s k \<longrightarrow> busy (slot s) \<and> conn (slot s) = Some (wconn (workers s ! k)))"
proof (intro conjI allI impI)
  note ok = reachable_slot_ok [OF assms]
  show "j = k" if "open_link s j \<and> open_link s k" for j k
    using ok that by (metis old.nat.inject slot_ok_def)
  show "j = k" if "in_link s j \<and> in_link s k" for j k
    using one_in_link reachable_turns_ok [OF assms(1)] that by blast
  show "busy (slot s)" if "open_link s k" for k using ok that by (simp add: slot_ok_def)
  show "conn (slot s) = Some (wconn (workers s ! k))" if "open_link s k" for k
    using ok that last_worker [of k s] by (auto simp: slot_ok_def open_link_def)
qed

text \<open>A consumer that redials while its first link is running.\<close>

definition redialled :: serving where
  "redialled = accept 2 41 (\<lambda>_. True) (\<lambda>_. True) (set_phase 0 Running (accept 1 41 (\<lambda>_. True) (\<lambda>_. True) serve_start))"

lemma redialled_state:
  "redialled = \<lparr>slot = \<lparr>gen = 2, busy = True, conn = Some 2, pid = 41\<rparr>,
     workers = [\<lparr>wconn = 1, wgen = 1, phase = Running\<rparr>, \<lparr>wconn = 2, wgen = 2, phase = Waiting\<rparr>], closed = {1}\<rparr>"
  by (simp add: redialled_def accept_def serve_start_def free_slot_def evictStale_def begin_link_def set_phase_def close_conn_def)

lemma redialled_reachable: "link_reachable redialled"
proof -
  let ?one = "accept 1 41 (\<lambda>_. True) (\<lambda>_. True) serve_start"
  have "link_reachable ?one"
    by (rule link_next [OF link_init, of "Accept 1 41 (\<lambda>_. True) (\<lambda>_. True)"]) (simp add: serve_start_def)
  then have "link_reachable (set_phase 0 Running ?one)"
    by (rule link_next [of _ "Start 0"])
      (simp add: accept_def serve_start_def free_slot_def evictStale_def begin_link_def)
  then show ?thesis unfolding redialled_def
    by (rule link_next [of _ "Accept 2 41 (\<lambda>_. True) (\<lambda>_. True)"])
      (simp add: accept_def serve_start_def free_slot_def evictStale_def begin_link_def set_phase_def)
qed

theorem one_consumer_link_witness: "open_link redialled 1 \<and> \<not> open_link redialled 0 \<and> in_link redialled 0"
proof -
  have "open_link redialled 1" "in_link redialled 0" by (simp_all add: open_link_def in_link_def redialled_state)
  then show ?thesis using one_consumer_link [OF redialled_reachable] by (auto simp: redialled_state)
qed

text \<open>Who gets the slot. A consumer that is alive is never displaced by another process: the new
  connection is closed and nothing else changes. In every other case (the slot is free, its holder is
  dead or unknown, or the same process dials again) the new connection takes the slot at once, the
  connection that held it is closed, and the worker that still runs on it cannot clear the slot
  when it ends, while its generation is not the current one.\<close>

lemma who_takes_the_slot:
  "(let s' = accept c p al al' s; sl = slot s in
    if busy sl \<and> pid sl > 0 \<and> al' (pid sl) \<and> p > 0 \<and> p \<noteq> pid sl
    then slot s' = sl \<and> workers s' = workers s \<and> (al (pid sl) \<longrightarrow> closed s' = insert c (closed s))
    else conn (slot s') = Some c \<and> pid (slot s') = p \<and> busy (slot s') \<and>
      (busy sl \<longrightarrow> set_option (conn sl) \<subseteq> closed s') \<and> closed s \<subseteq> closed s' \<and>
      (\<forall>g. g \<noteq> gen sl + 1 \<longrightarrow> end_link g (slot s') = slot s') \<and>
      workers s' = workers s @ [\<lparr>wconn = c, wgen = gen sl + 1, phase = Waiting\<rparr>])"
  using evictStale_mono [of "closed s" al "slot s"]
  by (auto simp: accept_def begin_link_def Let_def end_link_def evictStale_def close_conn_def split: option.splits)

lemma who_takes_the_slot_witness:
  "slot (accept 3 77 (\<lambda>_. True) (\<lambda>_. True) redialled) = slot redialled \<and>
   closed (accept 3 77 (\<lambda>_. True) (\<lambda>_. True) redialled) = {3, 1} \<and>
   conn (slot (accept 3 77 (\<lambda>_. False) (\<lambda>_. False) redialled)) = Some 3"
  using who_takes_the_slot [of 3 77 "\<lambda>_. True" "\<lambda>_. True" redialled] who_takes_the_slot [of 3 77 "\<lambda>_. False" "\<lambda>_. False" redialled]
  by (simp add: redialled_state Let_def)

end
