(* ===== verification/PlanBands.thy ===== *)
theory PlanBands
  imports Complex_Main AgentDefs GoTime
begin

text \<open>
  Plan usage readings and the verdict on them (src/plan_usage.go, the data types, and
  src/plan_band.go). A reading names the windows of a subscription; a window is put into a band by
  the pressure on it, the logarithm of how fast it is being used over how fast it may be used.

  Percentages, seconds and thresholds, which the code keeps in 64-bit floating point, are real numbers
  here: rounding is not modelled, and the positive infinity of an empty window is a value of its own.
  Durations are whole nanoseconds and \<open>Sub\<close> saturates as it does in the code.
\<close>

subsection \<open>Readings\<close>

datatype plan_band = NoBand | BandOK | BandAhead | BandHot | BandUnder | BandLocked | BandExhausted | BandUnpublished

datatype plan_session = SessionOK | SessionLow | SessionExhausted | SessionUnpublished

definition PlanUsageAvailable :: string where "PlanUsageAvailable = ''available''"
definition PlanUsageUnavailable :: string where "PlanUsageUnavailable = ''unavailable''"
definition PlanWindowSession :: string where "PlanWindowSession = ''session''"
definition PlanWindowWeekly :: string where "PlanWindowWeekly = ''weekly''"
definition PlanWindowModelWeekly :: string where "PlanWindowModelWeekly = ''weekly_model''"

lemmas plan_names = PlanUsageAvailable_def PlanUsageUnavailable_def PlanWindowSession_def PlanWindowWeekly_def
  PlanWindowModelWeekly_def

record plan_window =
  WBand :: plan_band
  WPressure :: "real option"
  WName :: string
  UsedPercent :: "real option"
  RemainingPercent :: "real option"
  ResetsAt :: "go_time option"
  LimitWindow :: int
  WModel :: string

record plan_credits =
  HasCredits :: bool
  Unlimited :: bool
  CBalance :: real

record plan_money =
  AmountMinor :: int
  Exponent :: int
  Currency :: string

record plan_spend =
  SEnabled :: bool
  SUsed :: "plan_money option"
  SLimit :: "plan_money option"
  SPercent :: "real option"
  LimitReached :: bool
  SBalance :: "plan_money option"

record plan_usage =
  PUProvider :: provider
  PUStatus :: string
  PUReason :: string
  Windows :: "plan_window list"
  FetchedAt :: go_time
  PlanType :: string
  HTTPStatus :: int
  RawBody :: string
  Credits :: "plan_credits option"
  Spend :: "plan_spend option"

definition zero_time :: go_time where
  "zero_time = \<lparr>instant = - 62135596800 * 1000000000, offset = 0\<rparr>"

definition IsZero :: "go_time \<Rightarrow> bool" where
  "IsZero t \<longleftrightarrow> instant t = instant zero_time"

definition unavailablePlan :: "provider \<Rightarrow> go_time \<Rightarrow> string \<Rightarrow> plan_usage" where
  "unavailablePlan p now reason =
     \<lparr>PUProvider = p, PUStatus = PlanUsageUnavailable, PUReason = reason, Windows = [], FetchedAt = now, PlanType = [],
      HTTPStatus = 0, RawBody = [], Credits = None, Spend = None\<rparr>"

text \<open>\<open>t.Sub(u)\<close>: the difference, saturated to a 64-bit count of nanoseconds.\<close>

definition time_sub :: "go_time \<Rightarrow> go_time \<Rightarrow> int" where
  "time_sub t u = max (- (2 ^ 63)) (min (2 ^ 63 - 1) (instant t - instant u))"

definition seconds :: "int \<Rightarrow> real" where
  "seconds d = real_of_int d / 1000000000"

subsection \<open>Thresholds\<close>

record plan_thresholds =
  WarmupElapsedPercent :: real
  EarlyAlarmUsedPercent :: real
  LowRemainingPercent :: real
  CriticalRemainingPercent :: real
  DampLambdaPercent :: real
  AheadMarginPercent :: real
  ShrinkPriorK :: real
  PanicAmberLn :: real
  PanicRedLn :: real
  WasteUnderLn :: real
  WasteLockedLn :: real

definition DefaultPlanThresholds :: plan_thresholds where
  "DefaultPlanThresholds = \<lparr>WarmupElapsedPercent = 5, EarlyAlarmUsedPercent = 25, LowRemainingPercent = 15,
     CriticalRemainingPercent = 5, DampLambdaPercent = 5, AheadMarginPercent = 2, ShrinkPriorK = 100,
     PanicAmberLn = 49 / 100, PanicRedLn = 1, WasteUnderLn = - 60 / 100, WasteLockedLn = - 150 / 100\<rparr>"

definition or_default :: "real \<Rightarrow> real \<Rightarrow> real" where
  "or_default x d = (if x = 0 then d else x)"

definition withDefaults :: "plan_thresholds \<Rightarrow> plan_thresholds" where
  "withDefaults th = (let d = DefaultPlanThresholds in
     \<lparr>WarmupElapsedPercent = or_default (WarmupElapsedPercent th) (WarmupElapsedPercent d),
      EarlyAlarmUsedPercent = or_default (EarlyAlarmUsedPercent th) (EarlyAlarmUsedPercent d),
      LowRemainingPercent = or_default (LowRemainingPercent th) (LowRemainingPercent d),
      CriticalRemainingPercent = or_default (CriticalRemainingPercent th) (CriticalRemainingPercent d),
      DampLambdaPercent = or_default (DampLambdaPercent th) (DampLambdaPercent d),
      AheadMarginPercent = or_default (AheadMarginPercent th) (AheadMarginPercent d),
      ShrinkPriorK = or_default (ShrinkPriorK th) (ShrinkPriorK d),
      PanicAmberLn = or_default (PanicAmberLn th) (PanicAmberLn d),
      PanicRedLn = or_default (PanicRedLn th) (PanicRedLn d),
      WasteUnderLn = or_default (WasteUnderLn th) (WasteUnderLn d),
      WasteLockedLn = or_default (WasteLockedLn th) (WasteLockedLn d)\<rparr>)"

subsection \<open>Pressure\<close>

datatype pressure = Infinite | Ln real

definition at_least :: "pressure \<Rightarrow> real \<Rightarrow> bool" where
  "at_least p x \<longleftrightarrow> (case p of Infinite \<Rightarrow> True | Ln y \<Rightarrow> y \<ge> x)"

definition at_most :: "pressure \<Rightarrow> real \<Rightarrow> bool" where
  "at_most p x \<longleftrightarrow> (case p of Infinite \<Rightarrow> False | Ln y \<Rightarrow> y \<le> x)"

definition Pressure :: "real \<Rightarrow> real \<Rightarrow> plan_thresholds \<Rightarrow> pressure" where
  "Pressure used elapsed th0 =
     (let th = withDefaults th0;
          remaining = 100 - used;
          timeLeft = (if 100 - elapsed \<le> 0 then 1 / 10000 else 100 - elapsed)
      in if remaining \<le> 0 then Infinite
         else let k = ShrinkPriorK th;
                  lambda = k * (timeLeft / 100);
                  current = (used + lambda) / (elapsed + lambda);
                  required = remaining / timeLeft
              in Ln (ln (current / required)))"

definition BandOfPressure :: "pressure \<Rightarrow> plan_thresholds \<Rightarrow> plan_band" where
  "BandOfPressure p th0 =
     (let th = withDefaults th0 in
      if at_least p (PanicRedLn th) then BandHot
      else if at_least p (PanicAmberLn th) then BandAhead
      else if at_most p (WasteLockedLn th) then BandLocked
      else if at_most p (WasteUnderLn th) then BandUnder
      else BandOK)"

subsection \<open>Windows\<close>

definition usedPercent :: "plan_window \<Rightarrow> real option" where
  "usedPercent w = (case UsedPercent w of Some u \<Rightarrow> Some u | None \<Rightarrow> map_option (\<lambda>r. 100 - r) (RemainingPercent w))"

definition hour :: int where "hour = 3600 * 1000000000"

definition window_length :: "plan_window \<Rightarrow> int option" where
  "window_length w =
     (if LimitWindow w > 0 then Some (LimitWindow w)
      else if WName w = PlanWindowWeekly then Some (7 * 24 * hour)
      else if WName w = PlanWindowSession then Some (5 * hour)
      else if toLower (WName w) = ''monthly'' then Some (30 * 24 * hour)
      else None)"

definition remainingTimePercent :: "plan_window \<Rightarrow> go_time \<Rightarrow> real option" where
  "remainingTimePercent w now =
     (case ResetsAt w of None \<Rightarrow> None
      | Some r \<Rightarrow>
          (case window_length w of None \<Rightarrow> None
           | Some len \<Rightarrow>
               (let pct = 100 * seconds (time_sub r now) / seconds len;
                    pct' = (if pct < 0 then 0 else pct)
                in Some (if pct' > 100 then 100 else pct'))))"

definition ClassifyWindow :: "plan_window \<Rightarrow> go_time \<Rightarrow> plan_thresholds \<Rightarrow> plan_band" where
  "ClassifyWindow w now th0 =
     (let th = withDefaults th0 in
      if (case RemainingPercent w of Some r \<Rightarrow> r \<le> 0 | None \<Rightarrow> False) then BandExhausted
      else (case (usedPercent w, remainingTimePercent w now) of
          (Some used, Some rtp) \<Rightarrow> BandOfPressure (Pressure used (100 - rtp) th) th
        | _ \<Rightarrow> BandOK))"

definition classifySession :: "plan_window \<Rightarrow> plan_thresholds \<Rightarrow> plan_session" where
  "classifySession w th =
     (case RemainingPercent w of None \<Rightarrow> SessionUnpublished
      | Some r \<Rightarrow> if r \<le> 0 then SessionExhausted else if r \<le> LowRemainingPercent th then SessionLow else SessionOK)"

subsection \<open>Readings classified\<close>

definition planLevelWindow :: "plan_usage \<Rightarrow> string \<Rightarrow> plan_window option" where
  "planLevelWindow u name = find (\<lambda>w. \<not> (WName w \<noteq> name \<or> \<not> blank (WModel w))) (Windows u)"

definition windowNamed :: "plan_usage \<Rightarrow> string \<Rightarrow> plan_window option" where
  "windowNamed u name = find (\<lambda>w. WName w = name) (Windows u)"

definition primaryAllowanceWindow :: "plan_usage \<Rightarrow> plan_window option" where
  "primaryAllowanceWindow u =
     (case planLevelWindow u PlanWindowWeekly of Some w \<Rightarrow> Some w
      | None \<Rightarrow> find (\<lambda>w. \<not> (WName w = PlanWindowSession \<or> WName w = PlanWindowModelWeekly \<or> WName w = []) \<and> blank (WModel w))
          (Windows u))"

fun contains :: "string \<Rightarrow> string \<Rightarrow> bool" where
  "contains sub [] \<longleftrightarrow> sub = []"
| "contains sub (c # s) \<longleftrightarrow> starts_with sub (c # s) \<or> contains sub s"

definition IsExhaustedReason :: "string \<Rightarrow> bool" where
  "IsExhaustedReason reason =
     (let s = toLower reason in
      s \<noteq> [] \<and> (contains ''429'' s \<or> contains ''rate_limit'' s \<or> contains ''rate-limit'' s \<or> contains ''rate limited'' s))"

record plan_verdict =
  Usage :: plan_usage
  Weekly :: plan_band
  Session :: plan_session
  ExhaustedReason :: bool

text \<open>\<open>wall\<close> is what the clock reads, for a caller that passes the zero time.\<close>

definition ClassifyPlan :: "go_time \<Rightarrow> plan_usage \<Rightarrow> go_time \<Rightarrow> plan_thresholds option \<Rightarrow> plan_verdict" where
  "ClassifyPlan wall usage now0 th =
     (let now = (if IsZero now0 then wall else now0);
          thresholds = (case th of None \<Rightarrow> DefaultPlanThresholds | Some t \<Rightarrow> withDefaults t)
      in if PUStatus usage \<noteq> PlanUsageAvailable then
           \<lparr>Usage = usage, Weekly = BandUnpublished, Session = SessionUnpublished, ExhaustedReason = False\<rparr>
         else
           \<lparr>Usage = usage,
            Weekly = (case primaryAllowanceWindow usage of Some w \<Rightarrow> ClassifyWindow w now thresholds | None \<Rightarrow> BandUnpublished),
            Session = (case windowNamed usage PlanWindowSession of Some w \<Rightarrow> classifySession w thresholds | None \<Rightarrow> SessionUnpublished),
            ExhaustedReason = IsExhaustedReason (PUReason usage)\<rparr>)"

definition SpendLimitReached :: "plan_usage \<Rightarrow> bool" where
  "SpendLimitReached usage = (case Spend usage of None \<Rightarrow> False | Some s \<Rightarrow> LimitReached s)"

definition HasAvailableTokens :: "go_time \<Rightarrow> plan_usage \<Rightarrow> go_time \<Rightarrow> plan_thresholds option \<Rightarrow> bool" where
  "HasAvailableTokens wall usage now th =
     (let v = ClassifyPlan wall usage now th in
      Session v \<notin> {SessionLow, SessionExhausted} \<and> Weekly v \<notin> {BandHot, BandExhausted})"

definition ShouldVacate :: "go_time \<Rightarrow> plan_usage \<Rightarrow> go_time \<Rightarrow> plan_thresholds option \<Rightarrow> bool" where
  "ShouldVacate wall usage now th =
     (let v = ClassifyPlan wall usage now th in Session v = SessionExhausted \<or> Weekly v \<in> {BandHot, BandExhausted})"

subsection \<open>Spending more is never cooler\<close>

text \<open>How hot a band is.\<close>

fun heat :: "plan_band \<Rightarrow> nat" where
  "heat BandLocked = 0"
| "heat BandUnder = 1"
| "heat BandOK = 2"
| "heat BandAhead = 3"
| "heat BandHot = 4"
| "heat BandExhausted = 5"
| "heat NoBand = 0"
| "heat BandUnpublished = 0"

definition below :: "pressure \<Rightarrow> pressure \<Rightarrow> bool" where
  "below p q \<longleftrightarrow> (case q of Infinite \<Rightarrow> True | Ln y \<Rightarrow> (case p of Infinite \<Rightarrow> False | Ln x \<Rightarrow> x \<le> y))"

lemma below_at_least: "below p q \<Longrightarrow> at_least p x \<Longrightarrow> at_least q x"
  by (auto simp: below_def at_least_def split: pressure.splits)

lemma below_at_most: "below p q \<Longrightarrow> at_most q x \<Longrightarrow> at_most p x"
  by (auto simp: below_def at_most_def split: pressure.splits)

lemma band_mono: "below p q \<Longrightarrow> heat (BandOfPressure p th) \<le> heat (BandOfPressure q th)"
  using below_at_least [of p q] below_at_most [of p q] by (auto simp: BandOfPressure_def Let_def)

lemma withDefaults_idem [simp]: "withDefaults (withDefaults th) = withDefaults th"
  by (simp add: withDefaults_def Let_def or_default_def DefaultPlanThresholds_def)

lemma withDefaults_default [simp]: "withDefaults DefaultPlanThresholds = DefaultPlanThresholds"
  by (simp add: withDefaults_def Let_def or_default_def DefaultPlanThresholds_def)

lemma default_prior: "0 < ShrinkPriorK DefaultPlanThresholds"
  by (simp add: DefaultPlanThresholds_def)

lemma pressure_mono:
  assumes "0 \<le> used" "used \<le> used'" "0 \<le> elapsed" "0 < ShrinkPriorK (withDefaults th)"
  shows "below (Pressure used elapsed th) (Pressure used' elapsed th)"
proof (cases "100 - used' \<le> 0")
  case True
  then show ?thesis by (simp add: Pressure_def Let_def below_def)
next
  case False
  define t where "t = (if 100 - elapsed \<le> 0 then 1 / 10000 else 100 - elapsed)"
  define l where "l = ShrinkPriorK (withDefaults th) * (t / 100)"
  let ?ratio = "\<lambda>u. ((u + l) / (elapsed + l)) / ((100 - u) / t)"
  have t: "0 < t" by (simp add: t_def)
  then have l: "0 < l" using assms(4) by (simp add: l_def)
  have pos: "0 < (u + l) / (elapsed + l)" "0 < (100 - u) / t" if "0 \<le> u" "u < 100" for u
    using that t l assms(3) by simp_all
  have "(used + l) / (elapsed + l) \<le> (used' + l) / (elapsed + l)"
    using assms l by (intro divide_right_mono) auto
  moreover have "(100 - used') / t \<le> (100 - used) / t" using assms t by (intro divide_right_mono) auto
  ultimately have "?ratio used \<le> ?ratio used'"
    using pos [of used] pos [of used'] assms(1-3) t l False by (intro frac_le) auto
  moreover have "0 < ?ratio used" using assms(1,2) False by (intro divide_pos_pos [OF pos]) auto
  ultimately have "ln (?ratio used) \<le> ln (?ratio used')" by (intro ln_mono) auto
  moreover have "Pressure u elapsed th = Ln (ln (?ratio u))" if "u < 100" for u
    unfolding Pressure_def Let_def t_def [symmetric] l_def [symmetric] using that by simp
  ultimately show ?thesis using False assms(2) by (simp add: below_def)
qed

lemma remaining_bounds: "remainingTimePercent w now = Some p \<Longrightarrow> 0 \<le> p \<and> p \<le> 100"
  by (auto simp: remainingTimePercent_def Let_def split: option.splits if_splits)

definition with_used :: "real \<Rightarrow> plan_window \<Rightarrow> plan_window" where
  "with_used u w = w\<lparr>UsedPercent := Some u, RemainingPercent := Some (100 - u)\<rparr>"

text \<open>Spending more never cools a window. Of two readings of the same window at the same time, the
  one with more of it used is in the same band or in a hotter one, whatever the thresholds are, as
  long as the prior weight they give is positive; a window used up is the hottest.\<close>

lemma more_used_is_never_cooler:
  assumes "0 \<le> used" "used \<le> used'" "0 < ShrinkPriorK (withDefaults th)"
  shows "heat (ClassifyWindow (with_used used w) now th) \<le> heat (ClassifyWindow (with_used used' w) now th) \<and>
    (used' \<ge> 100 \<longrightarrow> ClassifyWindow (with_used used' w) now th = BandExhausted)"
proof -
  let ?rtp = "remainingTimePercent w now"
  have "window_length (with_used u w) = window_length w" "ResetsAt (with_used u w) = ResetsAt w" for u
    by (simp_all add: with_used_def window_length_def)
  then have rtp: "remainingTimePercent (with_used u w) now = ?rtp" for u
    by (simp add: remainingTimePercent_def cong: option.case_cong)
  have used [simp]: "usedPercent (with_used u w) = Some u" "RemainingPercent (with_used u w) = Some (100 - u)" for u
    by (simp_all add: with_used_def usedPercent_def)
  have hottest: "heat b \<le> 5" for b by (cases b) auto
  have "heat (ClassifyWindow (with_used used w) now th) \<le> heat (ClassifyWindow (with_used used' w) now th)" if "used' < 100"
  proof (cases ?rtp)
    case None
    then show ?thesis using that assms(2) by (simp add: ClassifyWindow_def rtp)
  next
    case (Some p)
    then have "0 \<le> 100 - p" using remaining_bounds by fastforce
    then have "below (Pressure used (100 - p) (withDefaults th)) (Pressure used' (100 - p) (withDefaults th))"
      using assms by (intro pressure_mono) simp_all
    then show ?thesis using Some that assms(2) band_mono by (simp add: ClassifyWindow_def rtp Let_def)
  qed
  moreover have "ClassifyWindow (with_used used' w) now th = BandExhausted" if "used' \<ge> 100"
    using that by (simp add: ClassifyWindow_def)
  ultimately show ?thesis using hottest by (cases "used' < 100") auto
qed

definition demo_window :: plan_window where
  "demo_window = \<lparr>WBand = NoBand, WPressure = None, WName = ''weekly'', UsedPercent = None, RemainingPercent = None,
     ResetsAt = Some zero_time, LimitWindow = 0, WModel = []\<rparr>"

lemma more_used_is_never_cooler_witness:
  "heat (ClassifyWindow (with_used 40 demo_window) zero_time DefaultPlanThresholds)
     \<le> heat (ClassifyWindow (with_used 100 demo_window) zero_time DefaultPlanThresholds) \<and>
   ClassifyWindow (with_used 100 demo_window) zero_time DefaultPlanThresholds = BandExhausted"
  using more_used_is_never_cooler [of 40 100 DefaultPlanThresholds demo_window zero_time]
  by (fastforce simp: default_prior)

text \<open>Admission and eviction agree. A provider with tokens available is never one that running
  seats must leave; between the two lies exactly a session that is low while the weekly window is
  neither hot nor used up; a reading that is not available vetoes nothing and evicts nobody; and a
  session published as used up does both.\<close>

lemma admission_and_eviction_agree:
  "(HasAvailableTokens wall u now th \<longrightarrow> \<not> ShouldVacate wall u now th) \<and>
   (\<not> HasAvailableTokens wall u now th \<and> \<not> ShouldVacate wall u now th \<longleftrightarrow>
      Session (ClassifyPlan wall u now th) = SessionLow \<and> Weekly (ClassifyPlan wall u now th) \<notin> {BandHot, BandExhausted}) \<and>
   (PUStatus u \<noteq> PlanUsageAvailable \<longrightarrow> HasAvailableTokens wall u now th \<and> \<not> ShouldVacate wall u now th) \<and>
   (PUStatus u = PlanUsageAvailable \<and> windowNamed u PlanWindowSession = Some w \<and> RemainingPercent w = Some r \<and> r \<le> 0
      \<longrightarrow> \<not> HasAvailableTokens wall u now th \<and> ShouldVacate wall u now th)"
  by (auto simp: HasAvailableTokens_def ShouldVacate_def ClassifyPlan_def Let_def classifySession_def)

lemma admission_and_eviction_agree_witness:
  "HasAvailableTokens zero_time (unavailablePlan ''claude'' zero_time ''429'') zero_time None \<and>
   \<not> ShouldVacate zero_time (unavailablePlan ''claude'' zero_time ''429'') zero_time None"
  using admission_and_eviction_agree [of zero_time "unavailablePlan ''claude'' zero_time ''429''" zero_time None demo_window 0]
  by (simp add: unavailablePlan_def plan_names)

end
