(* ===== verification/PlanThrottle.thy ===== *)
theory PlanThrottle
  imports PlanBands "HOL-Library.AList"
begin

text \<open>
  The floor between two usage requests to one provider (src/plan_usage_throttle.go) and the queries
  that go through it (src/plan_usage.go, \<open>QueryPlanUsage\<close> and \<open>QueryAllPlanUsage\<close>). Every process of
  the host shares two files: when each provider was last asked and may next be asked, and the last
  reading each one gave. A provider that may not be asked yet publishes its last reading again.

  The files are part of the state: a document, or nothing when the file is missing, unreadable or does
  not parse. What a vendor answers is an argument. The raw payload store is left out: nothing reads it
  here. The text of a refusal is the values it is made of.
\<close>

definition PlanThrottleMinInterval :: int where "PlanThrottleMinInterval = 5 * 60 * 1000000000"
definition PlanThrottleFirstPenalty :: int where "PlanThrottleFirstPenalty = 15 * 60 * 1000000000"
definition PlanThrottleMaxPenalty :: int where "PlanThrottleMaxPenalty = 2 * 3600 * 1000000000"
definition PlanThrottleForcedInterval :: int where "PlanThrottleForcedInterval = 60 * 1000000000"

lemmas interval_defs = PlanThrottleMinInterval_def PlanThrottleFirstPenalty_def PlanThrottleMaxPenalty_def
  PlanThrottleForcedInterval_def

subsection \<open>64-bit arithmetic\<close>

definition int64 :: "int \<Rightarrow> int" where
  "int64 x = (x + 2 ^ 63) mod 2 ^ 64 - 2 ^ 63"

definition in_int64 :: "int \<Rightarrow> bool" where
  "in_int64 x \<longleftrightarrow> - (2 ^ 63) \<le> x \<and> x < 2 ^ 63"

text \<open>\<open>x << n\<close>: a negative count panics, and a large one shifts everything out.\<close>

definition shl64 :: "int \<Rightarrow> int \<Rightarrow> int option" where
  "shl64 x n = (if n < 0 then None else Some (int64 (x * 2 ^ nat (min n 64))))"

lemma int64_id: "in_int64 x \<Longrightarrow> int64 x = x"
  by (simp add: in_int64_def int64_def)

subsection \<open>The files\<close>

record throttle_entry =
  LastAttempt :: go_time
  NextAllowedAt :: go_time
  Refusals :: int
  LastStatus :: int

definition zero_entry :: throttle_entry where
  "zero_entry = \<lparr>LastAttempt = zero_time, NextAllowedAt = zero_time, Refusals = 0, LastStatus = 0\<rparr>"

record plan_host =
  state_dir :: bool
  throttle_doc :: "(provider \<times> throttle_entry) list option"
  readings_doc :: "(provider \<times> plan_usage) list option"
  write_fails :: bool

definition readPlanThrottle :: "plan_host \<Rightarrow> (provider \<times> throttle_entry) list" where
  "readPlanThrottle h = (case throttle_doc h of None \<Rightarrow> [] | Some d \<Rightarrow> d)"

text \<open>A time that cannot be written with a four-digit year makes the whole document fail to encode.\<close>

definition entry_encodes :: "throttle_entry \<Rightarrow> bool" where
  "entry_encodes e \<longleftrightarrow> printable (LastAttempt e) \<and> printable (NextAllowedAt e)"

definition writePlanThrottle :: "plan_host \<Rightarrow> (provider \<times> throttle_entry) list \<Rightarrow> plan_host" where
  "writePlanThrottle h doc =
     (if write_fails h \<or> \<not> list_all (\<lambda>(_, e). entry_encodes e) doc then h else h\<lparr>throttle_doc := Some doc\<rparr>)"

definition reading_encodes :: "plan_usage \<Rightarrow> bool" where
  "reading_encodes u \<longleftrightarrow> printable (FetchedAt u) \<and> list_all (\<lambda>w. case ResetsAt w of None \<Rightarrow> True | Some t \<Rightarrow> printable t) (Windows u)"

definition readPlanLastReadings :: "plan_host \<Rightarrow> (provider \<times> plan_usage) list" where
  "readPlanLastReadings h = (case readings_doc h of None \<Rightarrow> [] | Some d \<Rightarrow> d)"

definition savePlanLastReading :: "bool \<Rightarrow> plan_host \<Rightarrow> plan_usage \<Rightarrow> plan_host" where
  "savePlanLastReading dir h pu =
     (if \<not> dir \<or> PUProvider pu = [] \<or> \<not> state_dir h then h
      else let pu' = pu\<lparr>RawBody := []\<rparr>;
               doc = AList.update (PUProvider pu') pu' (readPlanLastReadings h)
           in if write_fails h \<or> \<not> list_all (\<lambda>(_, u). reading_encodes u) doc then h else h\<lparr>readings_doc := Some doc\<rparr>)"

definition loadPlanLastReading :: "bool \<Rightarrow> plan_host \<Rightarrow> provider \<Rightarrow> plan_usage option" where
  "loadPlanLastReading dir h p = (if \<not> dir then None else map_of (readPlanLastReadings h) p)"

subsection \<open>The floor\<close>

datatype withheld = NotWithheld | Refused provider int go_time | TooSoon provider int int

record throttle_decision =
  Allowed :: bool
  RetryAt :: go_time
  Withheld :: withheld

definition allow :: throttle_decision where
  "allow = \<lparr>Allowed = True, RetryAt = zero_time, Withheld = NotWithheld\<rparr>"

definition throttle_floor :: "bool \<Rightarrow> int" where
  "throttle_floor forced = (if forced then PlanThrottleForcedInterval else PlanThrottleMinInterval)"

definition CheckPlanThrottle :: "plan_host \<Rightarrow> provider \<Rightarrow> go_time \<Rightarrow> bool \<Rightarrow> throttle_decision" where
  "CheckPlanThrottle h p now forced =
     (if \<not> state_dir h then allow
      else (case map_of (readPlanThrottle h) p of
          None \<Rightarrow> allow
        | Some e \<Rightarrow>
            if Refusals e > 0 \<and> time_before now (NextAllowedAt e) then
              \<lparr>Allowed = False, RetryAt = NextAllowedAt e, Withheld = Refused p (Refusals e) (NextAllowedAt e)\<rparr>
            else let next = add_nanos (LastAttempt e) (throttle_floor forced) in
              if time_before now next then
                \<lparr>Allowed = False, RetryAt = next, Withheld = TooSoon p (time_sub now (LastAttempt e)) (throttle_floor forced)\<rparr>
              else allow))"

text \<open>The penalty after a number of refusals: it doubles up to two hours; \<open>None\<close> is the panic of a
  negative shift.\<close>

definition penalty :: "int \<Rightarrow> int option" where
  "penalty refusals =
     map_option (\<lambda>p. if p > PlanThrottleMaxPenalty \<or> p \<le> 0 then PlanThrottleMaxPenalty else p)
       (shl64 PlanThrottleFirstPenalty (int64 (refusals - 1)))"

datatype throttle_error = NegativeShift

definition attempted :: "throttle_entry \<Rightarrow> go_time \<Rightarrow> int \<Rightarrow> throttle_error + throttle_entry" where
  "attempted e now status =
     (let e = e\<lparr>LastAttempt := now, LastStatus := status\<rparr> in
      if status = 429 \<or> status = 529 then
        (let n = int64 (Refusals e + 1) in
         case penalty n of None \<Rightarrow> Inl NegativeShift
         | Some d \<Rightarrow> Inr (e\<lparr>Refusals := n, NextAllowedAt := add_nanos now d\<rparr>))
      else if status = 0 then
        Inr (if Refusals e = 0 then e\<lparr>NextAllowedAt := add_nanos now PlanThrottleMinInterval\<rparr> else e)
      else Inr (e\<lparr>Refusals := 0, NextAllowedAt := add_nanos now PlanThrottleMinInterval\<rparr>))"

definition RecordPlanAttempt :: "plan_host \<Rightarrow> provider \<Rightarrow> go_time \<Rightarrow> int \<Rightarrow> throttle_error + plan_host" where
  "RecordPlanAttempt h p now status =
     (if \<not> state_dir h then Inr h
      else let doc = readPlanThrottle h;
               e = (case map_of doc p of None \<Rightarrow> zero_entry | Some e \<Rightarrow> e)
           in and_then (attempted e now status) (\<lambda>e'. Inr (writePlanThrottle h (AList.update p e' doc))))"

subsection \<open>Queries\<close>

datatype plan_error = ProviderRequired | Throttled provider go_time withheld | UnknownProvider provider
  | VendorError string | Panicked

definition providerFetches :: "provider \<Rightarrow> bool" where
  "providerFetches p \<longleftrightarrow> p \<noteq> ProviderBedrock"

text \<open>The arguments: whether a state directory is named, the clock for a zero \<open>Now\<close>, the vendors. The
  requests of Claude and Codex may fail; those of Grok and Cursor always give a reading.\<close>

record plan_query =
  ThrottleDir :: bool
  Wall :: go_time
  Vendor :: "provider \<Rightarrow> go_time \<Rightarrow> string + plan_usage"
  SureVendor :: "provider \<Rightarrow> go_time \<Rightarrow> plan_usage"

text \<open>\<open>attach\<close>: the outcome of a request that gave a reading is recorded. The second result is the state
  of the files, which an error leaves as it is.\<close>

definition attach ::
  "plan_query \<Rightarrow> bool \<Rightarrow> provider \<Rightarrow> go_time \<Rightarrow> plan_host \<Rightarrow> string + plan_usage \<Rightarrow> (plan_error + plan_usage) \<times> plan_host" where
  "attach q paced p now h r =
     (case r of Inl e \<Rightarrow> (Inl (VendorError e), h)
      | Inr pu \<Rightarrow>
          if \<not> paced then (Inr pu, h)
          else (case RecordPlanAttempt h p now (HTTPStatus pu) of
              Inl _ \<Rightarrow> (Inl Panicked, h)
            | Inr h' \<Rightarrow> (Inr pu, savePlanLastReading (ThrottleDir q) h' pu)))"

definition bedrock_reason :: string where
  "bedrock_reason = ''AWS Bedrock does not publish Claude-style session/weekly subscription remaining; '' @
     ''account quotas and spend limits are managed in AWS, not via this surface''"

definition QueryPlanUsage ::
  "plan_query \<Rightarrow> provider \<Rightarrow> bool \<Rightarrow> go_time \<Rightarrow> plan_host \<Rightarrow> (plan_error + plan_usage) \<times> plan_host" where
  "QueryPlanUsage q p forced now0 h =
     (if p = [] then (Inl ProviderRequired, h)
      else
        let now = (if IsZero now0 then Wall q else now0);
            paced = ThrottleDir q \<and> providerFetches p;
            d = CheckPlanThrottle h p now forced
        in if paced \<and> \<not> Allowed d then (Inl (Throttled p (RetryAt d) (Withheld d)), h)
           else if p = ProviderClaude \<or> p = ProviderCodex then attach q paced p now h (Vendor q p now)
           else if p = ProviderGrok \<or> p = ProviderCursor then attach q paced p now h (Inr (SureVendor q p now))
           else if p = ProviderBedrock then (Inr (unavailablePlan ProviderBedrock now bedrock_reason), h)
           else (Inl (UnknownProvider p), h))"

text \<open>The reason a carried reading gets; the text of the refusal is made from its values.\<close>

definition carried :: "(withheld \<Rightarrow> string) \<Rightarrow> withheld \<Rightarrow> plan_usage \<Rightarrow> plan_usage" where
  "carried msg w held =
     held\<lparr>RawBody := [], PUReason := (if PUReason held = [] then msg w else PUReason held @ ''; '' @ msg w)\<rparr>"

fun query_each ::
  "plan_query \<Rightarrow> (withheld \<Rightarrow> string) \<Rightarrow> bool \<Rightarrow> go_time \<Rightarrow> provider list \<Rightarrow> plan_usage list \<Rightarrow> plan_host \<Rightarrow>
     (plan_error + plan_usage list) \<times> plan_host" where
  "query_each q msg forced now [] out h = (Inr out, h)"
| "query_each q msg forced now (p # ps) out h =
     (case QueryPlanUsage q p forced now h of
        (Inl (Throttled _ _ w), h') \<Rightarrow>
          query_each q msg forced now ps
            (case loadPlanLastReading (ThrottleDir q) h' p of None \<Rightarrow> out | Some held \<Rightarrow> out @ [carried msg w held]) h'
      | (Inl e, h') \<Rightarrow> (Inl e, h')
      | (Inr pu, h') \<Rightarrow> query_each q msg forced now ps (out @ [pu]) h')"

definition QueryAllPlanUsage ::
  "plan_query \<Rightarrow> (withheld \<Rightarrow> string) \<Rightarrow> bool \<Rightarrow> go_time \<Rightarrow> provider list \<Rightarrow> plan_host \<Rightarrow>
     (plan_error + plan_usage list) \<times> plan_host" where
  "QueryAllPlanUsage q msg forced now ps h =
     query_each q msg forced now
       (if ps = [] then [ProviderClaude, ProviderCodex, ProviderGrok, ProviderBedrock, ProviderCursor] else ps) [] h"

subsection \<open>The penalty\<close>

lemma small_shifts:
  "list_all (\<lambda>s. let p = int64 (PlanThrottleFirstPenalty * 2 ^ s) in
     (if p > PlanThrottleMaxPenalty \<or> p \<le> 0 then PlanThrottleMaxPenalty else p)
       = min (PlanThrottleFirstPenalty * 2 ^ s) PlanThrottleMaxPenalty) [0..<65]"
  by (simp add: upt_rec int64_def interval_defs)

lemma clipped_shift:
  assumes "s \<le> 64"
  shows "(let p = int64 (PlanThrottleFirstPenalty * 2 ^ s) in
     if p > PlanThrottleMaxPenalty \<or> p \<le> 0 then PlanThrottleMaxPenalty else p)
       = min (PlanThrottleFirstPenalty * 2 ^ s) PlanThrottleMaxPenalty"
proof -
  have "s \<in> set [0..<65]" using assms by simp
  then show ?thesis using small_shifts unfolding list_all_iff by (simp only: Let_def)
qed

text \<open>However many refusals there were, the shift that doubles the penalty never wraps into a short one.\<close>

lemma penalty_value:
  assumes "0 \<le> r" "r < 2 ^ 63 - 1"
  shows "penalty (r + 1) = Some (min (PlanThrottleFirstPenalty * 2 ^ nat r) PlanThrottleMaxPenalty)"
proof -
  have r: "int64 (r + 1 - 1) = r" using assms by (simp add: int64_id in_int64_def)
  have "min (PlanThrottleFirstPenalty * 2 ^ nat (min r 64)) PlanThrottleMaxPenalty
      = min (PlanThrottleFirstPenalty * 2 ^ nat r) PlanThrottleMaxPenalty"
  proof (cases "r \<le> 64")
    case False
    then have "(2 :: int) ^ 64 \<le> 2 ^ nat r" by (intro power_increasing) auto
    then show ?thesis using False by (simp add: interval_defs min_def)
  qed simp
  moreover have "nat (min r 64) \<le> 64" by simp
  ultimately show ?thesis using r assms(1) clipped_shift [of "nat (min r 64)"] by (simp add: penalty_def shl64_def Let_def)
qed

text \<open>A stored count below zero, which the file may hold, makes the next refusal panic.\<close>

lemma negative_refusals_panic:
  assumes "in_int64 (Refusals e)" "Refusals e < 0" "status = 429 \<or> status = 529"
  shows "attempted e now status = Inl NegativeShift"
  using assms by (auto simp: attempted_def Let_def int64_id in_int64_def penalty_def shl64_def)

subsection \<open>What a request leaves behind\<close>

text \<open>A time far enough from the ends of the calendar that the times derived from it can be written.\<close>

definition ordinary :: "go_time \<Rightarrow> bool" where
  "ordinary t \<longleftrightarrow> (\<forall>d. 0 \<le> d \<and> d \<le> PlanThrottleMaxPenalty \<longrightarrow> printable (add_nanos t d))"

lemma ordinary_printable: "ordinary t \<Longrightarrow> printable t"
  unfolding ordinary_def by (drule spec [of _ 0]) (simp add: add_nanos_def interval_defs)

definition writable :: "plan_host \<Rightarrow> bool" where
  "writable h \<longleftrightarrow> state_dir h \<and> \<not> write_fails h \<and> list_all (\<lambda>(_, e). entry_encodes e) (readPlanThrottle h)"

definition stored_entry :: "plan_host \<Rightarrow> provider \<Rightarrow> throttle_entry" where
  "stored_entry h p = (case map_of (readPlanThrottle h) p of None \<Rightarrow> zero_entry | Some e \<Rightarrow> e)"

lemma attempted_times:
  assumes "attempted e now status = Inr e'" "ordinary now" "entry_encodes e"
  shows "LastAttempt e' = now" "entry_encodes e'"
proof -
  have pen: "0 \<le> d \<and> d \<le> PlanThrottleMaxPenalty" if "penalty n = Some d" for n d
    using that by (auto simp: penalty_def interval_defs split: if_splits)
  have ok: "printable now" "printable (add_nanos now PlanThrottleMinInterval)"
    using assms(2) ordinary_printable by (auto simp: ordinary_def interval_defs)
  show "LastAttempt e' = now" "entry_encodes e'"
    using assms(1,3) ok pen assms(2)
    by (auto simp: attempted_def Let_def entry_encodes_def ordinary_def split: if_splits option.splits)
qed

lemma recorded:
  assumes "writable h" "ordinary now" "RecordPlanAttempt h p now status = Inr h'"
  obtains e' where "attempted (stored_entry h p) now status = Inr e'"
    "h' = h\<lparr>throttle_doc := Some (AList.update p e' (readPlanThrottle h))\<rparr>" "writable h'" "LastAttempt e' = now"
    "map_of (readPlanThrottle h') = (map_of (readPlanThrottle h))(p \<mapsto> e')"
proof -
  from assms(1,3) obtain e' where e': "attempted (stored_entry h p) now status = Inr e'"
    "h' = writePlanThrottle h (AList.update p e' (readPlanThrottle h))"
    by (auto simp: RecordPlanAttempt_def writable_def Let_def and_then_eq_Inr stored_entry_def)
  have zero: "printable zero_time" by (simp add: printable_def zero_time_def epoch_day_def days_before_year_def)
  have old: "entry_encodes (stored_entry h p)"
  proof (cases "map_of (readPlanThrottle h) p")
    case None
    then show ?thesis using zero by (simp add: stored_entry_def zero_entry_def entry_encodes_def)
  next
    case (Some e)
    then show ?thesis using assms(1) map_of_SomeD [OF Some] by (auto simp: stored_entry_def writable_def list_all_iff)
  qed
  note times = attempted_times [OF e'(1) assms(2) old]
  have enc: "list_all (\<lambda>(_, e). entry_encodes e) (AList.update p e' (readPlanThrottle h))"
    using assms(1) times(2) in_set_update [of _ p e' "readPlanThrottle h"] by (fastforce simp: writable_def list_all_iff)
  then have h': "h' = h\<lparr>throttle_doc := Some (AList.update p e' (readPlanThrottle h))\<rparr>"
    using e'(2) assms(1) by (simp add: writePlanThrottle_def writable_def)
  show ?thesis
    by (rule that [OF e'(1) h' _ times(1)])
      (use assms(1) enc h' in \<open>simp_all add: writable_def readPlanThrottle_def update_conv'\<close>)
qed

lemma check_Some:
  assumes "state_dir h" "map_of (readPlanThrottle h) p = Some e"
  shows "Allowed (CheckPlanThrottle h p now forced) \<longleftrightarrow>
    (Refusals e > 0 \<longrightarrow> instant (NextAllowedAt e) \<le> instant now) \<and> instant (LastAttempt e) + throttle_floor forced \<le> instant now"
  using assms by (auto simp: CheckPlanThrottle_def Let_def allow_def time_before_def add_nanos_def)

text \<open>A refusal is respected. When a provider answers 429 or 529, whatever number of refusals came
  before, no process of the host asks it again, not even by an explicit refresh, until the penalty is
  over: fifteen minutes, doubled for each earlier refusal, and never more than two hours; and from
  that moment on it may be asked.\<close>

lemma refusal_is_respected:
  assumes "writable h" "ordinary t" "status = 429 \<or> status = 529"
    and "0 \<le> Refusals (stored_entry h p)" "Refusals (stored_entry h p) < 2 ^ 63 - 1"
  shows "\<exists>h'. RecordPlanAttempt h p t status = Inr h' \<and>
    (\<forall>now forced. Allowed (CheckPlanThrottle h' p now forced) \<longleftrightarrow>
       instant t + min (PlanThrottleFirstPenalty * 2 ^ nat (Refusals (stored_entry h p))) PlanThrottleMaxPenalty \<le> instant now)"
proof -
  let ?r = "Refusals (stored_entry h p)"
  let ?d = "min (PlanThrottleFirstPenalty * 2 ^ nat ?r) PlanThrottleMaxPenalty"
  let ?e = "(stored_entry h p)\<lparr>LastAttempt := t, LastStatus := status, Refusals := ?r + 1, NextAllowedAt := add_nanos t ?d\<rparr>"
  have e: "attempted (stored_entry h p) t status = Inr ?e"
    using assms(3-5) penalty_value [OF assms(4,5)] by (auto simp: attempted_def Let_def int64_id in_int64_def)
  then obtain h' where h': "RecordPlanAttempt h p t status = Inr h'"
    using assms(1) by (auto simp: RecordPlanAttempt_def writable_def Let_def stored_entry_def)
  obtain e' where e': "attempted (stored_entry h p) t status = Inr e'" "writable h'"
    "map_of (readPlanThrottle h') = (map_of (readPlanThrottle h))(p \<mapsto> e')"
    using recorded [OF assms(1,2) h'] by metis
  have floor: "throttle_floor forced \<le> min (PlanThrottleFirstPenalty * x) PlanThrottleMaxPenalty" if "1 \<le> x" for forced x
    using that by (auto simp: throttle_floor_def interval_defs)
  have "throttle_floor forced \<le> ?d" for forced by (rule floor) simp
  moreover have "Allowed (CheckPlanThrottle h' p now forced) \<longleftrightarrow>
      (0 < ?r + 1 \<longrightarrow> instant t + ?d \<le> instant now) \<and> instant t + throttle_floor forced \<le> instant now" for now forced
    using check_Some [of h' p ?e now forced] e e' by (simp add: writable_def add_nanos_def)
  ultimately show ?thesis using h' assms(4) by (smt (verit))
qed

text \<open>A host that has asked nobody, and a time in October 2026.\<close>

definition demo_host :: plan_host where
  "demo_host = \<lparr>state_dir = True, throttle_doc = None, readings_doc = None, write_fails = False\<rparr>"

definition demo_time :: "int \<Rightarrow> go_time" where
  "demo_time s = \<lparr>instant = (1792386245 + s) * 1000000000, offset = 0\<rparr>"

lemma demo_writable: "writable demo_host"
  by (simp add: writable_def demo_host_def readPlanThrottle_def)

lemma demo_ordinary: "0 \<le> s \<Longrightarrow> s \<le> 86400 \<Longrightarrow> ordinary (demo_time s)"
  by (auto simp: ordinary_def printable_def demo_time_def add_nanos_def epoch_day_def days_before_year_def interval_defs)

lemma refusal_is_respected_witness:
  "\<exists>h'. RecordPlanAttempt demo_host ''claude'' (demo_time 0) 429 = Inr h' \<and>
     \<not> Allowed (CheckPlanThrottle h' ''claude'' (demo_time 899) True) \<and> Allowed (CheckPlanThrottle h' ''claude'' (demo_time 900) False)"
proof -
  have "stored_entry demo_host ''claude'' = zero_entry"
    by (simp add: stored_entry_def demo_host_def readPlanThrottle_def)
  then obtain h' where "RecordPlanAttempt demo_host ''claude'' (demo_time 0) 429 = Inr h'"
    "\<forall>now forced. Allowed (CheckPlanThrottle h' ''claude'' now forced) \<longleftrightarrow>
       instant (demo_time 0) + min PlanThrottleFirstPenalty PlanThrottleMaxPenalty \<le> instant now"
    using refusal_is_respected [OF demo_writable demo_ordinary [of 0], of 429 "''claude''"] by (auto simp: zero_entry_def)
  then show ?thesis by (simp add: demo_time_def interval_defs)
qed

subsection \<open>A run of queries\<close>

text \<open>The requests that reach a vendor, with whether they were forced and when, in a sequence of queries by
  any processes of the host.\<close>

type_synonym request = "provider \<times> bool \<times> go_time"

definition reaches_vendor :: "plan_query \<Rightarrow> request \<Rightarrow> plan_host \<Rightarrow> bool" where
  "reaches_vendor q r h = (case r of (p, forced, t) \<Rightarrow> providerFetches p \<and> (\<exists>pu. fst (QueryPlanUsage q p forced t h) = Inr pu))"

fun asked :: "plan_query \<Rightarrow> request list \<Rightarrow> request list \<Rightarrow> plan_host \<Rightarrow> request list" where
  "asked q [] sent h = sent"
| "asked q ((p, forced, t) # rs) sent h =
     asked q rs (if reaches_vendor q (p, forced, t) h then sent @ [(p, forced, t)] else sent) (snd (QueryPlanUsage q p forced t h))"

definition spaced :: "request \<Rightarrow> request \<Rightarrow> bool" where
  "spaced r r' = (case r of (p, _, t) \<Rightarrow> case r' of (p', forced, t') \<Rightarrow>
     p = p' \<longrightarrow> instant t + throttle_floor forced \<le> instant t')"

definition accounted :: "plan_host \<Rightarrow> request list \<Rightarrow> bool" where
  "accounted h sent \<longleftrightarrow> (\<forall>(p, forced, t) \<in> set sent.
     \<exists>e. map_of (readPlanThrottle h) p = Some e \<and> instant t \<le> instant (LastAttempt e))"

lemma save_keeps_throttle [simp]:
  "readPlanThrottle (savePlanLastReading d h pu) = readPlanThrottle h"
  "state_dir (savePlanLastReading d h pu) = state_dir h" "write_fails (savePlanLastReading d h pu) = write_fails h"
  "throttle_doc (savePlanLastReading d h pu) = throttle_doc h"
  by (simp_all add: savePlanLastReading_def readPlanThrottle_def Let_def)

lemma writable_save [simp]: "writable (savePlanLastReading d h pu) = writable h"
  by (simp add: writable_def)

lemma attach_outcome:
  assumes "attach q True p now h r = (Inr pu, h')"
  obtains h1 where "RecordPlanAttempt h p now (HTTPStatus pu) = Inr h1" "h' = savePlanLastReading (ThrottleDir q) h1 pu"
  using assms by (auto simp: attach_def split: sum.splits)

lemma attach_error: "attach q b p now h r = (Inl e, h') \<Longrightarrow> h' = h"
  by (auto simp: attach_def split: sum.splits if_splits)

text \<open>A paced query either leaves the files alone, or was allowed and has recorded its attempt.\<close>

lemma query_outcome:
  assumes "ThrottleDir q" "providerFetches p" "\<not> IsZero t" "QueryPlanUsage q p forced t h = (res, h')"
  shows "(case res of Inl _ \<Rightarrow> h' = h
     | Inr pu \<Rightarrow> Allowed (CheckPlanThrottle h p t forced) \<and>
         (\<exists>h1. RecordPlanAttempt h p t (HTTPStatus pu) = Inr h1 \<and> h' = savePlanLastReading True h1 pu))"
proof (cases res)
  case (Inl e)
  then show ?thesis using assms attach_error [of q True p t h] by (auto simp: QueryPlanUsage_def Let_def split: if_splits)
next
  case (Inr pu)
  have "providerFetches ProviderBedrock = False" by (simp add: providerFetches_def)
  then have "Allowed (CheckPlanThrottle h p t forced) \<and> (\<exists>r. attach q True p t h r = (Inr pu, h'))"
    using assms Inr by (auto simp: QueryPlanUsage_def Let_def split: if_splits)
  then show ?thesis using Inr assms(1) by (auto elim: attach_outcome)
qed

lemma unpaced_query:
  assumes "\<not> providerFetches p" "QueryPlanUsage q p forced t h = (res, h')"
  shows "h' = h"
  using assms by (auto simp: QueryPlanUsage_def Let_def providerFetches_def attach_def provider_defs split: if_splits sum.splits)

lemma query_step:
  assumes "ThrottleDir q" "writable h" "ordinary t" "\<not> IsZero t" "accounted h sent" "sorted_wrt spaced sent"
    and "QueryPlanUsage q p forced t h = (res, h')"
    and "sent' = (if reaches_vendor q (p, forced, t) h then sent @ [(p, forced, t)] else sent)"
  shows "writable h' \<and> accounted h' sent' \<and> sorted_wrt spaced sent'"
proof (cases "reaches_vendor q (p, forced, t) h")
  case False
  have "h' = h"
  proof (cases "providerFetches p")
    case True
    then obtain e where "res = Inl e" using False assms(7) by (cases res) (auto simp: reaches_vendor_def)
    then show ?thesis using query_outcome [OF assms(1) True assms(4,7)] by simp
  qed (use unpaced_query assms(7) in blast)
  then show ?thesis using False assms by simp
next
  case True
  then have p: "providerFetches p" and "\<exists>pu. res = Inr pu" using assms(7) by (auto simp: reaches_vendor_def)
  then obtain pu where pu: "res = Inr pu" by blast
  obtain h1 where h1: "Allowed (CheckPlanThrottle h p t forced)" "RecordPlanAttempt h p t (HTTPStatus pu) = Inr h1"
    "h' = savePlanLastReading True h1 pu"
    using query_outcome [OF assms(1) p assms(4,7)] pu by auto
  obtain e' where e': "writable h1" "LastAttempt e' = t" "map_of (readPlanThrottle h1) = (map_of (readPlanThrottle h))(p \<mapsto> e')"
    using recorded [OF assms(2,3) h1(2)] by metis
  have old: "instant s + throttle_floor forced \<le> instant t" if s: "(p, b, s) \<in> set sent" for b s
  proof -
    obtain e where e: "map_of (readPlanThrottle h) p = Some e" "instant s \<le> instant (LastAttempt e)"
      using assms(5) s by (fastforce simp: accounted_def)
    then show ?thesis using check_Some [OF _ e(1), of t forced] assms(2) h1(1) by (simp add: writable_def)
  qed
  have floor: "0 \<le> throttle_floor forced" by (simp add: throttle_floor_def interval_defs)
  have "accounted h' (sent @ [(p, forced, t)])"
    unfolding accounted_def
  proof (clarify)
    fix r b s assume "(r, b, s) \<in> set (sent @ [(p, forced, t)])"
    then consider "r = p" "instant s \<le> instant t" | "r \<noteq> p" "(r, b, s) \<in> set sent"
      using old [of b s] floor by (cases "r = p") auto
    then show "\<exists>e. map_of (readPlanThrottle h') r = Some e \<and> instant s \<le> instant (LastAttempt e)"
      using assms(5) e' h1(3) by cases (fastforce simp: accounted_def)+
  qed
  moreover have "sorted_wrt spaced (sent @ [(p, forced, t)])"
    using assms(6) old by (auto simp: sorted_wrt_append spaced_def)
  ultimately show ?thesis using True assms(8) e'(1) h1(3) by simp
qed

lemma asked_spaced:
  assumes "ThrottleDir q" "list_all (\<lambda>(_, _, t). ordinary t \<and> \<not> IsZero t) rs" "writable h" "accounted h sent" "sorted_wrt spaced sent"
  shows "sorted_wrt spaced (asked q rs sent h)"
  using assms(2-)
proof (induction rs arbitrary: sent h)
  case (Cons r rs)
  obtain p forced t where r: "r = (p, forced, t)" by (rule prod_cases3)
  obtain res h' where q: "QueryPlanUsage q p forced t h = (res, h')" by (rule prod.exhaust)
  show ?case using Cons.prems Cons.IH query_step [OF assms(1) _ _ _ _ _ q refl] r q by simp
qed simp

text \<open>The host never asks a provider too often. Whatever processes query whatever providers, forced or
  not, two requests that reach the same vendor are a minute apart, and the later one is five minutes
  after the earlier unless it was forced. A restart changes nothing: only the file is consulted.\<close>

lemma requests_are_spaced:
  assumes "ThrottleDir q" "writable h" "list_all (\<lambda>(_, _, t). ordinary t \<and> \<not> IsZero t) rs"
    and "i < j" "j < length (asked q rs [] h)"
    and "asked q rs [] h ! i = (p, forced, t)" "asked q rs [] h ! j = (p, forced', t')"
  shows "instant t + PlanThrottleForcedInterval \<le> instant t' \<and> (\<not> forced' \<longrightarrow> instant t + PlanThrottleMinInterval \<le> instant t')"
proof -
  have "sorted_wrt spaced (asked q rs [] h)" using asked_spaced [OF assms(1,3,2)] by (simp add: accounted_def)
  then have "spaced (p, forced, t) (p, forced', t')" using sorted_wrt_nth_less [OF _ assms(4,5)] assms(6,7) by metis
  then show ?thesis by (auto simp: spaced_def throttle_floor_def interval_defs split: if_splits)
qed

text \<open>A provider asked at once, too early and after a minute.\<close>

definition demo_query :: plan_query where
  "demo_query = \<lparr>ThrottleDir = True, Wall = demo_time 0, Vendor = (\<lambda>_ _. Inl []),
     SureVendor = (\<lambda>p t. (unavailablePlan p t [])\<lparr>HTTPStatus := 200\<rparr>)\<rparr>"

definition demo_requests :: "request list" where
  "demo_requests = [(''grok'', False, demo_time 0), (''grok'', True, demo_time 30), (''grok'', True, demo_time 60)]"

definition demo_reading :: "int \<Rightarrow> plan_usage" where
  "demo_reading s = (unavailablePlan ''grok'' (demo_time s) [])\<lparr>HTTPStatus := 200\<rparr>"

text \<open>The host after a request to Grok that was answered.\<close>

definition grok_host :: "int \<Rightarrow> plan_host" where
  "grok_host s = \<lparr>state_dir = True, throttle_doc = Some [(''grok'', \<lparr>LastAttempt = demo_time s,
       NextAllowedAt = add_nanos (demo_time s) PlanThrottleMinInterval, Refusals = 0, LastStatus = 200\<rparr>)],
     readings_doc = Some [(''grok'', demo_reading s)], write_fails = False\<rparr>"

lemma demo_recorded:
  assumes "0 \<le> s" "s \<le> 86400" "h = demo_host \<or> h = grok_host s0"
  shows "RecordPlanAttempt h ''grok'' (demo_time s) 200 = Inr (h\<lparr>throttle_doc := throttle_doc (grok_host s)\<rparr>)"
proof -
  have ok: "entry_encodes \<lparr>LastAttempt = demo_time s, NextAllowedAt = add_nanos (demo_time s) PlanThrottleMinInterval,
      Refusals = 0, LastStatus = 200\<rparr>"
    using demo_ordinary [OF assms(1,2)] ordinary_printable by (simp add: entry_encodes_def ordinary_def interval_defs)
  show ?thesis using assms(3)
    by (auto simp: RecordPlanAttempt_def demo_host_def grok_host_def readPlanThrottle_def attempted_def zero_entry_def
        writePlanThrottle_def Let_def ok)
qed

lemma demo_saved:
  assumes "0 \<le> s" "s \<le> 86400" "h = demo_host \<or> h = grok_host s0"
  shows "savePlanLastReading True (h\<lparr>throttle_doc := throttle_doc (grok_host s)\<rparr>) (demo_reading s) = grok_host s"
proof -
  have "printable (demo_time s)" using demo_ordinary [OF assms(1,2)] by (rule ordinary_printable)
  then have enc: "reading_encodes (demo_reading s)" by (simp add: reading_encodes_def demo_reading_def unavailablePlan_def)
  have r: "(demo_reading s)\<lparr>RawBody := []\<rparr> = demo_reading s" "PUProvider (demo_reading s) = ''grok''"
    by (simp_all add: demo_reading_def unavailablePlan_def)
  show ?thesis
    by (rule disjE [OF assms(3)])
      (simp_all add: savePlanLastReading_def readPlanLastReadings_def demo_host_def grok_host_def r enc)
qed

lemma demo_answered:
  assumes "0 \<le> s" "s \<le> 86400" "h = demo_host \<or> h = grok_host s0" "Allowed (CheckPlanThrottle h ''grok'' (demo_time s) forced)"
  shows "QueryPlanUsage demo_query ''grok'' forced (demo_time s) h = (Inr (demo_reading s), grok_host s)"
proof -
  have "\<not> IsZero (demo_time s)" using assms(1) by (simp add: IsZero_def demo_time_def zero_time_def)
  moreover have "SureVendor demo_query ''grok'' (demo_time s) = demo_reading s" "HTTPStatus (demo_reading s) = 200" "ThrottleDir demo_query"
    by (simp_all add: demo_query_def demo_reading_def)
  ultimately show ?thesis using assms(4) demo_recorded [OF assms(1-3)] demo_saved [OF assms(1-3)]
    by (simp add: QueryPlanUsage_def provider_defs providerFetches_def attach_def)
qed

lemma demo_check:
  "Allowed (CheckPlanThrottle demo_host ''grok'' t forced)"
  "Allowed (CheckPlanThrottle (grok_host s) ''grok'' (demo_time s') True) \<longleftrightarrow> s + 60 \<le> s'"
  by (simp_all add: CheckPlanThrottle_def demo_host_def grok_host_def readPlanThrottle_def allow_def time_before_def
      throttle_floor_def add_nanos_def interval_defs demo_time_def)

lemma demo_asked: "asked demo_query demo_requests [] demo_host = [(''grok'', False, demo_time 0), (''grok'', True, demo_time 60)]"
proof -
  have a: "QueryPlanUsage demo_query ''grok'' False (demo_time 0) demo_host = (Inr (demo_reading 0), grok_host 0)"
    by (rule demo_answered) (simp_all add: demo_check)
  have b: "QueryPlanUsage demo_query ''grok'' True (demo_time 30) (grok_host 0) = (Inl e, h) \<Longrightarrow> h = grok_host 0" for e h
    using query_outcome [of demo_query "''grok''" "demo_time 30" True "grok_host 0"]
    by (auto simp: demo_query_def providerFetches_def provider_defs IsZero_def demo_time_def zero_time_def)
  have c: "QueryPlanUsage demo_query ''grok'' True (demo_time 60) (grok_host 0) = (Inr (demo_reading 60), grok_host 60)"
    by (rule demo_answered [where ?s0.0 = 0]) (simp_all add: demo_check)
  obtain e where d: "fst (QueryPlanUsage demo_query ''grok'' True (demo_time 30) (grok_host 0)) = Inl e"
    using demo_check(2) [of 0 30]
    by (auto simp: QueryPlanUsage_def provider_defs providerFetches_def demo_query_def IsZero_def demo_time_def zero_time_def Let_def)
  then show ?thesis using a b [of e "snd (QueryPlanUsage demo_query ''grok'' True (demo_time 30) (grok_host 0))"] c
    by (simp add: demo_requests_def reaches_vendor_def providerFetches_def provider_defs prod_eq_iff)
qed

theorem requests_are_spaced_witness:
  "asked demo_query demo_requests [] demo_host ! 1 = (''grok'', True, demo_time 60) \<and>
   instant (demo_time 0) + PlanThrottleForcedInterval \<le> instant (demo_time 60)"
proof -
  have "list_all (\<lambda>(_, _, t). ordinary t \<and> \<not> IsZero t) demo_requests"
    using demo_ordinary [of 0] demo_ordinary [of 30] demo_ordinary [of 60]
    by (simp add: demo_requests_def IsZero_def demo_time_def zero_time_def)
  then show ?thesis
    using requests_are_spaced [of demo_query demo_host demo_requests 0 1 "''grok''" False "demo_time 0" True "demo_time 60"]
    by (simp add: demo_writable demo_asked) (simp add: demo_query_def)
qed

end
