(* ===== verification/PlanStore.thy ===== *)
theory PlanStore
  imports ControlReads PlanThrottle
begin

text \<open>
  The broker's own plan usage: the store in the control file (src/controlplane/plan_usage.go, with the
  handle of src/controlplane/observe.go) and the poll that goes through it
  (src/plan_usage_observation.go). A poll reserves a provider in the file before it asks, so that a
  broker that dies while it asks has used up its turn, and then commits the outcome.

  The poll sees the store through an interface, as in the code; here it is a record of operations over
  a state, and the laws of that interface are the locale \<open>paced_store\<close>. The body of a reading, which
  the code keeps as JSON text, is the reading itself, or a mark that the text does not decode.
\<close>

subsection \<open>Observations and rows\<close>

record observation =
  OProvider :: provider
  OStatus :: string
  OReason :: string
  AttemptedAt :: go_time
  SuccessAt :: go_time
  NextAttemptAt :: go_time
  ORefusals :: int
  Reading :: "plan_usage option"

definition zero_observation :: observation where
  "zero_observation = \<lparr>OProvider = [], OStatus = [], OReason = [], AttemptedAt = zero_time, SuccessAt = zero_time,
     NextAttemptAt = zero_time, ORefusals = 0, Reading = None\<rparr>"

datatype reading_cell = NotText | NotReading | ReadingText "plan_usage option"

text \<open>A row of \<open>claudia_plan_usage\<close>: the seven columns before the body, and the body.\<close>

record plan_row =
  PCells :: "sql_value list"
  PBody :: reading_cell

record history_row =
  HKey :: "string \<times> string"
  HBody :: reading_cell

record plan_file =
  base :: database
  plan_rows :: "plan_row list"
  plan_history :: "history_row list"

datatype store_error = PlaneClosed | Db db_error | MalformedRow | MalformedColumn nat | MalformedRefusals | MalformedTime
  | MalformedReading | MissingProvider | EncodeFailed | BeginFailed | CommitFailed | NoStore

definition planTime :: "go_time \<Rightarrow> string" where
  "planTime t = (if IsZero t then [] else format_rfc3339nano (t\<lparr>offset := 0\<rparr>))"

definition parse_cell :: "string \<Rightarrow> store_error + go_time" where
  "parse_cell s = (if s = [] then Inr zero_time else (case parse_rfc3339 s of None \<Rightarrow> Inl MalformedTime | Some t \<Rightarrow> Inr t))"

definition text_cell :: "plan_row \<Rightarrow> nat \<Rightarrow> store_error + string" where
  "text_cell row i = (case PCells row ! i of SqlText s \<Rightarrow> Inr s | _ \<Rightarrow> Inl (MalformedColumn i))"

definition scanPlan :: "plan_row \<Rightarrow> store_error + observation" where
  "scanPlan row =
     (if length (PCells row) \<noteq> 7 then Inl MalformedRow
      else
        and_then (text_cell row 0) (\<lambda>provider.
        and_then (text_cell row 1) (\<lambda>status.
        and_then (text_cell row 2) (\<lambda>reason.
        and_then (text_cell row 3) (\<lambda>attempted.
        and_then (text_cell row 4) (\<lambda>success.
        and_then (text_cell row 5) (\<lambda>next.
        if PBody row = NotText then Inl (MalformedColumn 7)
        else (case PCells row ! 6 of
            SqlInt refusals \<Rightarrow>
              if refusals < 0 then Inl MalformedRefusals
              else
                and_then (parse_cell attempted) (\<lambda>a.
                and_then (parse_cell success) (\<lambda>s.
                and_then (parse_cell next) (\<lambda>n.
                (case PBody row of
                   ReadingText r \<Rightarrow> Inr \<lparr>OProvider = provider, OStatus = status, OReason = reason, AttemptedAt = a,
                     SuccessAt = s, NextAttemptAt = n, ORefusals = refusals, Reading = r\<rparr>
                 | _ \<Rightarrow> Inl MalformedReading))))
          | _ \<Rightarrow> Inl MalformedRefusals))))))))"

definition plan_key :: "plan_row \<Rightarrow> sql_value list" where
  "plan_key row = take 1 (PCells row)"

definition readPlanUsage :: "plan_file \<Rightarrow> store_error + observation list" where
  "readPlanUsage f =
     (if faults (base f) PlanUsageTable then Inl (Db SqlFault)
      else each (\<lambda>out row. and_then (scanPlan row) (\<lambda>o'. Inr (out @ [o']))) [] (sort_key plan_key (plan_rows f)))"

definition observation_row :: "observation \<Rightarrow> plan_row" where
  "observation_row o' =
     \<lparr>PCells = [SqlText (OProvider o'), SqlText (OStatus o'), SqlText (OReason o'), SqlText (planTime (AttemptedAt o')),
        SqlText (planTime (SuccessAt o')), SqlText (planTime (NextAttemptAt o')), SqlInt (ORefusals o')],
      PBody = ReadingText (map_option (\<lambda>r. r\<lparr>RawBody := []\<rparr>) (Reading o'))\<rparr>"

text \<open>The statement runs under the ownership test of the control tables.\<close>

definition exec_plan :: "plan_file \<Rightarrow> string \<Rightarrow> (plan_file \<Rightarrow> plan_file) \<Rightarrow> store_error + plan_file" where
  "exec_plan f table change =
     (case ExecOwned (Some (base f)) WriterClaudia table Inr of Inl e \<Rightarrow> Inl (Db e) | Inr d \<Rightarrow> Inr (change (f\<lparr>base := d\<rparr>)))"

definition writePlanUsage :: "plan_file \<Rightarrow> observation \<Rightarrow> store_error + plan_file" where
  "writePlanUsage f o' =
     (if OProvider o' = [] then Inl MissingProvider
      else if (case Reading o' of None \<Rightarrow> False | Some r \<Rightarrow> \<not> reading_encodes r) then Inl EncodeFailed
      else exec_plan f PlanUsageTable (\<lambda>f. f\<lparr>plan_rows := upsert plan_key (observation_row o') (plan_rows f)\<rparr>))"

subsection \<open>The owner's handle\<close>

record plane =
  PDb :: "plan_file option"
  flush :: bool

text \<open>\<open>withDB\<close>: the work returns its result and the file it leaves; a link is told that there may be
  something to send.\<close>

definition withDB :: "plane \<Rightarrow> (plan_file \<Rightarrow> 'r \<times> plan_file) \<Rightarrow> (store_error + 'r) \<times> plane" where
  "withDB p fn =
     (case PDb p of None \<Rightarrow> (Inl PlaneClosed, p)
      | Some f \<Rightarrow> (case fn f of (r, f') \<Rightarrow> (Inr r, p\<lparr>PDb := Some f', flush := True\<rparr>)))"

definition ReadPlanUsage :: "plane \<Rightarrow> store_error + observation list" where
  "ReadPlanUsage p = (case PDb p of None \<Rightarrow> Inl PlaneClosed | Some f \<Rightarrow> readPlanUsage f)"

definition reserve_in :: "provider \<Rightarrow> go_time \<Rightarrow> go_time \<Rightarrow> plan_file \<Rightarrow> (store_error + observation \<times> bool) \<times> plan_file" where
  "reserve_in provider now next f =
     (case readPlanUsage f of
        Inl e \<Rightarrow> (Inl e, f)
      | Inr rows \<Rightarrow>
          (let previous = (case find (\<lambda>r. OProvider r = provider) rows of
                 None \<Rightarrow> zero_observation\<lparr>OProvider := provider\<rparr> | Some r \<Rightarrow> r)
           in if time_before now (NextAttemptAt previous) then (Inr (previous, False), f)
              else
                let pending = (if OStatus previous = [] then previous\<lparr>OStatus := PlanUsageUnavailable,
                                 OReason := ''usage poll in progress''\<rparr> else previous);
                    pending = pending\<lparr>AttemptedAt := now, NextAttemptAt := next\<rparr>
                in (case writePlanUsage f pending of Inl e \<Rightarrow> (Inl e, f) | Inr f' \<Rightarrow> (Inr (previous, True), f'))))"

definition ReservePlanUsage ::
  "plane \<Rightarrow> provider \<Rightarrow> go_time \<Rightarrow> go_time \<Rightarrow> (store_error + observation \<times> bool) \<times> plane" where
  "ReservePlanUsage p provider now next =
     (case withDB p (reserve_in provider now next) of (Inl e, p') \<Rightarrow> (Inl e, p') | (Inr r, p') \<Rightarrow> (r, p'))"

definition commit_one :: "plan_file \<Rightarrow> observation \<Rightarrow> store_error + plan_file" where
  "commit_one f o' =
     and_then (writePlanUsage f o') (\<lambda>f1.
       case Reading o' of
         Some r \<Rightarrow>
           if OStatus o' = PlanUsageAvailable then
             exec_plan f1 PlanUsageHistoryTable (\<lambda>f. f\<lparr>plan_history := upsert HKey
               \<lparr>HKey = (OProvider o', planTime (SuccessAt o')), HBody = ReadingText (Some (r\<lparr>RawBody := []\<rparr>))\<rparr> (plan_history f)\<rparr>)
           else Inr f1
       | None \<Rightarrow> Inr f1)"

text \<open>One transaction: an error leaves the file as it was.\<close>

definition commit_in :: "observation list \<Rightarrow> plan_file \<Rightarrow> store_error option \<times> plan_file" where
  "commit_in rows f =
     (if faults (base f) ''BEGIN IMMEDIATE'' then (Some BeginFailed, f)
      else (case each commit_one f rows of
          Inl e \<Rightarrow> (Some e, f)
        | Inr f' \<Rightarrow> if faults (base f) ''COMMIT'' then (Some CommitFailed, f) else (None, f')))"

definition CommitFixturePlanUsage :: "plane \<Rightarrow> observation list \<Rightarrow> store_error option \<times> plane" where
  "CommitFixturePlanUsage p rows =
     (case withDB p (commit_in rows) of (Inl e, p') \<Rightarrow> (Some e, p') | (Inr r, p') \<Rightarrow> (r, p'))"

definition CompletePlanUsage :: "plane \<Rightarrow> observation \<Rightarrow> store_error option \<times> plane" where
  "CompletePlanUsage p o' = CommitFixturePlanUsage p [o']"

subsection \<open>The poll\<close>

record 's plan_store =
  StRead :: "'s \<Rightarrow> store_error + observation list"
  StReserve :: "'s \<Rightarrow> provider \<Rightarrow> go_time \<Rightarrow> go_time \<Rightarrow> (store_error + observation \<times> bool) \<times> 's"
  StComplete :: "'s \<Rightarrow> observation \<Rightarrow> store_error option \<times> 's"

definition broker_store :: "plane plan_store" where
  "broker_store = \<lparr>StRead = ReadPlanUsage, StReserve = ReservePlanUsage, StComplete = CompletePlanUsage\<rparr>"

record plan_snapshot =
  Backends :: "plan_usage list"
  SnapFetchedAt :: go_time
  SnapErr :: "store_error option"

definition backend_of :: "observation \<Rightarrow> plan_usage" where
  "backend_of row =
     (case Reading row of
        Some r \<Rightarrow> if OStatus row = PlanUsageAvailable then r
          else (unavailablePlan (OProvider row) (SuccessAt row) (OReason row))\<lparr>PUStatus := OStatus row\<rparr>
      | None \<Rightarrow> (unavailablePlan (OProvider row) (SuccessAt row) (OReason row))\<lparr>PUStatus := OStatus row\<rparr>)"

definition snapshot_of :: "store_error + observation list \<Rightarrow> plan_snapshot" where
  "snapshot_of rows =
     (case rows of
        Inl e \<Rightarrow> \<lparr>Backends = [], SnapFetchedAt = zero_time, SnapErr = Some e\<rparr>
      | Inr os \<Rightarrow> fold (\<lambda>row s. s\<lparr>Backends := Backends s @ [backend_of row],
            SnapFetchedAt := (if time_after (SuccessAt row) (SnapFetchedAt s) then SuccessAt row else SnapFetchedAt s)\<rparr>)
          os \<lparr>Backends = [], SnapFetchedAt = zero_time, SnapErr = None\<rparr>)"

text \<open>\<open>None\<close> is a store that is not linked.\<close>

definition ReadBrokerPlanUsage :: "'s plan_store option \<Rightarrow> 's \<Rightarrow> plan_snapshot" where
  "ReadBrokerPlanUsage store s = snapshot_of (case store of None \<Rightarrow> Inl NoStore | Some st \<Rightarrow> StRead st s)"

definition BrokerPlanRetryInterval :: int where
  "BrokerPlanRetryInterval = 60 * 1000000000"

definition classified :: "go_time \<Rightarrow> plan_window \<Rightarrow> plan_window" where
  "classified now w0 =
     (let w = w0\<lparr>WBand := ClassifyWindow w0 now DefaultPlanThresholds\<rparr> in
      case (usedPercent w, remainingTimePercent w now) of
        (Some used, Some remaining) \<Rightarrow>
          (case Pressure used (100 - remaining) DefaultPlanThresholds of Infinite \<Rightarrow> w | Ln x \<Rightarrow> w\<lparr>WPressure := Some x\<rparr>)
      | _ \<Rightarrow> w)"

text \<open>When to ask next and the refusals to remember; \<open>None\<close> is the panic of a negative shift.\<close>

definition next_attempt :: "go_time \<Rightarrow> int \<Rightarrow> plan_usage \<Rightarrow> (go_time \<times> int) option" where
  "next_attempt now refusals reading =
     (if HTTPStatus reading = 429 \<or> HTTPStatus reading = 529 then
        (let n = (if refusals < 5 then refusals + 1 else refusals) in
         map_option (\<lambda>p. (add_nanos now (if p > PlanThrottleMaxPenalty then PlanThrottleMaxPenalty else p), n))
           (shl64 PlanThrottleFirstPenalty (n - 1)))
      else if PUStatus reading = PlanUsageAvailable then Some (add_nanos now PlanThrottleMinInterval, 0)
      else Some (add_nanos now BrokerPlanRetryInterval, if HTTPStatus reading \<noteq> 0 then 0 else refusals))"

definition polled :: "provider \<Rightarrow> go_time \<Rightarrow> observation \<Rightarrow> plan_usage \<Rightarrow> observation option" where
  "polled p now previous reading0 =
     (let reading = reading0\<lparr>PUProvider := p, FetchedAt := now, RawBody := []\<rparr> in
      map_option (\<lambda>(next, refusals).
        let o' = previous\<lparr>OProvider := p, OStatus := PUStatus reading, OReason := PUReason reading, AttemptedAt := now,
                  NextAttemptAt := next, ORefusals := refusals\<rparr>
        in if PUStatus reading = PlanUsageAvailable
           then o'\<lparr>Reading := Some (reading\<lparr>Windows := map (classified now) (Windows reading)\<rparr>), SuccessAt := now\<rparr>
           else o')
      (next_attempt now (ORefusals previous) reading))"

datatype poll_error = PollStore store_error | PollCancelled | PollPanic

text \<open>One provider: the first result tells whether its vendor was asked.\<close>

definition poll_provider ::
  "'s plan_store \<Rightarrow> (provider \<Rightarrow> string + plan_usage) \<Rightarrow> provider \<Rightarrow> go_time \<Rightarrow> 's \<Rightarrow> bool \<times> poll_error option \<times> 's" where
  "poll_provider st fetch p now s =
     (case StReserve st s p now (add_nanos now PlanThrottleMinInterval) of
        (Inl e, s1) \<Rightarrow> (False, Some (PollStore e), s1)
      | (Inr (previous, False), s1) \<Rightarrow> (False, None, s1)
      | (Inr (previous, True), s1) \<Rightarrow>
          (case polled p now previous (case fetch p of Inl e \<Rightarrow> unavailablePlan p now e | Inr r \<Rightarrow> r) of
             None \<Rightarrow> (True, Some PollPanic, s1)
           | Some o' \<Rightarrow> (case StComplete st s1 o' of (Some e, s2) \<Rightarrow> (True, Some (PollStore e), s2) | (None, s2) \<Rightarrow> (True, None, s2))))"

definition polled_providers :: "provider list" where
  "polled_providers = [ProviderClaude, ProviderCodex, ProviderGrok, ProviderCursor, ProviderBedrock]"

fun poll_each ::
  "'s plan_store \<Rightarrow> (provider \<Rightarrow> bool) \<Rightarrow> (provider \<Rightarrow> go_time) \<Rightarrow> (provider \<Rightarrow> string + plan_usage) \<Rightarrow> provider list \<Rightarrow> 's \<Rightarrow>
     poll_error option \<times> 's" where
  "poll_each st cancelled clock fetch [] s = (None, s)"
| "poll_each st cancelled clock fetch (p # ps) s =
     (if cancelled p then (Some PollCancelled, s)
      else (case poll_provider st fetch p ((clock p)\<lparr>offset := 0\<rparr>) s of
          (_, Some e, s') \<Rightarrow> (Some e, s')
        | (_, None, s') \<Rightarrow> poll_each st cancelled clock fetch ps s'))"

text \<open>\<open>cancelled\<close> and \<open>clock\<close> are what the context and the clock say when the loop comes to a provider.\<close>

definition PollBrokerPlanUsage ::
  "'s plan_store option \<Rightarrow> (provider \<Rightarrow> bool) \<Rightarrow> (provider \<Rightarrow> go_time) \<Rightarrow> (provider \<Rightarrow> string + plan_usage) \<Rightarrow> 's \<Rightarrow>
     (poll_error + plan_usage list) \<times> 's" where
  "PollBrokerPlanUsage store cancelled clock fetch s =
     (case store of None \<Rightarrow> (Inl (PollStore NoStore), s)
      | Some st \<Rightarrow>
          (case poll_each st cancelled clock fetch polled_providers s of
             (Some e, s') \<Rightarrow> (Inl e, s')
           | (None, s') \<Rightarrow>
               (let snap = ReadBrokerPlanUsage store s' in
                case SnapErr snap of Some e \<Rightarrow> (Inl (PollStore e), s') | None \<Rightarrow> (Inr (Backends snap), s'))))"

subsection \<open>What the poll relies on\<close>

text \<open>The contract of a store: when each provider is due, and that a reservation is granted only when it is,
  that a reservation and a completion move the due time of their provider only, and that an error
  moves nothing. The refusals a good store hands out are between 0 and 5.\<close>

locale paced_store =
  fixes st :: "'s plan_store" and due :: "'s \<Rightarrow> provider \<Rightarrow> int" and good :: "'s \<Rightarrow> bool"
  assumes reserve_error: "good s \<Longrightarrow> StReserve st s p now next = (Inl e, s') \<Longrightarrow> good s' \<and> due s' = due s"
    and reserve_refused: "good s \<Longrightarrow> StReserve st s p now next = (Inr (prev, False), s') \<Longrightarrow> good s' \<and> due s' = due s"
    and reserve_granted: "good s \<Longrightarrow> printable (next\<lparr>offset := 0\<rparr>) \<Longrightarrow> StReserve st s p now next = (Inr (prev, True), s') \<Longrightarrow>
      good s' \<and> due s' = (due s)(p := instant next) \<and> due s p \<le> instant now \<and> 0 \<le> ORefusals prev \<and> ORefusals prev \<le> 5"
    and complete_error: "good s \<Longrightarrow> StComplete st s o' = (Some e, s') \<Longrightarrow> good s' \<and> due s' = due s"
    and complete_ok: "good s \<Longrightarrow> printable ((NextAttemptAt o')\<lparr>offset := 0\<rparr>) \<Longrightarrow> ORefusals o' \<le> 5 \<Longrightarrow> StComplete st s o' = (None, s') \<Longrightarrow>
      good s' \<and> due s' = (due s)(OProvider o' := instant (NextAttemptAt o'))"

text \<open>How long a vendor that answered like this is left alone, at least.\<close>

definition wait_after :: "plan_usage \<Rightarrow> int" where
  "wait_after r = (if HTTPStatus r = 429 \<or> HTTPStatus r = 529 then PlanThrottleFirstPenalty
     else if PUStatus r = PlanUsageAvailable then PlanThrottleMinInterval else BrokerPlanRetryInterval)"

definition answer :: "(provider \<Rightarrow> string + plan_usage) \<Rightarrow> provider \<Rightarrow> go_time \<Rightarrow> plan_usage" where
  "answer fetch p now = (case fetch p of Inl e \<Rightarrow> unavailablePlan p now e | Inr r \<Rightarrow> r)"

lemma few_shifts:
  assumes "1 \<le> n" "n \<le> 5"
  shows "shl64 PlanThrottleFirstPenalty (n - 1) = Some (PlanThrottleFirstPenalty * 2 ^ nat (n - 1))"
proof -
  have "n \<in> {1, 2, 3, 4, 5}" using assms by auto
  then show ?thesis by (auto simp: shl64_def int64_def interval_defs)
qed

lemma next_attempt_bounds:
  assumes "0 \<le> r" "r \<le> 5"
  obtains d n where "next_attempt now r u = Some (add_nanos now d, n)" "wait_after u \<le> d" "d \<le> PlanThrottleMaxPenalty" "0 \<le> n" "n \<le> 5"
proof (cases "HTTPStatus u = 429 \<or> HTTPStatus u = 529")
  case True
  define n where "n = (if r < 5 then r + 1 else r)"
  define p where "p = PlanThrottleFirstPenalty * 2 ^ nat (n - 1)"
  have n: "1 \<le> n" "n \<le> 5" using assms by (auto simp: n_def)
  have "PlanThrottleFirstPenalty \<le> p" by (simp add: p_def interval_defs)
  then have low: "wait_after u \<le> min p PlanThrottleMaxPenalty" using True by (simp add: wait_after_def interval_defs)
  have "next_attempt now r u = Some (add_nanos now (min p PlanThrottleMaxPenalty), n)"
    using True few_shifts [OF n] unfolding next_attempt_def n_def [symmetric] Let_def p_def [symmetric]
    by (simp add: min_def)
  then show ?thesis using that low n by simp
next
  case False
  define d where "d = wait_after u"
  define n where "n = (if PUStatus u = PlanUsageAvailable \<or> HTTPStatus u \<noteq> 0 then 0 else r)"
  have "next_attempt now r u = Some (add_nanos now d, n)" "d \<le> PlanThrottleMaxPenalty"
    using False by (auto simp: next_attempt_def wait_after_def d_def n_def interval_defs BrokerPlanRetryInterval_def)
  then show ?thesis using that [of d n] assms by (simp add: d_def n_def)
qed

lemma utc_nanos: "offset t = 0 \<Longrightarrow> (add_nanos t d)\<lparr>offset := 0\<rparr> = add_nanos t d"
  by (simp add: add_nanos_def)

lemma polled_bounds:
  assumes "0 \<le> ORefusals prev" "ORefusals prev \<le> 5" "ordinary now" "offset now = 0"
  obtains o' where "polled p now prev u = Some o'" "OProvider o' = p" "printable ((NextAttemptAt o')\<lparr>offset := 0\<rparr>)" "ORefusals o' \<le> 5"
    "instant now + wait_after u \<le> instant (NextAttemptAt o')"
proof -
  let ?u = "u\<lparr>PUProvider := p, FetchedAt := now, RawBody := []\<rparr>"
  obtain d n where d: "next_attempt now (ORefusals prev) ?u = Some (add_nanos now d, n)" "wait_after ?u \<le> d"
    "d \<le> PlanThrottleMaxPenalty" "n \<le> 5"
    using next_attempt_bounds [OF assms(1,2), of now ?u] by metis
  have "0 \<le> wait_after ?u" by (simp add: wait_after_def interval_defs BrokerPlanRetryInterval_def)
  then have "printable ((add_nanos now d)\<lparr>offset := 0\<rparr>)" using assms(3) d utc_nanos [OF assms(4), of d] by (simp add: ordinary_def)
  moreover have "wait_after ?u = wait_after u" by (simp add: wait_after_def)
  ultimately show ?thesis using that d by (auto simp: polled_def Let_def add_nanos_def)
qed

context paced_store
begin

lemma poll_step:
  assumes "good s" "ordinary now" "offset now = 0" "poll_provider st fetch p now s = (sent, err, s')"
  shows "good s' \<and> (\<forall>q. q \<noteq> p \<longrightarrow> due s' q = due s q) \<and>
    (if sent then due s p \<le> instant now \<and>
       instant now + (if err = None then wait_after (answer fetch p now) else PlanThrottleMinInterval) \<le> due s' p
     else due s' p = due s p)"
proof -
  let ?next = "add_nanos now PlanThrottleMinInterval"
  have nx: "printable (?next\<lparr>offset := 0\<rparr>)" "instant ?next = instant now + PlanThrottleMinInterval"
    using assms(2) utc_nanos [OF assms(3)] by (simp_all add: ordinary_def interval_defs, simp add: add_nanos_def)
  obtain r s1 where r: "StReserve st s p now ?next = (r, s1)" by (rule prod.exhaust)
  consider e where "r = Inl e" | prev where "r = Inr (prev, False)" | prev where "r = Inr (prev, True)"
  proof (cases r)
    case (Inr x)
    then show ?thesis using that by (cases x; cases "snd x") auto
  qed (use that in blast)
  then show ?thesis
  proof cases
    case 1
    then show ?thesis using assms(4) r reserve_error [OF assms(1)] by (auto simp: poll_provider_def)
  next
    case 2
    then show ?thesis using assms(4) r reserve_refused [OF assms(1)] by (auto simp: poll_provider_def)
  next
    case 3
    note g = reserve_granted [OF assms(1) nx(1) r [unfolded 3]]
    obtain o' where o': "polled p now prev (answer fetch p now) = Some o'" "OProvider o' = p" "printable ((NextAttemptAt o')\<lparr>offset := 0\<rparr>)"
      "ORefusals o' \<le> 5" "instant now + wait_after (answer fetch p now) \<le> instant (NextAttemptAt o')"
      using polled_bounds [of prev now p "answer fetch p now"] g assms(2,3) by metis
    obtain c s2 where c: "StComplete st s1 o' = (c, s2)" by (rule prod.exhaust)
    have out: "sent" "s' = s2" "err = map_option PollStore c"
      using assms(4) r 3 o'(1) c by (cases c; simp add: poll_provider_def answer_def [symmetric])+
    show ?thesis
    proof (cases c)
      case None
      then show ?thesis using complete_ok [of s1 o' s2] g o' c out by simp
    next
      case (Some e)
      then show ?thesis using complete_error [of s1 o' e s2] g c out nx(2) by simp
    qed
  qed
qed

end

subsection \<open>The store of the control file\<close>

definition row_due :: "plan_file \<Rightarrow> provider \<Rightarrow> int" where
  "row_due f p =
     (case find (\<lambda>r. plan_key r = [SqlText p]) (plan_rows f) of None \<Rightarrow> instant zero_time
      | Some r \<Rightarrow> (case and_then (text_cell r 5) parse_cell of Inl _ \<Rightarrow> 0 | Inr t \<Rightarrow> instant t))"

definition few_refusals :: "plan_row \<Rightarrow> bool" where
  "few_refusals r \<longleftrightarrow> (\<forall>n. PCells r ! 6 = SqlInt n \<longrightarrow> n \<le> 5)"

definition plane_due :: "plane \<Rightarrow> provider \<Rightarrow> int" where
  "plane_due p q = (case PDb p of None \<Rightarrow> 0 | Some f \<Rightarrow> row_due f q)"

definition plane_good :: "plane \<Rightarrow> bool" where
  "plane_good p \<longleftrightarrow> (case PDb p of None \<Rightarrow> True | Some f \<Rightarrow> list_all few_refusals (plan_rows f))"

lemma find_filter: "find P xs = (case filter P xs of [] \<Rightarrow> None | x # _ \<Rightarrow> Some x)"
  by (induction xs) auto

lemma find_sort_key: "find (\<lambda>x. key x = k) (sort_key key xs) = find (\<lambda>x. key x = k) xs"
  by (simp add: find_filter sort_key_stable)

lemma each_scan:
  "each (\<lambda>out row. and_then (scan row) (\<lambda>x. Inr (out @ [x]))) acc rows = Inr out \<Longrightarrow>
     \<exists>xs. out = acc @ xs \<and> list_all2 (\<lambda>row x. scan row = Inr x) rows xs"
  by (induction rows arbitrary: acc) (fastforce simp: and_then_eq_Inr)+

lemma find_list_all2:
  "list_all2 R xs ys \<Longrightarrow> (\<And>x y. R x y \<Longrightarrow> P x \<longleftrightarrow> Q y) \<Longrightarrow> rel_option R (find P xs) (find Q ys)"
  by (induction rule: list_all2_induct) auto

lemma scanPlan_facts:
  assumes "scanPlan row = Inr o'"
  shows "plan_key row = [SqlText (OProvider o')]" "and_then (text_cell row 5) parse_cell = Inr (NextAttemptAt o')"
    "PCells row ! 6 = SqlInt (ORefusals o')" "0 \<le> ORefusals o'"
proof -
  have len: "length (PCells row) = 7" using assms by (simp add: scanPlan_def split: if_splits)
  then have key: "plan_key row = [PCells row ! 0]" by (cases "PCells row") (auto simp: plan_key_def)
  show "plan_key row = [SqlText (OProvider o')]" "and_then (text_cell row 5) parse_cell = Inr (NextAttemptAt o')"
    "PCells row ! 6 = SqlInt (ORefusals o')" "0 \<le> ORefusals o'"
    using assms len key
    by (cases "PBody row"; auto simp: scanPlan_def text_cell_def and_then_eq_Inr split: if_splits sql_value.splits)+
qed

lemma find_read:
  assumes "readPlanUsage f = Inr os"
  shows "rel_option (\<lambda>row o'. scanPlan row = Inr o') (find (\<lambda>r. plan_key r = [SqlText p]) (plan_rows f)) (find (\<lambda>o'. OProvider o' = p) os)"
proof -
  have "list_all2 (\<lambda>row o'. scanPlan row = Inr o') (sort_key plan_key (plan_rows f)) os"
    using assms each_scan [of scanPlan "[]" "sort_key plan_key (plan_rows f)" os] by (auto simp: readPlanUsage_def split: if_splits)
  then have "rel_option (\<lambda>row o'. scanPlan row = Inr o')
      (find (\<lambda>r. plan_key r = [SqlText p]) (sort_key plan_key (plan_rows f))) (find (\<lambda>o'. OProvider o' = p) os)"
    by (rule find_list_all2) (simp add: scanPlan_facts(1))
  then show ?thesis by (simp add: find_sort_key)
qed

text \<open>The observation a reservation starts from, and when it lets the provider be asked.\<close>

lemma previous_observation:
  assumes "readPlanUsage f = Inr os" "list_all few_refusals (plan_rows f)"
    and "prev = (case find (\<lambda>r. OProvider r = p) os of None \<Rightarrow> zero_observation\<lparr>OProvider := p\<rparr> | Some r \<Rightarrow> r)"
  shows "OProvider prev = p" "instant (NextAttemptAt prev) = row_due f p" "0 \<le> ORefusals prev" "ORefusals prev \<le> 5"
proof -
  note rel = find_read [OF assms(1), of p]
  have "OProvider prev = p \<and> instant (NextAttemptAt prev) = row_due f p \<and> 0 \<le> ORefusals prev \<and> ORefusals prev \<le> 5"
  proof (cases "find (\<lambda>r. plan_key r = [SqlText p]) (plan_rows f)")
    case None
    then show ?thesis using rel assms(3) by (simp add: zero_observation_def row_due_def)
  next
    case (Some row)
    then obtain o' where o': "find (\<lambda>r. OProvider r = p) os = Some o'" "scanPlan row = Inr o'"
      using rel by (auto simp: rel_option_iff split: option.splits)
    have "few_refusals row" using assms(2) Some by (auto simp: find_Some_iff list_all_length)
    moreover have "OProvider o' = p" using o'(1) by (auto simp: find_Some_iff)
    ultimately show ?thesis using scanPlan_facts [OF o'(2)] Some assms(3) by (simp add: row_due_def few_refusals_def o'(1))
  qed
  then show "OProvider prev = p" "instant (NextAttemptAt prev) = row_due f p" "0 \<le> ORefusals prev" "ORefusals prev \<le> 5" by auto
qed

lemma exec_plan_Inr: "exec_plan f t ch = Inr f' \<Longrightarrow> f' = ch f"
  by (auto simp: exec_plan_def ExecOwned_def split: sum.splits if_splits)

lemma parse_planTime:
  assumes "printable (t\<lparr>offset := 0\<rparr>)"
  shows "\<exists>u. parse_cell (planTime t) = Inr u \<and> instant u = instant t"
proof (cases "IsZero t")
  case True
  then show ?thesis by (simp add: parse_cell_def planTime_def IsZero_def)
next
  case False
  have "parse_rfc3339 [] = None" by (simp add: parse_rfc3339_def get_year_def)
  then show ?thesis using False printable_round_trip [OF assms] by (auto simp: parse_cell_def planTime_def)
qed

lemma row_due_written:
  assumes "writePlanUsage f o' = Inr f'" "printable ((NextAttemptAt o')\<lparr>offset := 0\<rparr>)"
  shows "row_due f' = (row_due f)(OProvider o' := instant (NextAttemptAt o'))"
proof
  fix q
  have f': "f' = f\<lparr>plan_rows := upsert plan_key (observation_row o') (plan_rows f)\<rparr>"
    using assms(1) exec_plan_Inr by (fastforce simp: writePlanUsage_def split: if_splits)
  have "plan_key (observation_row o') = [SqlText (OProvider o')]" "text_cell (observation_row o') 5 = Inr (planTime (NextAttemptAt o'))"
    by (simp_all add: plan_key_def observation_row_def text_cell_def)
  then show "row_due f' q = ((row_due f)(OProvider o' := instant (NextAttemptAt o'))) q"
    using parse_planTime [OF assms(2)] by (auto simp: row_due_def f' find_upsert)
qed

lemma few_refusals_written:
  assumes "writePlanUsage f o' = Inr f'" "list_all few_refusals (plan_rows f)" "ORefusals o' \<le> 5"
  shows "list_all few_refusals (plan_rows f')"
proof -
  have f': "f' = f\<lparr>plan_rows := upsert plan_key (observation_row o') (plan_rows f)\<rparr>"
    using assms(1) exec_plan_Inr by (fastforce simp: writePlanUsage_def split: if_splits)
  have "few_refusals (observation_row o')" using assms(3) by (simp add: few_refusals_def observation_row_def)
  then have "list_all few_refusals (upsert plan_key (observation_row o') rs)" if "list_all few_refusals rs" for rs
    using that by (induction rs) auto
  then show ?thesis using assms(2) f' by simp
qed

lemma reserve_in_unchanged:
  "reserve_in p now next f = (Inl e, f') \<Longrightarrow> f' = f" "reserve_in p now next f = (Inr (prev, False), f') \<Longrightarrow> f' = f"
  by (auto simp: reserve_in_def Let_def split: sum.splits if_splits)

lemma reserve_in_granted:
  assumes "list_all few_refusals (plan_rows f)" "reserve_in p now next f = (Inr (prev, True), f')"
  obtains pending where "writePlanUsage f pending = Inr f'" "OProvider pending = p" "NextAttemptAt pending = next"
    "ORefusals pending = ORefusals prev" "row_due f p \<le> instant now" "0 \<le> ORefusals prev" "ORefusals prev \<le> 5"
proof -
  obtain os where os: "readPlanUsage f = Inr os" using assms(2) by (auto simp: reserve_in_def split: sum.splits)
  let ?prev = "case find (\<lambda>r. OProvider r = p) os of None \<Rightarrow> zero_observation\<lparr>OProvider := p\<rparr> | Some r \<Rightarrow> r"
  define pending where "pending = (if OStatus ?prev = [] then ?prev\<lparr>OStatus := PlanUsageUnavailable,
    OReason := ''usage poll in progress''\<rparr> else ?prev)\<lparr>AttemptedAt := now, NextAttemptAt := next\<rparr>"
  have w: "writePlanUsage f pending = Inr f'" "prev = ?prev" "\<not> time_before now (NextAttemptAt ?prev)"
    using assms(2) os unfolding reserve_in_def pending_def by (auto simp: Let_def split: sum.splits if_splits)
  note facts = previous_observation [OF os assms(1) w(2)]
  show ?thesis
    by (rule that [OF w(1)]) (use facts w(2,3) in \<open>auto simp: pending_def time_before_def\<close>)
qed

lemma commit_in_outcome:
  "commit_in [o'] f = (Some e, f') \<Longrightarrow> f' = f"
  "commit_in [o'] f = (None, f') \<Longrightarrow> \<exists>f1. writePlanUsage f o' = Inr f1 \<and> plan_rows f' = plan_rows f1"
proof -
  show "commit_in [o'] f = (Some e, f') \<Longrightarrow> f' = f" by (auto simp: commit_in_def split: sum.splits if_splits)
  assume "commit_in [o'] f = (None, f')"
  then have "commit_one f o' = Inr f'" by (auto simp: commit_in_def and_then_eq_Inr split: sum.splits if_splits)
  then show "\<exists>f1. writePlanUsage f o' = Inr f1 \<and> plan_rows f' = plan_rows f1"
    by (auto simp: commit_one_def and_then_eq_Inr split: option.splits if_splits dest!: exec_plan_Inr)
qed

lemma plane_file: "PDb p = Some f \<Longrightarrow> plane_good p = list_all few_refusals (plan_rows f) \<and> plane_due p = row_due f"
  by (auto simp: plane_good_def plane_due_def)

lemma ReservePlanUsage_file:
  "ReservePlanUsage p q now next = (r, p') \<Longrightarrow>
     (PDb p = None \<and> p' = p \<and> r = Inl PlaneClosed) \<or>
     (\<exists>f f'. PDb p = Some f \<and> reserve_in q now next f = (r, f') \<and> PDb p' = Some f')"
  by (auto simp: ReservePlanUsage_def withDB_def split: option.splits prod.splits)

lemma CompletePlanUsage_file:
  "CompletePlanUsage p o' = (r, p') \<Longrightarrow>
     (PDb p = None \<and> p' = p \<and> r = Some PlaneClosed) \<or>
     (\<exists>f f'. PDb p = Some f \<and> commit_in [o'] f = (r, f') \<and> PDb p' = Some f')"
  by (auto simp: CompletePlanUsage_def CommitFixturePlanUsage_def withDB_def split: option.splits prod.splits)

interpretation control: paced_store broker_store plane_due plane_good
proof (unfold_locales, simp_all only: broker_store_def plan_store.simps)
  fix s p now nxt s'
  show "plane_good s' \<and> plane_due s' = plane_due s" if "plane_good s" "ReservePlanUsage s p now nxt = (Inl e, s')" for e
    using ReservePlanUsage_file [OF that(2)] that(1) reserve_in_unchanged(1) plane_file by metis
  show "plane_good s' \<and> plane_due s' = plane_due s" if "plane_good s" "ReservePlanUsage s p now nxt = (Inr (prev, False), s')" for prev
    using ReservePlanUsage_file [OF that(2)] that(1) reserve_in_unchanged(2) plane_file by (metis sum.distinct(1))
  show "plane_good s' \<and> plane_due s' = (plane_due s)(p := instant nxt) \<and> plane_due s p \<le> instant now \<and> 0 \<le> ORefusals prev \<and> ORefusals prev \<le> 5"
    if g: "plane_good s" "printable (nxt\<lparr>offset := 0\<rparr>)" "ReservePlanUsage s p now nxt = (Inr (prev, True), s')" for prev
  proof -
    obtain f f' where f: "PDb s = Some f" "reserve_in p now nxt f = (Inr (prev, True), f')" "PDb s' = Some f'"
      using ReservePlanUsage_file [OF g(3)] by auto
    have few: "list_all few_refusals (plan_rows f)" using plane_file [OF f(1)] g(1) by simp
    obtain pend where w: "writePlanUsage f pend = Inr f'" "OProvider pend = p" "NextAttemptAt pend = nxt"
      "ORefusals pend = ORefusals prev" "row_due f p \<le> instant now" "0 \<le> ORefusals prev" "ORefusals prev \<le> 5"
      by (rule reserve_in_granted [OF few f(2)])
    show ?thesis
      using row_due_written [OF w(1)] few_refusals_written [OF w(1) few] plane_file [OF f(1)] plane_file [OF f(3)] w g(2) by simp
  qed
next
  fix s o' s'
  show "plane_good s' \<and> plane_due s' = plane_due s" if "plane_good s" "CompletePlanUsage s o' = (Some e, s')" for e
    using CompletePlanUsage_file [OF that(2)] that(1) commit_in_outcome(1) plane_file by metis
  show "plane_good s' \<and> plane_due s' = (plane_due s)(OProvider o' := instant (NextAttemptAt o'))"
    if g: "plane_good s" "printable ((NextAttemptAt o')\<lparr>offset := 0\<rparr>)" "ORefusals o' \<le> 5" "CompletePlanUsage s o' = (None, s')"
  proof -
    obtain f f' where f: "PDb s = Some f" "commit_in [o'] f = (None, f')" "PDb s' = Some f'"
      using CompletePlanUsage_file [OF g(4)] by auto
    obtain f1 where f1: "writePlanUsage f o' = Inr f1" "plan_rows f' = plan_rows f1" using commit_in_outcome(2) [OF f(2)] by blast
    have "row_due f' = row_due f1" using f1(2) by (simp add: row_due_def fun_eq_iff)
    then show ?thesis
      using row_due_written [OF f1(1) g(2)] few_refusals_written [OF f1(1) _ g(3)] plane_file [OF f(1)] plane_file [OF f(3)] g(1) f1(2)
      by simp
  qed
qed

subsection \<open>A run of polls\<close>

text \<open>A sequence of polls of single providers, with what the vendor would answer and whether the broker
  dies after asking and starts again on the same file. The log has the requests that were sent, each
  with the time its vendor is to be left alone.\<close>

type_synonym poll_request = "provider \<times> go_time \<times> (string + plan_usage) \<times> bool"
type_synonym sent_request = "provider \<times> go_time \<times> int"

definition poll_one :: "'s plan_store \<Rightarrow> poll_request \<Rightarrow> 's \<Rightarrow> sent_request list \<times> 's" where
  "poll_one st r s = (case r of (p, now, ans, crashed) \<Rightarrow>
     if crashed then
       (case StReserve st s p now (add_nanos now PlanThrottleMinInterval) of
          (Inr (_, True), s1) \<Rightarrow> ([(p, now, PlanThrottleMinInterval)], s1)
        | (_, s1) \<Rightarrow> ([], s1))
     else
       (case poll_provider st (\<lambda>_. ans) p now s of
          (True, err, s') \<Rightarrow>
            ([(p, now, if err = None then wait_after (answer (\<lambda>_. ans) p now) else PlanThrottleMinInterval)], s')
        | (False, err, s') \<Rightarrow> ([], s')))"

fun poll_log :: "'s plan_store \<Rightarrow> poll_request list \<Rightarrow> sent_request list \<Rightarrow> 's \<Rightarrow> sent_request list" where
  "poll_log st [] sent s = sent"
| "poll_log st (r # rs) sent s = (case poll_one st r s of (new, s') \<Rightarrow> poll_log st rs (sent @ new) s')"

definition left_alone :: "sent_request \<Rightarrow> sent_request \<Rightarrow> bool" where
  "left_alone r r' = (case r of (p, t, w) \<Rightarrow> case r' of (p', t', _) \<Rightarrow> p = p' \<longrightarrow> instant t + w \<le> instant t')"

lemma wait_after_pos: "0 \<le> wait_after u"
  by (simp add: wait_after_def interval_defs BrokerPlanRetryInterval_def)

context paced_store
begin

lemma poll_one_step:
  assumes "good s" "ordinary now" "offset now = 0" "poll_one st (p, now, ans, crashed) s = (new, s')"
  shows "good s' \<and> (\<forall>q. q \<noteq> p \<longrightarrow> due s' q = due s q) \<and>
    (new = [] \<and> due s' p = due s p \<or> (\<exists>w \<ge> 0. new = [(p, now, w)] \<and> due s p \<le> instant now \<and> instant now + w \<le> due s' p))"
proof (cases crashed)
  case True
  have nx: "printable ((add_nanos now PlanThrottleMinInterval)\<lparr>offset := 0\<rparr>)"
    using assms(2) utc_nanos [OF assms(3)] by (simp add: ordinary_def interval_defs)
  obtain r s1 where r: "StReserve st s p now (add_nanos now PlanThrottleMinInterval) = (r, s1)" by (rule prod.exhaust)
  show ?thesis
  proof (cases r)
    case (Inl e)
    then show ?thesis using True r assms(4) reserve_error [OF assms(1), of p now _ e s1] by (auto simp: poll_one_def)
  next
    case (Inr x)
    obtain prev b where x: "x = (prev, b)" by (rule prod.exhaust)
    show ?thesis
    proof (cases b)
      case True
      then have "r = Inr (prev, True)" using Inr x by simp
      then show ?thesis using reserve_granted [OF assms(1) nx] r assms(4) \<open>crashed\<close>
        by (auto simp: poll_one_def add_nanos_def interval_defs)
    next
      case False
      then have "r = Inr (prev, False)" using Inr x by simp
      then show ?thesis using reserve_refused [OF assms(1)] r assms(4) \<open>crashed\<close> by (fastforce simp: poll_one_def)
    qed
  qed
next
  case False
  obtain sent err s1 where r: "poll_provider st (\<lambda>_. ans) p now s = (sent, err, s1)" by (rule prod_cases3)
  have pos: "0 \<le> (if err = None then wait_after (answer (\<lambda>_. ans) p now) else PlanThrottleMinInterval)"
    using wait_after_pos by (simp add: interval_defs)
  show ?thesis using poll_step [OF assms(1-3) r] r False assms(4) pos by (cases sent) (auto simp: poll_one_def)
qed

lemma poll_log_spaced:
  assumes "list_all (\<lambda>(_, t, _, _). ordinary t \<and> offset t = 0) rs" "good s"
    and "\<forall>(p, t, w) \<in> set sent. 0 \<le> w \<and> instant t + w \<le> due s p" "sorted_wrt left_alone sent"
  shows "sorted_wrt left_alone (poll_log st rs sent s)"
  using assms
proof (induction rs arbitrary: sent s)
  case (Cons r rs)
  obtain p now ans crashed where r: "r = (p, now, ans, crashed)" by (rule prod_cases4)
  obtain new s' where new: "poll_one st r s = (new, s')" by (rule prod.exhaust)
  have now: "ordinary now" "offset now = 0" using Cons.prems(1) r by auto
  note step = poll_one_step [OF Cons.prems(2) now new [unfolded r]]
  have grow: "due s q \<le> due s' q" for q using step by (cases "q = p") auto
  have old: "0 \<le> w \<and> instant t + w \<le> due s q" if "(q, t, w) \<in> set sent" for q t w
    using Cons.prems(3) that by blast
  have "0 \<le> w \<and> instant t + w \<le> due s' q" if "(q, t, w) \<in> set (sent @ new)" for q t w
  proof (cases "(q, t, w) \<in> set sent")
    case True
    then show ?thesis using old grow [of q] by fastforce
  next
    case False
    then show ?thesis using that step by auto
  qed
  then have "\<forall>(q, t, w) \<in> set (sent @ new). 0 \<le> w \<and> instant t + w \<le> due s' q" by blast
  moreover have "sorted_wrt left_alone (sent @ new)"
  proof (cases "new = []")
    case False
    then obtain w where w: "new = [(p, now, w)]" "due s p \<le> instant now" using step by blast
    have "left_alone x (p, now, w)" if "x \<in> set sent" for x
      using old that w(2) by (cases x) (fastforce simp: left_alone_def)
    then show ?thesis using Cons.prems(4) w(1) by (simp add: sorted_wrt_append)
  qed (use Cons.prems(4) in simp)
  ultimately show ?case using Cons.IH [of s' "sent @ new"] Cons.prems(1) step new by simp
qed simp

end

text \<open>C16. The broker leaves vendors alone, through its own crashes. Whatever it polls and whatever is
  answered, a vendor that was asked is not asked again within a minute; within five minutes if it
  gave a reading or if the broker died while it asked; within fifteen if it refused.\<close>

theorem broker_polls_are_spaced:
  assumes "plane_good pl" "list_all (\<lambda>(_, t, _, _). ordinary t \<and> offset t = 0) rs"
    and "i < j" "j < length (poll_log broker_store rs [] pl)"
    and "poll_log broker_store rs [] pl ! i = (p, t, w)" "poll_log broker_store rs [] pl ! j = (p, t', w')"
  shows "instant t + w \<le> instant t'"
proof -
  have "sorted_wrt left_alone (poll_log broker_store rs [] pl)" using control.poll_log_spaced [OF assms(2,1)] by simp
  then have "left_alone (p, t, w) (p, t', w')" using sorted_wrt_nth_less [OF _ assms(3,4)] assms(5,6) by metis
  then show ?thesis by (simp add: left_alone_def)
qed

text \<open>A row that was written reads back.\<close>

lemma parse_planTime_utc:
  assumes "printable t" "offset t = 0"
  shows "parse_cell (planTime t) = Inr t"
proof -
  have t: "t\<lparr>offset := 0\<rparr> = t" using assms(2) by simp
  show ?thesis
  proof (cases "IsZero t")
    case True
    then show ?thesis using assms(2) by (simp add: parse_cell_def planTime_def IsZero_def zero_time_def)
  next
    case False
    have "parse_rfc3339 [] = None" by (simp add: parse_rfc3339_def get_year_def)
    then show ?thesis using False t printable_round_trip [OF assms(1)] by (auto simp: parse_cell_def planTime_def)
  qed
qed

lemma scan_written:
  assumes "\<forall>t \<in> {AttemptedAt o', SuccessAt o', NextAttemptAt o'}. printable t \<and> offset t = 0" "0 \<le> ORefusals o'" "Reading o' = None"
  shows "scanPlan (observation_row o') = Inr o'"
  using assms by (simp add: scanPlan_def observation_row_def text_cell_def parse_planTime_utc)

definition demo_plane :: "plan_row list \<Rightarrow> bool \<Rightarrow> plane" where
  "demo_plane rows flushed = \<lparr>PDb = Some \<lparr>base = empty_database, plan_rows = rows, plan_history = []\<rparr>, flush = flushed\<rparr>"

definition demo_pending :: "int \<Rightarrow> observation" where
  "demo_pending s = zero_observation\<lparr>OProvider := ''grok'', OStatus := PlanUsageUnavailable, OReason := ''usage poll in progress'',
     AttemptedAt := demo_time s, NextAttemptAt := demo_time (s + 300)\<rparr>"

lemma demo_add: "add_nanos (demo_time s) PlanThrottleMinInterval = demo_time (s + 300)"
  by (simp add: add_nanos_def demo_time_def interval_defs)

lemma demo_written:
  assumes "rows = [] \<or> rows = [observation_row (demo_pending s0)]"
  shows "writePlanUsage \<lparr>base = empty_database, plan_rows = rows, plan_history = []\<rparr> (demo_pending s)
    = Inr \<lparr>base = empty_database, plan_rows = [observation_row (demo_pending s)], plan_history = []\<rparr>"
  using assms by (auto simp: writePlanUsage_def exec_plan_def ExecOwned_def WriterClaudia_def Owns_def empty_database_def
      demo_pending_def zero_observation_def observation_row_def plan_key_def)

lemma zero_printable: "printable zero_time"
  by (simp add: printable_def zero_time_def epoch_day_def days_before_year_def)

lemma demo_crash:
  assumes "rows = [] \<or> (rows = [observation_row (demo_pending s0)] \<and> s0 + 300 \<le> s)" "0 \<le> s0" "0 \<le> s" "s0 \<le> 80000"
  shows "poll_one broker_store (''grok'', demo_time s, ans, True) (demo_plane rows b)
    = ([(''grok'', demo_time s, PlanThrottleMinInterval)], demo_plane [observation_row (demo_pending s)] True)"
proof -
  have "printable (demo_time s0)" "printable (demo_time (s0 + 300))"
    using assms(2,4) by (simp_all add: ordinary_printable demo_ordinary)
  then have scan: "scanPlan (observation_row (demo_pending s0)) = Inr (demo_pending s0)"
    using zero_printable by (intro scan_written) (simp_all add: demo_pending_def zero_observation_def demo_time_def zero_time_def)
  let ?f = "\<lambda>rows. \<lparr>base = empty_database, plan_rows = rows, plan_history = []\<rparr>"
  have "reserve_in ''grok'' (demo_time s) (demo_time (s + 300)) (?f rows)
      = (Inr (if rows = [] then zero_observation\<lparr>OProvider := ''grok''\<rparr> else demo_pending s0, True), ?f [observation_row (demo_pending s)])"
  proof (cases "rows = []")
    case True
    then show ?thesis using demo_written [of "[]" s0 s] assms(3)
      by (simp add: reserve_in_def readPlanUsage_def empty_database_def)
        (simp add: zero_observation_def demo_pending_def time_before_def demo_time_def zero_time_def)
  next
    case False
    have "(demo_pending s0)\<lparr>AttemptedAt := demo_time s, NextAttemptAt := demo_time (s + 300)\<rparr> = demo_pending s"
      by (simp add: demo_pending_def)
    moreover have "OStatus (demo_pending s0) \<noteq> []" "OProvider (demo_pending s0) = ''grok''" "NextAttemptAt (demo_pending s0) = demo_time (s0 + 300)"
      by (simp_all add: demo_pending_def plan_names)
    ultimately show ?thesis using False assms(1) scan demo_written [of rows s0 s]
      by (auto simp: reserve_in_def readPlanUsage_def empty_database_def time_before_def demo_time_def)
  qed
  then show ?thesis by (simp add: poll_one_def broker_store_def demo_add ReservePlanUsage_def withDB_def demo_plane_def)
qed

theorem broker_polls_are_spaced_witness:
  "poll_log broker_store [(''grok'', demo_time 0, Inl [], True), (''grok'', demo_time 400, Inl [], True)] [] (demo_plane [] False)
     = [(''grok'', demo_time 0, PlanThrottleMinInterval), (''grok'', demo_time 400, PlanThrottleMinInterval)] \<and>
   instant (demo_time 0) + PlanThrottleMinInterval \<le> instant (demo_time 400)"
proof -
  let ?rs = "[(''grok'', demo_time 0, Inl [], True), (''grok'', demo_time 400, Inl [], True)]"
  have run: "poll_log broker_store ?rs [] (demo_plane [] False)
      = [(''grok'', demo_time 0, PlanThrottleMinInterval), (''grok'', demo_time 400, PlanThrottleMinInterval)]"
    using demo_crash [of "[]" 0 0] demo_crash [of "[observation_row (demo_pending 0)]" 0 400] by simp
  have "plane_good (demo_plane [] False)" by (simp add: plane_good_def demo_plane_def)
  moreover have "list_all (\<lambda>(_, t, _, _). ordinary t \<and> offset t = 0) ?rs"
    using demo_ordinary [of 0] demo_ordinary [of 400] by (simp add: demo_time_def)
  ultimately show ?thesis using broker_polls_are_spaced [of "demo_plane [] False" ?rs 0 1] run by simp
qed

end
