(* ===== verification/TurnLatch.thy ===== *)
theory TurnLatch
  imports Receipts
begin

text \<open>
  Turns and the waits for them (src/turn_latch.go, src/turn_text.go, the bounds of src/turn_wait.go and
  \<open>WaitForResponse\<close> of src/agent.go). An agent records what it publishes of the turn that was last
  submitted, so that a wait that subscribes late is handed what it missed. A wait accumulates the
  text of the turn, ends with an error at the first error event, and otherwise ends with the text
  once the turn has stopped and nothing more has arrived for a moment.

  Events are delivered one at a time; recording an event and delivering it to the waits that are
  subscribed is one step, as it is for a single publisher. The timers are in the hands of whoever
  drives the model: \<open>settle\<close> is the settle timer going off.
\<close>

record turn_event =
  EvType :: string
  EvText :: string
  EvIsError :: bool
  EvReason :: string
  StopReason :: string
  PreviewUpdate :: string
  EvTurnID :: string
  EvReceipt :: "receipt option"

definition PreviewUpdateAppend :: string where "PreviewUpdateAppend = ''append''"
definition ReasonContextOverflow :: string where "ReasonContextOverflow = ''context_overflow''"

definition IsTerminalStop :: "turn_event \<Rightarrow> bool" where
  "IsTerminalStop ev \<longleftrightarrow> EvType ev = ''assistant'' \<and> StopReason ev \<in> {''end_turn'', ''stop_sequence'', ''max_tokens''}"

text \<open>A delta is appended as it is; a block is divided from what came before by a newline.\<close>

definition appendTurnText :: "string \<Rightarrow> turn_event \<Rightarrow> string" where
  "appendTurnText b ev =
     (if EvText ev = [] then b
      else if b \<noteq> [] \<and> PreviewUpdate ev \<noteq> PreviewUpdateAppend then b @ [CHR 0x0A] @ EvText ev
      else b @ EvText ev)"

definition failure_text :: "turn_event \<Rightarrow> string" where
  "failure_text ev = (if blank (EvText ev) then ''agent turn failed'' else trimSpace (EvText ev))"

subsection \<open>The latch\<close>

record turn_latch =
  Armed :: bool
  LText :: "string option"
  LTerminal :: bool
  LErr :: "string option"
  Requests :: "string list"

definition no_turn :: turn_latch where
  "no_turn = \<lparr>Armed = False, LText = None, LTerminal = False, LErr = None, Requests = []\<rparr>"

definition fresh_turn :: turn_latch where
  "fresh_turn = \<lparr>Armed = True, LText = Some [], LTerminal = False, LErr = None, Requests = []\<rparr>"

record turn_agent =
  SupportsReceipts :: bool
  Turn :: turn_latch
  ReceiptTurnID :: string

definition beginTurn :: "turn_agent \<Rightarrow> turn_agent" where
  "beginTurn a = a\<lparr>Turn := fresh_turn\<rparr>"

definition retireEndedTurnFor :: "string \<Rightarrow> turn_agent \<Rightarrow> turn_agent" where
  "retireEndedTurnFor requestID a =
     (if Armed (Turn a) \<and> (LTerminal (Turn a) \<or> LErr (Turn a) \<noteq> None) \<and> requestID \<notin> set (Requests (Turn a))
      then a\<lparr>Turn := no_turn\<rparr> else a)"

definition started_turn :: "turn_agent \<Rightarrow> turn_event \<Rightarrow> (string \<times> string) option" where
  "started_turn a ev =
     (case EvReceipt ev of
        Some r \<Rightarrow> (case TurnIDs r of
            Some (t # ts) \<Rightarrow> if SupportsReceipts a \<and> EvType ev = ''receipt'' \<and> ReceiptState r = ''started''
              then Some (last (t # ts), RequestID r) else None
          | _ \<Rightarrow> None)
      | None \<Rightarrow> None)"

definition note_started :: "turn_agent \<Rightarrow> turn_event \<Rightarrow> turn_agent" where
  "note_started a ev =
     (case started_turn a ev of None \<Rightarrow> a
      | Some (turnID, requestID) \<Rightarrow>
          (let a = (if turnID \<noteq> ReceiptTurnID a then a\<lparr>ReceiptTurnID := turnID, Turn := fresh_turn\<rparr> else a) in
           if Armed (Turn a) \<and> requestID \<noteq> []
           then a\<lparr>Turn := (Turn a)\<lparr>Requests := List.insert requestID (Requests (Turn a))\<rparr>\<rparr> else a))"

definition fold_event :: "turn_event \<Rightarrow> turn_latch \<Rightarrow> turn_latch" where
  "fold_event ev t =
     (if \<not> Armed t then t
      else if EvIsError ev then (if LErr t = None then t\<lparr>LErr := Some (failure_text ev)\<rparr> else t)
      else if EvType ev \<noteq> ''assistant'' then t
      else t\<lparr>LText := Some (appendTurnText (case LText t of None \<Rightarrow> [] | Some b \<Rightarrow> b) ev),
             LTerminal := LTerminal t \<or> IsTerminalStop ev\<rparr>)"

definition recordTurnEvent :: "turn_event \<Rightarrow> turn_agent \<Rightarrow> turn_agent" where
  "recordTurnEvent ev a = (let a = note_started a ev in a\<lparr>Turn := fold_event ev (Turn a)\<rparr>)"

record turn_so_far =
  PText :: string
  PTerminal :: bool
  PErr :: "string option"

definition takeTurn :: "turn_agent \<Rightarrow> turn_so_far \<times> turn_agent" where
  "takeTurn a =
     (if \<not> Armed (Turn a) then (\<lparr>PText = [], PTerminal = False, PErr = None\<rparr>, a)
      else (\<lparr>PText = (case LText (Turn a) of None \<Rightarrow> [] | Some b \<Rightarrow> b), PTerminal = LTerminal (Turn a), PErr = LErr (Turn a)\<rparr>,
            a\<lparr>Turn := no_turn\<rparr>))"

subsection \<open>A wait\<close>

datatype wait_error = TurnFailed string | ContextOverflow string
datatype outcome = Answered string | Failed wait_error

record turn_wait =
  WText :: string
  SeenTerminal :: bool
  TimerSet :: bool
  Emitted :: "outcome option"

definition new_wait :: turn_wait where
  "new_wait = \<lparr>WText = [], SeenTerminal = False, TimerSet = False, Emitted = None\<rparr>"

definition emitOnce :: "outcome \<Rightarrow> turn_wait \<Rightarrow> turn_wait" where
  "emitOnce out w = (if Emitted w \<noteq> None then w else w\<lparr>Emitted := Some out, TimerSet := False\<rparr>)"

text \<open>The settle timer goes off.\<close>

definition settle :: "turn_wait \<Rightarrow> turn_wait" where
  "settle w = (if TimerSet w \<and> Emitted w = None then w\<lparr>Emitted := Some (Answered (WText w)), TimerSet := False\<rparr>
     else w\<lparr>TimerSet := False\<rparr>)"

definition onEvent :: "turn_event \<Rightarrow> turn_wait \<Rightarrow> turn_wait" where
  "onEvent ev w =
     (if EvIsError ev then
        emitOnce (Failed (if EvReason ev = ReasonContextOverflow then ContextOverflow (failure_text ev)
          else TurnFailed (failure_text ev))) w
      else if EvType ev \<noteq> ''assistant'' then w
      else let w = w\<lparr>WText := appendTurnText (WText w) ev, SeenTerminal := SeenTerminal w \<or> IsTerminalStop ev\<rparr>
           in if SeenTerminal w then w\<lparr>TimerSet := True\<rparr> else w)"

definition seed :: "turn_so_far \<Rightarrow> turn_wait \<Rightarrow> turn_wait" where
  "seed prior w =
     (case PErr prior of
        Some e \<Rightarrow> emitOnce (Failed (TurnFailed e)) w
      | None \<Rightarrow> (let w = w\<lparr>WText := WText w @ PText prior, SeenTerminal := PTerminal prior\<rparr>
          in if SeenTerminal w then w\<lparr>TimerSet := True\<rparr> else w))"

text \<open>An agent with the waits that are subscribed to it, newest last.\<close>

record hub =
  Seat :: turn_agent
  Waits :: "turn_wait list"

definition publish :: "turn_event \<Rightarrow> hub \<Rightarrow> hub" where
  "publish ev h = \<lparr>Seat = recordTurnEvent ev (Seat h), Waits = map (onEvent ev) (Waits h)\<rparr>"

definition subscribeEventsTakingTurn :: "hub \<Rightarrow> hub" where
  "subscribeEventsTakingTurn h =
     (case takeTurn (Seat h) of (prior, a) \<Rightarrow> \<lparr>Seat = a, Waits = Waits h @ [seed prior new_wait]\<rparr>)"

text \<open>What a wait answers once its agent has nothing more to say: what it has emitted, or the text of a
  turn that has stopped.\<close>

definition answered :: "turn_wait \<Rightarrow> outcome option" where
  "answered w = Emitted (settle w)"

subsection \<open>Waiting late\<close>

definition nothing_yet :: turn_so_far where
  "nothing_yet = \<lparr>PText = [], PTerminal = False, PErr = None\<rparr>"

lemma seed_nothing [simp]: "seed nothing_yet new_wait = new_wait"
  by (simp add: seed_def nothing_yet_def new_wait_def)

text \<open>How an armed latch and a wait that has heard the same events stand to each other: the latch knows
  the failure but not its kind.\<close>

definition unclassified :: "outcome \<Rightarrow> outcome" where
  "unclassified out = (case out of Failed (ContextOverflow m) \<Rightarrow> Failed (TurnFailed m) | _ \<Rightarrow> out)"

definition mirrors :: "turn_latch \<Rightarrow> turn_wait \<Rightarrow> bool" where
  "mirrors t w \<longleftrightarrow> Armed t \<and>
     (case LErr t of
        None \<Rightarrow> Emitted w = None \<and> LText t = Some (WText w) \<and> LTerminal t = SeenTerminal w \<and> TimerSet w = SeenTerminal w
      | Some m \<Rightarrow> map_option unclassified (Emitted w) = Some (Failed (TurnFailed m)))"

lemma emitted_stays: "Emitted w = Some x \<Longrightarrow> Emitted (onEvent ev w) = Some x"
  by (simp add: onEvent_def emitOnce_def Let_def)

lemma emitted_stays_fold: "Emitted w = Some x \<Longrightarrow> Emitted (fold onEvent evs w) = Some x"
  by (induction evs arbitrary: w) (simp_all add: emitted_stays)

lemma answered_emitted: "Emitted w = Some x \<Longrightarrow> answered w = Some x"
  by (simp add: answered_def settle_def)

lemma mirrors_step:
  assumes "mirrors t w"
  shows "mirrors (fold_event ev t) (onEvent ev w)"
proof (cases "LErr t")
  case None
  then show ?thesis using assms
    by (auto simp: mirrors_def fold_event_def onEvent_def emitOnce_def unclassified_def Let_def)
next
  case (Some m)
  then obtain x where x: "Emitted w = Some x" "unclassified x = Failed (TurnFailed m)" using assms by (auto simp: mirrors_def)
  have "LErr (fold_event ev t) = Some m" "Armed (fold_event ev t)" using assms Some by (auto simp: fold_event_def mirrors_def)
  then show ?thesis using x emitted_stays [OF x(1)] by (simp add: mirrors_def)
qed

lemma fold_event_error: "LErr t \<noteq> None \<or> Armed t \<and> EvIsError ev \<Longrightarrow> LErr (fold_event ev t) \<noteq> None"
  by (auto simp: fold_event_def)

lemma fold_events:
  assumes "mirrors t w"
  shows "mirrors (fold fold_event evs t) (fold onEvent evs w)" "LErr (fold fold_event evs t) = None \<longleftrightarrow>
    LErr t = None \<and> (\<forall>ev \<in> set evs. \<not> EvIsError ev)"
  using assms
proof (induction evs arbitrary: t w)
  case (Cons ev evs)
  {
    case 1
    then show ?case using Cons.IH(1) mirrors_step by simp
  next
    case 2
    have "LErr (fold_event ev t) = None \<longleftrightarrow> LErr t = None \<and> \<not> EvIsError ev"
      using 2 by (auto simp: fold_event_def mirrors_def)
    then show ?case using Cons.IH(2) [OF mirrors_step [OF 2]] by auto
  }
qed simp_all

lemma record_quiet: "started_turn a ev = None \<Longrightarrow> recordTurnEvent ev a = a\<lparr>Turn := fold_event ev (Turn a)\<rparr>"
  by (simp add: recordTurnEvent_def note_started_def)

lemma record_all_quiet:
  "\<forall>ev \<in> set evs. started_turn a ev = None \<Longrightarrow> fold recordTurnEvent evs a = a\<lparr>Turn := fold fold_event evs (Turn a)\<rparr>"
proof (induction evs arbitrary: a)
  case (Cons ev evs)
  have "started_turn (a\<lparr>Turn := t\<rparr>) ev' = started_turn a ev'" for t ev' by (simp add: started_turn_def cong: option.case_cong list.case_cong)
  then show ?case using Cons by (simp add: record_quiet)
qed simp


definition demo_event :: "string \<Rightarrow> string \<Rightarrow> turn_event" where
  "demo_event said stop = \<lparr>EvType = ''assistant'', EvText = said, EvIsError = False, EvReason = [], StopReason = stop,
     PreviewUpdate = PreviewUpdateAppend, EvTurnID = [], EvReceipt = None\<rparr>"

definition demo_agent :: turn_agent where
  "demo_agent = \<lparr>SupportsReceipts = True, Turn = no_turn, ReceiptTurnID = []\<rparr>"


text \<open>A turn answers whoever it is for. A turn that is over is not handed to the next request, unless
  that request was started in it; a turn that is still running is kept, and so is one the request
  belongs to; a turn that was taken is not handed out again; and what is published when nothing was
  submitted, as a resumed session does with old messages, is handed to nobody.\<close>

lemma turn_is_handed_on_once:
  "(let t = Turn a; over = Armed t \<and> (LTerminal t \<or> LErr t \<noteq> None) in
    takeTurn (retireEndedTurnFor r a) =
      (if over \<and> r \<notin> set (Requests t) then (nothing_yet, a\<lparr>Turn := no_turn\<rparr>) else takeTurn a)) \<and>
   fst (takeTurn (snd (takeTurn a))) = nothing_yet \<and>
   ((\<forall>ev \<in> set evs. started_turn a ev = None) \<and> \<not> Armed (Turn a) \<longrightarrow>
      fst (takeTurn (fold recordTurnEvent evs a)) = nothing_yet)"
proof (intro conjI impI)
  show "let t = Turn a; over = Armed t \<and> (LTerminal t \<or> LErr t \<noteq> None) in
    takeTurn (retireEndedTurnFor r a) =
      (if over \<and> r \<notin> set (Requests t) then (nothing_yet, a\<lparr>Turn := no_turn\<rparr>) else takeTurn a)"
    by (auto simp: retireEndedTurnFor_def takeTurn_def nothing_yet_def no_turn_def Let_def)
  show "fst (takeTurn (snd (takeTurn a))) = nothing_yet"
    by (simp add: takeTurn_def nothing_yet_def no_turn_def)
  assume e: "(\<forall>ev \<in> set evs. started_turn a ev = None) \<and> \<not> Armed (Turn a)"
  have "\<not> Armed t \<Longrightarrow> fold fold_event evs t = t" for t by (induction evs) (simp_all add: fold_event_def)
  then show "fst (takeTurn (fold recordTurnEvent evs a)) = nothing_yet"
    using e record_all_quiet [of evs a] by (simp add: takeTurn_def nothing_yet_def)
qed

lemma turn_is_handed_on_once_witness:
  "fst (takeTurn (fold recordTurnEvent [demo_event ''old'' ''end_turn''] demo_agent)) = nothing_yet"
  using turn_is_handed_on_once [of demo_agent "[]" "[demo_event ''old'' ''end_turn'']"]
  by (simp add: started_turn_def demo_event_def demo_agent_def no_turn_def)

end
