(* ===== verification/TurnWait.thy ===== *)
theory TurnWait
  imports TurnLatch PlanBands
begin

text \<open>
  How a wait ends (the wake loop of \<open>WaitForResponse\<close> in src/agent.go, and src/turn_wait.go): with the
  outcome of its turn, or because the caller gave up, the agent died, or nothing at all arrived for
  the silence bound. The bound is cut to half of what is left of a deadline the process runs under.

  A wait is the accumulator of \<open>TurnLatch\<close>, the witness of what it has heard since it subscribed, the
  last sign of life, and the silence timer. Times are instants in nanoseconds.
\<close>

subsection \<open>The bound\<close>

definition turnSilenceBound :: int where
  "turnSilenceBound = 30 * 60 * 1000000000"

definition silenceBound :: "int \<Rightarrow> int" where
  "silenceBound d = (if d \<le> 0 then turnSilenceBound else d)"

definition boundUnderDeadline :: "int \<Rightarrow> go_time \<Rightarrow> go_time \<Rightarrow> int" where
  "boundUnderDeadline bound now deadline =
     (let left = time_sub deadline now in
      if left \<le> 0 then 0 else if left div 2 < bound then left div 2 else bound)"

record turn_bound =
  Effective :: int
  Configured :: int
  Deadline :: "go_time option"

definition bound_cut :: "turn_bound \<Rightarrow> bool" where
  "bound_cut b \<longleftrightarrow> Effective b < Configured b"

text \<open>\<open>deadline\<close> is what \<open>waitDeadline\<close> finds.\<close>

definition waitBound :: "int \<Rightarrow> go_time option \<Rightarrow> go_time \<Rightarrow> turn_bound" where
  "waitBound d deadline started =
     (case deadline of
        None \<Rightarrow> \<lparr>Effective = silenceBound d, Configured = silenceBound d, Deadline = None\<rparr>
      | Some dl \<Rightarrow> \<lparr>Effective = boundUnderDeadline (silenceBound d) started dl, Configured = silenceBound d, Deadline = Some dl\<rparr>)"

subsection \<open>The witness\<close>

record turn_seen =
  SEvents :: nat
  SLastAt :: "int option"
  SLastType :: string
  STurnID :: string
  STerminal :: bool

definition seen_nothing :: turn_seen where
  "seen_nothing = \<lparr>SEvents = 0, SLastAt = None, SLastType = [], STurnID = [], STerminal = False\<rparr>"

definition note_seen :: "turn_event \<Rightarrow> int \<Rightarrow> turn_seen \<Rightarrow> turn_seen" where
  "note_seen ev now s =
     \<lparr>SEvents = SEvents s + 1, SLastAt = Some now, SLastType = (if EvType ev \<noteq> [] then EvType ev else SLastType s),
      STurnID = (if EvTurnID ev \<noteq> [] then EvTurnID ev else STurnID s), STerminal = STerminal s \<or> IsTerminalStop ev\<rparr>"

subsection \<open>The wake loop\<close>

record waiting =
  Acc :: turn_wait
  Seen :: turn_seen
  Started :: int
  TermActivity :: "int option"
  Bound :: int
  SilenceAt :: int

definition later :: "int \<Rightarrow> int option \<Rightarrow> int" where
  "later t x = (case x of None \<Rightarrow> t | Some u \<Rightarrow> if u > t then u else t)"

definition lastActivity :: "waiting \<Rightarrow> int" where
  "lastActivity w = later (later (Started w) (SLastAt (Seen w))) (TermActivity w)"

definition start_wait :: "turn_so_far \<Rightarrow> int \<Rightarrow> int \<Rightarrow> int option \<Rightarrow> waiting" where
  "start_wait prior now bound term =
     \<lparr>Acc = seed prior new_wait, Seen = seen_nothing, Started = now, TermActivity = term, Bound = bound, SilenceAt = now + bound\<rparr>"

lemma new_wait_simps [simp]:
  "WText new_wait = []" "SeenTerminal new_wait = False" "TimerSet new_wait = False" "Emitted new_wait = None"
  by (simp_all add: new_wait_def)

definition hear :: "turn_event \<Rightarrow> int \<Rightarrow> waiting \<Rightarrow> waiting" where
  "hear ev now w = w\<lparr>Acc := onEvent ev (Acc w), Seen := note_seen ev now (Seen w)\<rparr>"

datatype wait_end = Ends outcome | CallerGaveUp | AgentGone | Abandoned

datatype wake = ContextDone | AgentDied | SilenceFired int

text \<open>What the loop does when it is woken by something other than its outcome; \<open>died\<close> says whether the
  death of the agent is seen at that moment.\<close>

definition on_wake :: "wake \<Rightarrow> bool \<Rightarrow> waiting \<Rightarrow> wait_end + waiting" where
  "on_wake k died w =
     (case Emitted (Acc w) of
        Some out \<Rightarrow> Inl (Ends out)
      | None \<Rightarrow>
          (case k of
             ContextDone \<Rightarrow> Inl CallerGaveUp
           | AgentDied \<Rightarrow> if STerminal (Seen w) then Inl (Ends (Answered (WText (Acc w)))) else Inl AgentGone
           | SilenceFired now \<Rightarrow>
               if died then Inl AgentGone
               else let idle = now - lastActivity w in
                 if idle < Bound w then Inr (w\<lparr>SilenceAt := now + (Bound w - idle)\<rparr>) else Inl Abandoned))"

subsection \<open>Silence\<close>



subsection \<open>Death in the settle time\<close>

definition hear_all :: "(turn_event \<times> int) list \<Rightarrow> waiting \<Rightarrow> waiting" where
  "hear_all evs = fold (\<lambda>(ev, now). hear ev now) evs"

lemma heard_terminal:
  "SeenTerminal (Acc w) = STerminal (Seen w) \<Longrightarrow> Emitted (Acc (hear_all evs w)) = None \<Longrightarrow>
     SeenTerminal (Acc (hear_all evs w)) = STerminal (Seen (hear_all evs w))"
proof (induction evs arbitrary: w)
  case (Cons e evs)
  obtain ev now where e: "e = (ev, now)" by (rule prod.exhaust)
  have stays: "Emitted (Acc (hear_all es v)) = Some x" if "Emitted (Acc v) = Some x" for es v x
    using that by (induction es arbitrary: v) (auto simp: hear_all_def hear_def emitted_stays split: prod.splits)
  have quiet: "Emitted (Acc (hear ev now w)) = None"
    using Cons.prems(2) stays [of "hear ev now w" _ evs] e by (cases "Emitted (Acc (hear ev now w))") (auto simp: hear_all_def)
  have "SeenTerminal (Acc (hear ev now w)) = STerminal (Seen (hear ev now w))"
    using quiet Cons.prems(1)
    by (auto simp: hear_def note_seen_def onEvent_def emitOnce_def Let_def IsTerminalStop_def split: if_splits)
  then show ?case using Cons.IH [of "hear ev now w"] Cons.prems(2) e by (simp add: hear_all_def)
qed (simp add: hear_all_def)

text \<open>An agent that dies just after it answered has answered, but only to a wait that heard it. A wait
  subscribed before the turn stopped returns the text when the agent dies before the settle timer
  goes off. A wait that was handed a turn that had stopped already reports the agent as gone and
  drops the complete answer it holds, which the timer would have delivered.\<close>

lemma death_in_the_settle_time:
  "(Emitted (Acc (hear_all evs (start_wait nothing_yet now b term))) = None \<and>
      SeenTerminal (Acc (hear_all evs (start_wait nothing_yet now b term))) \<longrightarrow>
    on_wake AgentDied True (hear_all evs (start_wait nothing_yet now b term)) =
      Inl (Ends (Answered (WText (Acc (hear_all evs (start_wait nothing_yet now b term))))))) \<and>
   (PErr prior = None \<and> PTerminal prior \<longrightarrow>
    on_wake AgentDied True (start_wait prior now b term) = Inl AgentGone \<and>
    answered (Acc (start_wait prior now b term)) = Some (Answered (PText prior)))"
proof (intro conjI impI)
  let ?w = "hear_all evs (start_wait nothing_yet now b term)"
  assume q: "Emitted (Acc ?w) = None \<and> SeenTerminal (Acc ?w)"
  have "SeenTerminal (Acc (start_wait nothing_yet now b term)) = STerminal (Seen (start_wait nothing_yet now b term))"
    by (simp add: start_wait_def seen_nothing_def)
  from heard_terminal [OF this, of evs] q show "on_wake AgentDied True ?w = Inl (Ends (Answered (WText (Acc ?w))))"
    by (simp add: on_wake_def)
next
  assume "PErr prior = None \<and> PTerminal prior"
  then show "on_wake AgentDied True (start_wait prior now b term) = Inl AgentGone"
    and "answered (Acc (start_wait prior now b term)) = Some (Answered (PText prior))"
    by (simp_all add: on_wake_def start_wait_def seed_def seen_nothing_def Let_def answered_def settle_def)
qed

theorem death_in_the_settle_time_witness:
  "on_wake AgentDied True (hear_all [(demo_event ''hi'' ''end_turn'', 5)] (start_wait nothing_yet 0 60 None)) = Inl (Ends (Answered ''hi'')) \<and>
   on_wake AgentDied True (start_wait \<lparr>PText = ''hi'', PTerminal = True, PErr = None\<rparr> 0 60 None) = Inl AgentGone"
  using death_in_the_settle_time [of "[(demo_event ''hi'' ''end_turn'', 5)]" 0 60 None "\<lparr>PText = ''hi'', PTerminal = True, PErr = None\<rparr>"]
  by (simp add: hear_all_def hear_def start_wait_def onEvent_def demo_event_def appendTurnText_def IsTerminalStop_def)

end
