(* ===== verification/ModelIntel.thy ===== *)
theory ModelIntel
  imports PlanBands GoJson "HOL-Library.Char_ord" "HOL-Library.List_Lexorder" "HOL-Library.Product_Lexorder"
begin

text \<open>
  What is known of the models in the catalog: the windows a plan meters per model
  (src/plan_usage_model.go), the names the research boards give them (src/model_intel_slug.go) and the
  newest published score of each (src/model_intel.go, src/model_intel_refresh.go).

  Model ids in the catalog are ASCII, so \<open>toLower\<close> is exact in every comparison made here. The tables of
  \<open>unicode.IsLetter\<close> and \<open>unicode.IsDigit\<close> beyond ASCII are the parameter \<open>alnum\<close>, a
  predicate on the UTF-8 encoding of a rune.
\<close>

subsection \<open>Windows of a single model\<close>

definition id_separator :: "char \<Rightarrow> bool" where
  "id_separator c \<longleftrightarrow> c \<in> set ''-_./:[] ''"

text \<open>\<open>strings.FieldsFunc\<close>: the maximal runs of bytes that do not separate; \<open>cur\<close> is the run being read.\<close>

fun fields_func :: "(char \<Rightarrow> bool) \<Rightarrow> string \<Rightarrow> string \<Rightarrow> string list" where
  "fields_func f cur [] = (if cur = [] then [] else [cur])"
| "fields_func f cur (c # s) =
     (if f c then (if cur = [] then fields_func f [] s else cur # fields_func f [] s) else fields_func f (cur @ [c]) s)"

definition modelIDMentions :: "string \<Rightarrow> string \<Rightarrow> bool" where
  "modelIDMentions mid label \<longleftrightarrow> label \<in> set (fields_func id_separator [] mid)"

definition ModelWindowFor :: "plan_usage \<Rightarrow> string \<Rightarrow> plan_window option" where
  "ModelWindowFor u model =
     (let mid = toLower (trimSpace model) in
      if mid = [] then None
      else find (\<lambda>w. WName w = PlanWindowModelWeekly \<and> toLower (trimSpace (WModel w)) \<noteq> [] \<and>
          modelIDMentions mid (toLower (trimSpace (WModel w)))) (Windows u))"

definition ModelHasAvailableTokens ::
  "go_time \<Rightarrow> plan_usage \<Rightarrow> string \<Rightarrow> go_time \<Rightarrow> plan_thresholds option \<Rightarrow> bool" where
  "ModelHasAvailableTokens wall u model now th =
     (if \<not> HasAvailableTokens wall u now th then False
      else (case ModelWindowFor u model of None \<Rightarrow> True
        | Some w \<Rightarrow> (case RemainingPercent w of None \<Rightarrow> True | Some r \<Rightarrow> r > 0)))"

definition ExhaustedModels :: "plan_usage \<Rightarrow> string list" where
  "ExhaustedModels u =
     map WModel (filter (\<lambda>w. WName w = PlanWindowModelWeekly \<and>
       (case RemainingPercent w of None \<Rightarrow> False | Some r \<Rightarrow> r \<le> 0 \<and> trimSpace (WModel w) \<noteq> [])) (Windows u))"

subsection \<open>Research names\<close>

definition ascii_alnum :: "char \<Rightarrow> bool" where
  "ascii_alnum c = (let n = of_char c :: nat in 48 \<le> n \<and> n \<le> 57 \<or> 65 \<le> n \<and> n \<le> 90 \<or> 97 \<le> n \<and> n \<le> 122)"

text \<open>The runes of a string that are letters or digits; a byte that starts no rune is dropped.\<close>

function keep_alnum :: "(string \<Rightarrow> bool) \<Rightarrow> string \<Rightarrow> string" where
  "keep_alnum alnum s =
     (if s = [] then []
      else let n = utf8_len s in
        if n = 0 then keep_alnum alnum (drop 1 s)
        else if n = 1 then (if ascii_alnum (hd s) then [hd s] else []) @ keep_alnum alnum (drop 1 s)
        else (if alnum (take n s) then take n s else []) @ keep_alnum alnum (drop n s))"
  by pat_completeness auto
termination
  by (relation "measure (\<lambda>(a, s). length s)") auto

declare keep_alnum.simps [simp del]

definition normModelID :: "(string \<Rightarrow> bool) \<Rightarrow> string \<Rightarrow> string" where
  "normModelID alnum s = keep_alnum alnum (toLower (trimSpace s))"

definition catalogAliases :: "(string \<times> string) list" where
  "catalogAliases =
     [(''claudesonnet5'', ''claude-sonnet-5''), (''claudesonnet46'', ''claude-sonnet-5''),
      (''claudesonnet45'', ''claude-sonnet-5''), (''claudesonnet4'', ''claude-sonnet-5''),
      (''claudeopus5'', ''claude-opus-5''), (''claudeopus46'', ''claude-opus-5''), (''claudeopus45'', ''claude-opus-5''),
      (''claudefable5'', ''claude-fable-5''), (''claudefable51'', ''claude-fable-5''),
      (''claudehaiku45'', ''claude-haiku-4-5''), (''claudehaiku4'', ''claude-haiku-4-5''),
      (''grok46'', ''grok-4.6''), (''grok45'', ''grok-4.5''), (''grok4'', ''grok-4''),
      (''gpt6astra'', ''gpt-6-astra''), (''gpt6sol'', ''gpt-6-sol''), (''gpt6luna'', ''gpt-6-luna''),
      (''composer25'', ''composer-2.5''), (''composer2'', ''composer-2.5'')]"

definition catalogByModel :: "string \<Rightarrow> catalog_model option" where
  "catalogByModel model = find (\<lambda>row. CatModel row \<noteq> [] \<and> CatModel row = model) ModelCatalog"

definition MatchCatalogGeneration :: "(string \<Rightarrow> bool) \<Rightarrow> string \<Rightarrow> catalog_model option" where
  "MatchCatalogGeneration alnum generation =
     (if generation = [] then None
      else (case catalogByModel generation of Some row \<Rightarrow> Some row
        | None \<Rightarrow> (case map_of catalogAliases (normModelID alnum generation) of
              Some alias \<Rightarrow> catalogByModel alias
            | None \<Rightarrow> None)))"

lemma matched_row_in_catalog: "MatchCatalogGeneration alnum g = Some row \<Longrightarrow> row \<in> set ModelCatalog"
  by (auto simp: MatchCatalogGeneration_def catalogByModel_def find_Some_iff split: if_splits option.splits)

text \<open>Every alias leads to a row that can be started: no published score is lost to a dangling alias.\<close>

lemma aliases_lead_to_rows: "\<forall>(k, m) \<in> set catalogAliases. \<exists>row \<in> set ModelCatalog. catalogByModel m = Some row \<and> CatModel row = m"
  by code_simp

subsection \<open>Published scores\<close>

record observation =
  ObservedAt :: go_time
  OSource :: string
  SourceRev :: string
  Generation :: string
  OEffort :: string
  OPurpose :: string
  OValue :: real
  Unit :: string
  CostUSD :: real
  ObsN :: real
  RawID :: string

type_synonym intel_key = "string \<times> string \<times> string \<times> string"

definition intel_key :: "observation \<Rightarrow> intel_key" where
  "intel_key o' = (Generation o', OEffort o', OPurpose o', OSource o')"

record intel_args =
  IDir :: string
  ILatest :: "observation list option"

text \<open>\<open>read_obs\<close> is what reading the observation file of a directory returns, the empty name standing for
  the default directory.\<close>

definition loadIntelObservations ::
  "(string \<Rightarrow> string + observation list) \<Rightarrow> intel_args option \<Rightarrow> string + observation list" where
  "loadIntelObservations read_obs args =
     (case args of None \<Rightarrow> read_obs []
      | Some a \<Rightarrow> (case ILatest a of Some obs \<Rightarrow> Inr obs | None \<Rightarrow> read_obs (IDir a)))"

fun newest :: "(intel_key \<times> observation) list \<Rightarrow> observation list \<Rightarrow> (intel_key \<times> observation) list" where
  "newest best [] = best"
| "newest best (x # obs) =
     (case map_of best (intel_key x) of
        None \<Rightarrow> newest (AList.update (intel_key x) x best) obs
      | Some prev \<Rightarrow>
          newest (if time_after (ObservedAt x) (ObservedAt prev) then AList.update (intel_key x) x best else best) obs)"

text \<open>
  The scores are collected in a map, whose entries come out in any order, and sorted by purpose,
  generation and effort with a sort that is not stable: \<open>arrange\<close> is the order the entries have
  when the sort breaks ties by it.
\<close>

definition LatestModelIntel ::
  "(string \<Rightarrow> string + observation list) \<Rightarrow> (observation list \<Rightarrow> observation list) \<Rightarrow> intel_args option
    \<Rightarrow> string + observation list" where
  "LatestModelIntel read_obs arrange args =
     (case loadIntelObservations read_obs args of Inl e \<Rightarrow> Inl e
      | Inr obs \<Rightarrow> Inr (sort_key (\<lambda>x. (OPurpose x, Generation x, OEffort x)) (arrange (map snd (newest [] obs)))))"

text \<open>What the loop keeps: one entry per key, of an observation under that key than which no earlier one is newer.\<close>

definition newest_ok :: "(intel_key \<times> observation) list \<Rightarrow> observation set \<Rightarrow> bool" where
  "newest_ok best obs \<longleftrightarrow> distinct (map fst best) \<and> (\<forall>(k, x) \<in> set best. k = intel_key x \<and> x \<in> obs) \<and>
     (\<forall>y \<in> obs. \<exists>x. map_of best (intel_key y) = Some x \<and> \<not> time_after (ObservedAt y) (ObservedAt x))"

lemma newest_ok_step:
  assumes ok: "newest_ok best obs"
  shows "newest_ok (case map_of best (intel_key x) of None \<Rightarrow> AList.update (intel_key x) x best
      | Some prev \<Rightarrow> if time_after (ObservedAt x) (ObservedAt prev) then AList.update (intel_key x) x best else best)
    (insert x obs)"
proof -
  have grow: "newest_ok (AList.update (intel_key x) x best) (insert x obs)"
    if new: "\<And>p. map_of best (intel_key x) = Some p \<Longrightarrow> time_after (ObservedAt x) (ObservedAt p)"
  proof -
    have "\<forall>(k, y) \<in> set (AList.update (intel_key x) x best). k = intel_key y \<and> y \<in> insert x obs"
      using ok by (fastforce simp: newest_ok_def dest: in_set_update)
    moreover have "\<exists>z. map_of (AList.update (intel_key x) x best) (intel_key y) = Some z \<and>
        \<not> time_after (ObservedAt y) (ObservedAt z)" if "y \<in> insert x obs" for y
      using that ok new by (cases "intel_key y = intel_key x")
        (fastforce simp: newest_ok_def update_conv' time_after_def)+
    ultimately show ?thesis using ok by (simp add: newest_ok_def)
  qed
  show ?thesis
  proof (cases "map_of best (intel_key x)")
    case None
    then show ?thesis using grow by simp
  next
    case (Some p)
    have "newest_ok best (insert x obs)" if "\<not> time_after (ObservedAt x) (ObservedAt p)"
      using ok that Some by (auto simp: newest_ok_def)
    then show ?thesis using Some grow by simp
  qed
qed

lemma newest_ok: "newest_ok best seen \<Longrightarrow> newest_ok (newest best obs) (seen \<union> set obs)"
proof (induction obs arbitrary: best seen)
  case (Cons x obs)
  have "newest best (x # obs) = newest (case map_of best (intel_key x) of None \<Rightarrow> AList.update (intel_key x) x best
      | Some prev \<Rightarrow> if time_after (ObservedAt x) (ObservedAt prev) then AList.update (intel_key x) x best else best) obs"
    by (simp split: option.split)
  then show ?case using Cons.IH [OF newest_ok_step [OF Cons.prems, of x]] by simp
qed simp

end
