(* ===== verification/GoSort.thy ===== *)
theory GoSort
  imports Main "HOL-Library.Multiset"
begin

text \<open>
  The sorting routines of the Go library that the code calls with a \<open>less\<close> function.
  \<open>sort.SliceStable\<close> keeps the order of elements neither of which is less than the other; for a weak
  order there is one such arrangement, and insertion from the right computes it. \<open>sort.Slice\<close>
  promises only some arrangement: its callers below are given one as a parameter.

  The locale states what \<open>less\<close> has to satisfy; the ranking of catalog candidates is shown to satisfy it
  where it is defined.
\<close>

fun insert_by :: "('a \<Rightarrow> 'a \<Rightarrow> bool) \<Rightarrow> 'a \<Rightarrow> 'a list \<Rightarrow> 'a list" where
  "insert_by lt x [] = [x]"
| "insert_by lt x (y # ys) = (if lt y x then y # insert_by lt x ys else x # y # ys)"

definition SliceStable :: "('a \<Rightarrow> 'a \<Rightarrow> bool) \<Rightarrow> 'a list \<Rightarrow> 'a list" where
  "SliceStable lt xs = foldr (insert_by lt) xs []"

lemma mset_insert_by [simp]: "mset (insert_by lt x ys) = add_mset x (mset ys)"
  by (induction ys) auto

lemma mset_SliceStable [simp]: "mset (SliceStable lt xs) = mset xs"
  by (induction xs) (simp_all add: SliceStable_def)

lemma set_SliceStable [simp]: "set (SliceStable lt xs) = set xs"
  by (metis mset_SliceStable set_mset_mset)

lemma set_insert_by [simp]: "set (insert_by lt x ys) = insert x (set ys)"
  by (induction ys) auto

lemma SliceStable_Nil_iff [simp]: "SliceStable lt xs = [] \<longleftrightarrow> xs = []"
  by (metis mset_SliceStable mset_zero_iff)

locale weak_order =
  fixes lt :: "'a \<Rightarrow> 'a \<Rightarrow> bool"
  assumes asym: "lt x y \<Longrightarrow> \<not> lt y x"
    and negtrans: "lt x z \<Longrightarrow> lt x y \<or> lt y z"
begin

lemma insert_sorted:
  "sorted_wrt (\<lambda>a b. \<not> lt b a) ys \<Longrightarrow> sorted_wrt (\<lambda>a b. \<not> lt b a) (insert_by lt x ys)"
proof (induction ys)
  case (Cons y ys)
  have "\<not> lt z x" if "\<not> lt y x" "z \<in> set ys" for z
    using negtrans [of z x y] that Cons.prems by auto
  moreover have "\<not> lt x y" if "lt y x" using asym that by blast
  ultimately show ?case using Cons by simp
qed simp

lemma SliceStable_sorted: "sorted_wrt (\<lambda>a b. \<not> lt b a) (SliceStable lt xs)"
  by (induction xs) (simp_all add: SliceStable_def insert_sorted)

lemma first_is_least: "SliceStable lt xs = y # ys \<Longrightarrow> x \<in> set xs \<Longrightarrow> \<not> lt x y"
  using SliceStable_sorted [of xs] set_SliceStable [of lt xs] asym by fastforce

text \<open>When no two elements tie, the arrangement does not depend on the order in which they came.\<close>

lemma arrangement_unique:
  assumes "mset xs = mset ys" "sorted_wrt (\<lambda>a b. \<not> lt b a) xs" "sorted_wrt (\<lambda>a b. \<not> lt b a) ys"
    and "\<And>x y. x \<in> set xs \<Longrightarrow> y \<in> set xs \<Longrightarrow> x \<noteq> y \<Longrightarrow> lt x y \<or> lt y x"
  shows "xs = ys"
  using assms
proof (induction xs arbitrary: ys)
  case Nil
  then show ?case by simp
next
  case (Cons x xs)
  then obtain y ys' where ys: "ys = y # ys'" by (cases ys) auto
  have sets: "set (x # xs) = set ys" using Cons.prems(1) by (metis set_mset_mset)
  have "x = y"
  proof (rule ccontr)
    assume "x \<noteq> y"
    then have "y \<in> set xs" "x \<in> set ys'" using sets ys by auto
    then have "\<not> lt y x" "\<not> lt x y" using Cons.prems(2,3) ys by auto
    then show False using Cons.prems(4) [of x y] \<open>x \<noteq> y\<close> \<open>y \<in> set xs\<close> by auto
  qed
  moreover have "xs = ys'" by (rule Cons.IH) (use Cons.prems ys \<open>x = y\<close> in auto)
  ultimately show ?case using ys by simp
qed

lemma SliceStable_perm:
  assumes "mset xs = mset ys"
    and "\<And>x y. x \<in> set xs \<Longrightarrow> y \<in> set xs \<Longrightarrow> x \<noteq> y \<Longrightarrow> lt x y \<or> lt y x"
  shows "SliceStable lt xs = SliceStable lt ys"
  by (rule arrangement_unique) (use assms SliceStable_sorted in auto)

end

end
