(* ===== verification/Resolving.thy ===== *)
theory Resolving
  imports ModelIntel GoSort
begin

text \<open>
  The choice of a provider and a model for new work (src/resolve.go): the predicates of a caller, the
  filter over the catalog, the ranking by plan pressure, and the choice by published scores.

  What the code takes from its surroundings is the record \<open>resolve_env\<close>: the clock, the random draw, the
  plan readings that \<open>LoadPlanUsage\<close> returns, the stored scores, the quoting of \<open>%q\<close>, and the tables
  and the order described with the scores. A Go map of overrides is the list of its entries in the order in which the range
  statement visits them, which is any order. Floating point is as described with the plan bands.
\<close>

subsection \<open>Predicates and picks\<close>

definition CapabilityTask :: string where "CapabilityTask = ''task''"
definition CapabilitySession :: string where "CapabilitySession = ''session''"
definition ModelAccessPlan :: string where "ModelAccessPlan = ''plan''"
definition ModelQualityFrontier :: string where "ModelQualityFrontier = ''frontier''"
definition ModelQualityStandard :: string where "ModelQualityStandard = ''standard''"
definition ModelQualityEconomy :: string where "ModelQualityEconomy = ''economy''"
definition ModelPurposeGeneral :: string where "ModelPurposeGeneral = ''general''"
definition DecisionAuthor :: string where "DecisionAuthor = ''claudia''"

lemmas model_names = CapabilityTask_def CapabilitySession_def ModelAccessPlan_def ModelQualityFrontier_def
  ModelQualityStandard_def ModelQualityEconomy_def ModelPurposeGeneral_def DecisionAuthor_def

record owner_override =
  OBand :: plan_band
  OReason :: string

record cache_args =
  CacheDir :: string
  CacheTTL :: int
  CacheLockStale :: int
  CachePoll :: int
  CacheNow :: go_time
  CacheRefresh :: bool

record predicates =
  QMode :: string
  QPurpose :: string
  QSkill :: string
  QQuality :: string
  QModel :: string
  QEffort :: string
  QPreferPlan :: bool
  QBackground :: bool
  QPreferProvider :: provider
  QTieBreak :: "provider list"
  QRand :: "(int \<Rightarrow> int) option"
  QExcludeProviders :: "provider list"
  QRequireUsage :: bool
  QUsage :: "plan_usage list option"
  QCache :: "cache_args option"
  QIntel :: "intel_args option"
  QNow :: go_time
  QThresholds :: "plan_thresholds option"
  QOwnerOverride :: "(provider \<times> owner_override) list"

record model_pick =
  MProvider :: provider
  MModel :: string
  MQuality :: string
  MPurpose :: string
  MEffort :: string
  MAccess :: string
  MBand :: plan_band
  MCostUSD :: real
  MReason :: string
  MAuthor :: string

record resolve_env =
  wall :: go_time
  int_n :: "int \<Rightarrow> int"
  load_usage :: "cache_args \<Rightarrow> string + plan_usage list"
  read_obs :: "string \<Rightarrow> string + observation list"
  arrange :: "observation list \<Rightarrow> observation list"
  alnum :: "string \<Rightarrow> bool"
  quote :: "string \<Rightarrow> string"

datatype resolve_error =
    NoModelMatches
  | Tried resolve_error "string list"
  | DrawOutside int int
  | PinNotInCatalog string
  | PinMissesFloor string string string string
  | NoneMeetsQuality string string
  | UsageUnread string
  | IntelUnread string

definition show_int :: "int \<Rightarrow> string" where
  "show_int i = (if i < 0 then ''-'' @ decimal (nat (- i)) else decimal (nat i))"

fun joined :: "string \<Rightarrow> string list \<Rightarrow> string" where
  "joined sep [] = []"
| "joined sep [s] = s"
| "joined sep (s # t # r) = s @ sep @ joined sep (t # r)"

fun error_text :: "(string \<Rightarrow> string) \<Rightarrow> resolve_error \<Rightarrow> string" where
  "error_text q NoModelMatches = ''resolve: no catalog model matches predicates''"
| "error_text q (Tried e rejected) =
     error_text q e @ '' (tried '' @ decimal (length rejected) @ '' catalog rows: '' @ joined ''; '' rejected @ '')''"
| "error_text q (DrawOutside i n) = ''resolve: tie draw '' @ show_int i @ '' outside [0, '' @ show_int n @ '')''"
| "error_text q (PinNotInCatalog m) = ''resolve: pinned model '' @ q m @ '' is not in the catalog''"
| "error_text q (PinMissesFloor m e p w) =
     ''resolve: pinned '' @ m @ ''/'' @ e @ '' misses '' @ p @ '' '' @ w @ '' floor''"
| "error_text q (NoneMeetsQuality p w) = ''resolve: no catalog model meets '' @ p @ '' quality='' @ w"
| "error_text q (UsageUnread e) = e"
| "error_text q (IntelUnread e) = e"

fun band_text :: "plan_band \<Rightarrow> string" where
  "band_text NoBand = ''''"
| "band_text BandOK = ''ok''"
| "band_text BandAhead = ''ahead''"
| "band_text BandHot = ''hot''"
| "band_text BandUnder = ''under''"
| "band_text BandLocked = ''locked''"
| "band_text BandExhausted = ''exhausted''"
| "band_text BandUnpublished = ''unpublished''"

subsection \<open>Destination bands\<close>

fun destBandRank :: "plan_band \<Rightarrow> int option" where
  "destBandRank BandLocked = Some 0"
| "destBandRank BandUnder = Some 1"
| "destBandRank BandOK = Some 2"
| "destBandRank _ = None"

definition IsDestBand :: "plan_band \<Rightarrow> bool" where
  "IsDestBand b \<longleftrightarrow> destBandRank b \<noteq> None"

definition publishedPlanBand :: "plan_band \<Rightarrow> bool" where
  "publishedPlanBand b \<longleftrightarrow> b \<noteq> NoBand \<and> b \<noteq> BandUnpublished"

lemma dest_band_iff: "IsDestBand b \<longleftrightarrow> b \<in> {BandLocked, BandUnder, BandOK}"
  by (cases b) (simp_all add: IsDestBand_def)

subsection \<open>Pressures compared\<close>

definition press_less :: "pressure \<Rightarrow> pressure \<Rightarrow> bool" where
  "press_less p q \<longleftrightarrow> (case p of Infinite \<Rightarrow> False | Ln x \<Rightarrow> (case q of Infinite \<Rightarrow> True | Ln y \<Rightarrow> x < y))"

definition press_add :: "pressure \<Rightarrow> real \<Rightarrow> pressure" where
  "press_add p d = (case p of Infinite \<Rightarrow> Infinite | Ln x \<Rightarrow> Ln (x + d))"

definition weeklyPressure :: "plan_usage \<Rightarrow> go_time \<Rightarrow> plan_thresholds option \<Rightarrow> pressure" where
  "weeklyPressure u now th =
     (let thresholds = (case th of None \<Rightarrow> DefaultPlanThresholds | Some t \<Rightarrow> withDefaults t) in
      case primaryAllowanceWindow u of None \<Rightarrow> Ln 0
      | Some w \<Rightarrow>
          (case (usedPercent w, remainingTimePercent w now) of
             (Some used, Some rtp) \<Rightarrow> Pressure used (100 - rtp) thresholds
           | _ \<Rightarrow> Ln 0))"

subsection \<open>Readings\<close>

definition normalizePredicates :: "predicates \<Rightarrow> predicates" where
  "normalizePredicates pred =
     (if QPurpose pred = [] \<and> QSkill pred \<noteq> [] then pred\<lparr>QPurpose := QSkill pred\<rparr> else pred)"

definition zero_cache_args :: cache_args where
  "zero_cache_args = \<lparr>CacheDir = [], CacheTTL = 0, CacheLockStale = 0, CachePoll = 0, CacheNow = zero_time, CacheRefresh = False\<rparr>"

definition resolveUsage :: "resolve_env \<Rightarrow> predicates \<Rightarrow> resolve_error + plan_usage list" where
  "resolveUsage env pred =
     (case QUsage pred of Some us \<Rightarrow> Inr us
      | None \<Rightarrow>
          (let args = (case QCache pred of None \<Rightarrow> zero_cache_args | Some a \<Rightarrow> a);
               args' = (if IsZero (CacheNow args) \<and> \<not> IsZero (QNow pred) then args\<lparr>CacheNow := QNow pred\<rparr> else args)
           in (case load_usage env args' of Inl e \<Rightarrow> Inl (UsageUnread e) | Inr us \<Rightarrow> Inr us)))"

text \<open>The map from a provider to its reading: a later reading of a provider replaces an earlier one.\<close>

definition indexPlanUsage :: "plan_usage list \<Rightarrow> provider \<Rightarrow> plan_usage option" where
  "indexPlanUsage usage p = find (\<lambda>u. PUProvider u = p) (rev usage)"

definition skipForUsage :: "resolve_env \<Rightarrow> predicates \<Rightarrow> plan_usage option \<Rightarrow> go_time \<Rightarrow> bool" where
  "skipForUsage env pred u now =
     (if QBackground pred \<and>
         (case u of None \<Rightarrow> False
          | Some r \<Rightarrow> Weekly (ClassifyPlan (wall env) r now (QThresholds pred)) \<in> {BandAhead, BandHot, BandExhausted})
      then True
      else if \<not> QRequireUsage pred then False
      else (case u of None \<Rightarrow> True
        | Some r \<Rightarrow> if PUStatus r \<noteq> PlanUsageAvailable then True
            else \<not> publishedPlanBand (Weekly (ClassifyPlan (wall env) r now (QThresholds pred)))))"

subsection \<open>Candidates\<close>

record catalog_cand =
  row :: catalog_model
  band :: plan_band
  cpressure :: pressure
  weeklyLeft :: real
  sessionLeft :: real
  pinned :: bool
  pinReason :: string
  tieBreak :: bool
  drawnOf :: int

definition unknownHeadroom :: real where "unknownHeadroom = - 1"

definition catalogTieBreakReach :: real where "catalogTieBreakReach = 5 / 100"

definition window_left :: "plan_window \<Rightarrow> real option" where
  "window_left w =
     (case RemainingPercent w of Some r \<Rightarrow> Some r
      | None \<Rightarrow> (case UsedPercent w of Some u \<Rightarrow> Some (100 - u) | None \<Rightarrow> None))"

definition rowHeadroom :: "plan_usage \<Rightarrow> string \<Rightarrow> real \<times> real" where
  "rowHeadroom u model =
     (if PUStatus u \<noteq> PlanUsageAvailable then (unknownHeadroom, unknownHeadroom)
      else let left = (\<lambda>w. case w of None \<Rightarrow> None | Some w' \<Rightarrow> window_left w');
               weekly = (case left (primaryAllowanceWindow u) of Some v \<Rightarrow> v | None \<Rightarrow> unknownHeadroom);
               weekly' = (case left (ModelWindowFor u model) of
                   Some v \<Rightarrow> if weekly = unknownHeadroom \<or> v < weekly then v else weekly
                 | None \<Rightarrow> weekly);
               session = (case left (windowNamed u PlanWindowSession) of Some v \<Rightarrow> v | None \<Rightarrow> unknownHeadroom)
           in (weekly', session))"

text \<open>The owner's overrides: a destination band pins its provider, any other band excludes it.\<close>

fun owner_overrides ::
  "(provider \<times> owner_override) list \<Rightarrow> provider list \<Rightarrow> (provider \<Rightarrow> owner_override option)
    \<Rightarrow> provider list \<times> (provider \<Rightarrow> owner_override option)" where
  "owner_overrides [] exclude ownerPin = (exclude, ownerPin)"
| "owner_overrides ((p, ov) # r) exclude ownerPin =
     (let np = PlanProvider p in
      if np = [] then owner_overrides r exclude ownerPin
      else if IsDestBand (OBand ov) then owner_overrides r exclude (ownerPin(np := Some ov))
      else owner_overrides r (np # exclude) ownerPin)"

definition row_id :: "catalog_model \<Rightarrow> string" where
  "row_id r = CatProvider r @ ''/'' @ CatModel r"

text \<open>One turn of the loop over the catalog: the reason a row is rejected for, or its candidate.\<close>

definition judge_row ::
  "resolve_env \<Rightarrow> predicates \<Rightarrow> string \<Rightarrow> (provider \<Rightarrow> plan_usage option) \<Rightarrow> go_time \<Rightarrow> provider list
    \<Rightarrow> (provider \<Rightarrow> owner_override option) \<Rightarrow> catalog_model \<Rightarrow> string + catalog_cand" where
  "judge_row env pred wantQ byProv now exclude ownerPin r =
     (let rid = row_id r; u = byProv (CatProvider r); pin = ownerPin (CatProvider r) in
      if CatProvider r \<in> set exclude then Inl (rid @ '': excluded provider'')
      else if QMode pred = CapabilityTask \<and> \<not> CatTask r then Inl (rid @ '': mode=task not supported'')
      else if QMode pred = CapabilitySession \<and> \<not> CatSession r then Inl (rid @ '': mode=session not supported'')
      else if QPreferPlan pred \<and> CatAccess r \<noteq> ModelAccessPlan then
        Inl (rid @ '': require_plan but access='' @ CatAccess r)
      else if CatQuality r \<noteq> wantQ then Inl (rid @ '': quality='' @ CatQuality r @ '' wants '' @ wantQ)
      else if pin = None \<and> skipForUsage env pred u now then
        Inl (rid @ '': usage/band ineligible (exhausted, hot, or no usage data under RequireUsage)'')
      else if pin = None \<and> (case u of None \<Rightarrow> False
          | Some us \<Rightarrow> \<not> ModelHasAvailableTokens (wall env) us (CatModel r) now (QThresholds pred)) then
        Inl (rid @ '': no available tokens on this model'')
      else
        Inr \<lparr>row = r,
             band = (case pin of Some ov \<Rightarrow> OBand ov
               | None \<Rightarrow> (case u of Some us \<Rightarrow> Weekly (ClassifyPlan (wall env) us now (QThresholds pred))
                   | None \<Rightarrow> BandUnpublished)),
             cpressure = (case u of Some us \<Rightarrow> weeklyPressure us now (QThresholds pred) | None \<Rightarrow> Ln 0),
             weeklyLeft = (case u of Some us \<Rightarrow> fst (rowHeadroom us (CatModel r)) | None \<Rightarrow> unknownHeadroom),
             sessionLeft = (case u of Some us \<Rightarrow> snd (rowHeadroom us (CatModel r)) | None \<Rightarrow> unknownHeadroom),
             pinned = (pin \<noteq> None), pinReason = (case pin of Some ov \<Rightarrow> OReason ov | None \<Rightarrow> []),
             tieBreak = False, drawnOf = 0\<rparr>)"

fun judged :: "(catalog_model \<Rightarrow> string + catalog_cand) \<Rightarrow> catalog_model list \<Rightarrow> catalog_cand list \<times> string list" where
  "judged f [] = ([], [])"
| "judged f (r # rs) =
     (case judged f rs of (cands, rejected) \<Rightarrow>
        (case f r of Inl why \<Rightarrow> (cands, why # rejected) | Inr c \<Rightarrow> (c # cands, rejected)))"

subsection \<open>The ranking\<close>

definition rank_key :: "plan_band \<Rightarrow> int" where
  "rank_key b = (case destBandRank b of Some r \<Rightarrow> r | None \<Rightarrow> 3)"

definition catalogRank :: "catalog_cand \<Rightarrow> catalog_cand \<Rightarrow> int" where
  "catalogRank a b =
     (let ar = rank_key (band a); br = rank_key (band b) in
      if ar \<noteq> br then ar - br
      else if press_less (cpressure a) (cpressure b) then - 1
      else if press_less (cpressure b) (cpressure a) then 1
      else if weeklyLeft a > weeklyLeft b then - 1
      else if weeklyLeft a < weeklyLeft b then 1
      else if sessionLeft a > sessionLeft b then - 1
      else if sessionLeft a < sessionLeft b then 1
      else 0)"

definition catalogID :: "catalog_cand \<Rightarrow> string" where
  "catalogID c = row_id (row c)"

definition ranks_before :: "catalog_cand \<Rightarrow> catalog_cand \<Rightarrow> bool" where
  "ranks_before a b = (if catalogRank a b \<noteq> 0 then catalogRank a b < 0 else catalogID a < catalogID b)"

subsection \<open>The pick\<close>

definition candidate_pool :: "catalog_cand list \<Rightarrow> provider \<Rightarrow> catalog_cand list" where
  "candidate_pool cands prefer =
     (let pins = filter pinned cands;
          dests = (if pins \<noteq> [] then pins else filter (\<lambda>c. IsDestBand (band c)) cands);
          pool = (if dests \<noteq> [] then dests else filter (\<lambda>c. \<not> publishedPlanBand (band c)) cands);
          pref = filter (\<lambda>c. CatProvider (row c) = prefer) pool
      in if prefer \<noteq> [] \<and> pref \<noteq> [] then pref else pool)"

text \<open>How many of the ranked candidates tie with the leader.\<close>

definition tied_with :: "catalog_cand \<Rightarrow> catalog_cand list \<Rightarrow> nat" where
  "tied_with leader pool = length (takeWhile (\<lambda>c. catalogRank c leader = 0) pool)"

definition within_reach :: "catalog_cand \<Rightarrow> catalog_cand \<Rightarrow> bool" where
  "within_reach leader c \<longleftrightarrow>
     (band c = band leader \<or> \<not> IsDestBand (band c) \<and> \<not> IsDestBand (band leader)) \<and>
     \<not> press_less (press_add (cpressure leader) catalogTieBreakReach) (cpressure c)"

text \<open>The first named provider with a candidate within reach of the leader.\<close>

fun tie_choice :: "provider list \<Rightarrow> catalog_cand \<Rightarrow> catalog_cand list \<Rightarrow> catalog_cand option" where
  "tie_choice [] leader pool = None"
| "tie_choice (p # ps) leader pool =
     (case find (\<lambda>c. CatProvider (row c) = p \<and> within_reach leader c) pool of
        Some c \<Rightarrow> Some c
      | None \<Rightarrow> tie_choice ps leader pool)"

definition pickCatalog ::
  "(int \<Rightarrow> int) \<Rightarrow> catalog_cand list \<Rightarrow> provider \<Rightarrow> provider list \<Rightarrow> (int \<Rightarrow> int) option
    \<Rightarrow> resolve_error + catalog_cand" where
  "pickCatalog intN cands prefer tie_break draw =
     (case SliceStable ranks_before (candidate_pool cands prefer) of
        [] \<Rightarrow> Inl NoModelMatches
      | leader # rest \<Rightarrow>
          (let tied = 1 + tied_with leader rest in
           case tie_choice tie_break leader (leader # rest) of
             Some c \<Rightarrow> Inr (c\<lparr>tieBreak := (row c \<noteq> row leader \<or> tied > 1)\<rparr>)
           | None \<Rightarrow>
               if tied = 1 then Inr leader
               else (let i = (case draw of None \<Rightarrow> intN | Some d \<Rightarrow> d) (int tied) in
                     if i < 0 \<or> i \<ge> int tied then Inl (DrawOutside i (int tied))
                     else Inr (((leader # rest) ! nat i)\<lparr>drawnOf := int tied\<rparr>))))"

subsection \<open>The choice by published scores\<close>

record intel_cand =
  irow :: catalog_model
  effort :: string
  ivalue :: real
  cost :: real
  hasScore :: bool
  iband :: plan_band
  ipressure :: pressure

definition purposeHasCatalogSeries :: "(string \<Rightarrow> bool) \<Rightarrow> observation list \<Rightarrow> string \<Rightarrow> bool" where
  "purposeHasCatalogSeries al obs purpose \<longleftrightarrow>
     (\<exists>x \<in> set obs. OPurpose x = purpose \<and> MatchCatalogGeneration al (Generation x) \<noteq> None)"

fun scored_pool :: "(string \<Rightarrow> bool) \<Rightarrow> string \<Rightarrow> string list \<Rightarrow> observation list \<Rightarrow> intel_cand list" where
  "scored_pool al purpose seen [] = []"
| "scored_pool al purpose seen (x # obs) =
     (if OPurpose x \<noteq> purpose then scored_pool al purpose seen obs
      else (case MatchCatalogGeneration al (Generation x) of
          None \<Rightarrow> scored_pool al purpose seen obs
        | Some r \<Rightarrow>
            (let cid = row_id r @ ''/'' @ OEffort x in
             if cid \<in> set seen then scored_pool al purpose seen obs
             else \<lparr>irow = r, effort = OEffort x, ivalue = OValue x, cost = CostUSD x, hasScore = True,
                   iband = NoBand, ipressure = Ln 0\<rparr> # scored_pool al purpose (cid # seen) obs)))"

definition unscored :: "catalog_model \<Rightarrow> string \<Rightarrow> intel_cand" where
  "unscored r e = \<lparr>irow = r, effort = e, ivalue = 0, cost = 0, hasScore = False, iband = NoBand, ipressure = Ln 0\<rparr>"

fun shelf_rows :: "string \<Rightarrow> string list \<Rightarrow> catalog_model list \<Rightarrow> intel_cand list" where
  "shelf_rows wantQ seen [] = []"
| "shelf_rows wantQ seen (r # rs) =
     (if CatQuality r \<noteq> wantQ \<or> row_id r \<in> set seen then shelf_rows wantQ seen rs
      else unscored r [] # shelf_rows wantQ (row_id r # seen) rs)"

definition appendCatalogShelf :: "intel_cand list \<Rightarrow> string \<Rightarrow> intel_cand list" where
  "appendCatalogShelf pool wantQ = pool @ shelf_rows wantQ (map (\<lambda>c. row_id (irow c)) pool) ModelCatalog"

definition slackDecides :: "pressure \<Rightarrow> pressure \<Rightarrow> bool \<times> bool" where
  "slackDecides c best =
     (if press_less c (press_add best (- 5 / 100)) then (True, True)
      else if press_less (press_add best (5 / 100)) c then (False, True)
      else (False, False))"

definition destBetter :: "plan_band \<Rightarrow> pressure \<Rightarrow> plan_band \<Rightarrow> pressure \<Rightarrow> bool \<times> bool" where
  "destBetter cBand cPress bestBand bestPress =
     (case (destBandRank cBand, destBandRank bestBand) of
        (Some cr, Some br) \<Rightarrow> if cr \<noteq> br then (cr < br, True) else slackDecides cPress bestPress
      | (None, None) \<Rightarrow> (False, False)
      | (Some _, None) \<Rightarrow> (True, True)
      | (None, Some _) \<Rightarrow> (False, True))"

definition slackDecidesPublished :: "pressure \<Rightarrow> plan_band \<Rightarrow> pressure \<Rightarrow> plan_band \<Rightarrow> bool \<times> bool" where
  "slackDecidesPublished cPress cBand bestPress bestBand =
     (let cPub = publishedPlanBand cBand; bPub = publishedPlanBand bestBand in
      if cPub \<noteq> bPub then (cPub, True)
      else if \<not> cPub then (False, False)
      else destBetter cBand cPress bestBand bestPress)"

definition costOrInf :: "real \<Rightarrow> bool \<Rightarrow> real" where
  "costOrInf c scored = (if c > 0 then c else if scored then 10 ^ 9 else 10 ^ 12)"

definition intelBetter :: "intel_cand \<Rightarrow> intel_cand \<Rightarrow> provider \<Rightarrow> bool" where
  "intelBetter c best prefer =
     (case slackDecidesPublished (ipressure c) (iband c) (ipressure best) (iband best) of
        (better, True) \<Rightarrow> better
      | (_, False) \<Rightarrow>
          (let cc = costOrInf (cost c) (hasScore c); bc = costOrInf (cost best) (hasScore best);
               cp = CatProvider (irow c); bp = CatProvider (irow best)
           in if cc \<noteq> bc then cc < bc
              else if prefer \<noteq> [] \<and> cp = prefer \<and> bp \<noteq> prefer then True
              else if prefer \<noteq> [] \<and> bp = prefer \<and> cp \<noteq> prefer then False
              else if hasScore c \<noteq> hasScore best then hasScore c
              else ivalue c > ivalue best))"

text \<open>\<open>int(idx)\<close> truncates, and the index is never negative.\<close>

definition percentileSorted :: "real list \<Rightarrow> real \<Rightarrow> real" where
  "percentileSorted xs p =
     (if length xs = 1 then xs ! 0
      else let idx = p * real (length xs - 1); lo = nat \<lfloor>idx\<rfloor>; hi = lo + 1 in
        if hi \<ge> length xs then xs ! lo
        else let frac = idx - real lo in xs ! lo * (1 - frac) + xs ! hi * frac)"

definition qualityScoreFloor :: "real list \<Rightarrow> string \<Rightarrow> real option" where
  "qualityScoreFloor scores q =
     (if scores = [] then None
      else let cp = sort scores in
        Some (if q = ModelQualityEconomy then cp ! 0
              else if q = ModelQualityFrontier then percentileSorted cp (75 / 100)
              else percentileSorted cp (40 / 100)))"

text \<open>\<open>%.4f\<close> of a number that is not negative: four decimals, an exact half rounded to even.\<close>

definition fixed4 :: "real \<Rightarrow> string" where
  "fixed4 x =
     (let f = \<lfloor>x * 10000\<rfloor>; d = x * 10000 - of_int f;
          n = nat (if d < 1 / 2 then f else if d > 1 / 2 then f + 1 else if even f then f else f + 1)
      in decimal (n div 10000) @ ''.'' @ pad 4 (n mod 10000))"

definition effortOrUnspecified :: "string \<Rightarrow> string" where
  "effortOrUnspecified e = (if e = [] then ''unspecified'' else e)"

definition formatIntelReason :: "string \<Rightarrow> string \<Rightarrow> string \<Rightarrow> real \<Rightarrow> plan_band \<Rightarrow> string" where
  "formatIntelReason purpose quality e c b =
     ''purpose='' @ purpose @ '' quality='' @ quality @ '' effort='' @ effortOrUnspecified e @ '' band='' @ band_text b @
     (if c > 0 then '' cost='' @ fixed4 c else [])"

text \<open>The candidates before any is ruled out: the scored ones, the pinned one if it has no score, and the shelf.\<close>

definition intel_pool ::
  "(string \<Rightarrow> bool) \<Rightarrow> predicates \<Rightarrow> string \<Rightarrow> string \<Rightarrow> catalog_model option \<Rightarrow> observation list \<Rightarrow> intel_cand list" where
  "intel_pool al pred purpose wantQ pinRow obs =
     (let pool = scored_pool al purpose [] obs;
          pool' = (case pinRow of None \<Rightarrow> pool
            | Some r \<Rightarrow>
                if \<exists>c \<in> set pool. CatModel (irow c) = CatModel r \<and> (QEffort pred = [] \<or> effort c = QEffort pred) then pool
                else pool @ [unscored r (QEffort pred)])
      in appendCatalogShelf pool' wantQ)"

definition intel_eligible ::
  "resolve_env \<Rightarrow> predicates \<Rightarrow> (provider \<Rightarrow> plan_usage option) \<Rightarrow> go_time \<Rightarrow> provider list \<Rightarrow> catalog_model option
    \<Rightarrow> intel_cand \<Rightarrow> bool" where
  "intel_eligible env pred byProv now exclude pinRow c \<longleftrightarrow>
     (let r = irow c; u = byProv (CatProvider r) in
      \<not> (CatProvider r \<in> set exclude) \<and>
      \<not> (QMode pred = CapabilityTask \<and> \<not> CatTask r) \<and>
      \<not> (QMode pred = CapabilitySession \<and> \<not> CatSession r) \<and>
      \<not> (QPreferPlan pred \<and> CatAccess r \<noteq> ModelAccessPlan) \<and>
      \<not> (case pinRow of None \<Rightarrow> False | Some pr \<Rightarrow> CatModel r \<noteq> CatModel pr) \<and>
      \<not> (QEffort pred \<noteq> [] \<and> effort c \<noteq> QEffort pred) \<and>
      \<not> skipForUsage env pred u now \<and>
      \<not> (case u of None \<Rightarrow> False
          | Some us \<Rightarrow> \<not> ModelHasAvailableTokens (wall env) us (CatModel r) now (QThresholds pred)))"

definition with_reading ::
  "resolve_env \<Rightarrow> predicates \<Rightarrow> (provider \<Rightarrow> plan_usage option) \<Rightarrow> go_time \<Rightarrow> intel_cand \<Rightarrow> intel_cand" where
  "with_reading env pred byProv now c =
     (case byProv (CatProvider (irow c)) of
        None \<Rightarrow> c\<lparr>iband := BandUnpublished\<rparr>
      | Some us \<Rightarrow> c\<lparr>iband := Weekly (ClassifyPlan (wall env) us now (QThresholds pred)),
                    ipressure := weeklyPressure us now (QThresholds pred)\<rparr>)"

definition meets_floor :: "real option \<Rightarrow> string \<Rightarrow> intel_cand \<Rightarrow> bool" where
  "meets_floor flr wantQ c \<longleftrightarrow>
     \<not> (case flr of None \<Rightarrow> False | Some f \<Rightarrow> hasScore c \<and> ivalue c < f) \<and>
     \<not> (\<not> hasScore c \<and> CatQuality (irow c) \<noteq> wantQ)"

definition best_of :: "provider \<Rightarrow> intel_cand list \<Rightarrow> intel_cand" where
  "best_of prefer kept = foldl (\<lambda>best c. if intelBetter c best prefer then c else best) (hd kept) (tl kept)"

definition intel_reason :: "predicates \<Rightarrow> string \<Rightarrow> string \<Rightarrow> string \<Rightarrow> intel_cand \<Rightarrow> string" where
  "intel_reason pred purpose wantQ fallbackFrom best =
     formatIntelReason purpose wantQ (effort best) (cost best) (iband best) @
     (if fallbackFrom \<noteq> [] then '' purpose_fallback_from='' @ fallbackFrom else []) @
     (if QPreferProvider pred \<noteq> [] \<and> CatProvider (irow best) = QPreferProvider pred then '' prefer_provider'' else []) @
     (if QModel pred \<noteq> [] then '' pin_model'' else []) @
     (if QEffort pred \<noteq> [] then '' pin_effort'' else [])"

text \<open>The steps of \<open>resolveFromIntel\<close>: the purpose scored, the quality wanted, the row a model pins, the candidates left
  after the exclusions and the readings, the floor, those above it, and those of the preferred provider.\<close>

definition requested_purpose :: "predicates \<Rightarrow> string" where
  "requested_purpose pred = (if QPurpose pred = [] then ModelPurposeGeneral else QPurpose pred)"

definition falls_back :: "resolve_env \<Rightarrow> predicates \<Rightarrow> observation list \<Rightarrow> bool" where
  "falls_back env pred obs \<longleftrightarrow> requested_purpose pred \<noteq> ModelPurposeGeneral \<and>
     \<not> purposeHasCatalogSeries (alnum env) obs (requested_purpose pred)"

definition scored_purpose :: "resolve_env \<Rightarrow> predicates \<Rightarrow> observation list \<Rightarrow> string" where
  "scored_purpose env pred obs = (if falls_back env pred obs then ModelPurposeGeneral else requested_purpose pred)"

definition wanted_quality :: "predicates \<Rightarrow> string" where
  "wanted_quality pred = (if QQuality pred = [] then ModelQualityStandard else QQuality pred)"

definition pin_row :: "resolve_env \<Rightarrow> predicates \<Rightarrow> catalog_model option" where
  "pin_row env pred = (if QModel pred = [] then None else MatchCatalogGeneration (alnum env) (QModel pred))"

definition intel_eligibles ::
  "resolve_env \<Rightarrow> predicates \<Rightarrow> (provider \<Rightarrow> plan_usage option) \<Rightarrow> go_time \<Rightarrow> observation list \<Rightarrow> intel_cand list" where
  "intel_eligibles env pred byProv now obs =
     (let exclude = fst (owner_overrides (QOwnerOverride pred) (QExcludeProviders pred) (\<lambda>_. None)) in
      map (with_reading env pred byProv now)
        (filter (intel_eligible env pred byProv now exclude (pin_row env pred))
          (intel_pool (alnum env) pred (scored_purpose env pred obs) (wanted_quality pred) (pin_row env pred) obs)))"

definition intel_floor :: "resolve_env \<Rightarrow> predicates \<Rightarrow> observation list \<Rightarrow> real option" where
  "intel_floor env pred obs =
     (let scores = map OValue (filter (\<lambda>x. OPurpose x = scored_purpose env pred obs \<and>
            MatchCatalogGeneration (alnum env) (Generation x) \<noteq> None) obs);
          pinnedOnly = (QModel pred \<noteq> [] \<and> QEffort pred \<noteq> [] \<and> QPurpose pred = [] \<and> QQuality pred = [])
      in if pinnedOnly then None else qualityScoreFloor scores (wanted_quality pred))"

definition intel_kept ::
  "resolve_env \<Rightarrow> predicates \<Rightarrow> (provider \<Rightarrow> plan_usage option) \<Rightarrow> go_time \<Rightarrow> observation list \<Rightarrow> intel_cand list" where
  "intel_kept env pred byProv now obs =
     filter (meets_floor (intel_floor env pred obs) (wanted_quality pred)) (intel_eligibles env pred byProv now obs)"

definition preferred :: "provider \<Rightarrow> intel_cand list \<Rightarrow> intel_cand list" where
  "preferred prefer kept =
     (let pref = filter (\<lambda>c. CatProvider (irow c) = prefer) kept in if prefer \<noteq> [] \<and> pref \<noteq> [] then pref else kept)"

definition intel_pick :: "predicates \<Rightarrow> string \<Rightarrow> string \<Rightarrow> intel_cand \<Rightarrow> model_pick" where
  "intel_pick pred purpose fallbackFrom best =
     \<lparr>MProvider = CatProvider (irow best), MModel = CatModel (irow best), MQuality = wanted_quality pred, MPurpose = purpose,
      MEffort = effort best, MAccess = CatAccess (irow best), MBand = iband best, MCostUSD = cost best,
      MReason = intel_reason pred purpose (wanted_quality pred) fallbackFrom best, MAuthor = DecisionAuthor\<rparr>"

definition resolveFromIntel ::
  "resolve_env \<Rightarrow> predicates \<Rightarrow> (provider \<Rightarrow> plan_usage option) \<Rightarrow> go_time \<Rightarrow> resolve_error + model_pick" where
  "resolveFromIntel env pred byProv now =
     (case LatestModelIntel (read_obs env) (arrange env) (QIntel pred) of Inl e \<Rightarrow> Inl (IntelUnread e)
      | Inr obs \<Rightarrow>
          if QModel pred \<noteq> [] \<and> pin_row env pred = None then Inl (PinNotInCatalog (QModel pred))
          else if intel_eligibles env pred byProv now obs = [] then Inl NoModelMatches
          else if QModel pred \<noteq> [] \<and> QEffort pred \<noteq> [] \<and> QPurpose pred \<noteq> [] \<and> intel_kept env pred byProv now obs = [] then
            Inl (PinMissesFloor (case pin_row env pred of Some r \<Rightarrow> CatModel r | None \<Rightarrow> []) (QEffort pred)
              (scored_purpose env pred obs) (wanted_quality pred))
          else if intel_kept env pred byProv now obs = [] then
            Inl (NoneMeetsQuality (scored_purpose env pred obs) (wanted_quality pred))
          else Inr (intel_pick pred (scored_purpose env pred obs)
            (if falls_back env pred obs then requested_purpose pred else [])
            (best_of (QPreferProvider pred) (preferred (QPreferProvider pred) (intel_kept env pred byProv now obs)))))"

subsection \<open>Resolve\<close>

definition catalog_reason :: "predicates \<Rightarrow> catalog_cand \<Rightarrow> string" where
  "catalog_reason pred best =
     ''quality='' @ CatQuality (row best) @ '' access='' @ CatAccess (row best) @ '' band='' @ band_text (band best) @
     (if QPreferProvider pred \<noteq> [] \<and> CatProvider (row best) = QPreferProvider pred then '' prefer_provider'' else []) @
     (if tieBreak best then '' tie_break'' else []) @
     (if drawnOf best > 1 then '' drawn_of='' @ show_int (drawnOf best) else []) @
     (if pinned best then '' owner_override'' @
        (let r = trimSpace (pinReason best) in if r \<noteq> [] then '': '' @ r else []) else [])"

definition catalog_pick :: "predicates \<Rightarrow> catalog_cand \<Rightarrow> model_pick" where
  "catalog_pick pred best =
     \<lparr>MProvider = CatProvider (row best), MModel = CatModel (row best), MQuality = CatQuality (row best), MPurpose = [],
      MEffort = [], MAccess = CatAccess (row best), MBand = band best, MCostUSD = 0, MReason = catalog_reason pred best,
      MAuthor = DecisionAuthor\<rparr>"

text \<open>The catalog path, after the readings are in.\<close>

definition catalog_candidates ::
  "resolve_env \<Rightarrow> predicates \<Rightarrow> (provider \<Rightarrow> plan_usage option) \<Rightarrow> go_time \<Rightarrow> catalog_cand list \<times> string list" where
  "catalog_candidates env pred byProv now =
     (case owner_overrides (QOwnerOverride pred) (QExcludeProviders pred) (\<lambda>_. None) of (exclude, ownerPin) \<Rightarrow>
        judged (judge_row env pred (wanted_quality pred) byProv now exclude ownerPin) ModelCatalog)"

definition resolve_catalog ::
  "resolve_env \<Rightarrow> predicates \<Rightarrow> (provider \<Rightarrow> plan_usage option) \<Rightarrow> go_time \<Rightarrow> resolve_error + model_pick" where
  "resolve_catalog env pred byProv now =
     (case catalog_candidates env pred byProv now of (candidates, rejected) \<Rightarrow>
        (case pickCatalog (int_n env) candidates (QPreferProvider pred) (QTieBreak pred) (QRand pred) of
           Inl e \<Rightarrow> Inl (if rejected \<noteq> [] then Tried e rejected else e)
         | Inr best \<Rightarrow> Inr (catalog_pick pred best)))"

definition by_intel :: "predicates \<Rightarrow> bool" where
  "by_intel pred \<longleftrightarrow> QPurpose pred \<noteq> [] \<or> QModel pred \<noteq> [] \<or> QEffort pred \<noteq> [] \<or> QIntel pred \<noteq> None"

definition Resolve :: "resolve_env \<Rightarrow> predicates \<Rightarrow> resolve_error + model_pick" where
  "Resolve env pred0 =
     (let pred = normalizePredicates pred0;
          now = (if IsZero (QNow pred) then wall env else QNow pred)
      in case resolveUsage env pred of Inl e \<Rightarrow> Inl e
         | Inr usage \<Rightarrow>
             if by_intel pred then resolveFromIntel env pred (indexPlanUsage usage) now
             else resolve_catalog env pred (indexPlanUsage usage) now)"

end
