(* ===== verification/ResolvingProps.thy ===== *)
theory ResolvingProps
  imports Resolving
begin

text \<open>
  What is proved of the choice of a provider (src/resolve.go): the ranking is a weak order on which
  the catalog's own order has no influence, the pick is one of the admissible rows and the best of them, and what an
  owner's override does on each of the two paths.
\<close>

subsection \<open>The ranking is an order\<close>

text \<open>The keys of the ranking, as one value in the lexicographic order.\<close>

definition press_key :: "pressure \<Rightarrow> bool \<times> real" where
  "press_key p = (case p of Infinite \<Rightarrow> (True, 0) | Ln x \<Rightarrow> (False, x))"

definition signals :: "catalog_cand \<Rightarrow> int \<times> (bool \<times> real) \<times> real \<times> real" where
  "signals c = (rank_key (band c), press_key (cpressure c), - weeklyLeft c, - sessionLeft c)"

lemma press_less_key: "press_less p q \<longleftrightarrow> press_key p < press_key q"
  by (cases p; cases q) (auto simp: press_less_def press_key_def)

lemma lex_keys:
  fixes r r' :: int and p p' :: "'p::linorder" and w w' s s' :: real
  defines "cmp \<equiv> (if r \<noteq> r' then r - r' else if p < p' then - 1 else if p' < p then 1 else if w > w' then - 1
    else if w < w' then 1 else if s > s' then - 1 else if s < s' then 1 else 0)"
  shows "cmp < 0 \<longleftrightarrow> (r, p, - w, - s) < (r', p', - w', - s')" "cmp = 0 \<longleftrightarrow> (r, p, - w, - s) = (r', p', - w', - s')"
  unfolding cmp_def by auto

lemma rank_signals: "catalogRank a b < 0 \<longleftrightarrow> signals a < signals b" "catalogRank a b = 0 \<longleftrightarrow> signals a = signals b"
  unfolding catalogRank_def signals_def Let_def press_less_key by (rule lex_keys)+

lemma rank_le_signals: "catalogRank a b \<le> 0 \<longleftrightarrow> signals a \<le> signals b"
  using rank_signals [of a b] by (simp add: order_le_less)

lemma ranks_before_iff: "ranks_before a b \<longleftrightarrow> signals a < signals b \<or> signals a = signals b \<and> catalogID a < catalogID b"
  by (simp add: ranks_before_def rank_signals)

interpretation ranked: weak_order ranks_before
proof
  show "\<not> ranks_before b a" if "ranks_before a b" for a b
    using that by (auto simp: ranks_before_iff)
  show "ranks_before a b \<or> ranks_before b c" if "ranks_before a c" for a b c
    using that neq_iff [of "signals a" "signals b"] neq_iff [of "signals b" "signals c"] less_linear [of "catalogID a" "catalogID b"]
    unfolding ranks_before_iff by (metis less_trans)
qed

subsection \<open>The pick is the best of its pool\<close>

text \<open>The part of a candidate that does not say how it was picked.\<close>

definition plain :: "catalog_cand \<Rightarrow> catalog_cand" where
  "plain c = c\<lparr>tieBreak := False, drawnOf := 0\<rparr>"

lemma plain_simps [simp]:
  "row (plain c) = row c" "band (plain c) = band c" "cpressure (plain c) = cpressure c" "pinned (plain c) = pinned c"
  "plain (c\<lparr>tieBreak := t\<rparr>) = plain c" "plain (c\<lparr>drawnOf := n\<rparr>) = plain c"
  by (simp_all add: plain_def)

lemma tie_choice_Some:
  "tie_choice ps leader pool = Some c \<Longrightarrow> c \<in> set pool \<and> CatProvider (row c) \<in> set ps \<and> within_reach leader c"
  by (induction ps) (auto simp: find_Some_iff split: option.splits)

lemma tied_same_signals:
  assumes "i < 1 + tied_with leader rest"
  shows "(leader # rest) ! i \<in> set (leader # rest) \<and> signals ((leader # rest) ! i) = signals leader"
proof (cases i)
  case (Suc j)
  let ?t = "takeWhile (\<lambda>c. catalogRank c leader = 0) rest"
  have j: "j < length ?t" using assms Suc by (simp add: tied_with_def)
  have "j < length rest" using j length_takeWhile_le [of "\<lambda>c. catalogRank c leader = 0" rest] by linarith
  moreover have "catalogRank (rest ! j) leader = 0"
    using set_takeWhileD [OF nth_mem [OF j]] by (simp add: takeWhile_nth [OF j])
  ultimately show ?thesis using Suc by (simp add: rank_signals)
qed simp

lemma leader_is_least:
  assumes "SliceStable ranks_before pool = leader # rest"
  shows "leader \<in> set pool" "set (leader # rest) = set pool" "d \<in> set pool \<Longrightarrow> signals leader \<le> signals d"
proof -
  show s: "set (leader # rest) = set pool" using set_SliceStable [of ranks_before pool] assms by simp
  then show "leader \<in> set pool" by auto
  show "signals leader \<le> signals d" if "d \<in> set pool"
    using ranked.first_is_least [OF assms that] by (auto simp: ranks_before_iff)
qed

lemma pick_from_pool:
  assumes "pickCatalog intN cands prefer tb draw = Inr c"
  obtains leader d where "leader \<in> set (candidate_pool cands prefer)" "d \<in> set (candidate_pool cands prefer)"
    "plain c = plain d" "\<And>x. x \<in> set (candidate_pool cands prefer) \<Longrightarrow> signals leader \<le> signals x"
    "signals d = signals leader \<or> CatProvider (row d) \<in> set tb \<and> within_reach leader d"
proof -
  obtain leader rest where s: "SliceStable ranks_before (candidate_pool cands prefer) = leader # rest"
    using assms by (auto simp: pickCatalog_def split: list.splits)
  note l = leader_is_least [OF s]
  let ?i = "(case draw of None \<Rightarrow> intN | Some d \<Rightarrow> d) (int (1 + tied_with leader rest))"
  consider d where "tie_choice tb leader (leader # rest) = Some d" "plain c = plain d"
    | "c = leader"
    | "0 \<le> ?i" "?i < int (1 + tied_with leader rest)" "plain c = plain ((leader # rest) ! nat ?i)"
    using assms unfolding pickCatalog_def s Let_def by (auto split: option.splits if_splits)
  then show ?thesis
  proof cases
    case (1 d)
    show ?thesis by (rule that [of leader d]) (use tie_choice_Some [OF 1(1)] 1(2) l in auto)
  next
    case 2
    show ?thesis by (rule that [of leader leader]) (use 2 l in auto)
  next
    case 3
    then have "nat ?i < 1 + tied_with leader rest" by linarith
    then show ?thesis
      by (intro that [of leader "(leader # rest) ! nat ?i"]) (use tied_same_signals 3(3) l in auto)
  qed
qed

subsection \<open>Candidates are admissible\<close>

definition keeps_off :: "predicates \<Rightarrow> provider \<Rightarrow> bool" where
  "keeps_off pred p \<longleftrightarrow> (\<exists>(q, ov) \<in> set (QOwnerOverride pred). PlanProvider q = p \<and> \<not> IsDestBand (OBand ov))"

definition pins :: "predicates \<Rightarrow> provider \<Rightarrow> owner_override \<Rightarrow> bool" where
  "pins pred p ov \<longleftrightarrow> (\<exists>q. (q, ov) \<in> set (QOwnerOverride pred) \<and> PlanProvider q = p \<and> IsDestBand (OBand ov))"

definition serves :: "predicates \<Rightarrow> catalog_model \<Rightarrow> bool" where
  "serves pred r \<longleftrightarrow> (QMode pred = CapabilityTask \<longrightarrow> CatTask r) \<and> (QMode pred = CapabilitySession \<longrightarrow> CatSession r) \<and>
     (QPreferPlan pred \<longrightarrow> CatAccess r = ModelAccessPlan)"

definition asked_at :: "resolve_env \<Rightarrow> predicates \<Rightarrow> go_time" where
  "asked_at env pred = (if IsZero (QNow pred) then wall env else QNow pred)"

definition pin_entries :: "(provider \<times> owner_override) list \<Rightarrow> (provider \<times> owner_override) list" where
  "pin_entries ovs = map (\<lambda>(q, ov). (PlanProvider q, ov))
     (filter (\<lambda>(q, ov). PlanProvider q \<noteq> [] \<and> IsDestBand (OBand ov)) ovs)"

lemma overrides_pins: "snd (owner_overrides ovs exclude pin) = pin ++ map_of (rev (pin_entries ovs))"
proof (induction ovs arbitrary: exclude pin)
  case Nil
  show ?case by (simp add: pin_entries_def)
next
  case (Cons x ovs)
  obtain q ov where x: "x = (q, ov)" by (cases x)
  have split: "pin_entries (x # ovs) = pin_entries [x] @ pin_entries ovs" by (simp add: pin_entries_def)
  note split = split [unfolded x]
  show ?case
  proof (cases "PlanProvider q \<noteq> [] \<and> IsDestBand (OBand ov)")
    case True
    then have "pin_entries [(q, ov)] = [(PlanProvider q, ov)]" by (simp add: x pin_entries_def)
    then show ?thesis using True Cons.IH [of exclude "pin(PlanProvider q := Some ov)"]
      by (simp add: x split Let_def del: fun_upd_apply)
  next
    case False
    then have "pin_entries [(q, ov)] = []" by (auto simp: x pin_entries_def)
    then show ?thesis using False Cons.IH by (auto simp: x split Let_def)
  qed
qed

lemma overrides_excluded:
  "fst (owner_overrides ovs exclude pin) =
     rev (map (\<lambda>(q, ov). PlanProvider q) (filter (\<lambda>(q, ov). PlanProvider q \<noteq> [] \<and> \<not> IsDestBand (OBand ov)) ovs)) @ exclude"
proof (induction ovs arbitrary: exclude pin)
  case (Cons x ovs)
  then show ?case by (cases x) (simp add: Let_def)
qed simp

lemma overrides_exclude:
  "set (fst (owner_overrides ovs exclude pin)) =
     set exclude \<union> {PlanProvider q | q ov. (q, ov) \<in> set ovs \<and> PlanProvider q \<noteq> [] \<and> \<not> IsDestBand (OBand ov)}"
  by (auto simp: overrides_excluded)

lemma pin_entries_iff:
  "(p, ov) \<in> set (pin_entries (QOwnerOverride pred)) \<longleftrightarrow> p \<noteq> [] \<and> pins pred p ov"
  by (auto simp: pin_entries_def pins_def image_iff)

lemma pinned_iff:
  assumes "p \<noteq> []"
  shows "map_of (rev (pin_entries (QOwnerOverride pred))) p = None \<longleftrightarrow> (\<forall>ov. \<not> pins pred p ov)"
    "map_of (rev (pin_entries (QOwnerOverride pred))) p = Some ov \<Longrightarrow> pins pred p ov"
proof -
  have "p \<in> fst ` set (pin_entries (QOwnerOverride pred)) \<longleftrightarrow> (\<exists>ov. (p, ov) \<in> set (pin_entries (QOwnerOverride pred)))"
    by force
  then show "map_of (rev (pin_entries (QOwnerOverride pred))) p = None \<longleftrightarrow> (\<forall>ov. \<not> pins pred p ov)"
    using assms by (simp add: map_of_eq_None_iff pin_entries_iff)
  show "pins pred p ov" if "map_of (rev (pin_entries (QOwnerOverride pred))) p = Some ov"
    using map_of_SomeD [OF that] by (simp add: pin_entries_iff)
qed

lemma catalog_provider_named: "r \<in> set ModelCatalog \<Longrightarrow> CatProvider r \<noteq> []"
  by (auto simp: ModelCatalog_def plan_row_def provider_defs)

lemma judged_candidate: "c \<in> set (fst (judged f rs)) \<longleftrightarrow> (\<exists>r \<in> set rs. f r = Inr c)"
  by (induction rs) (auto split: prod.splits sum.splits)

lemma judge_row_Inr:
  assumes "judge_row env pred wantQ byProv now exclude pin r = Inr c"
  shows "row c = r" "CatProvider r \<notin> set exclude" "serves pred r" "CatQuality r = wantQ"
    "pinned c \<longleftrightarrow> pin (CatProvider r) \<noteq> None" "pin (CatProvider r) = Some ov \<Longrightarrow> band c = OBand ov" "plain c = c"
    "pin (CatProvider r) = None \<Longrightarrow> \<not> skipForUsage env pred (byProv (CatProvider r)) now"
    "pin (CatProvider r) = None \<Longrightarrow> byProv (CatProvider r) = Some u \<Longrightarrow>
       ModelHasAvailableTokens (wall env) u (CatModel r) now (QThresholds pred)"
    "pin (CatProvider r) = None \<Longrightarrow> byProv (CatProvider r) = Some u \<Longrightarrow>
       band c = Weekly (ClassifyPlan (wall env) u now (QThresholds pred))"
    "pin (CatProvider r) = None \<Longrightarrow> byProv (CatProvider r) = None \<Longrightarrow> band c = BandUnpublished"
  using assms by (auto simp: judge_row_def serves_def plain_def Let_def split: if_splits)

lemma candidate_pool_sub: "set (candidate_pool cands prefer) \<subseteq> set cands"
  by (auto simp: candidate_pool_def Let_def)

lemma candidate_pool_band:
  "c \<in> set (candidate_pool cands prefer) \<Longrightarrow> pinned c \<or> IsDestBand (band c) \<or> \<not> publishedPlanBand (band c)"
  by (auto simp: candidate_pool_def Let_def split: if_splits)

lemma candidate_pool_pinned:
  "c \<in> set (candidate_pool cands prefer) \<Longrightarrow> d \<in> set cands \<Longrightarrow> pinned d \<Longrightarrow> pinned c"
  by (auto simp: candidate_pool_def Let_def filter_empty_conv split: if_splits)

lemma candidate_pool_Nil:
  "candidate_pool cands prefer = [] \<longleftrightarrow> (\<forall>c \<in> set cands. \<not> pinned c \<and> \<not> IsDestBand (band c) \<and> publishedPlanBand (band c))"
  by (auto simp: candidate_pool_def Let_def filter_empty_conv)

subsection \<open>Resolve on the two paths\<close>

definition on_catalog :: "predicates \<Rightarrow> bool" where
  "on_catalog pred \<longleftrightarrow> \<not> by_intel (normalizePredicates pred)"

lemma normalize_keeps [simp]:
  "QUsage (normalizePredicates p) = QUsage p" "QCache (normalizePredicates p) = QCache p"
  "QNow (normalizePredicates p) = QNow p" "QExcludeProviders (normalizePredicates p) = QExcludeProviders p"
  "QOwnerOverride (normalizePredicates p) = QOwnerOverride p" "QThresholds (normalizePredicates p) = QThresholds p"
  "QMode (normalizePredicates p) = QMode p" "QPreferPlan (normalizePredicates p) = QPreferPlan p"
  by (simp_all add: normalizePredicates_def)

lemma resolveUsage_normalize [simp]: "resolveUsage env (normalizePredicates p) = resolveUsage env p"
  unfolding resolveUsage_def normalize_keeps ..

lemma on_catalog_normal: "on_catalog p \<Longrightarrow> normalizePredicates p = p"
  by (auto simp: on_catalog_def by_intel_def normalizePredicates_def)

lemma Resolve_catalog:
  "on_catalog pred \<Longrightarrow> resolveUsage env pred = Inr us \<Longrightarrow>
     Resolve env pred = resolve_catalog env pred (indexPlanUsage us) (asked_at env pred)"
  using on_catalog_normal [of pred] by (simp add: Resolve_def on_catalog_def asked_at_def)

lemma Resolve_intel:
  "\<not> on_catalog pred \<Longrightarrow> resolveUsage env pred = Inr us \<Longrightarrow>
     Resolve env pred = resolveFromIntel env (normalizePredicates pred) (indexPlanUsage us) (asked_at env pred)"
  by (simp add: Resolve_def on_catalog_def asked_at_def)

definition catalog_judge :: "resolve_env \<Rightarrow> predicates \<Rightarrow> plan_usage list \<Rightarrow> catalog_model \<Rightarrow> string + catalog_cand" where
  "catalog_judge env pred us =
     judge_row env pred (wanted_quality pred) (indexPlanUsage us) (asked_at env pred)
       (fst (owner_overrides (QOwnerOverride pred) (QExcludeProviders pred) (\<lambda>_. None)))
       (snd (owner_overrides (QOwnerOverride pred) (QExcludeProviders pred) (\<lambda>_. None)))"

lemma catalog_candidates_judged:
  "catalog_candidates env pred (indexPlanUsage us) (asked_at env pred) = judged (catalog_judge env pred us) ModelCatalog"
  by (simp add: catalog_candidates_def catalog_judge_def split: prod.split)

lemma catalog_judge_Inr:
  assumes "catalog_judge env pred us r = Inr c" "r \<in> set ModelCatalog"
  shows "row c = r" "CatProvider r \<notin> set (QExcludeProviders pred)" "\<not> keeps_off pred (CatProvider r)"
    "serves pred r" "CatQuality r = wanted_quality pred" "plain c = c"
    "pinned c \<longleftrightarrow> (\<exists>ov. pins pred (CatProvider r) ov)" "pinned c \<Longrightarrow> \<exists>ov. pins pred (CatProvider r) ov \<and> band c = OBand ov"
    "\<not> pinned c \<Longrightarrow> \<not> skipForUsage env pred (indexPlanUsage us (CatProvider r)) (asked_at env pred)"
    "\<not> pinned c \<Longrightarrow> indexPlanUsage us (CatProvider r) = Some u \<Longrightarrow>
       ModelHasAvailableTokens (wall env) u (CatModel r) (asked_at env pred) (QThresholds pred) \<and>
       band c = Weekly (ClassifyPlan (wall env) u (asked_at env pred) (QThresholds pred))"
    "\<not> pinned c \<Longrightarrow> indexPlanUsage us (CatProvider r) = None \<Longrightarrow> band c = BandUnpublished"
proof -
  note j = judge_row_Inr [OF assms(1) [unfolded catalog_judge_def]]
  note named = catalog_provider_named [OF assms(2)]
  have pin: "snd (owner_overrides (QOwnerOverride pred) (QExcludeProviders pred) (\<lambda>_. None)) (CatProvider r) =
      map_of (rev (pin_entries (QOwnerOverride pred))) (CatProvider r)" by (simp add: overrides_pins)
  show "row c = r" "serves pred r" "CatQuality r = wanted_quality pred" "plain c = c" by (fact j)+
  show "CatProvider r \<notin> set (QExcludeProviders pred)" "\<not> keeps_off pred (CatProvider r)"
    using j(2) named by (auto simp: overrides_exclude keeps_off_def; metis)+
  show p: "pinned c \<longleftrightarrow> (\<exists>ov. pins pred (CatProvider r) ov)"
    using j(5) pinned_iff(1) [OF named] by (simp add: pin)
  show "\<exists>ov. pins pred (CatProvider r) ov \<and> band c = OBand ov" if "pinned c"
    using that j(5,6) pinned_iff(2) [OF named, of pred] by (auto simp: pin)
  show "\<not> skipForUsage env pred (indexPlanUsage us (CatProvider r)) (asked_at env pred)" if "\<not> pinned c"
    using that j(5,8) by simp
  show "ModelHasAvailableTokens (wall env) u (CatModel r) (asked_at env pred) (QThresholds pred) \<and>
      band c = Weekly (ClassifyPlan (wall env) u (asked_at env pred) (QThresholds pred))"
    if "\<not> pinned c" "indexPlanUsage us (CatProvider r) = Some u"
    using that j(5,9,10) by simp
  show "band c = BandUnpublished" if "\<not> pinned c" "indexPlanUsage us (CatProvider r) = None"
    using that j(5,11) by simp
qed

lemma Resolve_catalog_pick:
  assumes "Resolve env pred = Inr pick" "on_catalog pred" "resolveUsage env pred = Inr us"
  obtains c r where "r \<in> set ModelCatalog" "catalog_judge env pred us r = Inr c"
    "c \<in> set (candidate_pool (fst (judged (catalog_judge env pred us) ModelCatalog)) (QPreferProvider pred))"
    "MProvider pick = CatProvider r" "MModel pick = CatModel r" "MAccess pick = CatAccess r" "MBand pick = band c"
    "MQuality pick = CatQuality r" "MPurpose pick = []" "MEffort pick = []"
proof -
  let ?cands = "fst (judged (catalog_judge env pred us) ModelCatalog)"
  obtain best where best: "pickCatalog (int_n env) ?cands (QPreferProvider pred) (QTieBreak pred) (QRand pred) = Inr best"
    "pick = catalog_pick pred best"
    using assms(1) unfolding Resolve_catalog [OF assms(2,3)] resolve_catalog_def catalog_candidates_judged
    by (auto split: prod.splits sum.splits)
  obtain leader c where c: "c \<in> set (candidate_pool ?cands (QPreferProvider pred))" "plain best = plain c"
    by (rule pick_from_pool [OF best(1)]) blast
  then obtain r where r: "r \<in> set ModelCatalog" "catalog_judge env pred us r = Inr c"
    using candidate_pool_sub judged_candidate by blast
  have "row best = row c" "band best = band c" using c(2) by (metis plain_simps(1), metis plain_simps(2))
  then show ?thesis using that r c(1) best(2) catalog_judge_Inr(1) [OF r(2,1)] by (simp add: catalog_pick_def)
qed

subsection \<open>What a pick is\<close>

lemma foldl_choice: "foldl (\<lambda>b c. if P c b then c else b) x xs \<in> insert x (set xs)"
  by (induction xs arbitrary: x) auto

lemma best_of_in: "kept \<noteq> [] \<Longrightarrow> best_of prefer kept \<in> set kept"
  unfolding best_of_def using foldl_choice [of "\<lambda>c b. intelBetter c b prefer" "hd kept" "tl kept"] by (cases kept) auto

lemma scored_pool_rows: "c \<in> set (scored_pool al purpose seen obs) \<Longrightarrow> irow c \<in> set ModelCatalog"
  by (induction al purpose seen obs rule: scored_pool.induct)
    (auto simp: Let_def matched_row_in_catalog split: if_splits option.splits)

lemma shelf_rows_rows: "c \<in> set (shelf_rows wantQ seen rs) \<Longrightarrow> irow c \<in> set rs"
  by (induction wantQ seen rs rule: shelf_rows.induct) (auto simp: unscored_def split: if_splits)

lemma intel_pool_rows:
  assumes "c \<in> set (intel_pool al pred purpose wantQ pinRow obs)" "\<And>r. pinRow = Some r \<Longrightarrow> r \<in> set ModelCatalog"
  shows "irow c \<in> set ModelCatalog"
  using assms by (auto simp: intel_pool_def appendCatalogShelf_def Let_def unscored_def
      split: option.splits if_splits dest: scored_pool_rows shelf_rows_rows)

lemma with_reading_row [simp]: "irow (with_reading env pred byProv now c) = irow c"
  by (simp add: with_reading_def split: option.split)

lemma preferred_sub: "set (preferred prefer kept) \<subseteq> set kept" "kept \<noteq> [] \<Longrightarrow> preferred prefer kept \<noteq> []"
  by (auto simp: preferred_def Let_def)

lemma intel_picked:
  assumes "resolveFromIntel env pred byProv now = Inr pick"
  obtains c where "irow c \<in> set ModelCatalog"
    "intel_eligible env pred byProv now (fst (owner_overrides (QOwnerOverride pred) (QExcludeProviders pred) (\<lambda>_. None)))
      (pin_row env pred) c"
    "MProvider pick = CatProvider (irow c)" "MModel pick = CatModel (irow c)" "MAccess pick = CatAccess (irow c)"
proof -
  obtain obs where kept: "intel_kept env pred byProv now obs \<noteq> []"
    and pick: "pick = intel_pick pred (scored_purpose env pred obs) (if falls_back env pred obs then requested_purpose pred else [])
      (best_of (QPreferProvider pred) (preferred (QPreferProvider pred) (intel_kept env pred byProv now obs)))"
    using assms by (auto simp: resolveFromIntel_def split: sum.splits if_split_asm)
  let ?best = "best_of (QPreferProvider pred) (preferred (QPreferProvider pred) (intel_kept env pred byProv now obs))"
  have "?best \<in> set (intel_eligibles env pred byProv now obs)"
    using best_of_in [OF preferred_sub(2) [OF kept]] preferred_sub(1) by (fastforce simp: intel_kept_def)
  then obtain c where c: "irow ?best = irow c"
      "c \<in> set (intel_pool (alnum env) pred (scored_purpose env pred obs) (wanted_quality pred) (pin_row env pred) obs)"
      "intel_eligible env pred byProv now (fst (owner_overrides (QOwnerOverride pred) (QExcludeProviders pred) (\<lambda>_. None)))
        (pin_row env pred) c"
    unfolding intel_eligibles_def Let_def by auto
  have "irow c \<in> set ModelCatalog"
    by (rule intel_pool_rows [OF c(2)]) (auto simp: pin_row_def split: if_splits dest: matched_row_in_catalog)
  then show ?thesis using that c pick by (simp add: intel_pick_def)
qed

text \<open>The draw that breaks an exact tie stays in its range, as \<open>rand.IntN\<close> does.\<close>

definition fair_draw :: "resolve_env \<Rightarrow> predicates \<Rightarrow> bool" where
  "fair_draw env pred \<longleftrightarrow> (\<forall>n. 0 < n \<longrightarrow> (case QRand pred of None \<Rightarrow> int_n env | Some d \<Rightarrow> d) n \<in> {0..<n})"

lemma Resolve_answers:
  assumes "on_catalog pred" "resolveUsage env pred = Inr us" "r \<in> set ModelCatalog" "catalog_judge env pred us r = Inr c"
    "pinned c \<or> IsDestBand (band c) \<or> \<not> publishedPlanBand (band c)" "fair_draw env pred"
  shows "\<exists>pick. Resolve env pred = Inr pick"
proof -
  let ?cands = "fst (judged (catalog_judge env pred us) ModelCatalog)"
  have "c \<in> set ?cands" using assms(3,4) judged_candidate by blast
  then have "candidate_pool ?cands (QPreferProvider pred) \<noteq> []" using assms(5) candidate_pool_Nil by blast
  then obtain leader rest where s: "SliceStable ranks_before (candidate_pool ?cands (QPreferProvider pred)) = leader # rest"
    by (metis SliceStable_Nil_iff neq_Nil_conv)
  have "(case QRand pred of None \<Rightarrow> int_n env | Some d \<Rightarrow> d) (int (1 + tied_with leader rest)) \<in> {0..<int (1 + tied_with leader rest)}"
    using assms(6) unfolding fair_draw_def by fastforce
  then have "\<exists>best. pickCatalog (int_n env) ?cands (QPreferProvider pred) (QTieBreak pred) (QRand pred) = Inr best"
    unfolding pickCatalog_def s Let_def by (auto split: option.split)
  then show ?thesis unfolding Resolve_catalog [OF assms(1,2)] resolve_catalog_def catalog_candidates_judged
    by (auto split: prod.split)
qed

text \<open>C20. What Resolve picks, on either path, is a row of the catalog that serves the mode asked for, from a provider that
  is neither excluded nor kept off by its owner. Its plan has tokens left for that model, when the plan has a reading and the owner
  has not pinned the provider; and on the catalog path it is never in a band that may not receive work.\<close>

theorem pick_is_admissible:
  assumes "Resolve env pred = Inr pick" "resolveUsage env pred = Inr us"
  shows "(\<exists>r \<in> set ModelCatalog. CatProvider r = MProvider pick \<and> CatModel r = MModel pick \<and> CatAccess r = MAccess pick \<and>
      serves pred r) \<and>
    MProvider pick \<notin> set (QExcludeProviders pred) \<and> \<not> keeps_off pred (MProvider pick) \<and>
    (\<forall>u. indexPlanUsage us (MProvider pick) = Some u \<and> (\<forall>ov. \<not> pins pred (MProvider pick) ov) \<longrightarrow>
      ModelHasAvailableTokens (wall env) u (MModel pick) (asked_at env pred) (QThresholds pred)) \<and>
    (on_catalog pred \<longrightarrow> MBand pick \<notin> {BandAhead, BandHot, BandExhausted})"
proof (cases "on_catalog pred")
  case True
  obtain c r where c: "r \<in> set ModelCatalog" "catalog_judge env pred us r = Inr c"
    "c \<in> set (candidate_pool (fst (judged (catalog_judge env pred us) ModelCatalog)) (QPreferProvider pred))"
    "MProvider pick = CatProvider r" "MModel pick = CatModel r" "MAccess pick = CatAccess r" "MBand pick = band c"
    by (rule Resolve_catalog_pick [OF assms(1) True assms(2)])
  note j = catalog_judge_Inr [OF c(2,1)]
  have "band c \<notin> {BandAhead, BandHot, BandExhausted}"
    using candidate_pool_band [OF c(3)] j(8) by (auto simp: publishedPlanBand_def dest_band_iff pins_def)
  moreover have "ModelHasAvailableTokens (wall env) u (CatModel r) (asked_at env pred) (QThresholds pred)"
    if "indexPlanUsage us (CatProvider r) = Some u" "\<forall>ov. \<not> pins pred (CatProvider r) ov" for u
    using j(7,10) that by blast
  ultimately show ?thesis using c(1,4-7) j(2-4) by auto
next
  case False
  obtain c where c: "irow c \<in> set ModelCatalog"
    "intel_eligible env (normalizePredicates pred) (indexPlanUsage us) (asked_at env pred)
      (fst (owner_overrides (QOwnerOverride pred) (QExcludeProviders pred) (\<lambda>_. None))) (pin_row env (normalizePredicates pred)) c"
    "MProvider pick = CatProvider (irow c)" "MModel pick = CatModel (irow c)" "MAccess pick = CatAccess (irow c)"
    using assms(1) intel_picked unfolding Resolve_intel [OF False assms(2)] by (metis normalize_keeps(4,5))
  note e = c(2) [unfolded intel_eligible_def Let_def, simplified]
  have "CatProvider (irow c) \<notin> set (QExcludeProviders pred)" "\<not> keeps_off pred (CatProvider (irow c))"
    using e catalog_provider_named [OF c(1)] by (auto simp: overrides_exclude keeps_off_def; metis)+
  moreover have "serves pred (irow c)" using e by (simp add: serves_def)
  moreover have "ModelHasAvailableTokens (wall env) u (CatModel (irow c)) (asked_at env pred) (QThresholds pred)"
    if "indexPlanUsage us (CatProvider (irow c)) = Some u" for u using e that by simp
  ultimately show ?thesis using c(1,3-5) False by auto
qed

subsection \<open>An example\<close>

definition demo_env :: resolve_env where
  "demo_env = \<lparr>wall = zero_time, int_n = (\<lambda>n. 0), load_usage = (\<lambda>a. Inr []), read_obs = (\<lambda>d. Inr []), arrange = (\<lambda>x. x),
     alnum = (\<lambda>s. False), quote = (\<lambda>s. s)\<rparr>"

definition demo_predicates :: predicates where
  "demo_predicates = \<lparr>QMode = CapabilitySession, QPurpose = [], QSkill = [], QQuality = [], QModel = [], QEffort = [],
     QPreferPlan = False, QBackground = False, QPreferProvider = [], QTieBreak = [], QRand = None,
     QExcludeProviders = [ProviderCodex, ProviderCursor], QRequireUsage = False, QUsage = Some [], QCache = None,
     QIntel = None, QNow = zero_time, QThresholds = None, QOwnerOverride = []\<rparr>"

definition demo_plan :: "provider \<Rightarrow> real \<Rightarrow> plan_usage" where
  "demo_plan p left = (unavailablePlan p zero_time [])\<lparr>PUStatus := PlanUsageAvailable,
     Windows := [demo_window\<lparr>RemainingPercent := Some left, ResetsAt := None\<rparr>]\<rparr>"

definition demo_usage :: "plan_usage list" where
  "demo_usage = [demo_plan ProviderClaude 60, demo_plan ProviderGrok 0]"

lemma demo_weekly_window: "primaryAllowanceWindow (demo_plan p left) = Some (demo_window\<lparr>RemainingPercent := Some left, ResetsAt := None\<rparr>)"
  by (simp add: primaryAllowanceWindow_def planLevelWindow_def demo_plan_def unavailablePlan_def demo_window_def plan_names)

lemma demo_plan_band: "Weekly (ClassifyPlan w (demo_plan p left) now th) = (if left \<le> 0 then BandExhausted else BandOK)"
  by (simp add: ClassifyPlan_def demo_weekly_window Let_def)
    (simp add: demo_plan_def unavailablePlan_def demo_window_def ClassifyWindow_def usedPercent_def remainingTimePercent_def)

lemma demo_plan_tokens: "ModelHasAvailableTokens w (demo_plan p left) m now th \<longleftrightarrow> 0 < left"
proof -
  have "windowNamed (demo_plan p left) PlanWindowSession = None"
    by (simp add: windowNamed_def demo_plan_def unavailablePlan_def demo_window_def plan_names)
  then have "Session (ClassifyPlan w (demo_plan p left) now th) = SessionUnpublished" by (simp add: ClassifyPlan_def Let_def)
  moreover have "ModelWindowFor (demo_plan p left) m = None"
    by (simp add: ModelWindowFor_def demo_plan_def unavailablePlan_def demo_window_def plan_names Let_def)
  ultimately show ?thesis
    using demo_plan_band by (auto simp: ModelHasAvailableTokens_def HasAvailableTokens_def Let_def)
qed

lemma demo_reading: "indexPlanUsage demo_usage p =
    (if p = ProviderGrok then Some (demo_plan ProviderGrok 0) else if p = ProviderClaude then Some (demo_plan ProviderClaude 60) else None)"
  by (simp add: indexPlanUsage_def demo_usage_def demo_plan_def unavailablePlan_def)

abbreviation demo_ask :: predicates where
  "demo_ask \<equiv> demo_predicates\<lparr>QUsage := Some demo_usage\<rparr>"

abbreviation sonnet :: catalog_model where
  "sonnet \<equiv> plan_row ProviderClaude ''claude-sonnet-5'' ''standard''"

lemma demo_candidate: "sonnet \<in> set ModelCatalog"
    "\<exists>c. catalog_judge demo_env demo_ask demo_usage sonnet = Inr c \<and> IsDestBand (band c)"
proof -
  show "sonnet \<in> set ModelCatalog" by (simp add: ModelCatalog_def)
  have "skipForUsage demo_env demo_ask u zero_time = False" for u by (simp add: skipForUsage_def demo_predicates_def)
  moreover have "ProviderClaude \<notin> {ProviderCodex, ProviderCursor, ProviderGrok}" by (simp add: provider_defs)
  ultimately show "\<exists>c. catalog_judge demo_env demo_ask demo_usage sonnet = Inr c \<and> IsDestBand (band c)"
    by (simp add: catalog_judge_def judge_row_def demo_reading demo_plan_tokens demo_plan_band plan_row_def asked_at_def
        wanted_quality_def Let_def dest_band_iff)
      (simp add: demo_predicates_def demo_env_def model_names IsZero_def demo_plan_tokens demo_plan_band)
qed

lemma demo_answers: "\<exists>pick. Resolve demo_env demo_ask = Inr pick" "resolveUsage demo_env demo_ask = Inr demo_usage"
proof -
  show us: "resolveUsage demo_env demo_ask = Inr demo_usage" by (simp add: resolveUsage_def)
  have "on_catalog demo_ask" "fair_draw demo_env demo_ask"
    by (simp_all add: on_catalog_def by_intel_def normalizePredicates_def fair_draw_def demo_predicates_def demo_env_def)
  then show "\<exists>pick. Resolve demo_env demo_ask = Inr pick"
    using Resolve_answers [OF _ us demo_candidate(1)] demo_candidate(2) by blast
qed

theorem pick_is_admissible_witness: "\<exists>pick. Resolve demo_env demo_ask = Inr pick \<and> MProvider pick = ProviderClaude"
proof -
  obtain pick where p: "Resolve demo_env demo_ask = Inr pick" using demo_answers(1) by blast
  note a = pick_is_admissible [OF p demo_answers(2)]
  have "MProvider pick \<in> {ProviderClaude, ProviderGrok}"
    using a by (auto simp: ModelCatalog_def plan_row_def serves_def demo_predicates_def model_names)
  moreover have "MProvider pick \<noteq> ProviderGrok"
    using a by (auto simp: demo_reading demo_plan_tokens pins_def demo_predicates_def)
  ultimately show ?thesis using p by blast
qed

subsection \<open>The owner's verdict\<close>

lemma pinned_row_is_candidate:
  assumes "r \<in> set ModelCatalog" "pins pred (CatProvider r) ov" "CatProvider r \<notin> set (QExcludeProviders pred)"
    "\<not> keeps_off pred (CatProvider r)" "serves pred r" "CatQuality r = wanted_quality pred"
  shows "\<exists>c. catalog_judge env pred us r = Inr c \<and> pinned c"
proof -
  have named: "CatProvider r \<noteq> []" using catalog_provider_named assms(1) by blast
  have "CatProvider r \<notin> set (fst (owner_overrides (QOwnerOverride pred) (QExcludeProviders pred) (\<lambda>_. None)))"
    using assms(3,4) by (auto simp: overrides_exclude keeps_off_def)
  moreover obtain ov' where "snd (owner_overrides (QOwnerOverride pred) (QExcludeProviders pred) (\<lambda>_. None)) (CatProvider r) = Some ov'"
    using pinned_iff(1) [OF named, of pred] assms(2) by (auto simp: overrides_pins)
  ultimately show ?thesis using assms(5,6) by (simp add: catalog_judge_def judge_row_def serves_def Let_def)
qed

text \<open>An owner's pin decides on the catalog path: when a row of the catalog serves what is asked and its provider is pinned by an
  override to a destination band, and neither excluded nor kept off, then Resolve answers, whatever the readings are, and the
  provider it picks is a pinned one, in the band the owner gave it.\<close>

lemma owner_pin_decides:
  assumes "on_catalog pred" "resolveUsage env pred = Inr us" "fair_draw env pred"
    "r \<in> set ModelCatalog" "pins pred (CatProvider r) ov" "CatProvider r \<notin> set (QExcludeProviders pred)"
    "\<not> keeps_off pred (CatProvider r)" "serves pred r" "CatQuality r = wanted_quality pred"
  shows "\<exists>pick ov'. Resolve env pred = Inr pick \<and> pins pred (MProvider pick) ov' \<and> MBand pick = OBand ov'"
proof -
  obtain d where d: "catalog_judge env pred us r = Inr d" "pinned d"
    using pinned_row_is_candidate [OF assms(4-9)] by blast
  obtain pick where pick: "Resolve env pred = Inr pick"
    using Resolve_answers [OF assms(1,2,4) d(1)] d(2) assms(3) by blast
  obtain c r' where c: "r' \<in> set ModelCatalog" "catalog_judge env pred us r' = Inr c"
    "c \<in> set (candidate_pool (fst (judged (catalog_judge env pred us) ModelCatalog)) (QPreferProvider pred))"
    "MProvider pick = CatProvider r'" "MBand pick = band c"
    by (rule Resolve_catalog_pick [OF pick assms(1,2)])
  have "d \<in> set (fst (judged (catalog_judge env pred us) ModelCatalog))" using assms(4) d(1) judged_candidate by blast
  then have "pinned c" using candidate_pool_pinned [OF c(3)] d(2) by blast
  then show ?thesis using catalog_judge_Inr(8) [OF c(2,1)] pick c(4,5) by auto
qed

definition pin_grok :: predicates where
  "pin_grok = demo_ask\<lparr>QOwnerOverride := [(''xai-oauth'', \<lparr>OBand = BandOK, OReason = ''keep it busy''\<rparr>)]\<rparr>"

theorem owner_pin_decides_witness:
  "\<exists>pick. Resolve demo_env pin_grok = Inr pick \<and> MProvider pick = ProviderGrok \<and> MBand pick = BandOK"
proof -
  let ?r = "plan_row ProviderGrok ''grok-4.5'' ''standard''"
  let ?ov = "\<lparr>OBand = BandOK, OReason = ''keep it busy''\<rparr>"
  have p: "pins pin_grok p ov' \<longleftrightarrow> p = ProviderGrok \<and> ov' = ?ov" for p ov'
    by (auto simp: pins_def pin_grok_def PlanProvider_def dest_band_iff)
  have r: "?r \<in> set ModelCatalog" by (simp add: ModelCatalog_def)
  have "on_catalog pin_grok" "resolveUsage demo_env pin_grok = Inr demo_usage" "fair_draw demo_env pin_grok"
    by (simp_all add: on_catalog_def by_intel_def normalizePredicates_def fair_draw_def resolveUsage_def pin_grok_def
        demo_predicates_def demo_env_def)
  moreover have "CatProvider ?r \<notin> set (QExcludeProviders pin_grok)" "serves pin_grok ?r" "CatQuality ?r = wanted_quality pin_grok"
    by (simp_all add: pin_grok_def demo_predicates_def plan_row_def serves_def wanted_quality_def model_names provider_defs)
  moreover have "\<not> keeps_off pin_grok (CatProvider ?r)" by (simp add: keeps_off_def pin_grok_def dest_band_iff)
  ultimately have "\<exists>pick ov'. Resolve demo_env pin_grok = Inr pick \<and> pins pin_grok (MProvider pick) ov' \<and> MBand pick = OBand ov'"
    using owner_pin_decides [OF _ _ _ r, of pin_grok demo_env demo_usage ?ov] by (simp add: p plan_row_def)
  then show ?thesis by (auto simp: p)
qed

text \<open>On the path by published scores an owner's pin has no effect at all: leaving out every override to a destination band
  changes nothing, so a provider that is pinned can lose the pick, or be refused for its readings.\<close>

lemma scores_ignore_owner_pins:
  "resolveFromIntel env (pred\<lparr>QOwnerOverride := filter (\<lambda>(p, ov). \<not> IsDestBand (OBand ov)) (QOwnerOverride pred)\<rparr>) byProv now =
   resolveFromIntel env pred byProv now"
proof -
  have ex: "fst (owner_overrides (filter (\<lambda>(p, ov). \<not> IsDestBand (OBand ov)) ovs) exclude pin) = fst (owner_overrides ovs exclude pin)"
    for ovs exclude pin
    unfolding overrides_excluded filter_filter by (rule arg_cong [where f = "\<lambda>xs. rev (map _ xs) @ _"], rule filter_cong) auto
  let ?p = "pred\<lparr>QOwnerOverride := filter (\<lambda>(p, ov). \<not> IsDestBand (OBand ov)) (QOwnerOverride pred)\<rparr>"
  have same: "QModel ?p = QModel pred" "QEffort ?p = QEffort pred" "QPurpose ?p = QPurpose pred" "QIntel ?p = QIntel pred"
      "QQuality ?p = QQuality pred" "QPreferProvider ?p = QPreferProvider pred" "requested_purpose ?p = requested_purpose pred"
      "falls_back env ?p = falls_back env pred" "scored_purpose env ?p = scored_purpose env pred"
      "wanted_quality ?p = wanted_quality pred" "pin_row env ?p = pin_row env pred"
    by (simp_all add: fun_eq_iff scored_purpose_def falls_back_def requested_purpose_def wanted_quality_def pin_row_def)
  have "intel_eligible env ?p byProv now x y = intel_eligible env pred byProv now x y" "with_reading env ?p byProv now = with_reading env pred byProv now"
      "intel_pool al ?p a b c d = intel_pool al pred a b c d" for x y al a b c d
    by (auto simp: fun_eq_iff intel_eligible_def with_reading_def intel_pool_def skipForUsage_def Let_def split: option.splits)
  then have e: "intel_eligibles env ?p byProv now obs = intel_eligibles env pred byProv now obs" for obs
    by (simp add: intel_eligibles_def ex same Let_def)
  then have k: "intel_kept env ?p byProv now obs = intel_kept env pred byProv now obs" for obs
    by (simp add: intel_kept_def intel_floor_def same Let_def)
  have i: "intel_pick ?p = intel_pick pred" by (simp add: fun_eq_iff intel_pick_def intel_reason_def same)
  show ?thesis unfolding resolveFromIntel_def e k i same ..
qed

subsection \<open>The order of the catalog\<close>

lemma judged_perm: "mset rs = mset rs' \<Longrightarrow> mset (fst (judged f rs)) = mset (fst (judged f rs'))"
proof -
  have "mset (fst (judged f rs)) = image_mset projr (filter_mset (Not \<circ> isl) (image_mset f (mset rs)))" for rs
    by (induction rs) (auto split: prod.splits sum.splits)
  then show "mset rs = mset rs' \<Longrightarrow> ?thesis" by simp
qed

lemma candidate_pool_perm:
  assumes "mset cands = mset cands'"
  shows "mset (candidate_pool cands prefer) = mset (candidate_pool cands' prefer)"
proof -
  have f: "mset (filter P xs) = mset (filter P ys) \<and> (filter P xs = [] \<longleftrightarrow> filter P ys = [])"
    if "mset xs = mset ys" for P and xs ys :: "catalog_cand list"
    using that by (metis mset_filter mset_zero_iff)
  have "mset (if P then xs else ys) = mset (if P then xs' else ys')" if "mset xs = mset xs'" "mset ys = mset ys'"
    for P and xs ys xs' ys' :: "catalog_cand list" using that by simp
  then show ?thesis unfolding candidate_pool_def Let_def using assms f by (smt (verit))
qed

lemma catalog_ids: "distinct (map row_id ModelCatalog)"
  by (simp add: ModelCatalog_def plan_row_def row_id_def provider_defs)

lemma candidates_told_apart:
  assumes "x \<in> set (fst (judged (catalog_judge env pred us) ModelCatalog))" "y \<in> set (fst (judged (catalog_judge env pred us) ModelCatalog))"
    "x \<noteq> y"
  shows "ranks_before x y \<or> ranks_before y x"
proof -
  obtain r r' where r: "r \<in> set ModelCatalog" "catalog_judge env pred us r = Inr x"
      and r': "r' \<in> set ModelCatalog" "catalog_judge env pred us r' = Inr y"
    using assms judged_candidate by metis
  have "r \<noteq> r'" using r r' assms(3) by auto
  then have "row_id r \<noteq> row_id r'" using catalog_ids r(1) r'(1) by (meson distinct_map inj_onD)
  then have "catalogID x \<noteq> catalogID y"
    using catalog_judge_Inr(1) [OF r(2,1)] catalog_judge_Inr(1) [OF r'(2,1)] by (simp add: catalogID_def)
  then show ?thesis by (auto simp: ranks_before_iff)
qed



text \<open>The candidate picked is the best there is: it comes from the pool, no candidate of the pool ranks before its leader, and it
  either ranks with the leader or belongs to a provider the caller named, in the leader's band and at most the small reach behind
  it in pressure. Only how it was decided is noted on it.\<close>

lemma pick_ranks_first:
  assumes "pickCatalog intN cands prefer tie_break draw = Inr c"
  shows "\<exists>leader \<in> set (candidate_pool cands prefer). \<exists>d \<in> set (candidate_pool cands prefer).
    plain c = plain d \<and> (\<forall>x \<in> set (candidate_pool cands prefer). catalogRank leader x \<le> 0) \<and>
    (catalogRank d leader = 0 \<or> CatProvider (row d) \<in> set tie_break \<and> within_reach leader d)"
  by (rule pick_from_pool [OF assms]) (force simp: rank_le_signals rank_signals)

definition demo_cand :: "provider \<Rightarrow> real \<Rightarrow> catalog_cand" where
  "demo_cand p x = \<lparr>row = plan_row p [] ''standard'', band = BandOK, cpressure = Ln x, weeklyLeft = 50, sessionLeft = 50,
     pinned = False, pinReason = [], tieBreak = False, drawnOf = 0\<rparr>"

lemma pick_ranks_first_witness:
  "within_reach (demo_cand ''grok'' 0) (demo_cand ''claude'' (3 / 100)) \<and>
   pickCatalog (\<lambda>n. 0) [demo_cand ''claude'' (3 / 100), demo_cand ''grok'' 0] [] [''claude''] None =
     Inr ((demo_cand ''claude'' (3 / 100))\<lparr>tieBreak := True\<rparr>)"
proof -
  let ?a = "demo_cand ''claude'' (3 / 100)" and ?b = "demo_cand ''grok'' 0"
  have pool: "candidate_pool [?a, ?b] [] = [?a, ?b]" by (simp add: candidate_pool_def demo_cand_def IsDestBand_def)
  have rank: "catalogRank ?b ?a = - 1" "catalogRank ?a ?b = 1" by (simp_all add: catalogRank_def demo_cand_def press_less_def)
  then have "ranks_before ?b ?a" by (simp add: ranks_before_def)
  then have pick: "pickCatalog (\<lambda>n. 0) [?a, ?b] [] [''claude''] None = Inr (?a\<lparr>tieBreak := True\<rparr>)"
    by (simp add: pickCatalog_def pool SliceStable_def within_reach_def)
      (simp add: demo_cand_def plan_row_def press_less_def press_add_def catalogTieBreakReach_def)
  obtain leader d where d: "leader \<in> {?a, ?b}" "d \<in> {?a, ?b}" "plain ?a = plain d" "catalogRank leader ?b \<le> 0"
      "catalogRank d leader = 0 \<or> within_reach leader d"
    using pick_ranks_first [OF pick] by (auto simp: pool)
  have "leader = ?b" using d(1,4) rank by auto
  moreover have "d = ?a" using d(2,3) by (auto simp: demo_cand_def plain_def plan_row_def)
  ultimately show ?thesis using d(5) rank pick by simp
qed

end
