(* ===== verification/Placement.thy ===== *)
theory Placement
  imports ResolvingProps
begin

text \<open>
  Where a running seat belongs (src/seat_policy.go and src/seat_placement.go): the policy a host keeps
  for a seat, and the decision to leave the seat, to move it, to park it or to put the decision off.

  The policy file is the table its JSON text decodes to; the members the encoder leaves out when they are empty come back as
  nil. Names and providers are UTF-8 text. \<open>seats_json\<close> is the path \<open>filepath.Join\<close> makes of a directory and the name of the
  policy file; a directory that is named has a path that is not empty. A nil store is \<open>None\<close>.
\<close>

subsection \<open>Seat policies\<close>

record seat_policy =
  SPreferProvider :: provider
  SAllowedProviders :: "provider slice"
  SAllowNone :: bool
  SExcludeProviders :: "provider slice"
  SHostMayInterrupt :: bool
  SHostNeverPark :: bool

definition zero_policy :: seat_policy where
  "zero_policy = \<lparr>SPreferProvider = [], SAllowedProviders = None, SAllowNone = False, SExcludeProviders = None,
     SHostMayInterrupt = False, SHostNeverPark = False\<rparr>"

definition nonempty :: "'a slice \<Rightarrow> 'a slice" where
  "nonempty xs = (if xs = Some [] then None else xs)"

text \<open>The allow-list of a policy and whether it restricts at all. The list is copied by appending it to nil, so a list that is
  empty but not nil comes out nil.\<close>

definition Allowed :: "seat_policy \<Rightarrow> provider slice \<times> bool" where
  "Allowed p =
     (if SAllowNone p then (Some [], True)
      else if SAllowedProviders p = None then (None, False)
      else (nonempty (SAllowedProviders p), True))"

type_synonym policy_rows = "(string \<times> seat_policy) list"

datatype policy_file = NoFile | UnreadableFile | EmptyFile | MalformedFile | PolicyTable policy_rows

record policy_disk =
  policy_files :: "string \<Rightarrow> policy_file"
  seats_json :: "string \<Rightarrow> string"
  policy_writable :: bool

record policy_store =
  SPath :: string
  SRows :: policy_rows

datatype policy_error = NotConfigured | ReadFailed | ParseFailed | SaveFailed

text \<open>A policy as it comes back from its JSON text.\<close>

definition as_stored :: "seat_policy \<Rightarrow> seat_policy" where
  "as_stored p = p\<lparr>SAllowedProviders := nonempty (SAllowedProviders p), SExcludeProviders := nonempty (SExcludeProviders p)\<rparr>"

definition OpenSeatPolicyStore :: "policy_disk \<Rightarrow> string \<Rightarrow> policy_error + policy_store" where
  "OpenSeatPolicyStore d dir =
     (if dir = [] then Inr \<lparr>SPath = [], SRows = []\<rparr>
      else let path = seats_json d dir in
        case policy_files d path of
          NoFile \<Rightarrow> Inr \<lparr>SPath = path, SRows = []\<rparr>
        | UnreadableFile \<Rightarrow> Inl ReadFailed
        | EmptyFile \<Rightarrow> Inr \<lparr>SPath = path, SRows = []\<rparr>
        | MalformedFile \<Rightarrow> Inl ParseFailed
        | PolicyTable rows \<Rightarrow> Inr \<lparr>SPath = path, SRows = rows\<rparr>)"

definition policy_get :: "policy_store option \<Rightarrow> string \<Rightarrow> seat_policy" where
  "policy_get s name =
     (case s of None \<Rightarrow> zero_policy
      | Some st \<Rightarrow> (case map_of (SRows st) name of Some p \<Rightarrow> p | None \<Rightarrow> zero_policy))"

definition policy_save :: "policy_disk \<Rightarrow> policy_store \<Rightarrow> (policy_error + unit) \<times> policy_disk" where
  "policy_save d st =
     (if SPath st = [] then (Inr (), d)
      else if \<not> policy_writable d then (Inl SaveFailed, d)
      else (Inr (), d\<lparr>policy_files := (policy_files d)(SPath st := PolicyTable (map (\<lambda>(n, p). (n, as_stored p)) (SRows st)))\<rparr>))"

definition policy_update ::
  "policy_disk \<Rightarrow> policy_store option \<Rightarrow> string \<Rightarrow> (seat_policy \<Rightarrow> seat_policy)
    \<Rightarrow> (policy_error + unit) \<times> policy_store option \<times> policy_disk" where
  "policy_update d s name fn =
     (case s of None \<Rightarrow> (Inl NotConfigured, None, d)
      | Some st \<Rightarrow>
          (let st' = st\<lparr>SRows := AList.update name (fn (policy_get s name)) (SRows st)\<rparr>;
               (r, d') = policy_save d st'
           in (r, Some st', d')))"

definition policy_put ::
  "policy_disk \<Rightarrow> policy_store option \<Rightarrow> string \<Rightarrow> seat_policy \<Rightarrow> (policy_error + unit) \<times> policy_store option \<times> policy_disk" where
  "policy_put d s name policy =
     (if s = None then (Inl NotConfigured, None, d) else policy_update d s name (\<lambda>cur. policy))"

definition policy_all :: "policy_store option \<Rightarrow> policy_rows" where
  "policy_all s = (case s of None \<Rightarrow> [] | Some st \<Rightarrow> SRows st)"

text \<open>A legacy file fills in the seats the store has no opinion on.\<close>

fun import_rows :: "policy_rows \<Rightarrow> policy_rows \<Rightarrow> policy_rows \<times> nat" where
  "import_rows rows [] = (rows, 0)"
| "import_rows rows ((name, p) # legacy) =
     (if map_of rows name \<noteq> None then import_rows rows legacy
      else (case import_rows (AList.update name p rows) legacy of (rows', n) \<Rightarrow> (rows', Suc n)))"

definition ImportLegacyFile ::
  "policy_disk \<Rightarrow> policy_store option \<Rightarrow> string \<Rightarrow> nat \<times> policy_error option \<times> policy_store option \<times> policy_disk" where
  "ImportLegacyFile d s path =
     (case s of None \<Rightarrow> (0, Some NotConfigured, None, d)
      | Some st \<Rightarrow>
          if path = [] then (0, None, s, d)
          else (case policy_files d path of
              NoFile \<Rightarrow> (0, None, s, d)
            | UnreadableFile \<Rightarrow> (0, Some ReadFailed, s, d)
            | EmptyFile \<Rightarrow> (0, None, s, d)
            | MalformedFile \<Rightarrow> (0, Some ParseFailed, s, d)
            | PolicyTable legacy \<Rightarrow>
                (case import_rows (SRows st) legacy of (rows, n) \<Rightarrow>
                   if n = 0 then (0, None, s, d)
                   else (case policy_save d (st\<lparr>SRows := rows\<rparr>) of (r, d') \<Rightarrow>
                     (n, (case r of Inl e \<Rightarrow> Some e | Inr _ \<Rightarrow> None), Some (st\<lparr>SRows := rows\<rparr>), d')))))"

subsection \<open>The decision\<close>

datatype seat_action = SeatStay | SeatMigrate | SeatPark | SeatDefer

record placement_args =
  ACurrentProvider :: provider
  AUsage :: "plan_usage list"
  AAllowedProviders :: "provider slice"
  AExcludeProviders :: "provider slice"
  APreferProvider :: provider
  AQuality :: string
  ANow :: go_time
  AThresholds :: "plan_thresholds option"
  AMaxUsageAge :: int

record seat_placement =
  PAction :: seat_action
  PFrom :: provider
  PPick :: model_pick
  PReason :: string
  PAuthor :: string

datatype placement_error = ArgsRequired | CurrentProviderRequired | DuplicateReading provider

definition zero_pick :: model_pick where
  "zero_pick = \<lparr>MProvider = [], MModel = [], MQuality = [], MPurpose = [], MEffort = [], MAccess = [], MBand = NoBand,
     MCostUSD = 0, MReason = [], MAuthor = []\<rparr>"

definition stalePlanReading :: "plan_usage \<Rightarrow> go_time \<Rightarrow> int \<Rightarrow> bool" where
  "stalePlanReading u now maxAge =
     (if maxAge \<le> 0 then False else IsZero (FetchedAt u) \<or> time_sub now (FetchedAt u) > maxAge)"

text \<open>The readings under the names of their plans, and the one of the seat's own plan, of which there may be one only.\<close>

fun own_reading :: "provider \<Rightarrow> plan_usage option \<Rightarrow> plan_usage list \<Rightarrow> placement_error + plan_usage option" where
  "own_reading from source [] = Inr source"
| "own_reading from source (u # us) =
     (if PUProvider u = from then (if source \<noteq> None then Inl (DuplicateReading from) else own_reading from (Some u) us)
      else own_reading from source us)"

definition plan_readings :: "plan_usage list \<Rightarrow> plan_usage list" where
  "plan_readings = map (\<lambda>u. u\<lparr>PUProvider := PlanProvider (PUProvider u)\<rparr>)"

record dest_scan =
  excluded :: "provider list"
  eligible :: nat
  seen :: "provider list"
  uncertain :: bool

definition scan_dest :: "resolve_env \<Rightarrow> placement_args \<Rightarrow> go_time \<Rightarrow> dest_scan \<Rightarrow> plan_usage \<Rightarrow> dest_scan" where
  "scan_dest env args now s0 u =
     (let p = PUProvider u; s = s0\<lparr>seen := p # seen s0\<rparr> in
      if (case AAllowedProviders args of None \<Rightarrow> False | Some ps \<Rightarrow> p \<notin> PlanProvider ` set ps) then s\<lparr>excluded := p # excluded s\<rparr>
      else if p \<in> set (excluded s) then s
      else if stalePlanReading u now (AMaxUsageAge args) then s\<lparr>excluded := p # excluded s, uncertain := True\<rparr>
      else if PUStatus u \<noteq> PlanUsageAvailable then s\<lparr>uncertain := True\<rparr>
      else if HasAvailableTokens (wall env) u now (AThresholds args) \<and>
              IsDestBand (Weekly (ClassifyPlan (wall env) u now (AThresholds args)))
      then s\<lparr>eligible := Suc (eligible s)\<rparr>
      else s)"

definition unread_dest :: "placement_args \<Rightarrow> provider \<Rightarrow> dest_scan \<Rightarrow> catalog_model \<Rightarrow> bool" where
  "unread_dest args from s r \<longleftrightarrow>
     (let p = CatProvider r in
      \<not> (CatAccess r \<noteq> ModelAccessPlan \<or> \<not> CatSession r \<or> p = from \<or> p \<in> set (excluded s) \<or> p \<in> set (seen s) \<or>
         (case AAllowedProviders args of None \<Rightarrow> False | Some ps \<Rightarrow> p \<notin> PlanProvider ` set ps)))"

definition dest_predicates :: "placement_args \<Rightarrow> go_time \<Rightarrow> plan_usage list \<Rightarrow> dest_scan \<Rightarrow> predicates" where
  "dest_predicates args now usage s =
     \<lparr>QMode = CapabilitySession, QPurpose = [], QSkill = [],
      QQuality = (if AQuality args = [] then ModelQualityStandard else AQuality args), QModel = [], QEffort = [],
      QPreferPlan = True, QBackground = True, QPreferProvider = PlanProvider (APreferProvider args), QTieBreak = [], QRand = None,
      QExcludeProviders = map CatProvider (filter (\<lambda>r. CatProvider r \<in> set (excluded s)) ModelCatalog), QRequireUsage = True,
      QUsage = Some usage, QCache = None, QIntel = None, QNow = now, QThresholds = AThresholds args, QOwnerOverride = []\<rparr>"

definition dest_scanned :: "resolve_env \<Rightarrow> placement_args \<Rightarrow> go_time \<Rightarrow> provider \<Rightarrow> plan_usage list \<Rightarrow> dest_scan" where
  "dest_scanned env args now from usage =
     foldl (scan_dest env args now)
       \<lparr>excluded = from # map PlanProvider (case AExcludeProviders args of None \<Rightarrow> [] | Some ps \<Rightarrow> ps), eligible = 0, seen = [],
        uncertain = False\<rparr> usage"

text \<open>The decision for a seat that must leave.\<close>

definition place_elsewhere ::
  "resolve_env \<Rightarrow> placement_args \<Rightarrow> go_time \<Rightarrow> provider \<Rightarrow> plan_usage list \<Rightarrow> string \<Rightarrow> seat_placement" where
  "place_elsewhere env args now from usage pressure =
     (let s = dest_scanned env args now from usage;
          uncertainDest = (uncertain s \<or> (\<exists>r \<in> set ModelCatalog. unread_dest args from s r));
          decide = (\<lambda>a pick reason. \<lparr>PAction = a, PFrom = from, PPick = pick, PReason = pressure @ reason, PAuthor = DecisionAuthor\<rparr>)
      in if eligible s = 0 then
           (if uncertainDest then decide SeatDefer zero_pick ''; destination plan readings incomplete or stale''
            else decide SeatPark zero_pick ''; no eligible destination'')
         else (case Resolve env (dest_predicates args now usage s) of
             Inl e \<Rightarrow> decide SeatDefer zero_pick (''; destination unresolved: '' @ error_text (quote env) e)
           | Inr pick \<Rightarrow> decide SeatMigrate pick (''; '' @ MReason pick)))"

definition ResolveSeatPlacement :: "resolve_env \<Rightarrow> placement_args option \<Rightarrow> placement_error + seat_placement" where
  "ResolveSeatPlacement env args0 =
     (case args0 of None \<Rightarrow> Inl CurrentProviderRequired
      | Some args \<Rightarrow>
          if blank (ACurrentProvider args) then Inl CurrentProviderRequired
          else let now = (if IsZero (ANow args) then wall env else ANow args);
                   from = PlanProvider (ACurrentProvider args);
                   usage = plan_readings (AUsage args);
                   stay = (\<lambda>reason. \<lparr>PAction = SeatStay, PFrom = from, PPick = zero_pick, PReason = reason, PAuthor = DecisionAuthor\<rparr>)
               in case own_reading from None usage of Inl e \<Rightarrow> Inl e
                  | Inr None \<Rightarrow> Inr (stay ''source plan reading unavailable'')
                  | Inr (Some source) \<Rightarrow>
                      if PUStatus source \<noteq> PlanUsageAvailable then Inr (stay ''source plan reading unavailable'')
                      else if stalePlanReading source now (AMaxUsageAge args) then Inr (stay ''source plan reading stale'')
                      else if \<not> ShouldVacate (wall env) source now (AThresholds args) then
                        Inr (stay ''source provider has usable allowance'')
                      else Inr (place_elsewhere env args now from usage
                        (if Session (ClassifyPlan (wall env) source now (AThresholds args)) = SessionExhausted
                         then ''session exhausted'' else ''weekly hot or exhausted'')))"

definition with_policy :: "placement_args \<Rightarrow> seat_policy \<Rightarrow> placement_args" where
  "with_policy args p =
     args\<lparr>APreferProvider := (if APreferProvider args = [] then SPreferProvider p else APreferProvider args),
          AAllowedProviders := (case Allowed p of (ps, restricted) \<Rightarrow>
            if AAllowedProviders args = None \<and> restricted then ps else AAllowedProviders args),
          AExcludeProviders := (if AExcludeProviders args = None \<and> nonempty (SExcludeProviders p) \<noteq> None
            then SExcludeProviders p else AExcludeProviders args)\<rparr>"

definition ResolveSeatPlacementForSeat ::
  "resolve_env \<Rightarrow> string \<Rightarrow> policy_store option \<Rightarrow> placement_args option \<Rightarrow> placement_error + seat_placement" where
  "ResolveSeatPlacementForSeat env name store args0 =
     (case args0 of None \<Rightarrow> Inl ArgsRequired
      | Some args \<Rightarrow>
          ResolveSeatPlacement env
            (Some (if store \<noteq> None \<and> \<not> blank name then with_policy args (policy_get store name) else args)))"

subsection \<open>The scan of the destinations\<close>

definition may_go :: "placement_args \<Rightarrow> provider \<Rightarrow> bool" where
  "may_go args p \<longleftrightarrow> (case AAllowedProviders args of None \<Rightarrow> True | Some ps \<Rightarrow> p \<in> PlanProvider ` set ps) \<and>
     p \<notin> PlanProvider ` set (case AExcludeProviders args of None \<Rightarrow> [] | Some ps \<Rightarrow> ps)"

definition destination :: "resolve_env \<Rightarrow> placement_args \<Rightarrow> go_time \<Rightarrow> plan_usage \<Rightarrow> bool" where
  "destination env args now u \<longleftrightarrow> PUStatus u = PlanUsageAvailable \<and> HasAvailableTokens (wall env) u now (AThresholds args) \<and>
     IsDestBand (Weekly (ClassifyPlan (wall env) u now (AThresholds args)))"

lemma scan_dest_mono:
  "set (excluded s) \<subseteq> set (excluded (scan_dest env args now s u))" "uncertain s \<Longrightarrow> uncertain (scan_dest env args now s u)"
  "eligible s \<le> eligible (scan_dest env args now s u)" "seen (scan_dest env args now s u) = PUProvider u # seen s"
  by (auto simp: scan_dest_def Let_def)

lemma scan_mono:
  shows "set (excluded s) \<subseteq> set (excluded (foldl (scan_dest env args now) s us))" (is ?excluded)
    and "uncertain s \<Longrightarrow> uncertain (foldl (scan_dest env args now) s us)" (is "PROP ?uncertain")
    and "eligible s \<le> eligible (foldl (scan_dest env args now) s us)" (is ?eligible)
    and "set (seen (foldl (scan_dest env args now) s us)) = PUProvider ` set us \<union> set (seen s)" (is ?seen)
proof -
  show ?excluded by (induction us arbitrary: s) (simp, metis foldl_Cons scan_dest_mono(1) subset_trans)
  show "PROP ?uncertain" by (induction us arbitrary: s) (simp_all add: scan_dest_mono(2))
  show ?eligible by (induction us arbitrary: s) (simp, metis foldl_Cons scan_dest_mono(3) le_trans)
  show ?seen by (induction us arbitrary: s) (auto simp: scan_dest_mono(4))
qed

lemma scan_dest_kept:
  "PUProvider u \<notin> set (excluded (scan_dest env args now s u)) \<Longrightarrow>
     (case AAllowedProviders args of None \<Rightarrow> True | Some ps \<Rightarrow> PUProvider u \<in> PlanProvider ` set ps) \<and>
     \<not> stalePlanReading u now (AMaxUsageAge args)"
  by (auto simp: scan_dest_def Let_def split: if_splits option.splits)

lemma scan_dest_known:
  "PUProvider u \<notin> set (excluded (scan_dest env args now s u)) \<Longrightarrow> \<not> uncertain (scan_dest env args now s u) \<Longrightarrow>
     eligible (scan_dest env args now s u) = 0 \<Longrightarrow> PUStatus u = PlanUsageAvailable \<and> \<not> destination env args now u"
  by (auto simp: scan_dest_def destination_def Let_def split: if_splits option.splits)

lemma scanned_at:
  assumes "u \<in> set us"
  obtains s' where "set (excluded (scan_dest env args now s' u)) \<subseteq> set (excluded (foldl (scan_dest env args now) s us))"
    "uncertain (scan_dest env args now s' u) \<Longrightarrow> uncertain (foldl (scan_dest env args now) s us)"
    "eligible (scan_dest env args now s' u) \<le> eligible (foldl (scan_dest env args now) s us)"
proof -
  obtain us1 us2 where us: "us = us1 @ u # us2" using assms by (meson split_list)
  let ?s = "foldl (scan_dest env args now) s us1"
  show ?thesis by (rule that [of ?s]) (use scan_mono in \<open>auto simp: us\<close>)
qed

lemma scan_kept:
  assumes "u \<in> set us" "PUProvider u \<notin> set (excluded (dest_scanned env args now from us))"
  shows "may_go args (PUProvider u)" "PUProvider u \<noteq> from" "\<not> stalePlanReading u now (AMaxUsageAge args)"
proof -
  have "PUProvider u \<notin> set (from # map PlanProvider (case AExcludeProviders args of None \<Rightarrow> [] | Some ps \<Rightarrow> ps))"
    using assms(2) subsetD [OF scan_mono(1)] unfolding dest_scanned_def by (metis dest_scan.select_convs(1))
  then have "PUProvider u \<noteq> from" "PUProvider u \<notin> PlanProvider ` set (case AExcludeProviders args of None \<Rightarrow> [] | Some ps \<Rightarrow> ps)"
    by auto
  moreover obtain s' where "PUProvider u \<notin> set (excluded (scan_dest env args now s' u))"
    using scanned_at [OF assms(1)] assms(2) unfolding dest_scanned_def by (metis subset_iff)
  ultimately show "may_go args (PUProvider u)" "PUProvider u \<noteq> from" "\<not> stalePlanReading u now (AMaxUsageAge args)"
    using scan_dest_kept by (auto simp: may_go_def)
qed

lemma scan_known:
  assumes "u \<in> set us" "PUProvider u \<notin> set (excluded (dest_scanned env args now from us))"
    "\<not> uncertain (dest_scanned env args now from us)" "eligible (dest_scanned env args now from us) = 0"
  shows "PUStatus u = PlanUsageAvailable \<and> \<not> destination env args now u"
proof -
  obtain s' where "PUProvider u \<notin> set (excluded (scan_dest env args now s' u))" "\<not> uncertain (scan_dest env args now s' u)"
      "eligible (scan_dest env args now s' u) = 0"
    using scanned_at [OF assms(1)] assms(2-4) unfolding dest_scanned_def by (metis le_zero_eq subset_iff)
  then show ?thesis by (rule scan_dest_known)
qed

lemma scan_excluded_why:
  assumes "p \<in> set (excluded (dest_scanned env args now from us))"
  shows "p = from \<or> \<not> may_go args p \<or> uncertain (dest_scanned env args now from us)"
proof -
  have step: "p \<in> set (excluded s) \<or> \<not> may_go args p \<or> uncertain (scan_dest env args now s u)"
    if "p \<in> set (excluded (scan_dest env args now s u))" for s u
    using that by (auto simp: scan_dest_def may_go_def Let_def split: if_split_asm option.splits)
  have "p \<in> set (excluded s) \<or> \<not> may_go args p \<or> uncertain (foldl (scan_dest env args now) s us)"
    if "p \<in> set (excluded (foldl (scan_dest env args now) s us))" for s
    using that
  proof (induction us arbitrary: s)
    case (Cons u us)
    then show ?case using step [of s u] scan_mono(2) [of "scan_dest env args now s u" env args now us] by auto
  qed simp
  from this [OF assms [unfolded dest_scanned_def]] show ?thesis
    by (auto simp: dest_scanned_def may_go_def)
qed

subsection \<open>What a decision is made on\<close>

definition decided_at :: "resolve_env \<Rightarrow> placement_args \<Rightarrow> go_time" where
  "decided_at env args = (if IsZero (ANow args) then wall env else ANow args)"

definition must_leave :: "resolve_env \<Rightarrow> placement_args \<Rightarrow> plan_usage \<Rightarrow> bool" where
  "must_leave env args u \<longleftrightarrow> u \<in> set (plan_readings (AUsage args)) \<and> PUProvider u = PlanProvider (ACurrentProvider args) \<and>
     PUStatus u = PlanUsageAvailable \<and> \<not> stalePlanReading u (decided_at env args) (AMaxUsageAge args) \<and>
     ShouldVacate (wall env) u (decided_at env args) (AThresholds args)"

lemma own_reading_Some: "own_reading from source us = Inr (Some u) \<Longrightarrow> source = Some u \<or> u \<in> set us \<and> PUProvider u = from"
  by (induction "from" source us rule: own_reading.induct) (auto split: if_splits)

lemma own_reading_kept: "from \<notin> PUProvider ` set us \<Longrightarrow> own_reading from source us = Inr source"
  by (induction "from" source us rule: own_reading.induct) auto

lemma own_reading_found:
  "distinct (map PUProvider us) \<Longrightarrow> u \<in> set us \<Longrightarrow> PUProvider u = from \<Longrightarrow> own_reading from None us = Inr (Some u)"
  by (induction us) (auto simp: own_reading_kept)

lemma placement_elsewhere:
  assumes "ResolveSeatPlacement env (Some args) = Inr d" "PAction d \<noteq> SeatStay"
  obtains source pressure where "must_leave env args source"
    "d = place_elsewhere env args (decided_at env args) (PlanProvider (ACurrentProvider args)) (plan_readings (AUsage args)) pressure"
proof -
  let ?from = "PlanProvider (ACurrentProvider args)" and ?us = "plan_readings (AUsage args)"
  obtain source where "own_reading ?from None ?us = Inr (Some source)" "PUStatus source = PlanUsageAvailable"
      "\<not> stalePlanReading source (decided_at env args) (AMaxUsageAge args)"
      "ShouldVacate (wall env) source (decided_at env args) (AThresholds args)"
      "\<exists>pressure. d = place_elsewhere env args (decided_at env args) ?from ?us pressure"
    using assms by (auto simp: ResolveSeatPlacement_def decided_at_def Let_def split: if_split_asm sum.splits option.splits)
  then show ?thesis using that own_reading_Some [of ?from None ?us source] by (auto simp: must_leave_def)
qed

lemma indexed_reading: "indexPlanUsage us p = Some u \<Longrightarrow> u \<in> set us \<and> PUProvider u = p"
  unfolding indexPlanUsage_def find_Some_iff by (metis nth_mem set_rev)

lemma dest_predicates_simps:
  "on_catalog (dest_predicates args now us s)" "resolveUsage env (dest_predicates args now us s) = Inr us"
  "\<not> pins (dest_predicates args now us s) p ov"
  by (simp_all add: on_catalog_def by_intel_def normalizePredicates_def dest_predicates_def resolveUsage_def pins_def)

lemma asked_when_decided [simp]:
  "asked_at env (dest_predicates args (decided_at env args) us s) = decided_at env args"
  by (simp add: asked_at_def decided_at_def dest_predicates_def)

lemma destination_picked:
  assumes "Resolve env (dest_predicates args (decided_at env args) us s) = Inr pick"
  obtains u where "u \<in> set us" "PUProvider u = MProvider pick" "MProvider pick \<notin> set (excluded s)" "destination env args (decided_at env args) u"
    "MBand pick = Weekly (ClassifyPlan (wall env) u (decided_at env args) (AThresholds args))" "MAccess pick = ModelAccessPlan"
    "ModelHasAvailableTokens (wall env) u (MModel pick) (decided_at env args) (AThresholds args)"
    "\<exists>r \<in> set ModelCatalog. CatProvider r = MProvider pick"
proof -
  let ?pred = "dest_predicates args (decided_at env args) us s"
  obtain c r where c: "r \<in> set ModelCatalog" "catalog_judge env ?pred us r = Inr c"
    "c \<in> set (candidate_pool (fst (judged (catalog_judge env ?pred us) ModelCatalog)) (QPreferProvider ?pred))"
    "MProvider pick = CatProvider r" "MModel pick = CatModel r" "MAccess pick = CatAccess r" "MBand pick = band c"
    by (rule Resolve_catalog_pick [OF assms dest_predicates_simps(1,2)])
  note j = catalog_judge_Inr [OF c(2,1), unfolded asked_when_decided]
  have p: "\<not> pinned c" using j(7) dest_predicates_simps(3) by blast
  note skip = j(9) [OF p, unfolded skipForUsage_def]
  obtain u where u: "indexPlanUsage us (CatProvider r) = Some u" "PUStatus u = PlanUsageAvailable"
    using skip by (auto simp: dest_predicates_def split: if_split_asm option.splits)
  note t = j(10) [OF p u(1)]
  have "publishedPlanBand (band c)" using skip u t by (auto simp: dest_predicates_def split: if_split_asm)
  then have "IsDestBand (band c)" using candidate_pool_band [OF c(3)] p by blast
  then have "destination env args (decided_at env args) u"
    using t u(2) by (simp add: destination_def ModelHasAvailableTokens_def dest_predicates_def split: if_split_asm)
  moreover have "CatProvider r \<notin> set (excluded s)" using j(2) c(1) by (auto simp: dest_predicates_def)
  moreover have "CatAccess r = ModelAccessPlan" using j(4) by (simp add: serves_def dest_predicates_def)
  ultimately show ?thesis
    using that indexed_reading [OF u(1)] t c by (auto simp: dest_predicates_def)
qed

lemma place_elsewhere_migrates:
  assumes "d = place_elsewhere env args now from us pressure" "PAction d = SeatMigrate"
  shows "Resolve env (dest_predicates args now us (dest_scanned env args now from us)) = Inr (PPick d)" "PFrom d = from"
  using assms by (auto simp: place_elsewhere_def Let_def split: if_split_asm sum.splits)

lemma place_elsewhere_parks:
  assumes "d = place_elsewhere env args now from us pressure" "PAction d = SeatPark"
  shows "eligible (dest_scanned env args now from us) = 0" "\<not> uncertain (dest_scanned env args now from us)"
    "\<And>r. r \<in> set ModelCatalog \<Longrightarrow> \<not> unread_dest args from (dest_scanned env args now from us) r"
  using assms by (auto simp: place_elsewhere_def Let_def split: if_split_asm sum.splits)

lemma migration_ends:
  assumes "ResolveSeatPlacement env (Some args) = Inr d" "PAction d = SeatMigrate"
  obtains source dest where "must_leave env args source" "PFrom d = PUProvider source"
    "dest \<in> set (plan_readings (AUsage args))" "PUProvider dest = MProvider (PPick d)" "PUProvider dest \<noteq> PUProvider source"
    "may_go args (PUProvider dest)" "\<not> stalePlanReading dest (decided_at env args) (AMaxUsageAge args)"
    "destination env args (decided_at env args) dest"
    "MBand (PPick d) = Weekly (ClassifyPlan (wall env) dest (decided_at env args) (AThresholds args))" "MAccess (PPick d) = ModelAccessPlan"
    "ModelHasAvailableTokens (wall env) dest (MModel (PPick d)) (decided_at env args) (AThresholds args)"
    "\<exists>r \<in> set ModelCatalog. CatProvider r = MProvider (PPick d)"
proof -
  let ?us = "plan_readings (AUsage args)" and ?from = "PlanProvider (ACurrentProvider args)" and ?now = "decided_at env args"
  have "PAction d \<noteq> SeatStay" using assms(2) by simp
  then obtain source pressure where s: "must_leave env args source" "d = place_elsewhere env args ?now ?from ?us pressure"
    by (rule placement_elsewhere [OF assms(1)])
  note m = place_elsewhere_migrates [OF s(2) assms(2)]
  show ?thesis
  proof (rule destination_picked [OF m(1)])
    fix u assume u: "u \<in> set ?us" "PUProvider u = MProvider (PPick d)"
      "MProvider (PPick d) \<notin> set (excluded (dest_scanned env args ?now ?from ?us))"
    assume rest: "destination env args ?now u" "MBand (PPick d) = Weekly (ClassifyPlan (wall env) u ?now (AThresholds args))"
      "MAccess (PPick d) = ModelAccessPlan" "ModelHasAvailableTokens (wall env) u (MModel (PPick d)) ?now (AThresholds args)"
      "\<exists>r \<in> set ModelCatalog. CatProvider r = MProvider (PPick d)"
    have "PUProvider u \<notin> set (excluded (dest_scanned env args ?now ?from ?us))" using u(2,3) by simp
    note k = scan_kept [OF u(1) this]
    show thesis by (rule that [OF s(1) _ u(1,2) _ k(1,3) rest]) (use k(2) m(2) s(1) in \<open>auto simp: must_leave_def\<close>)
  qed
qed

text \<open>C19. A seat is moved only for a reason and only to a place fit for it. When the decision is to migrate, a current and available
  reading of the seat's own plan says that seats must leave it; and the destination is another plan, one the host allows and
  does not exclude, with a current and available reading under which it has tokens for the model picked and stands in a
  band that receives work, the band the pick carries.\<close>

theorem migration_is_justified:
  assumes "ResolveSeatPlacement env (Some args) = Inr d" "PAction d = SeatMigrate"
  shows "\<exists>source dest. must_leave env args source \<and> PFrom d = PUProvider source \<and>
    dest \<in> set (plan_readings (AUsage args)) \<and> PUProvider dest = MProvider (PPick d) \<and> PUProvider dest \<noteq> PUProvider source \<and>
    may_go args (PUProvider dest) \<and> \<not> stalePlanReading dest (decided_at env args) (AMaxUsageAge args) \<and>
    destination env args (decided_at env args) dest \<and>
    ModelHasAvailableTokens (wall env) dest (MModel (PPick d)) (decided_at env args) (AThresholds args) \<and>
    MBand (PPick d) = Weekly (ClassifyPlan (wall env) dest (decided_at env args) (AThresholds args)) \<and>
    MAccess (PPick d) = ModelAccessPlan"
  by (rule migration_ends [OF assms]) blast

lemma catalog_plan_names: "r \<in> set ModelCatalog \<Longrightarrow> PlanProvider (CatProvider r) = CatProvider r \<and> \<not> blank (CatProvider r)"
proof -
  have "list_all (\<lambda>r. PlanProvider (CatProvider r) = CatProvider r \<and> \<not> blank (CatProvider r)) ModelCatalog"
    by code_simp
  then show "r \<in> set ModelCatalog \<Longrightarrow> ?thesis" by (simp add: list_all_iff)
qed

text \<open>C18. A move settles the seat. With one reading per plan, asking again on the same readings after the seat has moved to its
  destination leaves it there: seats do not bounce between plans.\<close>

theorem migration_settles:
  assumes "ResolveSeatPlacement env (Some args) = Inr d" "PAction d = SeatMigrate"
    "distinct (map PUProvider (plan_readings (AUsage args)))"
  shows "\<exists>d'. ResolveSeatPlacement env (Some (args\<lparr>ACurrentProvider := MProvider (PPick d)\<rparr>)) = Inr d' \<and>
    PAction d' = SeatStay \<and> PFrom d' = MProvider (PPick d)"
proof (rule migration_ends [OF assms(1,2)])
  fix dest
  assume dest: "dest \<in> set (plan_readings (AUsage args))" "PUProvider dest = MProvider (PPick d)"
    "\<not> stalePlanReading dest (decided_at env args) (AMaxUsageAge args)" "destination env args (decided_at env args) dest"
    and row: "\<exists>r \<in> set ModelCatalog. CatProvider r = MProvider (PPick d)"
  have "own_reading (MProvider (PPick d)) None (plan_readings (AUsage args)) = Inr (Some dest)"
    by (rule own_reading_found [OF assms(3) dest(1,2)])
  moreover have "\<not> ShouldVacate (wall env) dest (decided_at env args) (AThresholds args)"
    using dest(4) by (auto simp: destination_def HasAvailableTokens_def ShouldVacate_def Let_def)
  moreover have "PlanProvider (MProvider (PPick d)) = MProvider (PPick d)" "\<not> blank (MProvider (PPick d))"
    using row catalog_plan_names by (metis, metis)
  ultimately show ?thesis using dest(3,4)
    by (cases "IsZero (ANow args)") (simp_all add: ResolveSeatPlacement_def decided_at_def destination_def)
qed

text \<open>A seat is parked only on full knowledge. When the decision is to park, the seat must leave its plan, and every
  plan of the catalog that takes sessions, that is not the seat's own and that the host allows, has a reading; and every reading of
  an allowed plan other than the seat's own is current and available and says that the plan may not receive work.\<close>

lemma parked_on_full_knowledge:
  assumes "ResolveSeatPlacement env (Some args) = Inr d" "PAction d = SeatPark"
  shows "(\<exists>source. must_leave env args source) \<and>
    (\<forall>r \<in> set ModelCatalog. CatAccess r = ModelAccessPlan \<and> CatSession r \<and> CatProvider r \<noteq> PlanProvider (ACurrentProvider args) \<and>
      may_go args (CatProvider r) \<longrightarrow> CatProvider r \<in> PUProvider ` set (plan_readings (AUsage args))) \<and>
    (\<forall>u \<in> set (plan_readings (AUsage args)). PUProvider u \<noteq> PlanProvider (ACurrentProvider args) \<and> may_go args (PUProvider u) \<longrightarrow>
      \<not> stalePlanReading u (decided_at env args) (AMaxUsageAge args) \<and> PUStatus u = PlanUsageAvailable \<and>
      \<not> destination env args (decided_at env args) u)"
proof -
  let ?us = "plan_readings (AUsage args)" and ?from = "PlanProvider (ACurrentProvider args)" and ?now = "decided_at env args"
  have "PAction d \<noteq> SeatStay" using assms(2) by simp
  then obtain source pressure where s: "must_leave env args source" "d = place_elsewhere env args ?now ?from ?us pressure"
    by (rule placement_elsewhere [OF assms(1)])
  note k = place_elsewhere_parks [OF s(2) assms(2)]
  have in_play: "p \<notin> set (excluded (dest_scanned env args ?now ?from ?us))" if "p \<noteq> ?from" "may_go args p" for p
    using scan_excluded_why [of p env args ?now ?from ?us] k(2) that by blast
  have "CatProvider r \<in> PUProvider ` set ?us"
    if "r \<in> set ModelCatalog" "CatAccess r = ModelAccessPlan" "CatSession r" "CatProvider r \<noteq> ?from" "may_go args (CatProvider r)" for r
    using k(3) [OF that(1)] in_play [OF that(4,5)] that scan_mono(4) [of env args ?now _ ?us]
    by (auto simp: unread_dest_def may_go_def Let_def dest_scanned_def split: option.splits)
  moreover have "\<not> stalePlanReading u ?now (AMaxUsageAge args) \<and> PUStatus u = PlanUsageAvailable \<and> \<not> destination env args ?now u"
    if "u \<in> set ?us" "PUProvider u \<noteq> ?from" "may_go args (PUProvider u)" for u
    using scan_kept(3) [OF that(1) in_play [OF that(2,3)]] scan_known [OF that(1) in_play [OF that(2,3)] k(2,1)] by blast
  ultimately show ?thesis using s(1) by blast
qed

subsection \<open>An example\<close>

definition demo_seat :: placement_args where
  "demo_seat = \<lparr>ACurrentProvider = ''xai-oauth'', AUsage = demo_usage, AAllowedProviders = Some [ProviderClaude],
     AExcludeProviders = None, APreferProvider = [], AQuality = [], ANow = zero_time, AThresholds = None, AMaxUsageAge = 0\<rparr>"

definition nowhere_seat :: placement_args where
  "nowhere_seat = demo_seat\<lparr>AAllowedProviders := Some []\<rparr>"

lemma demo_seat_readings: "plan_readings demo_usage = demo_usage"
  by (simp add: plan_readings_def demo_usage_def demo_plan_def unavailablePlan_def PlanProvider_def provider_defs)

lemma demo_plan_fields [simp]: "PUProvider (demo_plan p x) = p" "PUStatus (demo_plan p x) = PlanUsageAvailable"
  by (simp_all add: demo_plan_def unavailablePlan_def)

lemma demo_plan_leaves: "ShouldVacate w (demo_plan p x) now th \<longleftrightarrow> x \<le> 0" "HasAvailableTokens w (demo_plan p x) now th \<longleftrightarrow> 0 < x"
proof -
  have "ModelWindowFor (demo_plan p x) [] = None" by (simp add: ModelWindowFor_def trimSpace_def)
  then show t: "HasAvailableTokens w (demo_plan p x) now th \<longleftrightarrow> 0 < x"
    using demo_plan_tokens [of w p x "[]" now th] by (simp add: ModelHasAvailableTokens_def split: if_split_asm)
  then show "ShouldVacate w (demo_plan p x) now th \<longleftrightarrow> x \<le> 0"
    using demo_plan_band [of w p x now th] by (auto simp: HasAvailableTokens_def ShouldVacate_def Let_def split: if_splits)
qed

lemma demo_own_reading: "own_reading ProviderGrok None demo_usage = Inr (Some (demo_plan ProviderGrok 0))"
  by (simp add: demo_usage_def provider_defs)

lemma demo_elsewhere:
  "args = demo_seat \<or> args = nowhere_seat \<Longrightarrow> ResolveSeatPlacement demo_env (Some args) =
     Inr (place_elsewhere demo_env args zero_time ProviderGrok demo_usage
       (if Session (ClassifyPlan zero_time (demo_plan ProviderGrok 0) zero_time None) = SessionExhausted
        then ''session exhausted'' else ''weekly hot or exhausted''))"
proof -
  assume a: "args = demo_seat \<or> args = nowhere_seat"
  have "\<not> blank ''xai-oauth''" by code_simp
  moreover have "ACurrentProvider args = ''xai-oauth''" "AUsage args = demo_usage" "ANow args = zero_time" "AThresholds args = None"
      "AMaxUsageAge args = 0" using a by (auto simp: demo_seat_def nowhere_seat_def)
  moreover have "PlanProvider ''xai-oauth'' = ProviderGrok" "wall demo_env = zero_time" by (simp_all add: PlanProvider_def demo_env_def)
  ultimately show ?thesis
    by (simp add: ResolveSeatPlacement_def demo_seat_readings demo_own_reading demo_plan_leaves stalePlanReading_def Let_def)
qed

lemma demo_scanned:
  "dest_scanned demo_env demo_seat zero_time ProviderGrok demo_usage =
     \<lparr>excluded = [ProviderGrok, ProviderGrok], eligible = 1, seen = [ProviderGrok, ProviderClaude], uncertain = False\<rparr>"
  "dest_scanned demo_env nowhere_seat zero_time ProviderGrok demo_usage =
     \<lparr>excluded = [ProviderGrok, ProviderClaude, ProviderGrok], eligible = 0, seen = [ProviderGrok, ProviderClaude], uncertain = False\<rparr>"
  by (simp_all add: dest_scanned_def demo_usage_def demo_seat_def nowhere_seat_def scan_dest_def demo_plan_leaves demo_plan_band
      stalePlanReading_def PlanProvider_def provider_defs dest_band_iff Let_def)

lemma demo_seat_migrates:
  "\<exists>d. ResolveSeatPlacement demo_env (Some demo_seat) = Inr d \<and> PAction d = SeatMigrate"
proof -
  let ?p = "dest_predicates demo_seat zero_time demo_usage (dest_scanned demo_env demo_seat zero_time ProviderGrok demo_usage)"
  have p: "QMode ?p = CapabilitySession" "QOwnerOverride ?p = []" "QThresholds ?p = None" "wanted_quality ?p = ModelQualityStandard"
      "QPreferPlan ?p" "asked_at demo_env ?p = zero_time"
    by (simp_all add: dest_predicates_def demo_seat_def demo_env_def wanted_quality_def asked_at_def)
  have "ProviderClaude \<notin> set (QExcludeProviders ?p)" unfolding demo_scanned by (auto simp: dest_predicates_def provider_defs)
  note p = this p
  have "\<not> skipForUsage demo_env ?p (Some (demo_plan ProviderClaude 60)) zero_time"
    by (simp add: skipForUsage_def demo_plan_band publishedPlanBand_def)
  moreover have "ProviderClaude \<noteq> ProviderGrok" by (simp add: provider_defs)
  ultimately have "\<exists>c. catalog_judge demo_env ?p demo_usage sonnet = Inr c \<and> IsDestBand (band c)"
    using p by (simp add: catalog_judge_def judge_row_def demo_reading demo_plan_tokens demo_plan_band plan_row_def
        Let_def dest_band_iff model_names)
  moreover have "fair_draw demo_env ?p" by (simp add: fair_draw_def dest_predicates_def demo_env_def)
  ultimately obtain pick where "Resolve demo_env ?p = Inr pick"
    using Resolve_answers [OF dest_predicates_simps(1,2) demo_candidate(1)] by blast
  then show ?thesis by (simp add: demo_elsewhere place_elsewhere_def demo_scanned Let_def)
qed

theorem migration_is_justified_witness:
  "\<exists>d. ResolveSeatPlacement demo_env (Some demo_seat) = Inr d \<and> PFrom d = ProviderGrok \<and> MProvider (PPick d) = ProviderClaude"
proof -
  obtain d where d: "ResolveSeatPlacement demo_env (Some demo_seat) = Inr d" "PAction d = SeatMigrate"
    using demo_seat_migrates by blast
  have seat: "set (plan_readings (AUsage demo_seat)) = {demo_plan ProviderClaude 60, demo_plan ProviderGrok 0}"
      "PlanProvider (ACurrentProvider demo_seat) = ProviderGrok"
    by (simp_all add: demo_seat_def demo_seat_readings) (simp_all add: demo_usage_def PlanProvider_def)
  have "PFrom d = ProviderGrok \<and> MProvider (PPick d) = ProviderClaude"
    using migration_is_justified [OF d] unfolding must_leave_def seat by auto
  then show ?thesis using d(1) by blast
qed

theorem migration_settles_witness:
  "\<exists>d d'. ResolveSeatPlacement demo_env (Some demo_seat) = Inr d \<and> PAction d = SeatMigrate \<and>
     ResolveSeatPlacement demo_env (Some (demo_seat\<lparr>ACurrentProvider := MProvider (PPick d)\<rparr>)) = Inr d' \<and> PAction d' = SeatStay"
proof -
  obtain d where d: "ResolveSeatPlacement demo_env (Some demo_seat) = Inr d" "PAction d = SeatMigrate"
    using demo_seat_migrates by blast
  have "distinct (map PUProvider (plan_readings (AUsage demo_seat)))"
    by (simp add: demo_seat_def demo_seat_readings) (simp add: demo_usage_def provider_defs)
  from migration_settles [OF d this] d show ?thesis by blast
qed

lemma parked_on_full_knowledge_witness:
  "\<exists>d. ResolveSeatPlacement demo_env (Some nowhere_seat) = Inr d \<and> PAction d = SeatPark \<and>
     (\<exists>source. must_leave demo_env nowhere_seat source)"
proof -
  let ?d = "place_elsewhere demo_env nowhere_seat zero_time ProviderGrok demo_usage
    (if Session (ClassifyPlan zero_time (demo_plan ProviderGrok 0) zero_time None) = SessionExhausted
        then ''session exhausted'' else ''weekly hot or exhausted'')"
  have "\<not> unread_dest nowhere_seat ProviderGrok s r" for s r by (simp add: unread_dest_def nowhere_seat_def)
  then have "PAction ?d = SeatPark" by (simp add: place_elsewhere_def demo_scanned Let_def)
  moreover have "ResolveSeatPlacement demo_env (Some nowhere_seat) = Inr ?d" by (rule demo_elsewhere) simp
  ultimately show ?thesis using parked_on_full_knowledge by blast
qed

subsection \<open>Policies survive their file\<close>

lemma saved_rows: "map_of (map (\<lambda>(n, p). (n, as_stored p)) rows) name = map_option as_stored (map_of rows name)"
  by (induction rows) auto

lemma with_stored_policy: "with_policy args (as_stored p) = with_policy args p"
  by (auto simp: with_policy_def Allowed_def as_stored_def nonempty_def)

text \<open>An allow-list that is empty but not nil is reported as a restriction and yet restricts nothing.\<close>

lemma empty_allow_list_allows_all:
  assumes "SAllowedProviders p = Some []" "\<not> SAllowNone p" "AAllowedProviders args = None"
  shows "snd (Allowed p) \<and> AAllowedProviders (with_policy args p) = None"
  using assms by (simp add: Allowed_def with_policy_def nonempty_def)

text \<open>A seat policy survives its file. When a policy is put into a store with a file and the write succeeds, a process that
  opens the file afterwards decides every placement of that seat as the store that wrote it does; the policies of the
  other seats are untouched in the store, and a failed write is reported.\<close>

lemma policy_survives_its_file:
  assumes "OpenSeatPolicyStore d dir = Inr st" "dir \<noteq> []" "seats_json d dir \<noteq> []"
    "policy_put d (Some st) name policy = (r, st', d')"
  shows "(case r of
      Inr _ \<Rightarrow> \<exists>st''. OpenSeatPolicyStore d' dir = Inr st'' \<and>
        (\<forall>env args. ResolveSeatPlacementForSeat env name (Some st'') (Some args) = ResolveSeatPlacementForSeat env name st' (Some args)) \<and>
        policy_get (Some st'') name = as_stored policy
    | Inl e \<Rightarrow> e = SaveFailed \<and> d' = d) \<and>
    policy_get st' name = policy \<and> (\<forall>other. other \<noteq> name \<longrightarrow> policy_get st' other = policy_get (Some st) other)"
proof -
  let ?st = "st\<lparr>SRows := AList.update name policy (SRows st)\<rparr>"
  have path: "SPath st = seats_json d dir"
    using assms(1,2) by (auto simp: OpenSeatPolicyStore_def Let_def split: policy_file.splits)
  have st': "st' = Some ?st" and save: "policy_save d ?st = (r, d')"
    using assms(4) by (auto simp: policy_put_def policy_update_def Let_def split: prod.splits)
  have get: "policy_get st' n = (if n = name then policy else policy_get (Some st) n)" for n
    by (simp add: st' policy_get_def update_conv')
  show ?thesis
  proof (cases "policy_writable d")
    case False
    then show ?thesis using save path assms(3) get by (auto simp: policy_save_def)
  next
    case True
    define st'' where "st'' = \<lparr>SPath = seats_json d dir, SRows = map (\<lambda>(n, p). (n, as_stored p)) (SRows ?st)\<rparr>"
    have "r = Inr ()" "OpenSeatPolicyStore d' dir = Inr st''"
      using save True path assms(2,3) by (auto simp: policy_save_def OpenSeatPolicyStore_def st''_def Let_def)
    moreover have g: "policy_get (Some st'') name = as_stored policy"
      by (simp add: policy_get_def st''_def saved_rows update_conv')
    moreover have "ResolveSeatPlacementForSeat env name (Some st'') (Some args) = ResolveSeatPlacementForSeat env name st' (Some args)"
      for env args using get [of name] by (simp add: ResolveSeatPlacementForSeat_def g with_stored_policy) (simp add: st')
    ultimately show ?thesis using get by simp
  qed
qed

definition demo_disk :: policy_disk where
  "demo_disk = \<lparr>policy_files = (\<lambda>p. NoFile), seats_json = (\<lambda>dir. dir @ ''/seats.json''), policy_writable = True\<rparr>"

lemma policy_survives_its_file_witness:
  "\<exists>st st'' d'. OpenSeatPolicyStore demo_disk ''p'' = Inr st \<and>
     fst (policy_put demo_disk (Some st) ''seat'' (zero_policy\<lparr>SAllowNone := True\<rparr>)) = Inr () \<and>
     OpenSeatPolicyStore d' ''p'' = Inr st'' \<and> policy_get (Some st'') ''seat'' = zero_policy\<lparr>SAllowNone := True\<rparr>"
proof -
  let ?st = "\<lparr>SPath = ''p/seats.json'', SRows = []\<rparr>" and ?p = "zero_policy\<lparr>SAllowNone := True\<rparr>"
  have o: "OpenSeatPolicyStore demo_disk ''p'' = Inr ?st" by (simp add: OpenSeatPolicyStore_def demo_disk_def)
  obtain r st' d' where put: "policy_put demo_disk (Some ?st) ''seat'' ?p = (r, st', d')" by (metis prod_cases3)
  then have "r = Inr ()" by (auto simp: policy_put_def policy_update_def policy_save_def demo_disk_def Let_def)
  then obtain st'' where "OpenSeatPolicyStore d' ''p'' = Inr st''" "policy_get (Some st'') ''seat'' = as_stored ?p"
    using policy_survives_its_file [OF o _ _ put] by (auto simp: demo_disk_def)
  moreover have "as_stored ?p = ?p" by (simp add: as_stored_def zero_policy_def nonempty_def)
  ultimately show ?thesis using o put \<open>r = Inr ()\<close> by fastforce
qed

end
