(* ===== verification/FleetPick.thy ===== *)
theory FleetPick
  imports Resolving
begin

text \<open>
  The usage roster and the pick by remaining allowance (src/plan_fleet.go). \<open>exec_wired\<close> is whether
  the sidecar of the host can run Cursor's native tools.
\<close>

definition fleetProviders :: "provider list" where
  "fleetProviders = [ProviderCursor, ProviderGrok, ProviderClaude, ProviderCodex]"

definition FleetReasonBinaryNotFound :: string where "FleetReasonBinaryNotFound = ''binary_not_found''"
definition FleetReasonSpendLimit :: string where "FleetReasonSpendLimit = ''spend_limit''"
definition FleetReasonSeatToolsUnwired :: string where "FleetReasonSeatToolsUnwired = ''seat_tools_unwired''"

definition FleetExclusionReason :: "string \<Rightarrow> string" where
  "FleetExclusionReason detail =
     (if starts_with FleetReasonSeatToolsUnwired detail then FleetReasonSeatToolsUnwired else FleetReasonBinaryNotFound)"

datatype binary_error = SeatToolsUnwired | TaskCLIRemoved provider

definition ProviderBinaryError :: "bool \<Rightarrow> provider \<Rightarrow> bool \<Rightarrow> binary_error option" where
  "ProviderBinaryError exec_wired p session =
     (if session \<and> useOMP p then (if p = ProviderCursor \<and> \<not> exec_wired then Some SeatToolsUnwired else None)
      else if p \<in> {[], ProviderClaude, ProviderCodex, ProviderGrok, ProviderCursor, ''anthropic'', ''openai-codex'', ''xai-oauth''}
      then Some (TaskCLIRemoved p)
      else None)"

record fleet_row =
  FProvider :: provider
  FStatus :: string
  FAdmit :: bool
  FRemainingPercent :: "real option"
  FWindow :: string
  FReason :: string

record fleet_snapshot =
  FFetchedAt :: go_time
  FProviders :: "fleet_row list"

record fleet_pick =
  PickProvider :: provider
  PickRemainingPercent :: real
  PickWindow :: string

datatype fleet_error = PlanExhausted

definition exclude_row :: "(provider \<Rightarrow> string option) \<Rightarrow> fleet_row \<Rightarrow> fleet_row" where
  "exclude_row missing r =
     (case missing (FProvider r) of None \<Rightarrow> r
      | Some detail0 \<Rightarrow>
          (let detail = trimSpace detail0 in
           r\<lparr>FAdmit := False,
             FReason := (if FleetExclusionReason detail = FleetReasonSeatToolsUnwired then detail
               else FleetReasonBinaryNotFound @ '': '' @ detail)\<rparr>))"

definition ExcludeUnlaunchable :: "fleet_snapshot \<Rightarrow> (provider \<Rightarrow> string option) \<Rightarrow> fleet_snapshot" where
  "ExcludeUnlaunchable snap missing = snap\<lparr>FProviders := map (exclude_row missing) (FProviders snap)\<rparr>"

definition fleetRemaining :: "plan_usage \<Rightarrow> (real \<times> string) option" where
  "fleetRemaining u =
     (let published = (\<lambda>w. case w of None \<Rightarrow> None | Some v \<Rightarrow> map_option (\<lambda>r. (r, WName v)) (RemainingPercent v)) in
      if PUStatus u \<noteq> PlanUsageAvailable then None
      else (case published (primaryAllowanceWindow u) of Some x \<Rightarrow> Some x
        | None \<Rightarrow> published (planLevelWindow u PlanWindowSession)))"

definition no_reading :: "provider \<Rightarrow> plan_usage" where
  "no_reading p = \<lparr>PUProvider = p, PUStatus = PlanUsageUnavailable, PUReason = ''no reading'', Windows = [],
     FetchedAt = zero_time, PlanType = [], HTTPStatus = 0, RawBody = [], Credits = None, Spend = None\<rparr>"

definition fleet_row_of :: "go_time \<Rightarrow> go_time \<Rightarrow> plan_thresholds option \<Rightarrow> plan_usage \<Rightarrow> fleet_row" where
  "fleet_row_of clk now th u =
     \<lparr>FProvider = PUProvider u,
      FStatus = (if PUStatus u = [] then PlanUsageUnavailable else PUStatus u),
      FAdmit = HasAvailableTokens clk u now th,
      FRemainingPercent = map_option fst (fleetRemaining u),
      FWindow = (case fleetRemaining u of Some (_, w) \<Rightarrow> w | None \<Rightarrow> []),
      FReason = (if \<not> HasAvailableTokens clk u now th \<and> SpendLimitReached u
        then FleetReasonSpendLimit @ '': provider reports its spend limit reached'' else PUReason u)\<rparr>"

definition ProjectFleetUsage ::
  "go_time \<Rightarrow> plan_usage list \<Rightarrow> go_time \<Rightarrow> go_time \<Rightarrow> plan_thresholds option \<Rightarrow> fleet_snapshot" where
  "ProjectFleetUsage clk usage fetchedAt now0 th =
     (let now = (if IsZero now0 then clk else now0) in
      \<lparr>FFetchedAt = fetchedAt,
       FProviders = map (\<lambda>p. fleet_row_of clk now th
         (case indexPlanUsage usage p of Some u \<Rightarrow> u | None \<Rightarrow> no_reading p)) fleetProviders\<rparr>)"

fun fullest ::
  "go_time \<Rightarrow> go_time \<Rightarrow> plan_thresholds option \<Rightarrow> (provider \<Rightarrow> plan_usage option) \<Rightarrow> fleet_pick option \<Rightarrow> provider list
    \<Rightarrow> fleet_pick option" where
  "fullest clk now th byProv best [] = best"
| "fullest clk now th byProv best (p # ps) =
     fullest clk now th byProv
       (case byProv p of None \<Rightarrow> best
        | Some u \<Rightarrow>
            if \<not> HasAvailableTokens clk u now th then best
            else (case fleetRemaining u of None \<Rightarrow> best
              | Some (pct, w) \<Rightarrow>
                  if (case best of None \<Rightarrow> False | Some b \<Rightarrow> pct \<le> PickRemainingPercent b) then best
                  else Some \<lparr>PickProvider = p, PickRemainingPercent = pct, PickWindow = w\<rparr>)) ps"

definition PickByRemaining ::
  "go_time \<Rightarrow> plan_usage list \<Rightarrow> go_time \<Rightarrow> plan_thresholds option \<Rightarrow> fleet_error + fleet_pick" where
  "PickByRemaining clk usage now0 th =
     (let now = (if IsZero now0 then clk else now0) in
      case fullest clk now th (indexPlanUsage usage) None fleetProviders of None \<Rightarrow> Inl PlanExhausted | Some b \<Rightarrow> Inr b)"

subsection \<open>The roster explains the pick\<close>

text \<open>The rows a pick can come from: admitted, with a percentage.\<close>

definition pickable :: "fleet_snapshot \<Rightarrow> fleet_row list" where
  "pickable snap = filter (\<lambda>r. FAdmit r \<and> FRemainingPercent r \<noteq> None) (FProviders snap)"

definition row_pick :: "fleet_row \<Rightarrow> fleet_pick" where
  "row_pick r = \<lparr>PickProvider = FProvider r, PickRemainingPercent = the (FRemainingPercent r), PickWindow = FWindow r\<rparr>"

definition left_on :: "fleet_row \<Rightarrow> real" where
  "left_on r = the (FRemainingPercent r)"

text \<open>The first of the fullest rows.\<close>

definition first_fullest :: "fleet_row list \<Rightarrow> fleet_pick \<Rightarrow> bool" where
  "first_fullest rows b \<longleftrightarrow> (\<exists>pre r post. rows = pre @ r # post \<and> b = row_pick r \<and>
     (\<forall>x \<in> set pre. left_on x < left_on r) \<and> (\<forall>x \<in> set post. left_on x \<le> left_on r))"

lemma first_fullest_snoc:
  assumes "first_fullest rows b"
  shows "first_fullest (rows @ [r]) (if left_on r \<le> PickRemainingPercent b then b else row_pick r)"
proof -
  obtain pre q post where q: "rows = pre @ q # post" "b = row_pick q" "\<forall>x \<in> set pre. left_on x < left_on q"
      "\<forall>x \<in> set post. left_on x \<le> left_on q" using assms by (auto simp: first_fullest_def)
  have b: "PickRemainingPercent b = left_on q" by (simp add: q(2) row_pick_def left_on_def)
  show ?thesis
  proof (cases "left_on r \<le> left_on q")
    case True
    have "first_fullest (rows @ [r]) b" unfolding first_fullest_def
      by (rule exI [of _ pre], rule exI [of _ q], rule exI [of _ "post @ [r]"]) (use True q in auto)
    then show ?thesis using True b by simp
  next
    case False
    then have "\<forall>x \<in> set rows. left_on x < left_on r" using q by force
    then have "first_fullest (rows @ [r]) (row_pick r)"
      unfolding first_fullest_def by (intro exI [of _ rows] exI [of _ r] exI [of _ "[]"]) simp
    then show ?thesis using False b by simp
  qed
qed

lemma indexed_provider: "indexPlanUsage us p = Some u \<Longrightarrow> PUProvider u = p"
  by (auto simp: indexPlanUsage_def find_Some_iff)

lemma no_reading_row: "fleetRemaining (no_reading p) = None"
  by (simp add: fleetRemaining_def no_reading_def plan_names)

text \<open>The row of a provider, if it can be picked.\<close>

definition candidate_rows :: "go_time \<Rightarrow> go_time \<Rightarrow> plan_thresholds option \<Rightarrow> plan_usage list \<Rightarrow> provider \<Rightarrow> fleet_row list" where
  "candidate_rows clk now th us p =
     filter (\<lambda>r. FAdmit r \<and> FRemainingPercent r \<noteq> None)
       [fleet_row_of clk now th (case indexPlanUsage us p of Some u \<Rightarrow> u | None \<Rightarrow> no_reading p)]"

lemma fullest_step:
  "fullest clk now th (indexPlanUsage us) best (p # ps) = fullest clk now th (indexPlanUsage us)
     (case candidate_rows clk now th us p of [] \<Rightarrow> best
      | r # _ \<Rightarrow> if (case best of None \<Rightarrow> False | Some b \<Rightarrow> left_on r \<le> PickRemainingPercent b) then best else Some (row_pick r)) ps"
proof (cases "indexPlanUsage us p")
  case None
  then show ?thesis by (simp add: candidate_rows_def fleet_row_of_def no_reading_row)
next
  case (Some u)
  note p = indexed_provider [OF this]
  show ?thesis
    by (cases "fleetRemaining u"; cases "HasAvailableTokens clk u now th"; cases best)
      (auto simp: Some p candidate_rows_def fleet_row_of_def row_pick_def left_on_def)
qed

lemma fullest_first:
  assumes "case best of None \<Rightarrow> rows = [] | Some b \<Rightarrow> first_fullest rows b"
  shows "case fullest clk now th (indexPlanUsage us) best ps of
      None \<Rightarrow> rows @ concat (map (candidate_rows clk now th us) ps) = []
    | Some b \<Rightarrow> first_fullest (rows @ concat (map (candidate_rows clk now th us) ps)) b"
  using assms
proof (induction ps arbitrary: best rows)
  case Nil
  then show ?case by (cases best) simp_all
next
  case (Cons p ps)
  have "case (case candidate_rows clk now th us p of [] \<Rightarrow> best
      | r # _ \<Rightarrow> if (case best of None \<Rightarrow> False | Some b \<Rightarrow> left_on r \<le> PickRemainingPercent b) then best else Some (row_pick r))
    of None \<Rightarrow> rows @ candidate_rows clk now th us p = [] | Some b \<Rightarrow> first_fullest (rows @ candidate_rows clk now th us p) b"
  proof (cases "candidate_rows clk now th us p")
    case Nil
    then show ?thesis using Cons.prems by (cases best) simp_all
  next
    case (Cons r rs)
    then have r: "candidate_rows clk now th us p = [r]" by (auto simp: candidate_rows_def split: if_splits)
    show ?thesis
    proof (cases best)
      case None
      moreover have "first_fullest [r] (row_pick r)" by (fastforce simp: first_fullest_def)
      ultimately show ?thesis using r \<open>case best of None \<Rightarrow> rows = [] | Some b \<Rightarrow> first_fullest rows b\<close> by simp
    next
      case (Some b)
      then show ?thesis using r \<open>case best of None \<Rightarrow> rows = [] | Some b \<Rightarrow> first_fullest rows b\<close> first_fullest_snoc [of rows b r]
        by (simp split: if_splits)
    qed
  qed
  from Cons.IH [OF this] show ?case unfolding fullest_step list.map concat.simps append_assoc .
qed

text \<open>The roster explains the pick. The provider picked by remaining allowance is the first of the fullest among the rows that the
  roster shows as admitted and with a percentage, with the percentage and the window shown there; and there is no pick exactly when
  the roster has no such row.\<close>

lemma roster_explains_the_pick:
  "case PickByRemaining clk us now th of
     Inl e \<Rightarrow> pickable (ProjectFleetUsage clk us fetchedAt now th) = []
   | Inr b \<Rightarrow> first_fullest (pickable (ProjectFleetUsage clk us fetchedAt now th)) b"
proof -
  define t where "t = (if IsZero now then clk else now)"
  have "pickable (ProjectFleetUsage clk us fetchedAt now th) = concat (map (candidate_rows clk t th us) fleetProviders)"
    by (simp add: pickable_def ProjectFleetUsage_def candidate_rows_def fleetProviders_def Let_def t_def)
  moreover have "PickByRemaining clk us now th =
      (case fullest clk t th (indexPlanUsage us) None fleetProviders of None \<Rightarrow> Inl PlanExhausted | Some b \<Rightarrow> Inr b)"
    by (simp add: PickByRemaining_def t_def Let_def)
  ultimately show ?thesis
    using fullest_first [where best = None and rows = "[]" and clk = clk and now = t and th = th and us = us and ps = fleetProviders]
    by (simp split: option.splits)
qed

end
