(* ===== verification/FleetData.thy ===== *)
theory FleetData
  imports GoTime UsageFacts
begin

text \<open>
  The data of the fleet kernel (src/fleet.go, src/fleet_timer.go, src/fleet_expect.go,
  src/fleet_budget.go, src/fleet_check.go, src/fleet_tools.go), and its pure functions.

  A fleet is a named tree of agents that send each other messages. The state of one fleet is a
  \<open>fleet\<close>: the saved \<open>fleetGroupState\<close>, the fleet's log, and the entries of the kernel's maps
  (\<open>running\<close>, \<open>starting\<close>, \<open>reviving\<close>, \<open>timers\<close>) under the fleet's key. Maps are association lists;
  instants and durations are counts of nanoseconds, with \<open>None\<close> for a zero or absent time; a counter
  that is only ever incremented is a number without a bound, and a float is a real number.
  A pointer to a message or to an agent is followed through its ID or its name, which are unique in
  the fleet (\<open>FleetLedger\<close>), and a pointer to a runtime through the number \<open>rtId\<close>.
\<close>

subsection \<open>Constants\<close>

definition FleetOwner :: string where "FleetOwner = ''owner''"
definition FleetNoReply :: string where "FleetNoReply = ''NOREPLY''"
definition FleetRequest :: string where "FleetRequest = ''request''"
definition FleetResponse :: string where "FleetResponse = ''response''"
definition FleetTimer :: string where "FleetTimer = ''timer''"
definition FleetNotice :: string where "FleetNotice = ''notice''"
definition FleetEventMessage :: string where "FleetEventMessage = ''message''"
definition FleetAuthorityAll :: string where "FleetAuthorityAll = ''all''"
definition FleetBudgetSender :: string where "FleetBudgetSender = ''budget''"
definition FleetClockSender :: string where "FleetClockSender = ''clock''"
definition FleetExpediteSteer :: string where "FleetExpediteSteer = ''steer''"
definition FleetExpediteInterrupt :: string where "FleetExpediteInterrupt = ''interrupt''"

definition fleetDefaultMaxAgents :: int where "fleetDefaultMaxAgents = 12"
definition fleetDefaultMaxMessages :: int where "fleetDefaultMaxMessages = 2000"
definition fleetMaxName :: nat where "fleetMaxName = 48"
definition fleetMaxText :: nat where "fleetMaxText = 131072"
definition fleetEventRing :: nat where "fleetEventRing = 512"
definition fleetReadBytes :: nat where "fleetReadBytes = 524288"
definition fleetMaxDeaths :: nat where "fleetMaxDeaths = 3"
definition fleetMinEvery :: int where "fleetMinEvery = 60000000000"

lemma fleet_kinds [simp]:
  "FleetRequest \<noteq> FleetResponse" "FleetResponse \<noteq> FleetRequest"
  "FleetRequest \<noteq> FleetTimer" "FleetTimer \<noteq> FleetRequest"
  "FleetRequest \<noteq> FleetNotice" "FleetNotice \<noteq> FleetRequest"
  "FleetResponse \<noteq> FleetTimer" "FleetTimer \<noteq> FleetResponse"
  "FleetResponse \<noteq> FleetNotice" "FleetNotice \<noteq> FleetResponse"
  by (simp_all add: FleetRequest_def FleetResponse_def FleetTimer_def FleetNotice_def)

subsection \<open>Messages and events\<close>

record fleet_message =
  mID :: string
  mKind :: string
  mFrom :: string
  mTo :: string
  mInReplyTo :: string
  mText :: string
  mRedelivered :: bool
  mSentAt :: "int option"
  mDue :: "int option"
  mMissed :: int
  mTimer :: string
  mCharged :: bool
  mReclaimed :: bool
  mSteering :: bool

text \<open>A message literal of the source: the fields it does not name are zero.\<close>

definition message :: "string \<Rightarrow> string \<Rightarrow> string \<Rightarrow> string \<Rightarrow> string \<Rightarrow> fleet_message" where
  "message kind sender recipient answers body =
     \<lparr>mID = [], mKind = kind, mFrom = sender, mTo = recipient, mInReplyTo = answers, mText = body,
      mRedelivered = False, mSentAt = None, mDue = None, mMissed = 0, mTimer = [], mCharged = False,
      mReclaimed = False, mSteering = False\<rparr>"

record check_result =
  rsRunID :: string
  rsName :: string
  rsCommit :: string
  rsSHA256 :: string
  rsRequester :: string
  rsExit :: int
  rsScore :: "real option"
  rsOutput :: string
  rsSeconds :: real
  rsError :: string

record fleet_event =
  eSeq :: nat
  eAt :: int
  eKind :: string
  eAgent :: string
  eParent :: string
  eRoot :: string
  eModel :: string
  eCause :: string
  eText :: string
  eUsage :: "usage option"
  eMessage :: "fleet_message option"
  eCheck :: "check_result option"

definition event :: "string \<Rightarrow> string \<Rightarrow> fleet_event" where
  "event kind agent =
     \<lparr>eSeq = 0, eAt = 0, eKind = kind, eAgent = agent, eParent = [], eRoot = [], eModel = [],
      eCause = [], eText = [], eUsage = None, eMessage = None, eCheck = None\<rparr>"

subsection \<open>Saved state\<close>

record fleet_agent =
  aName :: string
  aParent :: string
  aRoot :: string
  aInstructions :: string
  aToken :: string
  aWorkDir :: string
  aQuality :: string
  aPurpose :: string
  aModel :: string
  aInbox :: "fleet_message list"
  aCurrent :: "fleet_message option"
  aSteered :: "fleet_message list"
  aBriefed :: bool
  aStopped :: bool
  aCurrentSince :: "int option"
  aLastTurnEnd :: "int option"
  aBudgets :: "string list"
  aOwnBudget :: string
  aAuthority :: string
  aTools :: "string slice"
  aRetiring :: bool

record fleet_timer =
  tAt :: int
  tEvery :: int
  tFires :: nat
  tMessage :: fleet_message

record budget_limits =
  limTokens :: int
  limTurns :: int
  limSeconds :: real

record fleet_budget =
  bHolder :: string
  bSetBy :: string
  bLimits :: budget_limits
  bStarted :: int
  bSpentTokens :: int
  bSpentTurns :: int
  bNotified :: bool

record fleet_expect =
  xFrom :: string
  xTo :: string
  xKind :: string
  xSentAt :: int
  xAcceptBy :: "int option"
  xAnswerBy :: "int option"
  xAccepted :: "int option"

record fleet_check =
  cRepo :: string
  cPath :: string
  cSHA256 :: string
  cAgentsMayRun :: bool
  cTimeoutSeconds :: real
  cRegistered :: int
  cRegisteredBy :: string

record fleet_check_run =
  nCheck :: string
  nCommit :: string
  nRequester :: string
  nRequesterToken :: string
  nStarted :: int

record fleet_group =
  gMaxAgents :: int
  gMaxMessages :: int
  gNextID :: nat
  gSent :: int
  gClosing :: bool
  gAgents :: "(string \<times> fleet_agent) list"
  gTimers :: "(string \<times> fleet_timer) list"
  gBudgets :: "(string \<times> fleet_budget) list"
  gChecks :: "(string \<times> fleet_check) list"
  gCheckRuns :: "(string \<times> fleet_check_run) list"
  gCheckLast :: "(string \<times> check_result) list"
  gExpects :: "(string \<times> fleet_expect) list"

subsection \<open>Run-time state\<close>

text \<open>\<open>rtId\<close> is the runtime's address; its seat, its condition variable and its agent are reached
  through the agent's name.\<close>

record fleet_runtime =
  rtId :: nat
  rtDeaths :: nat
  rtTurns :: nat
  rtInterruptedBy :: string
  rtInterruptFor :: string
  rtInterruptTurn :: nat
  rtInterrupting :: int
  rtLive :: bool
  rtPending :: "(string \<times> string) option"

text \<open>\<open>lFile\<close> is the events of the log file, \<open>lRecent\<close> its tail kept in memory.\<close>

record fleet_log =
  lSeq :: nat
  lFile :: "fleet_event list"
  lRecent :: "fleet_event list"

record fleet =
  kClosed :: bool
  kGroup :: fleet_group
  kLog :: fleet_log
  kRunning :: "(string \<times> fleet_runtime) list"
  kStarting :: "string set"
  kReviving :: "string set"
  kTimers :: "(string \<times> int) list"
  kNextRuntime :: nat

datatype fleet_error =
    FleetClosed
  | NoFleet
  | ShuttingDown
  | BadName
  | ReadInstructions
  | NoInstructions
  | WorkDirNotAbsolute
  | NegativeBudget
  | UnknownAuthority
  | OnlyOwnerGrants
  | NoAgent string
  | NoWorkDir
  | NoTool string
  | ToolNotHeld string
  | AgentExists
  | AgentLimit
  | SaveFailed
  | NotAuthorized string string
  | StillStarting
  | BadKind
  | NegativeDelay
  | DelayAndTime
  | RepeatTooShort
  | SelfNeedsDelay
  | MessageLimit
  | NegativeExpectation
  | ExpectScheduled
  | ExpectOwner
  | ExpectNoAnswer
  | BadMode
  | NotWaiting
  | NoTimer
  | NoBudget
  | NoCheck
  | BadRevision
  | RepoNotAbsolute
  | BadRepo
  | NoScript
  | BadTimeout
  | CheckQueueFull
  | PinFailed

subsection \<open>Names\<close>

definition name_char :: "char \<Rightarrow> bool" where
  "name_char c \<longleftrightarrow> is_digit c \<or> (97 \<le> (of_char c :: nat) \<and> (of_char c :: nat) \<le> 122)"

text \<open>\<open>fleetNamePattern\<close>, \<open>^[a-z0-9]+(-[a-z0-9]+)*$\<close>, read from the left; \<open>inside\<close> says that the last
  character was a letter or a digit.\<close>

fun name_pattern :: "bool \<Rightarrow> string \<Rightarrow> bool" where
  "name_pattern inside [] \<longleftrightarrow> inside"
| "name_pattern inside (c # s) \<longleftrightarrow>
     (if name_char c then name_pattern True s
      else inside \<and> c = CHR ''-'' \<and> name_pattern False s)"

definition fleetNameValid :: "string \<Rightarrow> bool" where
  "fleetNameValid name \<longleftrightarrow> length name \<le> fleetMaxName \<and> name_pattern False name"

text \<open>\<open>fleetBudgetIDPattern\<close>, \<open>^b[0-9]+$\<close>.\<close>

definition budget_id_pattern :: "string \<Rightarrow> bool" where
  "budget_id_pattern s \<longleftrightarrow> (case s of [] \<Rightarrow> False | c # ds \<Rightarrow> c = CHR ''b'' \<and> ds \<noteq> [] \<and> list_all is_digit ds)"

subsection \<open>Texts\<close>

definition boundFleetText :: "string \<Rightarrow> string" where
  "boundFleetText s =
     (if length s \<le> fleetMaxText then s
      else take fleetMaxText s @ ''\<newline>[truncated by Claudia]'')"

definition ends_with :: "string \<Rightarrow> string \<Rightarrow> bool" where
  "ends_with suffix s \<longleftrightarrow> length suffix \<le> length s \<and> drop (length s - length suffix) s = suffix"

definition signed_decimal :: "int \<Rightarrow> string" where
  "signed_decimal n = (if n < 0 then ''-'' @ decimal (nat (- n)) else decimal (nat n))"

text \<open>Go's division of integers, which truncates toward zero.\<close>

definition quot :: "int \<Rightarrow> int \<Rightarrow> int" where
  "quot a b = (if a < 0 then - (- a div b) else a div b)"

definition fleetDuration :: "int \<Rightarrow> string" where
  "fleetDuration d =
     (if d < 60000000000 then signed_decimal (quot d 1000000000) @ ''s''
      else if d < 3600000000000 then signed_decimal (quot d 60000000000) @ ''m''
      else if d < 86400000000000 then
        signed_decimal (quot d 3600000000000) @ ''h'' @
        append_int 2 (nat (quot d 60000000000 mod 60)) @ ''m''
      else signed_decimal (quot d 3600000000000 div 24) @ ''d'' @
        signed_decimal (quot d 3600000000000 mod 24) @ ''h'')"

definition formatFleetMessage :: "fleet_message \<Rightarrow> string" where
  "formatFleetMessage m =
     (if mKind m = FleetTimer then ''[timer '' @ mID m @ '']\<newline>'' @ mText m
      else if mKind m = FleetNotice then ''[notice from '' @ mFrom m @ '']\<newline>'' @ mText m
      else if mKind m = FleetResponse then
        (if mInReplyTo m \<noteq> [] then ''[response from '' @ mFrom m @ '' to '' @ mInReplyTo m @ '']\<newline>'' @ mText m
         else ''[message from '' @ mFrom m @ '']\<newline>'' @ mText m)
      else ''[request '' @ mID m @ '' from '' @ mFrom m @ '']\<newline>'' @ mText m)"

text \<open>\<open>fleetInterruptedReply\<close>; \<open>failure\<close> is the error's text.\<close>

definition fleetInterruptedReply :: "string \<Rightarrow> string \<Rightarrow> string \<Rightarrow> string option \<Rightarrow> string" where
  "fleetInterruptedReply reply by_whom for_id failure =
     (let remark = ''['' @ by_whom @ '' interrupted this turn to take up '' @ for_id @
            '' first, so this answer may be incomplete.]'' @
            (case failure of None \<Rightarrow> []
             | Some e \<Rightarrow> '' The turn ended with an error, which may be the interrupt or its own failure: '' @ e @ ''.'')
      in if reply = [] \<or> ends_with FleetNoReply reply then remark @ '' It had not replied.''
         else reply @ ''\<newline>\<newline>'' @ remark)"

end
