(* ===== verification/FleetMail.thy ===== *)
theory FleetMail
  imports FleetData
begin

text \<open>
  Delivery (src/fleet.go, src/fleet_expect.go, src/fleet_budget.go): the log, the one way a message
  enters a mailbox, senders' expectations, and budgets. Each definition is a function of the source
  that runs with the kernel's lock held; \<open>now\<close> is what the kernel's clock reads there. A save that
  fails outside \<open>admit\<close> is only logged by the source and is not modelled; waking a run loop or a
  reader has no effect on the state.
\<close>

subsection \<open>Access\<close>

definition agent_of :: "fleet \<Rightarrow> string \<Rightarrow> fleet_agent option" where
  "agent_of f n = map_of (gAgents (kGroup f)) n"

definition upd_group :: "(fleet_group \<Rightarrow> fleet_group) \<Rightarrow> fleet \<Rightarrow> fleet" where
  "upd_group h f = f\<lparr>kGroup := h (kGroup f)\<rparr>"

definition upd_agent :: "string \<Rightarrow> (fleet_agent \<Rightarrow> fleet_agent) \<Rightarrow> fleet \<Rightarrow> fleet" where
  "upd_agent n h = upd_group (\<lambda>g. g\<lparr>gAgents := AList.map_entry n h (gAgents g)\<rparr>)"

definition upd_budget :: "string \<Rightarrow> (fleet_budget \<Rightarrow> fleet_budget) \<Rightarrow> fleet \<Rightarrow> fleet" where
  "upd_budget b h = upd_group (\<lambda>g. g\<lparr>gBudgets := AList.map_entry b h (gBudgets g)\<rparr>)"

definition upd_runtime :: "string \<Rightarrow> (fleet_runtime \<Rightarrow> fleet_runtime) \<Rightarrow> fleet \<Rightarrow> fleet" where
  "upd_runtime n h f = f\<lparr>kRunning := AList.map_entry n h (kRunning f)\<rparr>"

text \<open>\<open>groupLocked\<close>, for a fleet that exists.\<close>

definition groupLocked :: "fleet \<Rightarrow> fleet_error + fleet_group" where
  "groupLocked f = (if kClosed f then Inl FleetClosed else Inr (kGroup f))"

fun find_at :: "('a \<Rightarrow> bool) \<Rightarrow> 'a list \<Rightarrow> nat option" where
  "find_at P [] = None"
| "find_at P (x # xs) = (if P x then Some 0 else map_option Suc (find_at P xs))"

subsection \<open>The log\<close>

definition keep_recent :: "fleet_event list \<Rightarrow> fleet_event list" where
  "keep_recent es = (if length es > fleetEventRing then drop (length es - fleetEventRing) es else es)"

definition eventLocked :: "int \<Rightarrow> fleet \<Rightarrow> fleet_event \<Rightarrow> fleet" where
  "eventLocked now f e =
     (let l = kLog f;
          e' = e\<lparr>eSeq := Suc (lSeq l), eText := boundFleetText (eText e), eCause := boundFleetText (eCause e),
                 eAt := now\<rparr>
      in f\<lparr>kLog := \<lparr>lSeq = Suc (lSeq l), lFile = lFile l @ [e'], lRecent = keep_recent (lRecent l @ [e'])\<rparr>\<rparr>)"

subsection \<open>Expectations\<close>

definition expect_key :: "string \<Rightarrow> string \<Rightarrow> string" where
  "expect_key i which = i @ ''/'' @ which"

definition disarm :: "string \<Rightarrow> fleet \<Rightarrow> fleet" where
  "disarm key f = f\<lparr>kTimers := AList.delete key (kTimers f)\<rparr>"

text \<open>Arming waits until \<open>due\<close>, or not at all when that has passed.\<close>

definition arm :: "int \<Rightarrow> string \<Rightarrow> int \<Rightarrow> fleet \<Rightarrow> fleet" where
  "arm now key due f = f\<lparr>kTimers := AList.update key (now + max (due - now) 0) (kTimers f)\<rparr>"

definition armExpectsLocked :: "int \<Rightarrow> string \<Rightarrow> fleet_expect \<Rightarrow> fleet \<Rightarrow> fleet" where
  "armExpectsLocked now i e f =
     (let f1 = (case xAcceptBy e of None \<Rightarrow> f | Some t \<Rightarrow> arm now (expect_key i ''accept'') t f)
      in case xAnswerBy e of None \<Rightarrow> f1 | Some t \<Rightarrow> arm now (expect_key i ''answer'') t f1)"

definition expectLocked :: "int \<Rightarrow> fleet \<Rightarrow> fleet_message \<Rightarrow> int \<Rightarrow> int \<Rightarrow> fleet" where
  "expectLocked now f m accept answer =
     (if accept \<le> 0 \<and> answer \<le> 0 then f
      else let e = \<lparr>xFrom = mFrom m, xTo = mTo m, xKind = mKind m, xSentAt = now,
                    xAcceptBy = (if accept > 0 then Some (now + accept) else None),
                    xAnswerBy = (if answer > 0 then Some (now + answer) else None), xAccepted = None\<rparr>
           in armExpectsLocked now (mID m) e
                (upd_group (\<lambda>g. g\<lparr>gExpects := AList.update (mID m) e (gExpects g)\<rparr>) f))"

definition acceptedLocked :: "int \<Rightarrow> fleet \<Rightarrow> string \<Rightarrow> fleet" where
  "acceptedLocked now f i =
     (case map_of (gExpects (kGroup f)) i of
        None \<Rightarrow> f
      | Some e \<Rightarrow>
          if xAccepted e \<noteq> None then f
          else disarm (expect_key i ''accept'')
            (upd_group (\<lambda>g. g\<lparr>gExpects :=
               (if xAnswerBy e = None then AList.delete i (gExpects g)
                else AList.update i (e\<lparr>xAccepted := Some now, xAcceptBy := None\<rparr>) (gExpects g))\<rparr>) f))"

definition answeredLocked :: "fleet \<Rightarrow> string \<Rightarrow> fleet" where
  "answeredLocked f i =
     (if map_of (gExpects (kGroup f)) i = None then f
      else disarm (expect_key i ''answer'') (disarm (expect_key i ''accept'')
             (upd_group (\<lambda>g. g\<lparr>gExpects := AList.delete i (gExpects g)\<rparr>) f)))"

text \<open>\<open>dropExpectsOfLocked\<close>. The order of the walk does not matter, since ending one expectation
  leaves the others alone.\<close>

definition dropExpectsOfLocked :: "fleet \<Rightarrow> string \<Rightarrow> fleet" where
  "dropExpectsOfLocked f n =
     foldl answeredLocked f (map fst (filter (\<lambda>(i, e). xFrom e = n) (gExpects (kGroup f))))"

subsection \<open>Delivery\<close>

definition request_id :: "nat \<Rightarrow> string" where
  "request_id n = ''r'' @ decimal n"

definition timer_id :: "nat \<Rightarrow> string" where
  "timer_id n = ''t'' @ decimal n"

definition budget_id :: "nat \<Rightarrow> string" where
  "budget_id n = ''b'' @ decimal n"

definition firing_id :: "string \<Rightarrow> nat \<Rightarrow> string" where
  "firing_id i n = i @ ''.'' @ decimal n"

definition bump_id :: "fleet \<Rightarrow> fleet" where
  "bump_id = upd_group (\<lambda>g. g\<lparr>gNextID := Suc (gNextID g)\<rparr>)"

definition nextIDLocked :: "fleet \<Rightarrow> fleet \<times> string" where
  "nextIDLocked f = (bump_id f, request_id (Suc (gNextID (kGroup f))))"

definition nextTimerIDLocked :: "fleet \<Rightarrow> fleet \<times> string" where
  "nextTimerIDLocked f = (bump_id f, timer_id (Suc (gNextID (kGroup f))))"

text \<open>What \<open>deliverLocked\<close> makes of a message before it places it: an ID, the time and a bounded text.\<close>

definition stamped :: "int \<Rightarrow> string \<Rightarrow> fleet_message \<Rightarrow> fleet_message" where
  "stamped now i m =
     m\<lparr>mID := i, mSentAt := (case mSentAt m of None \<Rightarrow> Some now | Some t \<Rightarrow> Some t),
       mText := boundFleetText (mText m)\<rparr>"

definition message_event :: "fleet_message \<Rightarrow> fleet_event" where
  "message_event m = (event FleetEventMessage [])\<lparr>eMessage := Some m\<rparr>"

text \<open>The part of \<open>deliverLocked\<close> that every message goes through: an answer ends the expectations of
  its request, and the log records the message.\<close>

definition logged :: "int \<Rightarrow> fleet \<Rightarrow> fleet_message \<Rightarrow> fleet \<times> fleet_message" where
  "logged now f m0 =
     (let (f1, i) = (if mID m0 = [] then nextIDLocked f else (f, mID m0));
          m = stamped now i m0;
          f2 = (if mKind m = FleetResponse \<and> mInReplyTo m \<noteq> [] then answeredLocked f1 (mInReplyTo m) else f1)
      in (eventLocked now f2 (message_event m), m))"

definition reaches :: "fleet \<Rightarrow> string \<Rightarrow> bool" where
  "reaches f n \<longleftrightarrow> (case agent_of f n of None \<Rightarrow> False | Some a \<Rightarrow> \<not> aStopped a)"

definition drop_in :: "fleet_message \<Rightarrow> fleet \<Rightarrow> fleet" where
  "drop_in m f = upd_agent (mTo m) (\<lambda>b. b\<lparr>aInbox := aInbox b @ [m]\<rparr>) f"

function deliverLocked :: "int \<Rightarrow> fleet \<Rightarrow> fleet_message \<Rightarrow> fleet" where
  "deliverLocked now f m0 =
     (let (f1, m) = logged now f m0
      in if mTo m = FleetOwner then f1
         else if reaches f1 (mTo m) then drop_in m f1
         else if mKind m0 = FleetRequest
         then deliverLocked now f1 (message FleetResponse (mTo m) (mFrom m) (mID m) (''agent '' @ mTo m @ '' is gone''))
         else f1)"
  by pat_completeness auto
termination
  by (relation "measure (\<lambda>(now, f, m). if mKind m = FleetRequest then 1 else 0)")
     (auto simp: message_def)

declare deliverLocked.simps [simp del]

text \<open>The messages the kernel writes: an answer to a request, and news.\<close>

definition answer_to :: "string \<Rightarrow> fleet_message \<Rightarrow> string \<Rightarrow> fleet_message" where
  "answer_to agent m body = message FleetResponse agent (mFrom m) (mID m) body"

definition news :: "string \<Rightarrow> string \<Rightarrow> string \<Rightarrow> fleet_message" where
  "news sender recipient body = message FleetResponse sender recipient [] body"

definition parentOfLocked :: "fleet \<Rightarrow> fleet_agent \<Rightarrow> string" where
  "parentOfLocked f a = (if agent_of f (aParent a) \<noteq> None then aParent a else FleetOwner)"

subsection \<open>Budgets\<close>

definition budget_zero :: "budget_limits \<Rightarrow> bool" where
  "budget_zero b \<longleftrightarrow> limTokens b = 0 \<and> limTurns b = 0 \<and> limSeconds b = 0"

definition budget_valid :: "budget_limits \<Rightarrow> bool" where
  "budget_valid b \<longleftrightarrow> \<not> (limTokens b < 0 \<or> limTurns b < 0 \<or> limSeconds b < 0)"

definition limit_nanos :: "budget_limits \<Rightarrow> int" where
  "limit_nanos b = \<lfloor>limSeconds b * 1000000000\<rfloor>"

definition spentBy :: "fleet_budget \<Rightarrow> int \<Rightarrow> string" where
  "spentBy b now =
     (let l = bLimits b in
      if limTokens l > 0 \<and> bSpentTokens b \<ge> limTokens l
      then ''tokens '' @ signed_decimal (bSpentTokens b) @ '' of '' @ signed_decimal (limTokens l)
      else if limTurns l > 0 \<and> bSpentTurns b \<ge> limTurns l
      then ''turns '' @ signed_decimal (bSpentTurns b) @ '' of '' @ signed_decimal (limTurns l)
      else if limSeconds l > 0 \<and> \<not> now < bStarted b + limit_nanos l
      then ''time '' @ fleetDuration (limit_nanos l)
      else [])"

definition newBudgetLocked :: "int \<Rightarrow> fleet \<Rightarrow> string \<Rightarrow> string \<Rightarrow> budget_limits \<Rightarrow> fleet \<times> string" where
  "newBudgetLocked now f holder set_by limits =
     (let i = budget_id (Suc (gNextID (kGroup f)))
      in (upd_group (\<lambda>g. g\<lparr>gBudgets := AList.update i
            \<lparr>bHolder = holder, bSetBy = set_by, bLimits = limits, bStarted = now, bSpentTokens = 0,
             bSpentTurns = 0, bNotified = False\<rparr> (gBudgets g)\<rparr>) (bump_id f), i))"

definition spent_notice :: "string \<Rightarrow> string \<Rightarrow> string \<Rightarrow> fleet_message" where
  "spent_notice i holder reason = news FleetBudgetSender FleetOwner
     (''Budget '' @ i @ '', on agent '' @ holder @ [CHR 0x27] @ ''s tree, is spent ('' @ reason @
      ''). Agents under it take no new turns, and messages to them wait, until the owner raises budget '' @ i @ ''.'')"

fun blocked_by :: "int \<Rightarrow> fleet \<Rightarrow> string list \<Rightarrow> fleet \<times> bool" where
  "blocked_by now f [] = (f, False)"
| "blocked_by now f (i # is) =
     (case map_of (gBudgets (kGroup f)) i of
        None \<Rightarrow> blocked_by now f is
      | Some b \<Rightarrow>
          if spentBy b now = [] then blocked_by now f is
          else (if bNotified b then f
                else deliverLocked now (upd_budget i (\<lambda>c. c\<lparr>bNotified := True\<rparr>) f)
                       (spent_notice i (bHolder b) (spentBy b now)), True))"

definition blockedLocked :: "int \<Rightarrow> fleet \<Rightarrow> fleet_agent \<Rightarrow> fleet \<times> bool" where
  "blockedLocked now f a = blocked_by now f (aBudgets a)"

definition chargeTurnLocked :: "fleet \<Rightarrow> fleet_agent \<Rightarrow> fleet" where
  "chargeTurnLocked f a = foldl (\<lambda>f i. upd_budget i (\<lambda>b. b\<lparr>bSpentTurns := bSpentTurns b + 1\<rparr>) f) f (aBudgets a)"

definition chargeTokensLocked :: "fleet \<Rightarrow> fleet_agent \<Rightarrow> int \<Rightarrow> fleet" where
  "chargeTokensLocked f a tokens =
     foldl (\<lambda>f i. upd_budget i (\<lambda>b. b\<lparr>bSpentTokens := bSpentTokens b + tokens\<rparr>) f) f (aBudgets a)"

definition fleetTokens :: "usage \<Rightarrow> 64 word" where
  "fleetTokens u = UInput u + UOutput u + UCacheCreation u"

definition spent_since :: "64 word \<Rightarrow> usage \<Rightarrow> int" where
  "spent_since used u = max (sint (fleetTokens u - used)) 0"

definition dropUnusedBudgetsLocked :: "fleet \<Rightarrow> fleet" where
  "dropUnusedBudgetsLocked = upd_group (\<lambda>g. g\<lparr>gBudgets :=
     filter (\<lambda>(i, b). \<exists>a \<in> snd ` set (gAgents g). i \<in> set (aBudgets a)) (gBudgets g)\<rparr>)"

end
