(* ===== verification/FleetTree.thy ===== *)
theory FleetTree
  imports FleetMail
begin

text \<open>
  The tree of agents (src/fleet.go, src/fleet_tools.go, src/fleet_budget.go): who has authority over
  whom, which tools an agent may call, admitting a new agent, setting a budget over a subtree, and
  stopping an agent. An operation that can be refused returns the state and either the refusal or its
  value.
\<close>

subsection \<open>Authority\<close>

text \<open>The loop of \<open>fleetDescends\<close>: \<open>fuel\<close> is the number of times its condition on \<open>seen\<close> still allows.\<close>

fun descends_walk :: "nat \<Rightarrow> (string \<times> fleet_agent) list \<Rightarrow> string \<Rightarrow> string \<Rightarrow> bool" where
  "descends_walk 0 agents n ancestor \<longleftrightarrow> False"
| "descends_walk (Suc fuel) agents n ancestor \<longleftrightarrow>
     (case map_of agents n of
        None \<Rightarrow> False
      | Some a \<Rightarrow> aParent a = ancestor \<or> descends_walk fuel agents (aParent a) ancestor)"

definition fleetDescends :: "fleet_group \<Rightarrow> string \<Rightarrow> string \<Rightarrow> bool" where
  "fleetDescends g n ancestor \<longleftrightarrow> descends_walk (Suc (length (gAgents g))) (gAgents g) n ancestor"

definition authorized :: "fleet_group \<Rightarrow> string \<Rightarrow> string \<Rightarrow> bool" where
  "authorized g actor subject \<longleftrightarrow>
     actor = FleetOwner \<or> actor = subject \<or>
     (case map_of (gAgents g) actor of None \<Rightarrow> False | Some a \<Rightarrow> aAuthority a = FleetAuthorityAll) \<or>
     fleetDescends g subject actor"

definition passOnCreationsLocked :: "fleet_group \<Rightarrow> string \<Rightarrow> string \<Rightarrow> fleet_group" where
  "passOnCreationsLocked g n heir =
     g\<lparr>gChecks := map (\<lambda>(i, c). (i, if cRegisteredBy c = n then c\<lparr>cRegisteredBy := heir\<rparr> else c)) (gChecks g),
       gBudgets := map (\<lambda>(i, b). (i, b\<lparr>bSetBy := (if bSetBy b = n then heir else bSetBy b),
                                          bHolder := (if bHolder b = n then [] else bHolder b)\<rparr>)) (gBudgets g)\<rparr>"

subsection \<open>Tools\<close>

definition allFleetTools :: "string list" where
  "allFleetTools = [''start'', ''send'', ''expedite'', ''stop'', ''cancel'', ''check'', ''budget'',
     ''register_check'', ''list'']"

definition toolSet :: "string slice \<Rightarrow> string list" where
  "toolSet names = (case names of None \<Rightarrow> allFleetTools | Some ns \<Rightarrow> ns)"

fun choose_from :: "string list \<Rightarrow> string list \<Rightarrow> string list \<Rightarrow> fleet_error + string list" where
  "choose_from may chosen [] = Inr chosen"
| "choose_from may chosen (t # ts) =
     (if t \<notin> set allFleetTools then Inl (NoTool t)
      else if t \<notin> set may then Inl (ToolNotHeld t)
      else choose_from may (if t \<in> set chosen then chosen else chosen @ [t]) ts)"

definition chooseTools :: "string slice \<Rightarrow> string list \<Rightarrow> fleet_error + string list" where
  "chooseTools requested may = (case requested of None \<Rightarrow> Inr may | Some ts \<Rightarrow> choose_from may [] ts)"

definition holdsTool :: "fleet \<Rightarrow> string \<Rightarrow> string \<Rightarrow> bool" where
  "holdsTool f caller tool \<longleftrightarrow>
     (case agent_of f caller of None \<Rightarrow> False | Some a \<Rightarrow> tool \<in> set (toolSet (aTools a)))"

definition toolsOf :: "fleet \<Rightarrow> string \<Rightarrow> string list" where
  "toolsOf f caller = filter (holdsTool f caller) allFleetTools"

subsection \<open>Admission\<close>

record start_args =
  sName :: string
  sInstructions :: string
  sInstructionsFile :: string
  sWorkDir :: string
  sQuality :: string
  sPurpose :: string
  sModel :: string
  sBudget :: "budget_limits option"
  sAuthority :: string
  sTools :: "string slice"

definition is_abs :: "string \<Rightarrow> bool" where
  "is_abs p \<longleftrightarrow> starts_with ''/'' p"

definition agent_name_ok :: "string \<Rightarrow> bool" where
  "agent_name_ok n \<longleftrightarrow> fleetNameValid n \<and> n \<noteq> FleetOwner \<and> n \<noteq> FleetBudgetSender \<and>
     n \<noteq> FleetClockSender \<and> \<not> budget_id_pattern n"

text \<open>The checks of \<open>admit\<close> that need no lock; \<open>file\<close> is what reading the instructions file gives. The
  value is the instructions.\<close>

definition check_start :: "(string \<Rightarrow> string option) \<Rightarrow> string \<Rightarrow> start_args option \<Rightarrow> fleet_error + string" where
  "check_start file caller args =
     (case args of
        None \<Rightarrow> Inl BadName
      | Some s \<Rightarrow>
          if \<not> agent_name_ok (sName s) then Inl BadName
          else and_then
            (if sInstructionsFile s \<noteq> [] then
               (case file (sInstructionsFile s) of None \<Rightarrow> Inl ReadInstructions | Some t \<Rightarrow> Inr t)
             else Inr (sInstructions s))
            (\<lambda>instructions.
              if blank instructions then Inl NoInstructions
              else if sWorkDir s \<noteq> [] \<and> \<not> is_abs (sWorkDir s) then Inl WorkDirNotAbsolute
              else if (case sBudget s of None \<Rightarrow> False | Some b \<Rightarrow> \<not> budget_valid b) then Inl NegativeBudget
              else if sAuthority s \<noteq> [] \<and> sAuthority s \<noteq> FleetAuthorityAll then Inl UnknownAuthority
              else if sAuthority s \<noteq> [] \<and> caller \<noteq> FleetOwner then Inl OnlyOwnerGrants
              else Inr instructions))"

text \<open>The agent \<open>admit\<close> builds under the lock, before its tools and its own budget.\<close>

definition new_agent :: "fleet_group \<Rightarrow> string \<Rightarrow> string \<Rightarrow> string \<Rightarrow> start_args \<Rightarrow> fleet_error + fleet_agent" where
  "new_agent g token instructions caller s =
     (let a = \<lparr>aName = sName s, aParent = caller, aRoot = sName s, aInstructions = instructions,
               aToken = token, aWorkDir = sWorkDir s, aQuality = sQuality s, aPurpose = sPurpose s,
               aModel = sModel s, aInbox = [], aCurrent = None, aSteered = [], aBriefed = False,
               aStopped = False, aCurrentSince = None, aLastTurnEnd = None, aBudgets = [],
               aOwnBudget = [], aAuthority = sAuthority s, aTools = None, aRetiring = False\<rparr>
      in if caller = FleetOwner then Inr a
         else case map_of (gAgents g) caller of
           None \<Rightarrow> Inl (NoAgent caller)
         | Some p \<Rightarrow> Inr (a\<lparr>aRoot := aRoot p, aWorkDir := (if aWorkDir a = [] then aWorkDir p else aWorkDir a),
                            aBudgets := aBudgets p\<rparr>))"

definition may_give :: "fleet_group \<Rightarrow> string \<Rightarrow> string list" where
  "may_give g caller =
     (case map_of (gAgents g) caller of None \<Rightarrow> allFleetTools | Some p \<Rightarrow> toolSet (aTools p))"

definition check_admit ::
  "fleet_group \<Rightarrow> string \<Rightarrow> string \<Rightarrow> string \<Rightarrow> start_args \<Rightarrow> fleet_error + fleet_agent" where
  "check_admit g token instructions caller s =
     (if gClosing g then Inl ShuttingDown
      else and_then (new_agent g token instructions caller s) (\<lambda>a.
        if aWorkDir a = [] then Inl NoWorkDir
        else and_then (chooseTools (sTools s) (may_give g caller)) (\<lambda>tools.
          if map_of (gAgents g) (sName s) \<noteq> None then Inl AgentExists
          else if int (length (gAgents g)) \<ge> gMaxAgents g then Inl AgentLimit
          else Inr (a\<lparr>aTools := Some tools\<rparr>))))"

text \<open>\<open>saved\<close> says whether saving the state succeeds.\<close>

definition admit ::
  "int \<Rightarrow> (string \<Rightarrow> string option) \<Rightarrow> string \<Rightarrow> bool \<Rightarrow> fleet \<Rightarrow> string \<Rightarrow> start_args option \<Rightarrow>
   fleet \<times> (fleet_error + fleet_agent)" where
  "admit now file token saved f caller args =
     (case and_then (check_start file caller args) (\<lambda>instructions.
             and_then (groupLocked f) (\<lambda>g. check_admit g token instructions caller (the args))) of
        Inl e \<Rightarrow> (f, Inl e)
      | Inr a \<Rightarrow>
          let (f1, a1) =
                (case sBudget (the args) of
                   None \<Rightarrow> (f, a)
                 | Some b \<Rightarrow>
                     if budget_zero b then (f, a)
                     else let (f', i) = newBudgetLocked now f (aName a) caller b
                          in (f', a\<lparr>aOwnBudget := i, aBudgets := aBudgets a @ [i]\<rparr>))
          in if saved then
               ((upd_group (\<lambda>g. g\<lparr>gAgents := (aName a, a1) # gAgents g\<rparr>) f1)
                  \<lparr>kStarting := insert (aName a) (kStarting f1)\<rparr>, Inr a1)
             else ((dropUnusedBudgetsLocked f1)\<lparr>kStarting := kStarting f1 - {aName a}\<rparr>, Inl SaveFailed))"

subsection \<open>Setting a budget\<close>

definition join_budget :: "string \<Rightarrow> fleet_agent \<Rightarrow> fleet_agent" where
  "join_budget i a = a\<lparr>aBudgets := aBudgets a @ [i]\<rparr>"

text \<open>A new budget joins its holder and every agent below it.\<close>

definition spread_budget :: "fleet_group \<Rightarrow> string \<Rightarrow> string \<Rightarrow> fleet_group" where
  "spread_budget g holder i =
     g\<lparr>gAgents := map (\<lambda>(n, a).
         (n, let a1 = (if n = holder then join_budget i (a\<lparr>aOwnBudget := i\<rparr>) else a)
             in if fleetDescends g (aName a1) holder then join_budget i a1 else a1)) (gAgents g)\<rparr>"

text \<open>The budget that a target names: its ID, if it exists, and the agent that holds it.\<close>

definition budget_target :: "fleet_group \<Rightarrow> string \<Rightarrow> fleet_error + string option \<times> string" where
  "budget_target g target =
     (case map_of (gBudgets g) target of
        Some b \<Rightarrow> Inr (Some target, bHolder b)
      | None \<Rightarrow>
          (case map_of (gAgents g) target of
             None \<Rightarrow> Inl NoBudget
           | Some a \<Rightarrow> Inr (if map_of (gBudgets g) (aOwnBudget a) = None then None else Some (aOwnBudget a), target)))"

text \<open>\<open>g_text\<close> is the \<open>%g\<close> rendering of the seconds in the log entry.\<close>

definition SetBudget ::
  "int \<Rightarrow> string \<Rightarrow> fleet \<Rightarrow> string \<Rightarrow> string \<Rightarrow> budget_limits \<Rightarrow> fleet \<times> (fleet_error + unit)" where
  "SetBudget now g_text f caller target limits =
     (case (if \<not> budget_valid limits then Inl NegativeBudget else and_then (groupLocked f) (\<lambda>g.
              and_then (budget_target g target) (\<lambda>(existing, agent).
                if agent \<noteq> [] \<and> \<not> authorized g caller agent then Inl (NotAuthorized caller agent)
                else case existing of
                  None \<Rightarrow> Inr (existing, agent)
                | Some i \<Rightarrow>
                    let b = the (map_of (gBudgets g) i)
                    in if authorized g caller (bSetBy b) then Inr (existing, agent)
                       else Inl (NotAuthorized caller (bSetBy b))))) of
        Inl e \<Rightarrow> (f, Inl e)
      | Inr (existing, agent) \<Rightarrow>
          let f1 = (case existing of
                  Some i \<Rightarrow> upd_budget i (\<lambda>b. b\<lparr>bLimits := limits, bNotified := False, bStarted := now,
                                             bSetBy := caller\<rparr>) f
                | None \<Rightarrow>
                    let (f', i) = newBudgetLocked now f agent caller limits
                    in upd_group (\<lambda>g. spread_budget g agent i) f')
          in (eventLocked now f1 ((event ''budget'' agent)\<lparr>eText :=
                ''tokens '' @ signed_decimal (limTokens limits) @ '', turns '' @
                signed_decimal (limTurns limits) @ '', seconds '' @ g_text\<rparr>), Inr ()))"

subsection \<open>Stopping\<close>

definition Stop :: "int \<Rightarrow> fleet \<Rightarrow> string \<Rightarrow> string \<Rightarrow> fleet \<times> (fleet_error + unit)" where
  "Stop now f caller n =
     (case and_then (groupLocked f) (\<lambda>g.
             case map_of (gAgents g) n of
               None \<Rightarrow> Inl (NoAgent n)
             | Some a \<Rightarrow>
                 if \<not> authorized g caller n then Inl (NotAuthorized caller n)
                 else if map_of (kRunning f) n = None \<and> n \<notin> kReviving f then Inl StillStarting
                 else Inr a) of
        Inl e \<Rightarrow> (f, Inl e)
      | Inr a \<Rightarrow>
          if aStopped a then (f, Inr ())
          else (eventLocked now (upd_agent n (\<lambda>b. b\<lparr>aStopped := True\<rparr>) f)
                  ((event ''stop'' n)\<lparr>eRoot := aRoot a, eParent := caller\<rparr>), Inr ()))"

end
