(* ===== verification/FleetRun.thy ===== *)
theory FleetRun
  imports FleetTree
begin

text \<open>
  An agent's life (src/fleet.go, src/fleet_expect.go, src/fleet_timer.go): its seat's first start, the
  sections of its run loop, bringing a dead seat back, its end, and what a kernel that starts does
  with the agents it finds saved. The source runs each piece with the lock held and gives it up around
  every call to a seat; each definition here is one such piece, from one call to the next. What a call
  returned (an error's text, a reply, the usage) is an argument.
\<close>

subsection \<open>Timers of a departing agent\<close>

definition dropTimerLocked :: "fleet \<Rightarrow> string \<Rightarrow> fleet" where
  "dropTimerLocked f i = disarm i (upd_group (\<lambda>g. g\<lparr>gTimers := AList.delete i (gTimers g)\<rparr>) f)"

definition drop_timer_of :: "int \<Rightarrow> string \<Rightarrow> string \<Rightarrow> fleet \<Rightarrow> string \<Rightarrow> fleet" where
  "drop_timer_of now n failure f i =
     (case map_of (gTimers (kGroup f)) i of
        None \<Rightarrow> f
      | Some t \<Rightarrow>
          let m = tMessage t in
          if mFrom m \<noteq> n \<and> mTo m \<noteq> n then f
          else if mTo m = n \<and> mFrom m \<noteq> n \<and> mKind m = FleetRequest \<and> tEvery t \<le> 0
          then deliverLocked now (dropTimerLocked f i) (message FleetResponse n (mFrom m) i failure)
          else dropTimerLocked f i)"

text \<open>\<open>dropTimersOfLocked\<close>; \<open>order\<close> is the order in which Go's map iteration gives the timers.\<close>

definition dropTimersOfLocked :: "int \<Rightarrow> string list \<Rightarrow> fleet \<Rightarrow> string \<Rightarrow> string \<Rightarrow> fleet" where
  "dropTimersOfLocked now order f n failure = foldl (drop_timer_of now n failure) f order"

subsection \<open>What an agent holds\<close>

definition turnMessages :: "fleet_agent \<Rightarrow> fleet_message list" where
  "turnMessages a = map (\<lambda>m. m\<lparr>mRedelivered := True\<rparr>)
     ((case aCurrent a of None \<Rightarrow> [] | Some m \<Rightarrow> [m]) @ aSteered a)"

definition requeue_turn :: "fleet_agent \<Rightarrow> fleet_agent" where
  "requeue_turn a = a\<lparr>aInbox := turnMessages a @ aInbox a, aCurrent := None, aSteered := []\<rparr>"

definition answer_one :: "int \<Rightarrow> fleet_agent \<Rightarrow> string \<Rightarrow> fleet \<Rightarrow> fleet_message \<Rightarrow> fleet" where
  "answer_one now a failure f m =
     (if mKind m = FleetRequest then deliverLocked now f (answer_to (aName a) m failure) else f)"

definition owed :: "fleet_agent \<Rightarrow> fleet_message list" where
  "owed a = turnMessages a @ aInbox a"

text \<open>\<open>answerOwedLocked\<close>, for an agent that has left the fleet's map.\<close>

definition answerOwedLocked :: "int \<Rightarrow> fleet \<Rightarrow> fleet_agent \<Rightarrow> string \<Rightarrow> fleet \<times> bool" where
  "answerOwedLocked now f a failure =
     (foldl (answer_one now a failure) f (owed a),
      \<exists>m \<in> set (owed a). mKind m = FleetRequest \<and> mFrom m = aParent a)"

definition remove_agent :: "string \<Rightarrow> fleet \<Rightarrow> fleet" where
  "remove_agent n = upd_group (\<lambda>g. g\<lparr>gAgents := AList.delete n (gAgents g)\<rparr>)"

subsection \<open>Starting a seat\<close>

definition runLocked :: "int \<Rightarrow> fleet \<Rightarrow> fleet_agent \<Rightarrow> string \<Rightarrow> nat \<Rightarrow> fleet" where
  "runLocked now f a model deaths =
     eventLocked now
       (f\<lparr>kRunning := AList.update (aName a)
            \<lparr>rtId = kNextRuntime f, rtDeaths = deaths, rtTurns = 0, rtInterruptedBy = [],
             rtInterruptFor = [], rtInterruptTurn = 0, rtInterrupting = 0, rtLive = False,
             rtPending = None\<rparr> (kRunning f),
          kNextRuntime := Suc (kNextRuntime f)\<rparr>)
       ((event ''started'' (aName a))\<lparr>eParent := aParent a, eRoot := aRoot a, eModel := model\<rparr>)"

definition launch_ok :: "int \<Rightarrow> fleet \<Rightarrow> fleet_agent \<Rightarrow> string \<Rightarrow> fleet" where
  "launch_ok now f a model =
     (if kClosed f then f
      else runLocked now (f\<lparr>kStarting := kStarting f - {aName a}\<rparr>) a model 0)"

definition launch_failed :: "int \<Rightarrow> string list \<Rightarrow> fleet \<Rightarrow> fleet_agent \<Rightarrow> string \<Rightarrow> bool \<Rightarrow> fleet" where
  "launch_failed now order f a err tell_parent =
     (if kClosed f then f
      else
        let failure = ''agent '' @ aName a @ '' could not start: '' @ err;
            f1 = remove_agent (aName a) (f\<lparr>kStarting := kStarting f - {aName a}\<rparr>);
            f2 = dropUnusedBudgetsLocked (dropTimersOfLocked now order f1 (aName a) failure);
            f3 = eventLocked now f2 ((event ''start_failed'' (aName a))\<lparr>eParent := aParent a, eRoot := aRoot a, eCause := err\<rparr>);
            (f4, told) = answerOwedLocked now f3 a failure
        in if tell_parent \<and> \<not> told
           then deliverLocked now f4 (news (aName a) (parentOfLocked f4 a) failure)
           else f4)"

subsection \<open>Bringing a seat back\<close>

definition revive_begin :: "fleet \<Rightarrow> string \<Rightarrow> fleet" where
  "revive_begin f n = f\<lparr>kReviving := insert n (kReviving f)\<rparr>"

text \<open>A start that succeeded: \<open>briefed\<close> was read before it, and \<open>resume\<close> says whether it reattached.\<close>

definition revive_ok :: "int \<Rightarrow> fleet \<Rightarrow> string \<Rightarrow> bool \<Rightarrow> bool \<Rightarrow> string \<Rightarrow> nat \<Rightarrow> fleet" where
  "revive_ok now f n briefed resume model deaths =
     (case agent_of f n of
        None \<Rightarrow> f
      | Some a \<Rightarrow>
          if kClosed f then f
          else
            let f1 = f\<lparr>kReviving := kReviving f - {n}\<rparr>;
                f2 = (if briefed \<and> \<not> resume
                      then deliverLocked now (upd_agent n (\<lambda>b. b\<lparr>aBriefed := False\<rparr>) f1)
                             (news n (parentOfLocked f1 a)
                               (''agent '' @ n @ '' lost its conversation in a restart and is starting on a fresh one''))
                      else f1)
            in runLocked now f2 a model deaths)"

text \<open>A start that failed: the parent hears once. The value is what \<open>told\<close> becomes.\<close>

definition revive_failed :: "int \<Rightarrow> fleet \<Rightarrow> string \<Rightarrow> string \<Rightarrow> bool \<Rightarrow> fleet \<times> bool" where
  "revive_failed now f n err told =
     (case agent_of f n of
        None \<Rightarrow> (f, told)
      | Some a \<Rightarrow>
          if kClosed f \<or> aStopped a \<or> told then (f, told)
          else (deliverLocked now f (news n (parentOfLocked f a)
                  (''agent '' @ n @ '' cannot come back yet and I will keep trying: '' @ err)), True))"

subsection \<open>The run loop\<close>

datatype turn_outcome =
    TurnWait
  | TurnClosed
  | TurnRetire
  | TurnTaken fleet_message bool

definition set_current :: "int \<Rightarrow> fleet_message \<Rightarrow> fleet_message list \<Rightarrow> fleet_agent \<Rightarrow> fleet_agent" where
  "set_current now m rest a = a\<lparr>aInbox := rest, aCurrent := Some (m\<lparr>mCharged := True\<rparr>), aBriefed := True,
     aCurrentSince := Some now\<rparr>"

definition begin_turn :: "fleet_runtime \<Rightarrow> fleet_runtime" where
  "begin_turn rt = rt\<lparr>rtTurns := Suc (rtTurns rt), rtLive := False, rtPending := None\<rparr>"

text \<open>From the top of the loop to the call of \<open>Send\<close>: the loop waits while the agent has nothing to do
  or a budget holds its next message, which may have to be announced. \<open>TurnTaken m brief\<close> is a turn on
  message \<open>m\<close>, as it was in the mailbox.\<close>

definition take_turn :: "int \<Rightarrow> fleet \<Rightarrow> string \<Rightarrow> fleet \<times> turn_outcome" where
  "take_turn now f n =
     (case agent_of f n of
        None \<Rightarrow> (f, TurnWait)
      | Some a \<Rightarrow>
          if kClosed f then (f, TurnClosed)
          else if aStopped a then (f, TurnRetire)
          else case aInbox a of
            [] \<Rightarrow> (f, TurnWait)
          | m # rest \<Rightarrow>
              let (f1, blocked) = (if mCharged m then (f, False) else blockedLocked now f a)
              in if blocked then (f1, TurnWait)
                 else
                   let f2 = acceptedLocked now (upd_runtime n begin_turn f1) (mID m);
                       f3 = upd_agent n (set_current now m rest) f2
                   in (if mCharged m then f3 else chargeTurnLocked f3 a,
                       TurnTaken m (\<not> aBriefed a \<or> mRedelivered m)))"

text \<open>What the seat is sent; \<open>stamp\<close> is \<open>fleetStamp\<close>.\<close>

definition turn_text :: "string \<Rightarrow> string \<Rightarrow> bool \<Rightarrow> fleet_message \<Rightarrow> string" where
  "turn_text stamp instructions brief m =
     (let body = stamp @ ''\<newline>'' @ formatFleetMessage m;
          body = (if mRedelivered m then
                    ''[Claudia restarted during your last turn on this message, so its reply was lost. Work you already did remains. Check it and answer now.]'' @ ''\<newline>\<newline>'' @ body
                  else if mReclaimed m then
                    ''[This was steered into your last turn, which was interrupted so that you take it up on its own. You may already have started on it: check what you did before acting again.]'' @ ''\<newline>\<newline>'' @ body
                  else body)
      in if brief then instructions @ ''\<newline>\<newline>---\<newline>\<newline>'' @ body else body)"

text \<open>After \<open>Send\<close>: an interrupt that was waiting for the turn to be live goes out now.\<close>

definition after_send :: "fleet \<Rightarrow> string \<Rightarrow> bool \<Rightarrow> fleet" where
  "after_send f n ok = upd_runtime n (\<lambda>rt. rt\<lparr>rtLive := ok, rtPending := None,
     rtInterrupting := (if rtPending rt \<noteq> None \<and> ok then rtInterrupting rt + 1 else rtInterrupting rt)\<rparr>) f"

text \<open>\<open>interruptSeat\<close>, once the seat has answered, on runtime \<open>r\<close>.\<close>

definition interrupt_done :: "fleet \<Rightarrow> string \<Rightarrow> nat \<Rightarrow> nat \<Rightarrow> string \<Rightarrow> string \<Rightarrow> bool \<Rightarrow> fleet" where
  "interrupt_done f n r turn by_whom for_id ok = upd_runtime n (\<lambda>rt.
     if rtId rt \<noteq> r then rt
     else let rt1 = rt\<lparr>rtInterrupting := rtInterrupting rt - 1\<rparr>
          in if ok \<and> rtTurns rt = turn
             then rt1\<lparr>rtInterruptTurn := turn, rtInterruptedBy := by_whom, rtInterruptFor := for_id\<rparr>
             else rt1) f"

definition routeReplyLocked :: "int \<Rightarrow> fleet_agent \<Rightarrow> string \<Rightarrow> fleet \<Rightarrow> fleet_message \<Rightarrow> fleet" where
  "routeReplyLocked now a body f m =
     (let silent = (body = [] \<or> ends_with FleetNoReply body)
      in if mKind m = FleetRequest
         then deliverLocked now f (answer_to (aName a) m (if silent then ''(no reply)'' else body))
         else if silent then f
         else deliverLocked now f (news (aName a) (parentOfLocked f a) body))"

text \<open>\<open>takeSteered\<close>: what it takes, and what it leaves.\<close>

definition steered_done :: "fleet_agent \<Rightarrow> fleet_message list" where
  "steered_done a = filter (\<lambda>m. \<not> mSteering m) (aSteered a)"

definition finish_agent :: "fleet_agent \<Rightarrow> fleet_agent" where
  "finish_agent a = a\<lparr>aCurrent := None, aSteered := filter mSteering (aSteered a)\<rparr>"

definition answer_requests :: "(fleet \<Rightarrow> fleet_message \<Rightarrow> fleet) \<Rightarrow> fleet \<Rightarrow> fleet_message list \<Rightarrow> fleet" where
  "answer_requests answer f ms = foldl answer f (filter (\<lambda>m. mKind m = FleetRequest) ms)"

definition fail_turn :: "int \<Rightarrow> fleet \<Rightarrow> fleet_agent \<Rightarrow> fleet_message \<Rightarrow> string \<Rightarrow> fleet" where
  "fail_turn now f a m err =
     (let failure = ''agent '' @ aName a @ [CHR 0x27] @ ''s turn failed, and it is still available: '' @ err;
          f1 = (if mKind m = FleetRequest then deliverLocked now f (answer_to (aName a) m failure)
                else deliverLocked now f (news (aName a) (parentOfLocked f a) failure))
      in answer_requests (\<lambda>f s. deliverLocked now f (answer_to (aName a) s failure)) f1 (steered_done a))"

definition reply_turn ::
  "int \<Rightarrow> fleet \<Rightarrow> fleet_agent \<Rightarrow> fleet_runtime \<Rightarrow> fleet_message \<Rightarrow> string \<Rightarrow> bool \<Rightarrow> string option \<Rightarrow> fleet" where
  "reply_turn now f a rt m reply interrupted err =
     (let answer = (if interrupted then fleetInterruptedReply reply (rtInterruptedBy rt) (rtInterruptFor rt) err
                    else reply);
          f1 = upd_runtime (aName a) (\<lambda>r. r\<lparr>rtDeaths := 0\<rparr>) f;
          f2 = routeReplyLocked now a (if mKind m = FleetRequest then answer else reply) f1 m
      in answer_requests (routeReplyLocked now a answer) f2 (steered_done a))"

datatype turn_end =
    EndClosed
  | EndRetire string bool
  | EndDied
  | EndNext

definition charge_tokens_of :: "fleet \<Rightarrow> fleet_agent \<Rightarrow> 64 word \<Rightarrow> usage \<Rightarrow> fleet" where
  "charge_tokens_of f a used u = chargeTokensLocked f a (spent_since used u)"

text \<open>A turn is logged and its tokens are charged, whether or not it succeeded.\<close>

definition note_turn ::
  "int \<Rightarrow> fleet \<Rightarrow> string \<Rightarrow> fleet_agent \<Rightarrow> string \<Rightarrow> string option \<Rightarrow> 64 word \<Rightarrow> usage \<Rightarrow> fleet" where
  "note_turn now f n a reply err used u =
     upd_agent n (\<lambda>b. b\<lparr>aLastTurnEnd := Some now\<rparr>)
       (charge_tokens_of (eventLocked now f ((event ''turn'' n)\<lparr>eRoot := aRoot a, eText := boundFleetText reply,
          eUsage := Some u, eCause := (case err of None \<Rightarrow> [] | Some e \<Rightarrow> e)\<rparr>)) a used u)"

text \<open>The seat died in the turn: the agent goes round again with the turn's messages first, unless this
  happened too often.\<close>

definition turn_death :: "fleet \<Rightarrow> string \<Rightarrow> fleet_runtime \<Rightarrow> string \<Rightarrow> fleet \<times> turn_end" where
  "turn_death f n rt err =
     (let deaths = Suc (rtDeaths rt);
          f1 = upd_runtime n (\<lambda>r. r\<lparr>rtDeaths := deaths\<rparr>) f
      in if deaths \<ge> fleetMaxDeaths
         then (f1, EndRetire (''its seat died '' @ decimal deaths @ '' times: '' @ err) False)
         else ((upd_agent n requeue_turn f1)\<lparr>kRunning := AList.delete n (kRunning f1)\<rparr>, EndDied))"

text \<open>The end of a turn on message \<open>m\<close>, once \<open>WaitForResponse\<close> has returned and no interrupt is on its
  way. \<open>EndRetire cause deliberate\<close> is a call of \<open>retireState\<close>.\<close>

definition end_turn ::
  "int \<Rightarrow> fleet \<Rightarrow> string \<Rightarrow> fleet_message \<Rightarrow> string \<Rightarrow> string option \<Rightarrow> bool \<Rightarrow> 64 word \<Rightarrow> usage \<Rightarrow> fleet \<times> turn_end" where
  "end_turn now f n m raw err alive used u =
     (case (agent_of f n, map_of (kRunning f) n) of
        (Some a, Some rt) \<Rightarrow>
          if kClosed f then (charge_tokens_of f a used u, EndClosed)
          else
            let reply = trimSpace raw;
                interrupted = (rtInterruptTurn rt = rtTurns rt);
                f2 = note_turn now f n a reply err used u
            in if aStopped a then (f2, EndRetire ''stopped'' True)
               else if err \<noteq> None \<and> \<not> alive then turn_death f2 n rt (the err)
               else
                 let f3 = upd_agent n finish_agent f2
                 in (if err \<noteq> None \<and> \<not> interrupted then fail_turn now f3 a m (the err)
                     else reply_turn now f3 a rt m reply interrupted err, EndNext)
      | _ \<Rightarrow> (f, EndClosed))"

subsection \<open>The end of an agent\<close>

definition retire_begin :: "fleet \<Rightarrow> string \<Rightarrow> fleet" where
  "retire_begin f n =
     (case agent_of f n of
        None \<Rightarrow> f
      | Some a \<Rightarrow> if aRetiring a then f else upd_agent n (\<lambda>b. b\<lparr>aRetiring := True, aStopped := True\<rparr>) f)"

definition orphan :: "string \<Rightarrow> fleet_agent \<Rightarrow> fleet_agent" where
  "orphan n a = (if aParent a = n then a\<lparr>aParent := FleetOwner\<rparr> else a)"

definition orphan_children :: "string \<Rightarrow> fleet \<Rightarrow> fleet" where
  "orphan_children n = upd_group (\<lambda>g. g\<lparr>gAgents := map (\<lambda>(k, a). (k, orphan n a)) (gAgents g)\<rparr>)"

text \<open>The second part of \<open>retireState\<close>, when the seat is gone.\<close>

definition retire_finish :: "int \<Rightarrow> string list \<Rightarrow> fleet \<Rightarrow> string \<Rightarrow> string \<Rightarrow> bool \<Rightarrow> fleet" where
  "retire_finish now order f n cause deliberate =
     (case agent_of f n of
        None \<Rightarrow> f
      | Some a \<Rightarrow>
          if kClosed f then f
          else
            let gone = ''agent '' @ n @ '' is gone: '' @ cause;
                f1 = orphan_children n ((remove_agent n f)\<lparr>kRunning := AList.delete n (kRunning f),
                       kReviving := kReviving f - {n}\<rparr>);
                f2 = dropExpectsOfLocked (dropTimersOfLocked now order f1 n gone) n;
                f3 = dropUnusedBudgetsLocked (upd_group (\<lambda>g. passOnCreationsLocked g n (parentOfLocked f2 a)) f2);
                f4 = eventLocked now f3 ((event ''retired'' n)\<lparr>eRoot := aRoot a, eCause := cause\<rparr>);
                (f5, told) = answerOwedLocked now f4 a gone
            in if \<not> deliberate \<and> \<not> told
               then deliverLocked now f5 (news n (parentOfLocked f5 a) gone)
               else f5)"

subsection \<open>Opening and restart\<close>

text \<open>A fleet that \<open>Open\<close> creates; the options are the limits on agents and on messages.\<close>

definition new_fleet :: "(int \<times> int) option \<Rightarrow> fleet" where
  "new_fleet opts =
     \<lparr>kClosed = False,
      kGroup = \<lparr>gMaxAgents = (case opts of Some (n, _) \<Rightarrow> if n > 0 then n else fleetDefaultMaxAgents | None \<Rightarrow> fleetDefaultMaxAgents),
        gMaxMessages = (case opts of Some (_, n) \<Rightarrow> if n > 0 then n else fleetDefaultMaxMessages | None \<Rightarrow> fleetDefaultMaxMessages),
        gNextID = 0, gSent = 0, gClosing = False, gAgents = [], gTimers = [], gBudgets = [], gChecks = [],
        gCheckRuns = [], gCheckLast = [], gExpects = []\<rparr>,
      kLog = \<lparr>lSeq = 0, lFile = [], lRecent = []\<rparr>, kRunning = [], kStarting = {}, kReviving = {},
      kTimers = [], kNextRuntime = 0\<rparr>"

text \<open>What a later kernel makes of the saved state: what was only in memory is gone, and a turn the
  restart interrupted goes round again. Check runs are answered by \<open>FleetChecks\<close>.\<close>

definition reload_message :: "fleet_message \<Rightarrow> fleet_message" where
  "reload_message m = m\<lparr>mSteering := False\<rparr>"

definition reload_agent :: "fleet_agent \<Rightarrow> fleet_agent" where
  "reload_agent a = (requeue_turn (a\<lparr>aInbox := map reload_message (aInbox a),
     aCurrent := map_option reload_message (aCurrent a), aSteered := map reload_message (aSteered a)\<rparr>))
     \<lparr>aRetiring := False\<rparr>"

definition reload :: "fleet \<Rightarrow> fleet" where
  "reload f = (let agents = map (\<lambda>(n, a). (n, reload_agent a)) (gAgents (kGroup f)) in
     f\<lparr>kClosed := False,
       kGroup := (kGroup f)\<lparr>gAgents := agents\<rparr>,
       kLog := (kLog f)\<lparr>lRecent := keep_recent (lFile (kLog f))\<rparr>,
       kRunning := [], kStarting := {}, kReviving := fst ` set agents, kTimers := []\<rparr>)"

end
