(* ===== verification/FleetSend.thy ===== *)
theory FleetSend
  imports FleetRun
begin

text \<open>
  Sending (src/fleet_timer.go, src/fleet_expect.go): a message now or later, the firing of timers, an
  expectation that passed, and expediting a message by steering it into a running turn or by
  interrupting that turn. As in \<open>FleetRun\<close>, an operation that calls a seat is split at the call.
\<close>

subsection \<open>Sending\<close>

record send_args =
  sdFrom :: string
  sdTo :: string
  sdKind :: string
  sdText :: string
  sdAfter :: int
  sdAt :: "int option"
  sdEvery :: int
  sdAcceptWithin :: int
  sdAnswerWithin :: int
  sdMode :: string

definition scheduled :: "send_args \<Rightarrow> bool" where
  "scheduled s \<longleftrightarrow> sdAfter s > 0 \<or> sdAt s \<noteq> None \<or> sdEvery s > 0"

definition send_kind :: "send_args \<Rightarrow> string" where
  "send_kind s = (if sdKind s = [] then FleetRequest else sdKind s)"

definition check_expectations :: "fleet_group \<Rightarrow> send_args \<Rightarrow> fleet_error + unit" where
  "check_expectations g s =
     (if sdAcceptWithin s < 0 \<or> sdAnswerWithin s < 0 then Inl NegativeExpectation
      else if sdAcceptWithin s > 0 \<or> sdAnswerWithin s > 0 \<or> sdMode s \<noteq> [] then
        (if scheduled s then Inl ExpectScheduled
         else if sdTo s = FleetOwner then Inl ExpectOwner
         else if sdAnswerWithin s > 0 \<and> send_kind s \<noteq> FleetRequest then Inl ExpectNoAnswer
         else if sdMode s \<noteq> [] then
           (if sdMode s \<noteq> FleetExpediteSteer \<and> sdMode s \<noteq> FleetExpediteInterrupt then Inl BadMode
            else if \<not> authorized g (sdFrom s) (sdTo s) then Inl (NotAuthorized (sdFrom s) (sdTo s))
            else Inr ())
         else Inr ())
      else Inr ())"

text \<open>The refusals of \<open>send\<close>, in its order.\<close>

definition check_send :: "fleet_group \<Rightarrow> send_args \<Rightarrow> fleet_error + unit" where
  "check_send g s =
     (if sdTo s \<noteq> FleetOwner \<and> map_of (gAgents g) (sdTo s) = None then Inl (NoAgent (sdTo s))
      else if send_kind s \<noteq> FleetRequest \<and> send_kind s \<noteq> FleetNotice then Inl BadKind
      else if sdAfter s < 0 \<or> sdEvery s < 0 then Inl NegativeDelay
      else if sdAfter s > 0 \<and> sdAt s \<noteq> None then Inl DelayAndTime
      else if sdEvery s > 0 \<and> sdEvery s < fleetMinEvery then Inl RepeatTooShort
      else if sdEvery s > 0 \<and> \<not> authorized g (sdFrom s) (sdTo s) then Inl (NotAuthorized (sdFrom s) (sdTo s))
      else if sdFrom s = sdTo s \<and> \<not> scheduled s then Inl SelfNeedsDelay
      else if gSent g \<ge> gMaxMessages g then Inl MessageLimit
      else check_expectations g s)"

definition sent_message :: "send_args \<Rightarrow> fleet_message" where
  "sent_message s = message (if sdFrom s = sdTo s then FleetTimer else send_kind s) (sdFrom s) (sdTo s) []
     (boundFleetText (sdText s))"

definition first_due :: "int \<Rightarrow> send_args \<Rightarrow> int" where
  "first_due now s =
     (let due = (if sdAfter s > 0 then now + sdAfter s
                 else case sdAt s of None \<Rightarrow> now + sdEvery s | Some t \<Rightarrow> t)
      in if sdEvery s > 0 \<and> due < now then now else due)"

definition armTimerLocked :: "int \<Rightarrow> string \<Rightarrow> fleet_timer \<Rightarrow> fleet \<Rightarrow> fleet" where
  "armTimerLocked now i t = arm now i (tAt t)"

definition send_now :: "int \<Rightarrow> fleet \<Rightarrow> send_args \<Rightarrow> fleet \<times> string" where
  "send_now now f s =
     (let (f1, i) = nextIDLocked f;
          m = (sent_message s)\<lparr>mID := i\<rparr>
      in (deliverLocked now (expectLocked now f1 m (sdAcceptWithin s) (sdAnswerWithin s)) m, i))"

definition send_later :: "int \<Rightarrow> fleet \<Rightarrow> send_args \<Rightarrow> fleet \<times> string" where
  "send_later now f s =
     (let (f1, i) = nextTimerIDLocked f;
          t = \<lparr>tAt = first_due now s, tEvery = sdEvery s, tFires = 0, tMessage = (sent_message s)\<lparr>mID := i\<rparr>\<rparr>
      in (armTimerLocked now i t (upd_group (\<lambda>g. g\<lparr>gTimers := AList.update i t (gTimers g)\<rparr>) f1), i))"

definition send :: "int \<Rightarrow> fleet \<Rightarrow> send_args \<Rightarrow> fleet \<times> (fleet_error + string)" where
  "send now f s =
     (case and_then (groupLocked f) (\<lambda>g. check_send g s) of
        Inl e \<Rightarrow> (f, Inl e)
      | Inr _ \<Rightarrow>
          let f0 = upd_group (\<lambda>g. g\<lparr>gSent := gSent g + 1\<rparr>) f;
              (f1, i) = (if scheduled s then send_later now f0 s else send_now now f0 s)
          in (f1, Inr i))"

definition Cancel :: "int \<Rightarrow> fleet \<Rightarrow> string \<Rightarrow> string \<Rightarrow> fleet \<times> (fleet_error + unit)" where
  "Cancel now f caller i =
     (case and_then (groupLocked f) (\<lambda>g.
             case map_of (gTimers g) i of
               None \<Rightarrow> Inl NoTimer
             | Some t \<Rightarrow>
                 if authorized g caller (mFrom (tMessage t)) then Inr ()
                 else Inl (NotAuthorized caller (mFrom (tMessage t)))) of
        Inl e \<Rightarrow> (f, Inl e)
      | Inr _ \<Rightarrow> (eventLocked now (dropTimerLocked f i) ((event ''cancel'' caller)\<lparr>eText := i\<rparr>), Inr ()))"

subsection \<open>Firing\<close>

text \<open>\<open>t.Sub(u)\<close>, saturated to 64 bits.\<close>

definition nanos_between :: "int \<Rightarrow> int \<Rightarrow> int" where
  "nanos_between u t = max (- (2 ^ 63)) (min (2 ^ 63 - 1) (t - u))"

text \<open>The firings a repeat missed, and when it is due next.\<close>

definition missed_firings :: "int \<Rightarrow> fleet_timer \<Rightarrow> int" where
  "missed_firings now t =
     (let late = nanos_between (tAt t) now in if late \<ge> tEvery t then late div tEvery t else 0)"

definition next_due :: "int \<Rightarrow> fleet_timer \<Rightarrow> int" where
  "next_due now t =
     (let late = nanos_between (tAt t) now
      in if late \<ge> tEvery t then now + (tEvery t - late mod tEvery t) else tAt t + tEvery t)"

text \<open>A firing that finds an earlier one of the same repeat still waiting adds to its count.\<close>

fun add_missed :: "string \<Rightarrow> int \<Rightarrow> fleet_message list \<Rightarrow> fleet_message list" where
  "add_missed i k [] = []"
| "add_missed i k (m # ms) =
     (if mTimer m = i then m\<lparr>mMissed := mMissed m + k\<rparr> # ms else m # add_missed i k ms)"

definition waiting_firing :: "fleet \<Rightarrow> string \<Rightarrow> string \<Rightarrow> bool" where
  "waiting_firing f n i =
     (case agent_of f n of None \<Rightarrow> False | Some a \<Rightarrow> \<exists>m \<in> set (aInbox a). mTimer m = i)"

definition firing :: "string \<Rightarrow> int \<Rightarrow> fleet_timer \<Rightarrow> fleet_message" where
  "firing i missed t = (tMessage t)\<lparr>mDue := Some (tAt t), mMissed := missed,
     mID := firing_id i (Suc (tFires t)), mTimer := i\<rparr>"

definition delete_timer :: "string \<Rightarrow> fleet \<Rightarrow> fleet" where
  "delete_timer i = upd_group (\<lambda>g. g\<lparr>gTimers := AList.delete i (gTimers g)\<rparr>)"

definition fire_repeat :: "int \<Rightarrow> fleet \<Rightarrow> string \<Rightarrow> fleet_timer \<Rightarrow> fleet" where
  "fire_repeat now f i t =
     (let target = mTo (tMessage t);
          k = missed_firings now t;
          t1 = t\<lparr>tAt := next_due now t\<rparr>;
          store = (\<lambda>t. upd_group (\<lambda>g. g\<lparr>gTimers := AList.update i t (gTimers g)\<rparr>));
          f1 = armTimerLocked now i t1 (store t1 f)
      in if waiting_firing f1 target i
         then upd_agent target (\<lambda>a. a\<lparr>aInbox := add_missed i (k + 1) (aInbox a)\<rparr>) f1
         else deliverLocked now (store (t1\<lparr>tFires := Suc (tFires t)\<rparr>) f1) (firing i k t))"

definition fireTimerLocked :: "int \<Rightarrow> fleet \<Rightarrow> string \<Rightarrow> fleet_timer \<Rightarrow> fleet" where
  "fireTimerLocked now f i t =
     (if tEvery t \<le> 0
      then deliverLocked now (delete_timer i f) ((tMessage t)\<lparr>mDue := Some (tAt t)\<rparr>)
      else if mTo (tMessage t) \<noteq> FleetOwner \<and> agent_of f (mTo (tMessage t)) = None
      then delete_timer i f
      else fire_repeat now f i t)"

text \<open>The armed wait of a timer that has come due.\<close>

definition timer_due :: "int \<Rightarrow> fleet \<Rightarrow> string \<Rightarrow> fleet" where
  "timer_due now f i =
     (if kClosed f \<or> map_of (kTimers f) i = None then f
      else let f1 = disarm i f in
        case map_of (gTimers (kGroup f)) i of None \<Rightarrow> f1 | Some t \<Rightarrow> fireTimerLocked now f1 i t)"

subsection \<open>A missed expectation\<close>

definition where_queued :: "int \<Rightarrow> fleet \<Rightarrow> fleet_agent \<Rightarrow> string \<Rightarrow> nat \<Rightarrow> fleet \<times> string" where
  "where_queued now f a turn i =
     (let place = ''It is number '' @ decimal (Suc i) @ '' in '' @ aName a @ [CHR 0x27] @ ''s queue''
      in if turn \<noteq> [] then (f, place @ '', and '' @ turn @ ''.'')
         else if map_of (kRunning f) (aName a) = None
         then (f, place @ '', and '' @ aName a @ '' is not running yet.'')
         else let (f1, blocked) = blockedLocked now f a
              in (f1, if blocked
                      then place @ '', and a budget over '' @ aName a @ '' is spent, so it takes no turns.''
                      else place @ ''.''))"

definition turn_age :: "int \<Rightarrow> fleet_agent \<Rightarrow> string" where
  "turn_age now a = fleetDuration
     (case aCurrentSince a of None \<Rightarrow> 2 ^ 63 - 1 | Some t \<Rightarrow> nanos_between t now)"

definition whereLocked :: "int \<Rightarrow> fleet \<Rightarrow> string \<Rightarrow> fleet_expect \<Rightarrow> fleet \<times> string" where
  "whereLocked now f i e =
     (case agent_of f (xTo e) of
        None \<Rightarrow> (f, xTo e @ '' is gone.'')
      | Some a \<Rightarrow>
          let current = (case aCurrent a of Some c \<Rightarrow> mID c = i | None \<Rightarrow> False);
              queued = find_at (\<lambda>m. mID m = i) (aInbox a) in
          if current then (f, aName a @ '' took it up '' @ turn_age now a @ '' ago and is still working on it.'')
          else if \<exists>m \<in> set (aSteered a). mID m = i
          then (f, ''It was steered into '' @ aName a @ [CHR 0x27] @ ''s turn, which has run '' @ turn_age now a @ '' and is still going.'')
          else case queued of
            Some k \<Rightarrow> where_queued now f a
              (case aCurrent a of None \<Rightarrow> []
               | Some c \<Rightarrow> ''its current turn, on '' @ mID c @ '' from '' @ mFrom c @ '', has run '' @ turn_age now a) k
          | None \<Rightarrow> (f, case xAccepted e of None \<Rightarrow> []
              | Some t \<Rightarrow> aName a @ '' took it up '' @ fleetDuration (nanos_between t now) @ '' ago.''))"

definition missed_text :: "int \<Rightarrow> string \<Rightarrow> fleet_expect \<Rightarrow> string \<Rightarrow> string \<Rightarrow> string" where
  "missed_text now i e which place =
     (let age = fleetDuration (nanos_between (xSentAt e) now)
      in (if which = ''accept''
          then ''Your '' @ xKind e @ '' '' @ i @ '' to '' @ xTo e @ '' has not been taken up '' @ age @
               '' after you sent it, which is longer than you expected.''
          else ''Your request '' @ i @ '' to '' @ xTo e @ '' has no answer '' @ age @
               '' after you sent it, which is longer than you expected.'') @
         (if place \<noteq> [] then '' '' @ place else []) @
         '' You can keep waiting, ask, expedite it if you have authority over '' @ xTo e @ '', or change course.'')"

definition expectMissedLocked :: "int \<Rightarrow> fleet \<Rightarrow> string \<Rightarrow> fleet_expect \<Rightarrow> string \<Rightarrow> fleet" where
  "expectMissedLocked now f i e which =
     (let e1 = (if which = ''accept'' then e\<lparr>xAcceptBy := None\<rparr> else e\<lparr>xAnswerBy := None\<rparr>);
          f1 = upd_group (\<lambda>g. g\<lparr>gExpects := AList.update i e1 (gExpects g)\<rparr>) f;
          (f2, place) = whereLocked now f1 i e1;
          f3 = (if xAcceptBy e1 = None \<and> xAnswerBy e1 = None
                then upd_group (\<lambda>g. g\<lparr>gExpects := AList.delete i (gExpects g)\<rparr>) f2 else f2)
      in deliverLocked now f3 (message FleetNotice FleetClockSender (xFrom e) [] (missed_text now i e which place)))"

definition expect_due :: "int \<Rightarrow> fleet \<Rightarrow> string \<Rightarrow> string \<Rightarrow> fleet" where
  "expect_due now f i which =
     (if kClosed f \<or> map_of (kTimers f) (expect_key i which) = None then f
      else let f1 = disarm (expect_key i which) f in
        case map_of (gExpects (kGroup f)) i of None \<Rightarrow> f1 | Some e \<Rightarrow> expectMissedLocked now f1 i e which)"

subsection \<open>Expediting\<close>

fun find_agent :: "(fleet_agent \<Rightarrow> nat option) \<Rightarrow> (string \<times> fleet_agent) list \<Rightarrow> (string \<times> nat) option" where
  "find_agent look [] = None"
| "find_agent look ((n, a) # as) =
     (case look a of Some k \<Rightarrow> Some (n, k) | None \<Rightarrow> find_agent look as)"

definition queuedLocked :: "fleet_group \<Rightarrow> string \<Rightarrow> (string \<times> nat) option" where
  "queuedLocked g i = find_agent (\<lambda>a. find_at (\<lambda>m. mID m = i) (aInbox a)) (gAgents g)"

definition steeredLocked :: "fleet_group \<Rightarrow> string \<Rightarrow> (string \<times> nat) option" where
  "steeredLocked g i = find_agent (\<lambda>a. find_at (\<lambda>m. mID m = i \<and> \<not> mSteering m) (aSteered a)) (gAgents g)"

definition delete_at :: "nat \<Rightarrow> 'a list \<Rightarrow> 'a list" where
  "delete_at k xs = take k xs @ drop (Suc k) xs"

definition reclaim :: "nat \<Rightarrow> fleet_agent \<Rightarrow> fleet_agent" where
  "reclaim j a = a\<lparr>aSteered := delete_at j (aSteered a),
     aInbox := (aSteered a ! j)\<lparr>mReclaimed := True\<rparr> # aInbox a\<rparr>"

definition to_front :: "nat \<Rightarrow> fleet_agent \<Rightarrow> fleet_agent" where
  "to_front k a = a\<lparr>aInbox := (aInbox a ! k) # delete_at k (aInbox a)\<rparr>"

text \<open>Finding the message: the agent it is to go to next, its place in that agent's queue, and whether
  it was taken back out of the turn it had been steered into.\<close>

definition find_waiting ::
  "fleet \<Rightarrow> string \<Rightarrow> string \<Rightarrow> string \<Rightarrow> fleet_error + fleet \<times> string \<times> nat \<times> bool" where
  "find_waiting f caller i mode =
     (let g = kGroup f in
      case queuedLocked g i of
        Some (n, k) \<Rightarrow> if authorized g caller n then Inr (f, n, k, False) else Inl (NotAuthorized caller n)
      | None \<Rightarrow>
          (case (if mode = FleetExpediteInterrupt then steeredLocked g i else None) of
             None \<Rightarrow> Inl NotWaiting
           | Some (n, j) \<Rightarrow>
               if authorized g caller n then Inr (upd_agent n (reclaim j) f, n, 0, True)
               else Inl (NotAuthorized caller n)))"

datatype expedited =
    GoesNext
  | InterruptPending
  | CallInterrupt string nat nat bool
  | HeldByBudget
  | CallSteer string nat nat string

definition steer_out :: "fleet_agent \<Rightarrow> fleet_agent" where
  "steer_out a = a\<lparr>aInbox := tl (aInbox a), aSteered := aSteered a @ [(hd (aInbox a))\<lparr>mSteering := True\<rparr>]\<rparr>"

text \<open>What the seat is sent; \<open>stamp\<close> is \<open>fleetStamp\<close>.\<close>

definition steer_text :: "string \<Rightarrow> fleet_message \<Rightarrow> string" where
  "steer_text stamp m =
     ''[steered into your running turn: your reply at the end of this turn also answers it]'' @ ''\<newline>'' @
     stamp @ ''\<newline>'' @ formatFleetMessage m"

text \<open>\<open>Expedite\<close> up to the call of the seat. \<open>CallInterrupt n r turn reclaimed\<close> calls \<open>interruptSeat\<close> on
  runtime \<open>r\<close> of agent \<open>n\<close>; \<open>CallSteer n r turn body\<close> calls \<open>Steer\<close>.\<close>

definition expedite_begin ::
  "int \<Rightarrow> string \<Rightarrow> fleet \<Rightarrow> string \<Rightarrow> string \<Rightarrow> string \<Rightarrow> fleet \<times> (fleet_error + expedited)" where
  "expedite_begin now stamp f caller i mode =
     (if mode \<noteq> FleetExpediteSteer \<and> mode \<noteq> FleetExpediteInterrupt then (f, Inl BadMode)
      else case and_then (groupLocked f) (\<lambda>_. find_waiting f caller i mode) of
        Inl e \<Rightarrow> (f, Inl e)
      | Inr (f1, n, k, reclaimed) \<Rightarrow>
          let f2 = upd_agent n (to_front k) f1 in
          (case (agent_of f2 n, map_of (kRunning f2) n) of
             (Some a, Some rt) \<Rightarrow>
               if aCurrent a = None then (f2, Inr GoesNext)
               else if mode = FleetExpediteInterrupt then
                 (if \<not> rtLive rt
                  then (upd_runtime n (\<lambda>r. r\<lparr>rtPending := Some (caller, i)\<rparr>) f2, Inr InterruptPending)
                  else (upd_runtime n (\<lambda>r. r\<lparr>rtInterrupting := rtInterrupting r + 1\<rparr>) f2,
                        Inr (CallInterrupt n (rtId rt) (rtTurns rt) reclaimed)))
               else
                 let (f3, blocked) = blockedLocked now f2 a
                 in if blocked then (f3, Inr HeldByBudget)
                    else (upd_agent n steer_out f3,
                          Inr (CallSteer n (rtId rt) (rtTurns rt) (steer_text stamp (hd (aInbox a)))))
           | _ \<Rightarrow> (f2, Inr GoesNext)))"

text \<open>A seat's answer to \<open>Steer\<close>. The message is no longer on its way, wherever it is by now. It stays
  with the turn if that is still the one it was sent into, and goes back to the head of the queue
  otherwise.\<close>

definition clear_steering :: "string \<Rightarrow> fleet_agent \<Rightarrow> fleet_agent" where
  "clear_steering i a =
     (let clear = (\<lambda>m. if mID m = i then m\<lparr>mSteering := False\<rparr> else m)
      in a\<lparr>aInbox := map clear (aInbox a), aCurrent := map_option clear (aCurrent a),
           aSteered := map clear (aSteered a)\<rparr>)"

definition steer_back :: "nat \<Rightarrow> fleet_agent \<Rightarrow> fleet_agent" where
  "steer_back j a = a\<lparr>aSteered := delete_at j (aSteered a), aInbox := (aSteered a ! j) # aInbox a\<rparr>"

definition steer_in :: "nat \<Rightarrow> fleet_agent \<Rightarrow> fleet_agent" where
  "steer_in j a = a\<lparr>aSteered := (aSteered a)[j := (aSteered a ! j)\<lparr>mCharged := True\<rparr>]\<rparr>"

definition landed :: "fleet_agent \<Rightarrow> fleet_runtime option \<Rightarrow> nat \<Rightarrow> nat \<Rightarrow> bool" where
  "landed a rt r turn \<longleftrightarrow>
     (case rt of None \<Rightarrow> False | Some t \<Rightarrow> rtId t = r \<and> rtTurns t = turn \<and> aCurrent a \<noteq> None)"

definition steer_done :: "int \<Rightarrow> fleet \<Rightarrow> string \<Rightarrow> nat \<Rightarrow> nat \<Rightarrow> string \<Rightarrow> bool \<Rightarrow> fleet" where
  "steer_done now f0 n r turn i ok =
     (let f = upd_agent n (clear_steering i) f0 in
      case agent_of f n of
        None \<Rightarrow> f
      | Some a \<Rightarrow>
          (case find_at (\<lambda>m. mID m = i) (aSteered a) of
             None \<Rightarrow> f
           | Some j \<Rightarrow>
               if kClosed f then f
               else if ok \<and> landed a (map_of (kRunning f) n) r turn then
                 let f1 = upd_agent n (steer_in j) (acceptedLocked now f i)
                 in if mCharged (aSteered a ! j) then f1 else chargeTurnLocked f1 a
               else upd_agent n (steer_back j) f))"

text \<open>\<open>restoreSteered\<close>, after an interrupt that failed.\<close>

definition steer_again :: "nat \<Rightarrow> fleet_agent \<Rightarrow> fleet_agent" where
  "steer_again k a = a\<lparr>aInbox := delete_at k (aInbox a),
     aSteered := aSteered a @ [(aInbox a ! k)\<lparr>mReclaimed := False\<rparr>]\<rparr>"

definition restoreSteered :: "fleet \<Rightarrow> string \<Rightarrow> nat \<Rightarrow> nat \<Rightarrow> string \<Rightarrow> fleet \<times> bool" where
  "restoreSteered f n r turn i =
     (case agent_of f n of
        None \<Rightarrow> (f, False)
      | Some a \<Rightarrow>
          (case find_at (\<lambda>m. mID m = i) (aInbox a) of
             None \<Rightarrow> (f, False)
           | Some k \<Rightarrow>
               if \<not> kClosed f \<and> landed a (map_of (kRunning f) n) r turn
               then (upd_agent n (steer_again k) f, True) else (f, False)))"

subsection \<open>Restart\<close>

text \<open>\<open>Resume\<close> arms what the reloaded state schedules; \<open>Close\<close> only marks the kernel.\<close>

definition Resume :: "int \<Rightarrow> fleet \<Rightarrow> fleet" where
  "Resume now f =
     (if kClosed f then f
      else let f1 = foldl (\<lambda>f (i, t). armTimerLocked now i t f) f (gTimers (kGroup f))
           in foldl (\<lambda>f (i, e). armExpectsLocked now i e f) f1 (gExpects (kGroup f)))"

definition Close :: "fleet \<Rightarrow> fleet" where
  "Close f = f\<lparr>kClosed := True\<rparr>"

end
