(* ===== verification/FleetChecks.thy ===== *)
theory FleetChecks
  imports FleetSend
begin

text \<open>
  Checks (src/fleet_check.go): a script that is pinned by its hash when it is registered, run against
  an export of a commit, and whose result the kernel records and sends to the agent that asked. The
  file system, git and the script's process are outside the model: what they gave is an argument.
\<close>

definition fleetCheckDefaultTimeout :: int where "fleetCheckDefaultTimeout = 1800000000000"
definition fleetCheckMaxTimeout :: int where "fleetCheckMaxTimeout = 14400000000000"
definition fleetCheckQueue :: nat where "fleetCheckQueue = 8"
definition fleetCheckOutput :: nat where "fleetCheckOutput = 16384"

record check_args =
  caName :: string
  caRepo :: string
  caScript :: string
  caScriptFile :: string
  caAgentsMayRun :: bool
  caTimeout :: int

definition may_replace :: "fleet_group \<Rightarrow> string \<Rightarrow> string \<Rightarrow> fleet_error + unit" where
  "may_replace g caller name =
     (case map_of (gChecks g) name of
        None \<Rightarrow> Inr ()
      | Some old \<Rightarrow>
          if authorized g caller (cRegisteredBy old) then Inr ()
          else Inl (NotAuthorized caller (cRegisteredBy old)))"

text \<open>\<open>RegisterCheck\<close> up to the lock: \<open>repo_ok\<close> says that git knows the repository, \<open>file\<close> reads the
  script's file. The value is the script and the time limit.\<close>

definition check_register :: "bool \<Rightarrow> (string \<Rightarrow> string option) \<Rightarrow> check_args option \<Rightarrow> fleet_error + string \<times> int" where
  "check_register repo_ok file args =
     (case args of
        None \<Rightarrow> Inl BadName
      | Some c \<Rightarrow>
          if \<not> fleetNameValid (caName c) then Inl BadName
          else if \<not> is_abs (caRepo c) then Inl RepoNotAbsolute
          else if \<not> repo_ok then Inl BadRepo
          else and_then
            (if caScriptFile c \<noteq> [] then
               (case file (caScriptFile c) of None \<Rightarrow> Inl ReadInstructions | Some t \<Rightarrow> Inr t)
             else Inr (caScript c))
            (\<lambda>script.
              let timeout = (if caTimeout c = 0 then fleetCheckDefaultTimeout else caTimeout c)
              in if blank script then Inl NoScript
                 else if timeout < 0 \<or> timeout > fleetCheckMaxTimeout then Inl BadTimeout
                 else Inr (script, timeout)))"

text \<open>\<open>sha\<close> is the hash in hexadecimal, \<open>dir\<close> the directory of pinned scripts, and \<open>pinned\<close> says whether
  the script could be written there.\<close>

definition RegisterCheck ::
  "int \<Rightarrow> bool \<Rightarrow> (string \<Rightarrow> string option) \<Rightarrow> (string \<Rightarrow> string) \<Rightarrow> string \<Rightarrow> bool \<Rightarrow> fleet \<Rightarrow> string \<Rightarrow>
   check_args option \<Rightarrow> fleet \<times> (fleet_error + unit)" where
  "RegisterCheck now repo_ok file sha dir pinned f caller args =
     (case and_then (check_register repo_ok file args) (\<lambda>(script, timeout).
             and_then (groupLocked f) (\<lambda>g.
               and_then (may_replace g caller (caName (the args))) (\<lambda>_.
                 if pinned then Inr (script, timeout) else Inl PinFailed))) of
        Inl e \<Rightarrow> (f, Inl e)
      | Inr (script, timeout) \<Rightarrow>
          let c = the args;
              state = \<lparr>cRepo = caRepo c, cPath = dir @ ''/'' @ caName c @ ''.sh'', cSHA256 = sha script,
                       cAgentsMayRun = caAgentsMayRun c, cTimeoutSeconds = real_of_int timeout / 1000000000,
                       cRegistered = now, cRegisteredBy = caller\<rparr>;
              f1 = upd_group (\<lambda>g. g\<lparr>gCheckLast := AList.delete (caName c) (gCheckLast g),
                                    gChecks := AList.update (caName c) state (gChecks g)\<rparr>) f
          in (eventLocked now f1 ((event ''check_registered'' caller)\<lparr>eText :=
                caName c @ '' '' @ sha script @ '' '' @ caRepo c\<rparr>), Inr ()))"

subsection \<open>Running\<close>

definition bad_revision :: "string \<Rightarrow> bool" where
  "bad_revision commit \<longleftrightarrow> starts_with ''-'' commit \<or>
     (\<exists>c \<in> set commit. c = CHR '' '' \<or> c = CHR 0x09 \<or> c = CHR 0x0D \<or> c = CHR 0x0A)"

definition may_run :: "fleet_group \<Rightarrow> string \<Rightarrow> string \<Rightarrow> fleet_error + fleet_check" where
  "may_run g requester name =
     (case map_of (gChecks g) name of
        None \<Rightarrow> Inl NoCheck
      | Some c \<Rightarrow>
          if \<not> cAgentsMayRun c \<and> \<not> authorized g requester (cRegisteredBy c) then Inl NoCheck else Inr c)"

definition agents_runs :: "fleet_group \<Rightarrow> nat" where
  "agents_runs g = length (filter (\<lambda>(i, r). nRequester r \<noteq> FleetOwner) (gCheckRuns g))"

text \<open>Before git resolves the revision; the value is the check's repository.\<close>

definition run_check_begin :: "fleet \<Rightarrow> string \<Rightarrow> string \<Rightarrow> string \<Rightarrow> fleet_error + string" where
  "run_check_begin f requester name commit =
     (if commit \<noteq> [] \<and> bad_revision commit then Inl BadRevision
      else and_then (groupLocked f) (\<lambda>g.
        and_then (may_run g requester name) (\<lambda>c.
          if requester \<noteq> FleetOwner \<and> map_of (gAgents g) requester = None then Inl (NoAgent requester)
          else if requester \<noteq> FleetOwner \<and> agents_runs g \<ge> fleetCheckQueue then Inl CheckQueueFull
          else Inr (cRepo c))))"

definition check_id :: "nat \<Rightarrow> string" where
  "check_id n = ''c'' @ decimal n"

definition blank_result :: "string \<Rightarrow> string \<Rightarrow> string \<Rightarrow> string \<Rightarrow> string \<Rightarrow> check_result" where
  "blank_result i name commit sha requester =
     \<lparr>rsRunID = i, rsName = name, rsCommit = commit, rsSHA256 = sha, rsRequester = requester, rsExit = - 1,
      rsScore = None, rsOutput = [], rsSeconds = 0, rsError = []\<rparr>"

text \<open>Once git has resolved it to \<open>sha\<close>; the value is the run's ID and the check that is to run.\<close>

definition run_check ::
  "int \<Rightarrow> bool \<Rightarrow> fleet \<Rightarrow> string \<Rightarrow> string \<Rightarrow> string \<Rightarrow> fleet \<times> (fleet_error + string \<times> fleet_check)" where
  "run_check now saved f requester name sha =
     (case and_then (groupLocked f) (\<lambda>g. may_run g requester name) of
        Inl e \<Rightarrow> (f, Inl e)
      | Inr c \<Rightarrow>
          let i = check_id (Suc (gNextID (kGroup f)));
              run = \<lparr>nCheck = name, nCommit = sha, nRequester = requester,
                     nRequesterToken = (case agent_of f requester of None \<Rightarrow> [] | Some a \<Rightarrow> aToken a), nStarted = now\<rparr>;
              f1 = upd_group (\<lambda>g. g\<lparr>gCheckRuns := AList.update i run (gCheckRuns g)\<rparr>) (bump_id f);
              f2 = eventLocked now f1 ((event ''check_started'' requester)\<lparr>eCheck := Some (blank_result i name sha [] requester)\<rparr>)
          in if saved then (f2, Inr (i, c))
             else (upd_group (\<lambda>g. g\<lparr>gCheckRuns := AList.delete i (gCheckRuns g)\<rparr>) f2, Inl SaveFailed))"

subsection \<open>Results\<close>

definition boundCheckOutput :: "string \<Rightarrow> string" where
  "boundCheckOutput s =
     (if length s \<le> fleetCheckOutput then s else drop (length s - fleetCheckOutput) s)"

text \<open>\<open>number\<close> renders a score.\<close>

definition describeCheckResult :: "(real \<Rightarrow> string) \<Rightarrow> check_result \<Rightarrow> string" where
  "describeCheckResult number r =
     (let took = fleetDuration \<lfloor>rsSeconds r * 1000000000\<rfloor>
      in ''Check '' @ rsName r @ '' on '' @ take 12 (rsCommit r) @
         (if rsError r \<noteq> [] then '' produced no result: '' @ rsError r @ ''.''
          else case rsScore r of
            Some s \<Rightarrow> '': score '' @ number s @ '', exit '' @ signed_decimal (rsExit r) @ '', after '' @ took @ ''.''
          | None \<Rightarrow> '': exit '' @ signed_decimal (rsExit r) @ '', after '' @ took @ ''.'') @
         (if rsOutput r \<noteq> [] then ''\<newline>\<newline>Output (tail):\<newline>'' @ rsOutput r else []))"

definition finishCheckLocked :: "int \<Rightarrow> (real \<Rightarrow> string) \<Rightarrow> fleet \<Rightarrow> string \<Rightarrow> check_result \<Rightarrow> fleet" where
  "finishCheckLocked now number f i r0 =
     (let r = r0\<lparr>rsOutput := boundCheckOutput (rsOutput r0)\<rparr>;
          run = map_of (gCheckRuns (kGroup f)) i;
          f1 = upd_group (\<lambda>g. g\<lparr>gCheckRuns := AList.delete i (gCheckRuns g)\<rparr>) f;
          f2 = eventLocked now f1 ((event ''check_result'' (rsRequester r))\<lparr>eCheck := Some r\<rparr>);
          f3 = (case map_of (gChecks (kGroup f2)) (rsName r) of
                  Some c \<Rightarrow> if cSHA256 c = rsSHA256 r
                    then upd_group (\<lambda>g. g\<lparr>gCheckLast := AList.update (rsName r) r (gCheckLast g)\<rparr>) f2 else f2
                | None \<Rightarrow> f2)
      in if rsRequester r = FleetOwner then f3
         else case (agent_of f3 (rsRequester r), run) of
           (Some a, Some n) \<Rightarrow>
             if aToken a = nRequesterToken n
             then deliverLocked now f3 (message FleetResponse (''check:'' @ rsName r) (rsRequester r) i
                    (describeCheckResult number r))
             else f3
         | _ \<Rightarrow> f3)"

text \<open>The end of \<open>executeCheck\<close>: a run whose fleet or kernel is going records nothing.\<close>

definition check_done :: "int \<Rightarrow> (real \<Rightarrow> string) \<Rightarrow> fleet \<Rightarrow> string \<Rightarrow> check_result \<Rightarrow> fleet" where
  "check_done now number f i r = (if kClosed f then f else finishCheckLocked now number f i r)"

definition interrupted_run :: "int \<Rightarrow> (real \<Rightarrow> string) \<Rightarrow> fleet \<Rightarrow> string \<Rightarrow> fleet" where
  "interrupted_run now number f i =
     (case map_of (gCheckRuns (kGroup f)) i of
        None \<Rightarrow> f
      | Some run \<Rightarrow> finishCheckLocked now number f i
          ((blank_result i (nCheck run) (nCommit run) [] (nRequester run))
             \<lparr>rsError := ''the broker restarted during this run; run it again''\<rparr>))"

text \<open>\<open>reportInterruptedChecksLocked\<close>; \<open>order\<close> is the order of Go's map iteration.\<close>

definition reportInterruptedChecksLocked :: "int \<Rightarrow> (real \<Rightarrow> string) \<Rightarrow> string list \<Rightarrow> fleet \<Rightarrow> fleet" where
  "reportInterruptedChecksLocked now number order f = foldl (interrupted_run now number) f order"

subsection \<open>The tail of a script's output\<close>

text \<open>\<open>tailBuffer\<close>: \<open>Write\<close> appends, and cuts the buffer back once it holds twice what is wanted.\<close>

definition tail_write :: "nat \<Rightarrow> string \<Rightarrow> string \<Rightarrow> string" where
  "tail_write cap buf p =
     (let b = buf @ p in if length b > 2 * cap then drop (length b - cap) b else b)"

definition tail_string :: "nat \<Rightarrow> string \<Rightarrow> string" where
  "tail_string cap buf = (if length buf > cap then drop (length buf - cap) buf else buf)"

lemma tail_string_drop: "tail_string cap buf = drop (length buf - cap) buf"
  by (simp add: tail_string_def)

lemma tail_string_append: "tail_string cap (buf @ p) = tail_string cap (tail_string cap buf @ p)"
  by (cases "length buf \<le> cap") (simp_all add: tail_string_drop add.commute)

lemma tail_string_write: "tail_string cap (tail_write cap buf p) = tail_string cap (buf @ p)"
  by (auto simp: tail_write_def Let_def tail_string_drop)

lemma tail_string_writes:
  "tail_string cap (foldl (tail_write cap) buf ps) = tail_string cap (buf @ concat ps)"
proof (induction ps arbitrary: buf)
  case (Cons p ps)
  have "tail_string cap (foldl (tail_write cap) buf (p # ps)) = tail_string cap (tail_write cap buf p @ concat ps)"
    by (simp add: Cons)
  also have "\<dots> = tail_string cap (tail_string cap (buf @ p) @ concat ps)"
    by (metis tail_string_append tail_string_write)
  also have "\<dots> = tail_string cap ((buf @ p) @ concat ps)" by (metis tail_string_append)
  finally show ?case by simp
qed simp

lemma tail_write_bound: "length buf \<le> 2 * cap \<Longrightarrow> length (tail_write cap buf p) \<le> 2 * cap"
  by (auto simp: tail_write_def Let_def)

end
