(* ===== verification/FleetLedger.thy ===== *)
theory FleetLedger
  imports FleetChecks "HOL-Library.Multiset"
begin

text \<open>
  The fleet's account of requests. Every place a request can be in is counted: held by an agent, as its
  current message, steered into its turn or in its inbox; scheduled for later; or answered, by a
  response in the log that names it and goes to whoever sent it. \<open>moved\<close> describes a piece of the
  kernel by what it takes out of the agents' hands and what it puts into the log, so that a larger
  piece is the sum of its parts, and \<open>books\<close> is the account's invariant.
\<close>

subsection \<open>The account\<close>

type_synonym debt = "string \<times> string"

definition requests :: "fleet_message list \<Rightarrow> debt multiset" where
  "requests ms = mset (map (\<lambda>m. (mID m, mFrom m)) (filter (\<lambda>m. mKind m = FleetRequest) ms))"

definition holding :: "fleet_agent \<Rightarrow> fleet_message list" where
  "holding a = (case aCurrent a of None \<Rightarrow> [] | Some m \<Rightarrow> [m]) @ aSteered a @ aInbox a"

definition held_by :: "(string \<times> fleet_agent) list \<Rightarrow> debt multiset" where
  "held_by agents = requests (concat (map (\<lambda>(n, a). holding a) agents))"

definition held :: "fleet \<Rightarrow> debt multiset" where
  "held f = held_by (gAgents (kGroup f))"

definition log_messages :: "fleet \<Rightarrow> fleet_message list" where
  "log_messages f = List.map_filter eMessage (lFile (kLog f))"

definition answers_in :: "fleet_message list \<Rightarrow> debt multiset" where
  "answers_in ms = mset (map (\<lambda>m. (mInReplyTo m, mTo m))
     (filter (\<lambda>m. mKind m = FleetResponse \<and> mInReplyTo m \<noteq> []) ms))"

definition asked_in :: "fleet_message list \<Rightarrow> debt multiset" where
  "asked_in ms = requests (filter (\<lambda>m. mTo m \<noteq> FleetOwner) ms)"

definition answers :: "fleet \<Rightarrow> debt multiset" where
  "answers f = answers_in (log_messages f)"

definition asked :: "fleet \<Rightarrow> debt multiset" where
  "asked f = asked_in (log_messages f)"

lemma requests_simps [simp]:
  "requests [] = {#}"
  "requests (m # ms) = (if mKind m = FleetRequest then {#(mID m, mFrom m)#} else {#}) + requests ms"
  "requests (ms @ ms') = requests ms + requests ms'"
  by (simp_all add: requests_def)

lemma requests_none [simp]: "\<forall>m \<in> set ms. mKind m \<noteq> FleetRequest \<Longrightarrow> requests ms = {#}"
  by (induction ms) auto

lemma requests_filter: "requests (filter (\<lambda>m. mKind m = FleetRequest) ms) = requests ms"
  by (simp add: requests_def)

lemma requests_split: "requests (filter P ms) + requests (filter (\<lambda>m. \<not> P m) ms) = requests ms"
  by (induction ms) auto

lemma requests_map [simp]:
  assumes "\<And>m. mID (h m) = mID m" "\<And>m. mFrom (h m) = mFrom m" "\<And>m. mKind (h m) = mKind m"
  shows "requests (map h ms) = requests ms"
  by (induction ms) (simp_all add: assms)

lemma held_by_simps [simp]:
  "held_by [] = {#}" "held_by ((n, a) # as) = requests (holding a) + held_by as"
  by (simp_all add: held_by_def)

lemma held_by_map:
  assumes "\<And>n a. (n, a) \<in> set as \<Longrightarrow> requests (holding (h n a)) = requests (holding a)"
  shows "held_by (map (\<lambda>(n, a). (n, h n a)) as) = held_by as"
  using assms by (induction as) auto

lemma held_by_entry:
  assumes "distinct (map fst as)" "map_of as n = Some a"
  shows "held_by (AList.map_entry n h as) + requests (holding a) = held_by as + requests (holding (h a))"
  using assms by (induction as) (auto simp: map_of_eq_None_iff ac_simps AList.map_entry.simps split: if_splits)

lemma held_by_entry_None: "map_of as n = None \<Longrightarrow> AList.map_entry n h as = as"
  by (induction as) auto

lemma held_by_delete:
  assumes "distinct (map fst as)" "map_of as n = Some a"
  shows "held_by (AList.delete n as) + requests (holding a) = held_by as"
  using assms
proof (induction as)
  case (Cons p as)
  show ?case
  proof (cases "fst p = n")
    case True
    then have "AList.delete n (p # as) = as"
      using Cons.prems(1) by (cases p) (force simp: AList.delete_eq filter_id_conv)
    with True Cons.prems(2) show ?thesis by (cases p) (auto simp: ac_simps)
  next
    case False
    with Cons show ?thesis by (cases p) (auto simp: AList.delete_eq ac_simps)
  qed
qed simp

subsection \<open>Well-formed fleets\<close>

text \<open>Agents and timers are filed under their own names and IDs, and a scheduled message answers nothing.\<close>

definition filed :: "fleet \<Rightarrow> bool" where
  "filed f \<longleftrightarrow> distinct (map fst (gAgents (kGroup f))) \<and>
     (\<forall>(n, a) \<in> set (gAgents (kGroup f)). aName a = n) \<and>
     distinct (map fst (gTimers (kGroup f))) \<and>
     (\<forall>(i, t) \<in> set (gTimers (kGroup f)). mID (tMessage t) = i \<and> mInReplyTo (tMessage t) = []) \<and>
     distinct (map fst (gCheckRuns (kGroup f)))"

lemma filed_name: "filed f \<Longrightarrow> agent_of f n = Some a \<Longrightarrow> aName a = n"
  by (auto simp: filed_def agent_of_def dest!: map_of_SomeD)

text \<open>\<open>moved f f' out ins ans ask\<close>: the piece took \<open>out\<close> from the agents and gave them \<open>ins\<close>, wrote the
  answers \<open>ans\<close> and recorded the requests \<open>ask\<close>; timers, check runs and the agents' names stay.\<close>

definition moved ::
  "fleet \<Rightarrow> fleet \<Rightarrow> debt multiset \<Rightarrow> debt multiset \<Rightarrow> debt multiset \<Rightarrow> debt multiset \<Rightarrow> bool" where
  "moved f f' out ins ans ask \<longleftrightarrow>
     held f' + out = held f + ins \<and> answers f' = answers f + ans \<and> asked f' = asked f + ask \<and>
     gTimers (kGroup f') = gTimers (kGroup f) \<and> gCheckRuns (kGroup f') = gCheckRuns (kGroup f) \<and>
     map fst (gAgents (kGroup f')) = map fst (gAgents (kGroup f)) \<and>
     gNextID (kGroup f) \<le> gNextID (kGroup f') \<and> filed f'"

abbreviation quiet :: "fleet \<Rightarrow> fleet \<Rightarrow> bool" where
  "quiet f f' \<equiv> moved f f' {#} {#} {#} {#}"

lemma moved_filed: "moved f f' out ins ans ask \<Longrightarrow> filed f'"
  by (simp add: moved_def)

lemma moved_refl [intro]: "filed f \<Longrightarrow> quiet f f"
  by (simp add: moved_def)

lemma moved_trans:
  assumes "moved f f1 o1 i1 a1 q1" "moved f1 f2 o2 i2 a2 q2"
  shows "moved f f2 (o1 + o2) (i1 + i2) (a1 + a2) (q1 + q2)"
proof -
  have "held f2 + o2 + o1 = held f1 + i2 + o1" using assms(2) by (simp add: moved_def)
  also have "\<dots> = held f1 + o1 + i2" by (simp add: ac_simps)
  also have "\<dots> = held f + i1 + i2" using assms(1) by (simp add: moved_def)
  finally have "held f2 + (o1 + o2) = held f + (i1 + i2)" by (simp add: ac_simps)
  with assms show ?thesis by (auto simp: moved_def ac_simps)
qed

lemma quiet_trans [trans]:
  "quiet f f1 \<Longrightarrow> moved f1 f2 out ins ans ask \<Longrightarrow> moved f f2 out ins ans ask"
  "moved f f1 out ins ans ask \<Longrightarrow> quiet f1 f2 \<Longrightarrow> moved f f2 out ins ans ask"
  using moved_trans [of f f1 "{#}" "{#}" "{#}" "{#}" f2 out ins ans ask]
    moved_trans [of f f1 out ins ans ask f2 "{#}" "{#}" "{#}" "{#}"] by simp_all

text \<open>A piece that touches neither mailboxes, timers, runs nor the log moves nothing.\<close>

lemma quiet_same:
  assumes "filed f" "gAgents (kGroup f') = gAgents (kGroup f)" "gTimers (kGroup f') = gTimers (kGroup f)"
    and "gCheckRuns (kGroup f') = gCheckRuns (kGroup f)" "gNextID (kGroup f) \<le> gNextID (kGroup f')"
    and "kLog f' = kLog f"
  shows "quiet f f'"
  using assms by (simp add: moved_def filed_def held_def answers_def asked_def log_messages_def)

lemma map_fst_map_entry [simp]: "map fst (AList.map_entry n h xs) = map fst xs"
  by (induction xs) auto

lemma in_map_entry: "(k, y) \<in> set (AList.map_entry n h xs) \<Longrightarrow> \<exists>x. (k, x) \<in> set xs \<and> (y = x \<or> y = h x)"
  by (induction xs) (auto split: if_splits)

lemma moved_update_agent:
  assumes "filed f" "\<And>a. aName (h a) = aName a"
    and some: "agent_of f n = Some a" "requests (holding (h a)) + out = requests (holding a) + ins"
  shows "moved f (upd_agent n h f) out ins {#} {#}"
proof -
  let ?g = "kGroup f"
  have d: "distinct (map fst (gAgents ?g))" and nm: "\<forall>(n, a) \<in> set (gAgents ?g). aName a = n"
    using assms(1) by (simp_all add: filed_def)
  have "held_by (AList.map_entry n h (gAgents ?g)) + requests (holding a) + out =
      held_by (gAgents ?g) + (requests (holding (h a)) + out)"
    using held_by_entry [OF d, of n a h] some(1) by (simp add: agent_of_def)
  also have "\<dots> = held_by (gAgents ?g) + requests (holding a) + ins" using some(2) by (simp add: ac_simps)
  finally have "held_by (AList.map_entry n h (gAgents ?g)) + out = held_by (gAgents ?g) + ins"
    by (simp add: ac_simps)
  moreover have "\<forall>(n, a) \<in> set (AList.map_entry n h (gAgents ?g)). aName a = n"
    using nm assms(2) by (fastforce dest: in_map_entry)
  ultimately show ?thesis
    using assms(1) by (simp add: moved_def filed_def held_def answers_def asked_def log_messages_def
        upd_agent_def upd_group_def)
qed

lemma upd_agent_None: "agent_of f n = None \<Longrightarrow> upd_agent n h f = f"
  by (simp add: upd_agent_def upd_group_def agent_of_def held_by_entry_None)

lemma quiet_update_agent:
  assumes "filed f" "\<And>a. aName (h a) = aName a"
    and "\<And>a. agent_of f n = Some a \<Longrightarrow> requests (holding (h a)) = requests (holding a)"
  shows "quiet f (upd_agent n h f)"
proof (cases "agent_of f n")
  case None with assms(1) show ?thesis by (auto simp: upd_agent_None)
next
  case (Some a) with assms show ?thesis by (auto intro: moved_update_agent)
qed

lemma quiet_upd_budget [intro]: "filed f \<Longrightarrow> quiet f (upd_budget i h f)"
  by (rule quiet_same) (simp_all add: upd_budget_def upd_group_def)

lemma quiet_upd_runtime [intro]: "filed f \<Longrightarrow> quiet f (upd_runtime n h f)"
  by (rule quiet_same) (simp_all add: upd_runtime_def)

lemma quiet_disarm [intro]: "filed f \<Longrightarrow> quiet f (disarm k f)"
  by (rule quiet_same) (simp_all add: disarm_def)

lemma quiet_arm [intro]: "filed f \<Longrightarrow> quiet f (arm now k d f)"
  by (rule quiet_same) (simp_all add: arm_def)

lemma quiet_answered [intro]: "filed f \<Longrightarrow> quiet f (answeredLocked f i)"
  by (rule quiet_same) (simp_all add: answeredLocked_def disarm_def upd_group_def)

lemma quiet_accepted [intro]: "filed f \<Longrightarrow> quiet f (acceptedLocked now f i)"
  by (rule quiet_same) (simp_all add: acceptedLocked_def disarm_def upd_group_def split: option.splits)

lemma quiet_bump [intro]: "filed f \<Longrightarrow> quiet f (bump_id f)"
  by (rule quiet_same) (simp_all add: bump_id_def upd_group_def)

lemma moved_event:
  assumes "filed f"
  shows "moved f (eventLocked now f e) {#} {#}
    (case eMessage e of None \<Rightarrow> {#} | Some m \<Rightarrow> answers_in [m])
    (case eMessage e of None \<Rightarrow> {#} | Some m \<Rightarrow> asked_in [m])"
  using assms
  by (auto simp: moved_def filed_def held_def answers_def asked_def log_messages_def eventLocked_def
      Let_def List.map_filter_def answers_in_def asked_in_def split: option.splits)

lemma quiet_event [intro]: "filed f \<Longrightarrow> eMessage e = None \<Longrightarrow> quiet f (eventLocked now f e)"
  using moved_event [of f now e] by simp

lemma agent_of_event [simp]: "agent_of (eventLocked now f e) n = agent_of f n"
  by (simp add: eventLocked_def Let_def agent_of_def)

lemma agent_of_answered [simp]: "agent_of (answeredLocked f i) n = agent_of f n"
  by (simp add: answeredLocked_def disarm_def upd_group_def agent_of_def)

lemma agent_of_bump [simp]: "agent_of (bump_id f) n = agent_of f n"
  by (simp add: bump_id_def upd_group_def agent_of_def)

subsection \<open>Delivery\<close>

lemma stamped_simps [simp]:
  "mID (stamped now i m) = i" "mKind (stamped now i m) = mKind m" "mFrom (stamped now i m) = mFrom m"
  "mTo (stamped now i m) = mTo m" "mInReplyTo (stamped now i m) = mInReplyTo m"
  by (simp_all add: stamped_def)

lemma moved_logged:
  assumes "filed f" "logged now f m0 = (f3, m)"
  shows "moved f f3 {#} {#} (answers_in [m]) (asked_in [m])" and "agent_of f3 n = agent_of f n"
    and "mKind m = mKind m0" "mFrom m = mFrom m0" "mTo m = mTo m0" "mInReplyTo m = mInReplyTo m0"
    and "mID m0 \<noteq> [] \<Longrightarrow> mID m = mID m0"
proof -
  define f1 where "f1 = (if mID m0 = [] then bump_id f else f)"
  define f2 where "f2 = (if mKind m0 = FleetResponse \<and> mInReplyTo m0 \<noteq> [] then answeredLocked f1 (mInReplyTo m0) else f1)"
  have q1: "quiet f f1" using assms(1) by (auto simp: f1_def)
  have "quiet f1 f2" using moved_filed [OF q1] by (auto simp: f2_def)
  with q1 have q2: "quiet f f2" by (rule quiet_trans(1))
  have f3: "f3 = eventLocked now f2 (message_event m)"
    and m: "m = stamped now (if mID m0 = [] then request_id (Suc (gNextID (kGroup f))) else mID m0) m0"
    using assms(2) by (auto simp: logged_def Let_def f1_def f2_def nextIDLocked_def split: if_splits)
  have "eMessage (message_event m) = Some m" by (simp add: message_event_def)
  then show "moved f f3 {#} {#} (answers_in [m]) (asked_in [m])"
    using quiet_trans(1) [OF q2 moved_event [OF moved_filed [OF q2], of now "message_event m"]] f3 by simp
  show "agent_of f3 n = agent_of f n" by (simp add: f3 f2_def f1_def)
  show "mKind m = mKind m0" "mFrom m = mFrom m0" "mTo m = mTo m0" "mInReplyTo m = mInReplyTo m0"
    "mID m0 \<noteq> [] \<Longrightarrow> mID m = mID m0" by (simp_all add: m)
qed

lemma moved_drop_in:
  assumes "filed f" "reaches f (mTo m)"
  shows "moved f (drop_in m f) {#} (requests [m]) {#} {#}"
proof -
  obtain a where "agent_of f (mTo m) = Some a" using assms(2) by (auto simp: reaches_def split: option.splits)
  from moved_update_agent [OF assms(1) _ this, of "\<lambda>b. b\<lparr>aInbox := aInbox b @ [m]\<rparr>" "{#}" "requests [m]"]
  show ?thesis by (simp add: drop_in_def holding_def)
qed

lemma reaches_cong: "agent_of f = agent_of f' \<Longrightarrow> reaches f = reaches f'"
  by (simp add: reaches_def fun_eq_iff)

text \<open>A response to a request is an answer in the log.\<close>

lemma moved_response:
  assumes "filed f" "mKind m \<noteq> FleetRequest"
  shows "moved f (deliverLocked now f m) {#} {#} (answers_in [m]) {#}"
proof -
  obtain f3 m' where l: "logged now f m = (f3, m')" by fastforce
  note L = moved_logged [OF assms(1) l]
  have a: "answers_in [m'] = answers_in [m]" "asked_in [m'] = {#}" "requests [m'] = {#}"
    using assms(2) L by (simp_all add: answers_in_def asked_in_def)
  have "quiet f3 (if mTo m = FleetOwner then f3 else if reaches f (mTo m) then drop_in m' f3 else f3)"
    using moved_drop_in [OF moved_filed [OF L(1)], of m'] L(2,5) a(3) moved_filed [OF L(1)]
      reaches_cong [of f3 f] by (auto simp: fun_eq_iff)
  from quiet_trans(2) [OF L(1) this] show ?thesis
    using assms(2) L(2,5) reaches_cong [of f3 f]
    by (subst deliverLocked.simps) (auto simp: l a fun_eq_iff split: if_splits)
qed

lemma quiet_news [intro]: "filed f \<Longrightarrow> quiet f (deliverLocked now f (news n p t))"
  using moved_response [of f "news n p t" now] by (simp add: news_def message_def answers_in_def)

lemma moved_answer:
  assumes "filed f" "mID m \<noteq> []"
  shows "moved f (deliverLocked now f (answer_to n m t)) {#} {#} {#(mID m, mFrom m)#} {#}"
  using moved_response [OF assms(1), of "answer_to n m t" now] assms(2)
  by (simp add: answer_to_def message_def answers_in_def)

text \<open>A request reaches its agent, or is answered at once.\<close>

lemma moved_request:
  assumes "filed f" "mKind m = FleetRequest" "mID m \<noteq> []"
  shows "\<exists>ins ans. moved f (deliverLocked now f m) {#} ins ans (ins + ans) \<and>
    ins + ans = (if mTo m = FleetOwner then {#} else {#(mID m, mFrom m)#})"
proof -
  obtain f3 m' where l: "logged now f m = (f3, m')" by fastforce
  note L = moved_logged [OF assms(1) l]
  let ?d = "(mID m, mFrom m)"
  have a: "answers_in [m'] = {#}" "asked_in [m'] = (if mTo m = FleetOwner then {#} else {#?d#})"
    "requests [m'] = {#?d#}" "mTo m' = mTo m"
    using assms(2,3) L by (simp_all add: answers_in_def asked_in_def)
  have r: "reaches f3 (mTo m) \<longleftrightarrow> reaches f (mTo m)" using L(2) reaches_cong [of f3 f] by (simp add: fun_eq_iff)
  consider (owner) "mTo m = FleetOwner" | (placed) "mTo m \<noteq> FleetOwner" "reaches f3 (mTo m)"
    | (gone) "mTo m \<noteq> FleetOwner" "\<not> reaches f3 (mTo m)" by blast
  then show ?thesis
  proof cases
    case owner
    then have "moved f (deliverLocked now f m) {#} {#} {#} ({#} + {#})"
      using L(1) a by (subst deliverLocked.simps) (simp add: l)
    with owner show ?thesis by fastforce
  next
    case placed
    have "moved f (drop_in m' f3) ({#} + {#}) ({#} + {#?d#}) ({#} + {#}) ({#?d#} + {#})"
      using moved_trans [OF L(1) moved_drop_in [OF moved_filed [OF L(1)], of m']] placed a by simp
    then have "moved f (deliverLocked now f m) {#} {#?d#} {#} ({#?d#} + {#})"
      using placed a by (subst deliverLocked.simps) (simp add: l)
    with placed show ?thesis by fastforce
  next
    case gone
    let ?r = "message FleetResponse (mTo m') (mFrom m') (mID m') (''agent '' @ mTo m' @ '' is gone'')"
    have "answers_in [?r] = {#?d#}" using assms(3) L by (simp add: answers_in_def message_def)
    then have "moved f (deliverLocked now f3 ?r) ({#} + {#}) ({#} + {#}) ({#} + {#?d#}) ({#?d#} + {#})"
      using moved_trans [OF L(1) moved_response [OF moved_filed [OF L(1)], of ?r now]] gone a
      by (simp add: message_def)
    then have "moved f (deliverLocked now f m) {#} {#} {#?d#} ({#} + {#?d#})"
      using gone a assms(2) by (subst deliverLocked.simps) (simp add: l)
    with gone show ?thesis by fastforce
  qed
qed

lemma quiet_notice [intro]: "filed f \<Longrightarrow> quiet f (deliverLocked now f (message FleetNotice n p [] t))"
  using moved_response [of f "message FleetNotice n p [] t" now] by (simp add: message_def answers_in_def)

subsection \<open>Folds\<close>

lemma quiet_foldl:
  assumes "\<And>f x. filed f \<Longrightarrow> quiet f (step f x)" "filed f"
  shows "quiet f (foldl step f xs)"
  using assms(2)
proof (induction xs arbitrary: f)
  case (Cons x xs)
  have "quiet f (step f x)" by (rule assms(1) [OF Cons.prems])
  with Cons.IH [OF moved_filed [OF this]] show ?case by (auto intro: quiet_trans(1))
qed auto

text \<open>Answering the requests among some messages, one after the other.\<close>

lemma moved_answers:
  assumes "\<And>f m. filed f \<Longrightarrow> m \<in> set ms \<Longrightarrow> mKind m = FleetRequest \<Longrightarrow> moved f (step f m) {#} {#} {#(mID m, mFrom m)#} {#}"
    and "\<And>f m. filed f \<Longrightarrow> m \<in> set ms \<Longrightarrow> mKind m \<noteq> FleetRequest \<Longrightarrow> quiet f (step f m)"
    and "filed f"
  shows "moved f (foldl step f ms) {#} {#} (requests ms) {#}"
  using assms
proof (induction ms arbitrary: f)
  case Nil
  then show ?case by auto
next
  case (Cons m ms)
  have 1: "moved f (step f m) {#} {#} (requests [m]) {#}"
    using Cons.prems by (cases "mKind m = FleetRequest") auto
  have "moved (step f m) (foldl step (step f m) ms) {#} {#} (requests ms) {#}"
    by (rule Cons.IH) (use Cons.prems moved_filed [OF 1] in auto)
  from moved_trans [OF 1 this] show ?case by simp
qed

subsection \<open>Pieces that move nothing\<close>

lemma quiet_spent_notice [intro]: "filed f \<Longrightarrow> quiet f (deliverLocked now f (spent_notice i h r))"
  by (simp add: spent_notice_def quiet_news)

lemma quiet_blocked_by: "filed f \<Longrightarrow> quiet f (fst (blocked_by now f is))"
proof (induction "is" arbitrary: f)
  case (Cons i "is")
  show ?case
  proof (cases "map_of (gBudgets (kGroup f)) i")
    case (Some b)
    have 1: "quiet f (upd_budget i (\<lambda>c. c\<lparr>bNotified := True\<rparr>) f)" using Cons.prems by (rule quiet_upd_budget)
    have "quiet f (deliverLocked now (upd_budget i (\<lambda>c. c\<lparr>bNotified := True\<rparr>) f) (spent_notice i (bHolder b) (spentBy b now)))"
      by (rule quiet_trans(1) [OF 1 quiet_spent_notice [OF moved_filed [OF 1]]])
    with Some Cons show ?thesis by auto
  qed (use Cons in simp)
qed auto

lemma quiet_blocked: "filed f \<Longrightarrow> quiet f (fst (blockedLocked now f a))"
  by (simp add: blockedLocked_def quiet_blocked_by)

lemma quiet_charge_turn: "filed f \<Longrightarrow> quiet f (chargeTurnLocked f a)"
  unfolding chargeTurnLocked_def by (rule quiet_foldl) auto

lemma quiet_charge_tokens: "filed f \<Longrightarrow> quiet f (chargeTokensLocked f a t)"
  unfolding chargeTokensLocked_def by (rule quiet_foldl) auto

lemma quiet_drop_budgets: "filed f \<Longrightarrow> quiet f (dropUnusedBudgetsLocked f)"
  by (rule quiet_same) (simp_all add: dropUnusedBudgetsLocked_def upd_group_def)

lemma quiet_drop_expects: "filed f \<Longrightarrow> quiet f (dropExpectsOfLocked f n)"
  unfolding dropExpectsOfLocked_def by (rule quiet_foldl) auto

lemma quiet_pass_on: "filed f \<Longrightarrow> quiet f (upd_group (\<lambda>g. passOnCreationsLocked g n h) f)"
  by (rule quiet_same) (simp_all add: passOnCreationsLocked_def upd_group_def)

lemma quiet_arm_expects: "filed f \<Longrightarrow> quiet f (armExpectsLocked now i e f)"
  by (rule quiet_same) (simp_all add: armExpectsLocked_def arm_def Let_def split: option.splits)

lemma quiet_expect: "filed f \<Longrightarrow> quiet f (expectLocked now f m x y)"
  by (rule quiet_same)
     (simp_all add: expectLocked_def armExpectsLocked_def arm_def upd_group_def Let_def split: option.splits)

lemma quiet_run: "filed f \<Longrightarrow> quiet f (runLocked now f a model d)"
proof -
  assume "filed f"
  define f1 where "f1 = f\<lparr>kRunning := AList.update (aName a)
            \<lparr>rtId = kNextRuntime f, rtDeaths = d, rtTurns = 0, rtInterruptedBy = [],
             rtInterruptFor = [], rtInterruptTurn = 0, rtInterrupting = 0, rtLive = False,
             rtPending = None\<rparr> (kRunning f),
          kNextRuntime := Suc (kNextRuntime f)\<rparr>"
  have 1: "quiet f f1" using \<open>filed f\<close> by (rule quiet_same) (simp_all add: f1_def)
  have "quiet f1 (runLocked now f a model d)"
    unfolding runLocked_def f1_def [symmetric] using moved_filed [OF 1]
    by (rule quiet_event) (simp add: event_def)
  with 1 show ?thesis by (rule quiet_trans(1))
qed

end
