(* ===== verification/FleetBooks.thy ===== *)
theory FleetBooks
  imports FleetLedger
begin

text \<open>
  The invariant of the fleet's account, \<open>books\<close>, and the pieces of the kernel that keep it: no ID is in
  two places at once, IDs still to come are in none, and every request that was delivered to an agent
  is held by one or answered.
\<close>

subsection \<open>IDs\<close>

lemma decimal_not_Nil [simp]: "decimal n \<noteq> []"
  by (subst decimal.simps) simp

lemma decimal_digits: "list_all is_digit (decimal n)"
  by (induction n rule: decimal.induct) (subst decimal.simps, simp)

lemma num_of_single: "n < 10 \<Longrightarrow> num_of [digit n] = n"
  by (simp add: num_of_def)

lemma num_of_decimal [simp]: "num_of (decimal n) = n"
proof (induction n rule: decimal.induct)
  case (1 n)
  then show ?case by (subst decimal.simps) (auto simp: num_of_single)
qed

lemma decimal_inject [simp]: "decimal m = decimal n \<longleftrightarrow> m = n"
  by (metis num_of_decimal)

lemma dot_not_digit: "CHR ''.'' \<notin> set (decimal n)"
proof
  assume "CHR ''.'' \<in> set (decimal n)"
  then have "is_digit CHR ''.''" using decimal_digits [of n] by (simp add: list_all_iff)
  then show False by (simp add: is_digit_def)
qed

lemma decimal_dot_inject: "decimal j @ CHR ''.'' # x = decimal k @ CHR ''.'' # y \<longleftrightarrow> j = k \<and> x = y"
proof
  assume a: "decimal j @ CHR ''.'' # x = decimal k @ CHR ''.'' # y"
  have t: "takeWhile (\<lambda>c. c \<noteq> CHR ''.'') (decimal i @ CHR ''.'' # z) = decimal i" for i z
    using dot_not_digit [of i] by (subst takeWhile_append2) auto
  have "decimal j = decimal k" using arg_cong [OF a, of "takeWhile (\<lambda>c. c \<noteq> CHR ''.'')"] by (simp only: t)
  with a show "j = k \<and> x = y" by simp
qed simp

lemma decimal_no_dot: "decimal j @ CHR ''.'' # x \<noteq> decimal k"
  using dot_not_digit [of k] by (metis in_set_conv_decomp)

lemma ids [simp]:
  "request_id j = request_id k \<longleftrightarrow> j = k" "timer_id j = timer_id k \<longleftrightarrow> j = k"
  "check_id j = check_id k \<longleftrightarrow> j = k"
  "request_id j \<noteq> timer_id k" "timer_id k \<noteq> request_id j" "request_id j \<noteq> check_id k"
  "check_id k \<noteq> request_id j" "timer_id j \<noteq> check_id k" "check_id k \<noteq> timer_id j"
  "firing_id (timer_id j) x = firing_id (timer_id k) y \<longleftrightarrow> j = k \<and> x = y"
  "request_id k \<noteq> firing_id (timer_id j) x" "firing_id (timer_id j) x \<noteq> request_id k"
  "timer_id k \<noteq> firing_id (timer_id j) x" "firing_id (timer_id j) x \<noteq> timer_id k"
  "check_id k \<noteq> firing_id (timer_id j) x" "firing_id (timer_id j) x \<noteq> check_id k"
  "request_id k \<noteq> []" "timer_id k \<noteq> []" "firing_id i x \<noteq> []" "check_id k \<noteq> []"
  "[] \<noteq> request_id k" "[] \<noteq> timer_id k" "[] \<noteq> firing_id i x" "[] \<noteq> check_id k"
  by (auto simp: request_id_def timer_id_def check_id_def firing_id_def decimal_dot_inject decimal_no_dot
      decimal_no_dot [symmetric])

text \<open>The IDs the fleet has given out. Those of a repeat's firings are numbered by the timer.\<close>

definition used_id :: "fleet_group \<Rightarrow> string \<Rightarrow> bool" where
  "used_id g i \<longleftrightarrow> (\<exists>k \<le> gNextID g. i = request_id k \<or> i = check_id k \<or> i = timer_id k \<or>
     (\<exists>j. i = firing_id (timer_id k) j \<and> (\<forall>t. map_of (gTimers g) (timer_id k) = Some t \<longrightarrow> j \<le> tFires t)))"

lemma used_id_not_Nil: "used_id g i \<Longrightarrow> i \<noteq> []"
  by (auto simp: used_id_def)

lemma fresh_ids:
  "\<not> used_id g (request_id (Suc (gNextID g)))" "\<not> used_id g (check_id (Suc (gNextID g)))"
  "\<not> used_id g (timer_id (Suc (gNextID g)))"
  by (auto simp: used_id_def)

lemma fresh_firing:
  assumes "map_of (gTimers g) (timer_id k) = Some t"
  shows "\<not> used_id g (firing_id (timer_id k) (Suc (tFires t)))"
  using assms by (auto simp: used_id_def)

subsection \<open>The books\<close>

definition pending :: "fleet \<Rightarrow> string multiset" where
  "pending f = mset (map fst (filter (\<lambda>(i, t). mKind (tMessage t) = FleetRequest \<and> tEvery t \<le> 0) (gTimers (kGroup f))))"

text \<open>The IDs that are in some place other than an agent's hands.\<close>

definition elsewhere :: "fleet \<Rightarrow> string multiset" where
  "elsewhere f = image_mset fst (answers f) + pending f + mset (map fst (gCheckRuns (kGroup f)))"

definition places :: "fleet \<Rightarrow> string multiset" where
  "places f = image_mset fst (held f) + elsewhere f"

definition books :: "fleet \<Rightarrow> bool" where
  "books f \<longleftrightarrow> filed f \<and> (\<forall>i. count (places f) i \<le> 1) \<and> (\<forall>i \<in># places f. used_id (kGroup f) i) \<and>
     (\<forall>i \<in> fst ` set (gTimers (kGroup f)). \<exists>k \<le> gNextID (kGroup f). i = timer_id k) \<and>
     asked f \<subseteq># held f + answers f"

lemma books_filed: "books f \<Longrightarrow> filed f"
  by (simp add: books_def)

text \<open>\<open>settles f f' out ans\<close>: \<open>out\<close> left the agents' hands, \<open>ans\<close> was answered and perhaps some
  scheduled requests with it; nothing new was asked.\<close>

definition settles :: "fleet \<Rightarrow> fleet \<Rightarrow> debt multiset \<Rightarrow> debt multiset \<Rightarrow> bool" where
  "settles f f' out ans \<longleftrightarrow>
     held f' + out = held f \<and> asked f' = asked f \<and> answers f + ans \<subseteq># answers f' \<and>
     elsewhere f' \<subseteq># elsewhere f + image_mset fst ans \<and>
     set (gTimers (kGroup f')) \<subseteq> set (gTimers (kGroup f)) \<and>
     gNextID (kGroup f) \<le> gNextID (kGroup f') \<and> filed f'"

lemma moved_settles: "moved f f' out {#} ans {#} \<Longrightarrow> settles f f' out ans"
  by (auto simp: moved_def settles_def elsewhere_def pending_def ac_simps)

lemma settles_trans:
  assumes "settles f f1 o1 a1" "settles f1 f2 o2 a2"
  shows "settles f f2 (o1 + o2) (a1 + a2)"
proof -
  have "held f2 + (o1 + o2) = held f" using assms by (auto simp: settles_def ac_simps)
  moreover have "answers f + (a1 + a2) \<subseteq># answers f2"
    using assms by (auto simp: settles_def add.assoc [symmetric]) (meson mset_subset_eq_mono_add_right_cancel subset_mset.order_trans)
  moreover have "elsewhere f2 \<subseteq># elsewhere f + image_mset fst (a1 + a2)"
    using assms by (auto simp: settles_def add.assoc [symmetric]) (meson mset_subset_eq_mono_add_right_cancel subset_mset.order_trans)
  ultimately show ?thesis using assms unfolding settles_def by auto
qed

lemma used_id_mono:
  assumes "used_id g i" "gNextID g \<le> gNextID g'" "set (gTimers g') \<subseteq> set (gTimers g)"
    and "distinct (map fst (gTimers g))" "distinct (map fst (gTimers g'))"
  shows "used_id g' i"
proof -
  have "map_of (gTimers g) k = Some t" if "map_of (gTimers g') k = Some t" for k t
    using that assms by (meson map_of_SomeD map_of_is_SomeI subsetD)
  moreover obtain k where "k \<le> gNextID g" "i = request_id k \<or> i = check_id k \<or> i = timer_id k \<or>
     (\<exists>j. i = firing_id (timer_id k) j \<and> (\<forall>t. map_of (gTimers g) (timer_id k) = Some t \<longrightarrow> j \<le> tFires t))"
    using assms(1) by (auto simp: used_id_def)
  ultimately show ?thesis using assms(2) unfolding used_id_def by (intro exI [of _ k]) auto
qed

lemma books_settles:
  assumes "books f" "settles f f' ans ans"
  shows "books f'"
proof -
  note S = assms(2) [unfolded settles_def] and B = assms(1) [unfolded books_def]
  have "places f' \<subseteq># image_mset fst (held f') + (elsewhere f + image_mset fst ans)"
    using S by (simp add: places_def)
  also have "\<dots> = image_mset fst (held f' + ans) + elsewhere f" by (simp add: ac_simps)
  also have "\<dots> = places f" using S by (simp add: places_def)
  finally have p: "places f' \<subseteq># places f" .
  have u: "used_id (kGroup f') i" if "used_id (kGroup f) i" for i
    using that S B by (auto intro: used_id_mono simp: filed_def)
  have w: "answers f + ans \<subseteq># answers f'" using S by blast
  have "asked f' \<subseteq># held f' + ans + answers f" using S B by auto
  also have "\<dots> = held f' + (answers f + ans)" by (simp add: ac_simps)
  also have "\<dots> \<subseteq># held f' + answers f'" using w by simp
  finally have "asked f' \<subseteq># held f' + answers f'" .
  moreover have "count (places f') i \<le> 1" for i
    using B mset_subset_eq_count [OF p, of i] by (meson order_trans)
  moreover have "\<forall>i \<in># places f'. used_id (kGroup f') i" using B u mset_subset_eqD [OF p] by blast
  moreover have "\<exists>k \<le> gNextID (kGroup f'). i = timer_id k" if "i \<in> fst ` set (gTimers (kGroup f'))" for i
  proof -
    have "i \<in> fst ` set (gTimers (kGroup f))" using that S by blast
    then obtain k where "k \<le> gNextID (kGroup f)" "i = timer_id k" using B by blast
    with S show ?thesis by (intro exI [of _ k]) simp
  qed
  ultimately show ?thesis using S unfolding books_def by blast
qed

lemma books_quiet: "books f \<Longrightarrow> quiet f f' \<Longrightarrow> books f'"
  using books_settles moved_settles by blast

text \<open>A piece that puts one new ID in one place.\<close>

lemma books_new:
  assumes "books f" "filed f'" "places f' \<subseteq># add_mset i (places f)" "\<not> used_id (kGroup f) i"
    and "used_id (kGroup f') i" "\<And>j. used_id (kGroup f) j \<Longrightarrow> used_id (kGroup f') j"
    and "\<forall>i \<in> fst ` set (gTimers (kGroup f')). \<exists>k \<le> gNextID (kGroup f'). i = timer_id k"
    and "asked f' \<subseteq># held f' + answers f'"
  shows "books f'"
proof -
  note B = assms(1) [unfolded books_def]
  have "i \<notin># places f" using B assms(4) by blast
  then have "count (places f') j \<le> 1" for j
    using B mset_subset_eq_count [OF assms(3), of j] by (auto simp: not_in_iff split: if_splits intro: order_trans)
  moreover have "\<forall>j \<in># places f'. used_id (kGroup f') j"
    using B assms(5,6) mset_subset_eqD [OF assms(3)] by auto
  ultimately show ?thesis using assms by (auto simp: books_def)
qed

end
