(* ===== verification/FleetPieces.thy ===== *)
theory FleetPieces
  imports FleetBooks
begin

text \<open>
  The pieces of the kernel that take messages out of agents' hands, and that each keeps the books: a
  turn and its end, and the departure of an agent whose first start failed or that retires.
\<close>

subsection \<open>Turns\<close>

lemma then_quiet: "quiet f f1 \<Longrightarrow> (filed f1 \<Longrightarrow> quiet f1 f2) \<Longrightarrow> quiet f f2"
  by (auto intro: quiet_trans(1) moved_filed)

lemma then_moved: "moved f f1 out ins ans ask \<Longrightarrow> (filed f1 \<Longrightarrow> quiet f1 f2) \<Longrightarrow> moved f f2 out ins ans ask"
  by (auto intro: quiet_trans(2) moved_filed)

lemma agent_of_same: "gAgents (kGroup f') = gAgents (kGroup f) \<Longrightarrow> agent_of f' n = agent_of f n"
  by (simp add: agent_of_def)

lemma agents_charge [simp]:
  "gAgents (kGroup (chargeTurnLocked f a)) = gAgents (kGroup f)"
  "gAgents (kGroup (chargeTokensLocked f a t)) = gAgents (kGroup f)"
proof -
  have "gAgents (kGroup (foldl (\<lambda>f i. upd_budget i h f) f is)) = gAgents (kGroup f)" for h "is"
    by (induction "is" arbitrary: f) (simp_all add: upd_budget_def upd_group_def)
  then show "gAgents (kGroup (chargeTurnLocked f a)) = gAgents (kGroup f)"
    "gAgents (kGroup (chargeTokensLocked f a t)) = gAgents (kGroup f)"
    by (simp_all add: chargeTurnLocked_def chargeTokensLocked_def)
qed

lemma agents_deliver_owner:
  assumes "mTo m = FleetOwner"
  shows "gAgents (kGroup (deliverLocked now f m)) = gAgents (kGroup f)"
  using assms by (subst deliverLocked.simps)
    (simp add: logged_def Let_def nextIDLocked_def bump_id_def eventLocked_def answeredLocked_def disarm_def
      upd_group_def split: prod.split)

lemma agents_blocked [simp]: "gAgents (kGroup (fst (blockedLocked now f a))) = gAgents (kGroup f)"
proof -
  have "gAgents (kGroup (fst (blocked_by now f is))) = gAgents (kGroup f)" for "is"
    by (induction "is") (auto simp: agents_deliver_owner spent_notice_def news_def message_def upd_budget_def
        upd_group_def split: option.split)
  then show ?thesis by (simp add: blockedLocked_def)
qed

lemma agents_accepted [simp]: "gAgents (kGroup (acceptedLocked now f i)) = gAgents (kGroup f)"
  by (simp add: acceptedLocked_def disarm_def upd_group_def split: option.split)

lemma agents_runtime [simp]: "gAgents (kGroup (upd_runtime n h f)) = gAgents (kGroup f)"
  by (simp add: upd_runtime_def)

text \<open>Taking a turn moves its message from the inbox to the turn. The agent must not be in a turn already,
  which its run loop sees to.\<close>

lemma quiet_set_current:
  assumes "filed f" "agent_of f n = Some a" "aInbox a = m # rest" "aCurrent a = None"
  shows "quiet f (upd_agent n (set_current now m rest) f)"
  using assms by (intro quiet_update_agent) (simp_all add: set_current_def holding_def ac_simps)

lemma quiet_begin_turn:
  assumes "filed f" "agent_of f n = Some a" "aInbox a = m # rest" "aCurrent a = None"
  shows "quiet f (upd_agent n (set_current now m rest) (acceptedLocked now (upd_runtime n begin_turn f) i))"
    (is "quiet f (upd_agent n _ ?f2)")
proof -
  have 1: "quiet f ?f2" using assms(1) by (blast intro: then_quiet)
  have "agent_of ?f2 n = Some a" using assms(2) by (simp add: agent_of_def)
  then show ?thesis using assms(3,4) quiet_set_current 1 by (blast intro: then_quiet)
qed

lemma quiet_take_turn:
  assumes "filed f" "\<And>a. agent_of f n = Some a \<Longrightarrow> aCurrent a = None"
  shows "quiet f (fst (take_turn now f n))"
proof (cases "\<exists>a m rest. agent_of f n = Some a \<and> \<not> kClosed f \<and> \<not> aStopped a \<and> aInbox a = m # rest")
  case False
  then have "fst (take_turn now f n) = f"
    by (auto simp: take_turn_def split: option.splits list.splits)
  with assms(1) show ?thesis by auto
next
  case True
  then obtain a m rest where a: "agent_of f n = Some a" "\<not> kClosed f" "\<not> aStopped a" "aInbox a = m # rest" by blast
  obtain f1 blocked where b: "(if mCharged m then (f, False) else blockedLocked now f a) = (f1, blocked)" by fastforce
  have 1: "quiet f f1" using assms(1) b quiet_blocked [OF assms(1), of now a] by (auto split: if_splits)
  have "f1 = (if mCharged m then f else fst (blockedLocked now f a))" using b by (auto split: if_splits)
  then have a1: "agent_of f1 n = Some a" using a(1) by (simp add: agent_of_def)
  let ?f3 = "upd_agent n (set_current now m rest) (acceptedLocked now (upd_runtime n begin_turn f1) (mID m))"
  have 3: "quiet f ?f3"
    using 1 quiet_begin_turn [OF _ a1 a(4) assms(2) [OF a(1)]] by (blast intro: then_quiet)
  have "fst (take_turn now f n) = (if blocked then f1 else if mCharged m then ?f3 else chargeTurnLocked ?f3 a)"
    using a b by (simp add: take_turn_def Let_def split: prod.splits if_splits)
  then show ?thesis using 1 3 quiet_charge_turn by (auto intro: then_quiet)
qed

subsection \<open>The end of a turn\<close>

lemma quiet_note_turn:
  assumes "filed f"
  shows "quiet f (note_turn now f n a reply err used u)"
proof -
  let ?e = "(event ''turn'' n)\<lparr>eRoot := aRoot a, eText := boundFleetText reply, eUsage := Some u,
    eCause := (case err of None \<Rightarrow> [] | Some e \<Rightarrow> e)\<rparr>"
  have 1: "quiet f (eventLocked now f ?e)" using assms by (rule quiet_event) (simp add: event_def)
  let ?f2 = "charge_tokens_of (eventLocked now f ?e) a used u"
  have "quiet f ?f2" using 1 by (auto simp: charge_tokens_of_def intro: then_quiet quiet_charge_tokens)
  moreover have "quiet ?f2 (upd_agent n (\<lambda>b. b\<lparr>aLastTurnEnd := Some now\<rparr>) ?f2)" if "filed ?f2"
    using that by (rule quiet_update_agent) (simp_all add: holding_def)
  ultimately show ?thesis unfolding note_turn_def by (rule then_quiet)
qed

lemma agent_of_note_turn:
  "agent_of f n = Some a \<Longrightarrow> agent_of (note_turn now f n a reply err used u) n = Some (a\<lparr>aLastTurnEnd := Some now\<rparr>)"
  by (simp add: note_turn_def agent_of_def upd_agent_def upd_group_def charge_tokens_of_def map_of_map_entry
      eventLocked_def Let_def)

lemma requests_turn: "requests (turnMessages a) = requests ((case aCurrent a of None \<Rightarrow> [] | Some m \<Rightarrow> [m]) @ aSteered a)"
  unfolding turnMessages_def by (rule requests_map) simp_all

lemma holding_requeue: "requests (holding (requeue_turn a)) = requests (holding a)"
  by (simp add: holding_def requeue_turn_def requests_turn)

lemma requests_owed: "requests (owed a) = requests (holding a)"
  by (simp add: owed_def holding_def requests_turn)

lemma held_ids:
  assumes "books f" "agent_of f n = Some a" "m \<in> set (holding a)" "mKind m = FleetRequest"
  shows "mID m \<noteq> []"
proof -
  have "(mID m, mFrom m) \<in># requests (holding a)" using assms(3,4) by (auto simp: requests_def)
  moreover have "held f = held_by (AList.delete n (gAgents (kGroup f))) + requests (holding a)"
    using held_by_delete [of "gAgents (kGroup f)" n a] assms(1,2)
    by (simp add: held_def agent_of_def books_def filed_def)
  ultimately have "mID m \<in># places f"
    by (force simp: places_def)
  then show ?thesis using assms(1) used_id_not_Nil by (auto simp: books_def)
qed

lemma moved_route:
  assumes "filed f" "mKind m = FleetRequest" "mID m \<noteq> []"
  shows "moved f (routeReplyLocked now a body f m) {#} {#} {#(mID m, mFrom m)#} {#}"
  using moved_answer [OF assms(1,3)] assms(2) by (simp add: routeReplyLocked_def Let_def)

lemma quiet_route:
  assumes "filed f" "mKind m \<noteq> FleetRequest"
  shows "quiet f (routeReplyLocked now a body f m)"
  using quiet_news [OF assms(1)] assms by (auto simp: routeReplyLocked_def Let_def)

lemma moved_answer_requests:
  assumes "\<And>f m. filed f \<Longrightarrow> m \<in> set ms \<Longrightarrow> mKind m = FleetRequest \<Longrightarrow> moved f (step f m) {#} {#} {#(mID m, mFrom m)#} {#}"
    and "filed f"
  shows "moved f (answer_requests step f ms) {#} {#} (requests ms) {#}"
proof -
  let ?ms = "filter (\<lambda>m. mKind m = FleetRequest) ms"
  have "moved f (foldl step f ?ms) {#} {#} (requests ?ms) {#}"
    by (rule moved_answers) (use assms in auto)
  then show ?thesis by (simp add: answer_requests_def requests_filter)
qed

lemma moved_fail_turn:
  assumes "filed f" "\<And>s. s \<in> set (m # steered_done a) \<Longrightarrow> mKind s = FleetRequest \<Longrightarrow> mID s \<noteq> []"
  shows "moved f (fail_turn now f a m err) {#} {#} (requests (m # steered_done a)) {#}"
proof -
  define t where "t = ''agent '' @ aName a @ [CHR 0x27] @ ''s turn failed, and it is still available: '' @ err"
  define f1 where "f1 = (if mKind m = FleetRequest then deliverLocked now f (answer_to (aName a) m t)
                else deliverLocked now f (news (aName a) (parentOfLocked f a) t))"
  have 1: "moved f f1 {#} {#} (requests [m]) {#}"
    using assms moved_answer [of f m now] quiet_news [of f] by (auto simp: f1_def)
  have 2: "moved f1 (answer_requests (\<lambda>f s. deliverLocked now f (answer_to (aName a) s t)) f1 (steered_done a))
      {#} {#} (requests (steered_done a)) {#}"
    by (rule moved_answer_requests) (use assms(2) moved_filed [OF 1] in \<open>auto intro: moved_answer\<close>)
  from moved_trans [OF 1 2] show ?thesis
    unfolding fail_turn_def Let_def t_def [symmetric] f1_def [symmetric] by simp
qed

lemma moved_reply_turn:
  assumes "filed f" "\<And>s. s \<in> set (m # steered_done a) \<Longrightarrow> mKind s = FleetRequest \<Longrightarrow> mID s \<noteq> []"
  shows "moved f (reply_turn now f a rt m reply interrupted err) {#} {#} (requests (m # steered_done a)) {#}"
proof -
  define answer where "answer = (if interrupted then fleetInterruptedReply reply (rtInterruptedBy rt) (rtInterruptFor rt) err else reply)"
  define f1 where "f1 = upd_runtime (aName a) (\<lambda>r. r\<lparr>rtDeaths := 0\<rparr>) f"
  define f2 where "f2 = routeReplyLocked now a (if mKind m = FleetRequest then answer else reply) f1 m"
  have q: "quiet f f1" using assms(1) by (auto simp: f1_def)
  have "moved f1 f2 {#} {#} (requests [m]) {#}"
    using assms(2) moved_route [OF moved_filed [OF q]] quiet_route [OF moved_filed [OF q]] by (auto simp: f2_def)
  with q have 1: "moved f f2 {#} {#} (requests [m]) {#}" by (rule quiet_trans(1))
  have 2: "moved f2 (answer_requests (routeReplyLocked now a answer) f2 (steered_done a)) {#} {#} (requests (steered_done a)) {#}"
    by (rule moved_answer_requests) (use assms(2) moved_filed [OF 1] in \<open>auto intro: moved_route\<close>)
  from moved_trans [OF 1 2] show ?thesis
    unfolding reply_turn_def Let_def answer_def [symmetric] f1_def [symmetric] f2_def [symmetric] by simp
qed

lemma quiet_turn_death:
  assumes "filed f"
  shows "quiet f (fst (turn_death f n rt err))"
proof -
  let ?f1 = "upd_runtime n (\<lambda>r. r\<lparr>rtDeaths := Suc (rtDeaths rt)\<rparr>) f"
  have 1: "quiet f ?f1" using assms by (rule quiet_upd_runtime)
  have 2: "quiet ?f1 (upd_agent n requeue_turn ?f1)"
    by (rule quiet_update_agent [OF moved_filed [OF 1]]) (simp_all add: requeue_turn_def holding_requeue [unfolded requeue_turn_def])
  have "quiet f ((upd_agent n requeue_turn ?f1)\<lparr>kRunning := x\<rparr>)" for x
    by (rule then_quiet [OF quiet_trans(1) [OF 1 2]]) (auto intro: quiet_same)
  with 1 show ?thesis by (simp add: turn_death_def Let_def)
qed

lemma finish_moves:
  assumes "filed f" "agent_of f n = Some b" "aCurrent b = Some m"
  shows "moved f (upd_agent n finish_agent f) (requests (m # steered_done b)) {#} {#} {#}"
  by (rule moved_update_agent [OF assms(1) _ assms(2)])
     (use assms(3) requests_split [of "\<lambda>m. \<not> mSteering m" "aSteered b"] in
       \<open>auto simp: finish_agent_def holding_def steered_done_def ac_simps\<close>)

lemma books_end_turn:
  assumes "books f" "\<And>a. agent_of f n = Some a \<Longrightarrow> aCurrent a = Some m"
  shows "books (fst (end_turn now f n m raw err alive used u))"
proof (cases "agent_of f n = None \<or> map_of (kRunning f) n = None")
  case True
  then have "fst (end_turn now f n m raw err alive used u) = f"
    by (auto simp: end_turn_def split: option.split)
  with assms(1) show ?thesis by simp
next
  case False
  then obtain a rt where a: "agent_of f n = Some a" and rt: "map_of (kRunning f) n = Some rt" by auto
  note B = books_filed [OF assms(1)] and cur = assms(2) [OF a]
  define f2 where "f2 = note_turn now f n a (trimSpace raw) err used u"
  have q2: "quiet f f2" unfolding f2_def by (rule quiet_note_turn [OF B])
  define X where "X = requests (m # steered_done a)"
  have fin: "moved f2 (upd_agent n finish_agent f2) X {#} {#} {#}"
    using finish_moves [OF moved_filed [OF q2], of n "a\<lparr>aLastTurnEnd := Some now\<rparr>" m] cur a
    by (simp add: f2_def agent_of_note_turn X_def steered_done_def)
  have ids: "mID s \<noteq> []" if "s \<in> set (m # steered_done a)" "mKind s = FleetRequest" for s
    using that cur held_ids [OF assms(1) a] by (auto simp: holding_def steered_done_def)
  have ans: "moved (upd_agent n finish_agent f2) f' {#} {#} X {#} \<Longrightarrow> books f'" for f'
    using moved_trans [OF quiet_trans(1) [OF q2 fin], of f' "{#}" "{#}" X "{#}"]
      books_settles [OF assms(1) moved_settles, of f' X] by simp
  have "fst (end_turn now f n m raw err alive used u) =
      (if kClosed f then charge_tokens_of f a used u
       else if aStopped a then f2
       else if err \<noteq> None \<and> \<not> alive then fst (turn_death f2 n rt (the err))
       else if err \<noteq> None \<and> rtInterruptTurn rt \<noteq> rtTurns rt then fail_turn now (upd_agent n finish_agent f2) a m (the err)
       else reply_turn now (upd_agent n finish_agent f2) a rt m (trimSpace raw) (rtInterruptTurn rt = rtTurns rt) err)"
    by (simp add: end_turn_def a rt Let_def f2_def)
  moreover have "books (charge_tokens_of f a used u)" "books f2" "books (fst (turn_death f2 n rt e))" for e
    using assms(1) q2 quiet_charge_tokens [OF B] quiet_turn_death [OF moved_filed [OF q2]]
    by (auto simp: charge_tokens_of_def intro: books_quiet quiet_trans(1))
  moreover have "books (fail_turn now (upd_agent n finish_agent f2) a m e)"
    "books (reply_turn now (upd_agent n finish_agent f2) a rt m r i x)" for e r i x
    using ans moved_fail_turn [OF moved_filed [OF fin] ids] moved_reply_turn [OF moved_filed [OF fin] ids]
    by (simp_all add: X_def)
  ultimately show ?thesis by simp
qed

subsection \<open>Departures\<close>

lemma pending_delete:
  assumes "distinct (map fst ts)" "map_of ts i = Some t"
  shows "mset (map fst (filter (\<lambda>(i, t). P t) (AList.delete i ts))) + (if P t then {#i#} else {#}) =
    mset (map fst (filter (\<lambda>(i, t). P t) ts))"
  using assms
proof (induction ts)
  case (Cons p ts)
  show ?case
  proof (cases "fst p = i")
    case True
    then have "AList.delete i (p # ts) = ts"
      using Cons.prems(1) by (cases p) (force simp: AList.delete_eq filter_id_conv)
    with True Cons.prems(2) show ?thesis by (cases p) auto
  next
    case False
    with Cons show ?thesis by (cases p) (auto simp: AList.delete_eq)
  qed
qed simp

lemma set_delete_subset: "set (AList.delete k xs) \<subseteq> set xs"
  by (auto simp: AList.delete_eq)

lemma filed_drop_timer: "filed f \<Longrightarrow> filed (dropTimerLocked f i)"
  by (auto simp: filed_def dropTimerLocked_def disarm_def upd_group_def distinct_delete dest: set_mp [OF set_delete_subset])

lemma drop_timer_same:
  "held (dropTimerLocked f i) = held f" "answers (dropTimerLocked f i) = answers f"
  "asked (dropTimerLocked f i) = asked f" "gNextID (kGroup (dropTimerLocked f i)) = gNextID (kGroup f)"
  "gCheckRuns (kGroup (dropTimerLocked f i)) = gCheckRuns (kGroup f)"
  "gTimers (kGroup (dropTimerLocked f i)) = AList.delete i (gTimers (kGroup f))"
  by (simp_all add: dropTimerLocked_def disarm_def upd_group_def held_def answers_def asked_def log_messages_def)

lemma settles_drop_timer: "filed f \<Longrightarrow> settles f (dropTimerLocked f i) {#} {#}"
proof -
  assume f: "filed f"
  have "pending (dropTimerLocked f i) \<subseteq># pending f"
  proof (cases "map_of (gTimers (kGroup f)) i")
    case None
    then have "AList.delete i (gTimers (kGroup f)) = gTimers (kGroup f)"
      by (simp add: delete_idem map_of_eq_None_iff)
    then show ?thesis by (simp add: pending_def drop_timer_same)
  next
    case (Some t)
    from pending_delete [OF _ this, of "\<lambda>t. mKind (tMessage t) = FleetRequest \<and> tEvery t \<le> 0"] f
    have "pending f = pending (dropTimerLocked f i) + (if mKind (tMessage t) = FleetRequest \<and> tEvery t \<le> 0 then {#i#} else {#})"
      by (simp add: pending_def drop_timer_same filed_def)
    then show ?thesis by (simp only: mset_subset_eq_add_left)
  qed
  then show ?thesis
    using filed_drop_timer [OF f] set_delete_subset [of i "gTimers (kGroup f)"]
    by (simp add: settles_def elsewhere_def drop_timer_same)
qed

lemma settles_drop_timer_answered:
  assumes "filed f" "map_of (gTimers (kGroup f)) i = Some t" "mKind (tMessage t) = FleetRequest" "tEvery t \<le> 0" "i \<noteq> []"
  shows "settles f (deliverLocked now (dropTimerLocked f i) (message FleetResponse n s i x)) {#} {#}"
proof -
  let ?f1 = "dropTimerLocked f i"
  have m: "moved ?f1 (deliverLocked now ?f1 (message FleetResponse n s i x)) {#} {#} {#(i, s)#} {#}"
    using moved_response [OF filed_drop_timer [OF assms(1)], of "message FleetResponse n s i x" i now] assms(5)
    by (simp add: message_def answers_in_def)
  have "pending ?f1 + {#i#} = pending f"
    using pending_delete [OF _ assms(2), of "\<lambda>t. mKind (tMessage t) = FleetRequest \<and> tEvery t \<le> 0"] assms(1,3,4)
    by (simp add: pending_def drop_timer_same filed_def)
  with m set_delete_subset [of i "gTimers (kGroup f)"] show ?thesis
    by (auto simp: settles_def moved_def elsewhere_def pending_def drop_timer_same ac_simps)
qed

lemma books_timer_ids: "books f \<Longrightarrow> [] \<notin> fst ` set (gTimers (kGroup f))"
  by (fastforce simp: books_def)

lemma settles_drop_timer_of:
  assumes "filed f" "[] \<notin> fst ` set (gTimers (kGroup f))"
  shows "settles f (drop_timer_of now n failure f i) {#} {#}"
proof (cases "map_of (gTimers (kGroup f)) i")
  case None
  then show ?thesis using moved_settles [OF moved_refl [OF assms(1)]] by (simp add: drop_timer_of_def)
next
  case (Some t)
  then have "i \<noteq> []" using assms(2) by (force dest: map_of_SomeD)
  then show ?thesis
    using settles_drop_timer [OF assms(1)] settles_drop_timer_answered [OF assms(1) Some]
      moved_settles [OF moved_refl [OF assms(1)]] Some
    by (auto simp: drop_timer_of_def Let_def)
qed

lemma settles_drop_timers:
  assumes "filed f" "[] \<notin> fst ` set (gTimers (kGroup f))"
  shows "settles f (dropTimersOfLocked now order f n failure) {#} {#}"
  using assms unfolding dropTimersOfLocked_def
proof (induction order arbitrary: f)
  case Nil
  then show ?case using moved_settles moved_refl by fastforce
next
  case (Cons i order)
  have 1: "settles f (drop_timer_of now n failure f i) {#} {#}" using Cons.prems by (rule settles_drop_timer_of)
  then have "filed (drop_timer_of now n failure f i)" "[] \<notin> fst ` set (gTimers (kGroup (drop_timer_of now n failure f i)))"
    using Cons.prems(2) by (auto simp: settles_def)
  from settles_trans [OF 1 Cons.IH [OF this]] show ?case by simp
qed

text \<open>Taking an agent out of the map takes what it held out of the account; answering what it owed puts
  it back.\<close>

lemma filed_remove: "filed f \<Longrightarrow> filed (remove_agent n f)"
  by (auto simp: filed_def remove_agent_def upd_group_def distinct_delete dest: set_mp [OF set_delete_subset])

lemma settles_remove:
  assumes "filed f" "agent_of f n = Some a"
  shows "settles f (remove_agent n f) (requests (holding a)) {#}"
  using assms filed_remove [OF assms(1), of n] held_by_delete [of "gAgents (kGroup f)" n a]
  by (auto simp: settles_def filed_def remove_agent_def upd_group_def held_def agent_of_def answers_def asked_def
      log_messages_def elsewhere_def pending_def)

lemma moved_answer_owed:
  assumes "filed f" "\<And>m. m \<in> set (holding a) \<Longrightarrow> mKind m = FleetRequest \<Longrightarrow> mID m \<noteq> []"
  shows "moved f (fst (answerOwedLocked now f a x)) {#} {#} (requests (holding a)) {#}"
proof -
  have ids: "mID m \<noteq> []" if "m \<in> set (owed a)" "mKind m = FleetRequest" for m
    using that assms(2) by (fastforce simp: owed_def turnMessages_def holding_def split: option.splits)
  have "moved f (foldl (answer_one now a x) f (owed a)) {#} {#} (requests (owed a)) {#}"
    by (rule moved_answers) (use assms(1) ids in \<open>auto simp: answer_one_def intro: moved_answer\<close>)
  then show ?thesis by (simp add: answerOwedLocked_def requests_owed)
qed

text \<open>What every departure has in common: the agent is removed, its timers are dropped, and what it owed
  is answered; the rest moves nothing.\<close>

lemma books_departure:
  assumes "books f" "agent_of f n = Some a"
    and f1: "quiet (remove_agent n f) f1" and f2: "quiet (dropTimersOfLocked now order f1 k x) f2"
    and f3: "quiet (fst (answerOwedLocked now f2 a y)) f3"
  shows "books f3"
proof -
  let ?X = "requests (holding a)"
  have t: "[] \<notin> fst ` set (gTimers (kGroup f1))"
    using books_timer_ids [OF assms(1)] f1 by (simp add: moved_def remove_agent_def upd_group_def)
  have "settles f f1 (?X + {#}) ({#} + {#})"
    by (rule settles_trans [OF settles_remove [OF books_filed [OF assms(1)] assms(2)] moved_settles [OF f1]])
  then have "settles f (dropTimersOfLocked now order f1 k x) (?X + {#} + {#}) ({#} + {#} + {#})"
    using settles_trans settles_drop_timers [OF moved_filed [OF f1] t] by blast
  then have s2: "settles f f2 (?X + {#} + {#} + {#}) ({#} + {#} + {#} + {#})"
    using settles_trans moved_settles [OF f2] by blast
  have "moved f2 f3 {#} {#} ?X {#}"
    by (rule quiet_trans(2) [OF moved_answer_owed f3])
       (use held_ids [OF assms(1,2)] moved_filed [OF f2] in auto)
  from settles_trans [OF s2 moved_settles [OF this]] have "settles f f3 ?X ?X" by simp
  then show ?thesis by (rule books_settles [OF assms(1)])
qed

lemma books_launch_failed:
  assumes "books f" "agent_of f (aName a) = Some a"
  shows "books (launch_failed now order f a err tell)"
proof (cases "kClosed f")
  case True
  with assms(1) show ?thesis by (simp add: launch_failed_def)
next
  case False
  define x where "x = ''agent '' @ aName a @ '' could not start: '' @ err"
  define f1 where "f1 = remove_agent (aName a) (f\<lparr>kStarting := kStarting f - {aName a}\<rparr>)"
  define fd where "fd = dropTimersOfLocked now order f1 (aName a) x"
  define f3 where "f3 = eventLocked now (dropUnusedBudgetsLocked fd) ((event ''start_failed'' (aName a))\<lparr>eParent := aParent a, eRoot := aRoot a, eCause := err\<rparr>)"
  define f4 where "f4 = fst (answerOwedLocked now f3 a x)"
  have 1: "quiet (remove_agent (aName a) f) f1"
    by (rule quiet_same [OF filed_remove [OF books_filed [OF assms(1)]]]) (simp_all add: f1_def remove_agent_def upd_group_def)
  have t: "[] \<notin> fst ` set (gTimers (kGroup f1))"
    using books_timer_ids [OF assms(1)] by (simp add: f1_def remove_agent_def upd_group_def)
  have "filed fd" using settles_drop_timers [OF moved_filed [OF 1] t] by (simp add: fd_def settles_def)
  then have 2: "quiet fd f3"
    unfolding f3_def by (rule then_quiet [OF quiet_drop_budgets]) (rule quiet_event, simp_all add: event_def)
  have "filed f4"
    using moved_filed [OF moved_answer_owed [OF moved_filed [OF 2] held_ids [OF assms]]] by (simp add: f4_def)
  then have "quiet f4 (launch_failed now order f a err tell)"
    unfolding launch_failed_def Let_def case_prod_beta x_def [symmetric] f1_def [symmetric] fd_def [symmetric]
      f3_def [symmetric] f4_def [symmetric]
    using False quiet_news [of f4 now] by auto
  then show ?thesis using books_departure [OF assms 1, of now order "aName a" x f3 x] 2 by (simp add: fd_def f4_def)
qed

lemma map_fst_map [simp]: "map (fst \<circ> (\<lambda>(k, a). (k, h k a))) xs = map fst xs"
  by (induction xs) auto

lemma quiet_map_agents:
  assumes "filed f"
    and "\<And>k a. (k, a) \<in> set (gAgents (kGroup f)) \<Longrightarrow> requests (holding (h k a)) = requests (holding a) \<and> aName (h k a) = aName a"
    and "gAgents (kGroup f') = map (\<lambda>(k, a). (k, h k a)) (gAgents (kGroup f))"
    and "gTimers (kGroup f') = gTimers (kGroup f)" "gCheckRuns (kGroup f') = gCheckRuns (kGroup f)"
    and "gNextID (kGroup f) \<le> gNextID (kGroup f')" "lFile (kLog f') = lFile (kLog f)"
  shows "quiet f f'"
proof -
  have "held f' = held f" unfolding held_def assms(3) by (rule held_by_map) (use assms(2) in blast)
  moreover have "\<forall>(k, a) \<in> set (gAgents (kGroup f')). aName a = k"
    using assms(1,2) by (auto simp: filed_def assms(3))
  ultimately show ?thesis using assms(1)
    by (simp add: moved_def filed_def answers_def asked_def log_messages_def assms(3-7))
qed

lemma quiet_orphan: "filed f \<Longrightarrow> quiet f (orphan_children n f)"
  by (rule quiet_map_agents [of _ "\<lambda>k. orphan n"])
     (simp_all add: orphan_children_def upd_group_def orphan_def holding_def)

lemma books_retire:
  assumes "books f"
  shows "books (retire_finish now order f n cause deliberate)"
proof (cases "agent_of f n = None \<or> kClosed f")
  case True
  with assms show ?thesis by (auto simp: retire_finish_def split: option.split)
next
  case False
  then obtain a where a: "agent_of f n = Some a" and live: "\<not> kClosed f" by auto
  define x where "x = ''agent '' @ n @ '' is gone: '' @ cause"
  define f1 where "f1 = orphan_children n ((remove_agent n f)\<lparr>kRunning := AList.delete n (kRunning f), kReviving := kReviving f - {n}\<rparr>)"
  define fd where "fd = dropTimersOfLocked now order f1 n x"
  define f2 where "f2 = dropExpectsOfLocked fd n"
  define f3 where "f3 = dropUnusedBudgetsLocked (upd_group (\<lambda>g. passOnCreationsLocked g n (parentOfLocked f2 a)) f2)"
  define f4 where "f4 = eventLocked now f3 ((event ''retired'' n)\<lparr>eRoot := aRoot a, eCause := cause\<rparr>)"
  define f5 where "f5 = fst (answerOwedLocked now f4 a x)"
  have "quiet (remove_agent n f) ((remove_agent n f)\<lparr>kRunning := AList.delete n (kRunning f), kReviving := kReviving f - {n}\<rparr>)"
    by (rule quiet_same [OF filed_remove [OF books_filed [OF assms]]]) simp_all
  then have 1: "quiet (remove_agent n f) f1" unfolding f1_def by (rule then_quiet) (rule quiet_orphan)
  have t: "[] \<notin> fst ` set (gTimers (kGroup f1))"
    using books_timer_ids [OF assms] by (simp add: f1_def orphan_children_def remove_agent_def upd_group_def)
  have "filed fd" using settles_drop_timers [OF moved_filed [OF 1] t] by (simp add: fd_def settles_def)
  then have "quiet fd f2" unfolding f2_def by (rule quiet_drop_expects)
  then have "quiet fd (upd_group (\<lambda>g. passOnCreationsLocked g n (parentOfLocked f2 a)) f2)"
    by (rule then_quiet) (rule quiet_pass_on)
  then have "quiet fd f3" unfolding f3_def by (rule then_quiet) (rule quiet_drop_budgets)
  then have 2: "quiet fd f4" unfolding f4_def by (rule then_quiet) (rule quiet_event, simp_all add: event_def)
  have "filed f5"
    using moved_filed [OF moved_answer_owed [OF moved_filed [OF 2] held_ids [OF assms a]]] by (simp add: f5_def)
  then have "quiet f5 (retire_finish now order f n cause deliberate)"
    unfolding retire_finish_def a option.case Let_def case_prod_beta x_def [symmetric] f1_def [symmetric] fd_def [symmetric]
      f2_def [symmetric] f3_def [symmetric] f4_def [symmetric] f5_def [symmetric]
    using live quiet_news [of f5 now] by auto
  then show ?thesis using books_departure [OF assms a 1, of now order n x f4 x] 2 by (simp add: fd_def f5_def)
qed

end
