(* ===== verification/FleetSteps.thy ===== *)
theory FleetSteps
  imports FleetPieces
begin

text \<open>
  The kernel as a step relation: one rule for every piece of it that runs with the lock held, taken in
  any order the state allows, and the proof that each keeps the books. Where the source relies on one
  goroutine owning an agent, the rules ask only for what the state shows of that, so they allow every
  interleaving of the source and more.
\<close>

subsection \<open>Pieces that move nothing\<close>

lemma quiet_launch_ok: "filed f \<Longrightarrow> quiet f (launch_ok now f a model)"
proof -
  assume "filed f"
  then have "quiet f (f\<lparr>kStarting := kStarting f - {aName a}\<rparr>)" by (rule quiet_same) simp_all
  then have "quiet f (runLocked now (f\<lparr>kStarting := kStarting f - {aName a}\<rparr>) a model 0)"
    by (rule then_quiet) (rule quiet_run)
  with \<open>filed f\<close> show ?thesis by (auto simp: launch_ok_def)
qed

lemma quiet_revive_begin: "filed f \<Longrightarrow> quiet f (revive_begin f n)"
  by (rule quiet_same) (simp_all add: revive_begin_def)

lemma quiet_revive_ok:
  assumes "filed f"
  shows "quiet f (revive_ok now f n briefed resume model deaths)"
proof (cases "agent_of f n")
  case None
  with assms show ?thesis by (auto simp: revive_ok_def)
next
  case (Some a)
  define f1 where "f1 = f\<lparr>kReviving := kReviving f - {n}\<rparr>"
  define t where "t = ''agent '' @ n @ '' lost its conversation in a restart and is starting on a fresh one''"
  define f2 where "f2 = (if briefed \<and> \<not> resume
    then deliverLocked now (upd_agent n (\<lambda>b. b\<lparr>aBriefed := False\<rparr>) f1) (news n (parentOfLocked f1 a) t) else f1)"
  have 1: "quiet f f1" using assms by (rule quiet_same) (simp_all add: f1_def)
  have "quiet f1 (upd_agent n (\<lambda>b. b\<lparr>aBriefed := False\<rparr>) f1)"
    by (rule quiet_update_agent [OF moved_filed [OF 1]]) (simp_all add: holding_def)
  then have "quiet f1 (deliverLocked now (upd_agent n (\<lambda>b. b\<lparr>aBriefed := False\<rparr>) f1) (news n (parentOfLocked f1 a) t))"
    by (rule then_quiet) (rule quiet_news)
  then have "quiet f f2" using 1 by (auto simp: f2_def intro: quiet_trans(1))
  then have "quiet f (runLocked now f2 a model deaths)" by (rule then_quiet) (rule quiet_run)
  moreover have "revive_ok now f n briefed resume model deaths = (if kClosed f then f else runLocked now f2 a model deaths)"
    unfolding revive_ok_def Some option.case Let_def f1_def [symmetric] t_def [symmetric] f2_def [symmetric] ..
  ultimately show ?thesis using assms by auto
qed

lemma quiet_revive_failed: "filed f \<Longrightarrow> quiet f (fst (revive_failed now f n err told))"
  using quiet_news [of f now n] by (auto simp: revive_failed_def split: option.split)

lemma quiet_after_send: "filed f \<Longrightarrow> quiet f (after_send f n ok)"
  by (auto simp: after_send_def)

lemma quiet_interrupt_done: "filed f \<Longrightarrow> quiet f (interrupt_done f n r turn by_whom for_id ok)"
  by (auto simp: interrupt_done_def)

lemma quiet_retire_begin: "filed f \<Longrightarrow> quiet f (retire_begin f n)"
  using quiet_update_agent [of f "\<lambda>b. b\<lparr>aRetiring := True, aStopped := True\<rparr>" n]
  by (auto simp: retire_begin_def holding_def split: option.split)

lemma quiet_Stop: "filed f \<Longrightarrow> quiet f (fst (Stop now f caller n))"
proof -
  assume f: "filed f"
  have 1: "quiet f (upd_agent n (\<lambda>b. b\<lparr>aStopped := True\<rparr>) f)"
    by (rule quiet_update_agent [OF f]) (simp_all add: holding_def)
  have "quiet f (eventLocked now (upd_agent n (\<lambda>b. b\<lparr>aStopped := True\<rparr>) f)
      ((event ''stop'' n)\<lparr>eRoot := x, eParent := caller\<rparr>))" for x
    using 1 by (rule then_quiet) (rule quiet_event, simp_all add: event_def)
  with f show ?thesis by (auto simp: Stop_def split: sum.split option.split)
qed

lemma quiet_new_budget: "filed f \<Longrightarrow> quiet f (fst (newBudgetLocked now f h s l))"
  by (rule quiet_same) (simp_all add: newBudgetLocked_def Let_def bump_id_def upd_group_def)

lemma quiet_spread: "filed f \<Longrightarrow> quiet f (upd_group (\<lambda>g. spread_budget g n i) f)"
  by (rule quiet_map_agents [of _ "\<lambda>k a. let a1 = (if k = n then join_budget i (a\<lparr>aOwnBudget := i\<rparr>) else a)
             in if fleetDescends (kGroup f) (aName a1) n then join_budget i a1 else a1"])
     (simp_all add: spread_budget_def upd_group_def join_budget_def holding_def Let_def)

lemma quiet_SetBudget: "filed f \<Longrightarrow> quiet f (fst (SetBudget now gt f caller target limits))"
proof -
  assume f: "filed f"
  have b: "quiet f (upd_budget i h f)" for i h using f by (rule quiet_upd_budget)
  have s: "quiet f (upd_group (\<lambda>g. spread_budget g n i) (fst (newBudgetLocked now f h c l)))" for n i h c l
    by (rule then_quiet [OF quiet_new_budget [OF f]]) (rule quiet_spread)
  have e: "quiet f f1 \<Longrightarrow> quiet f (eventLocked now f1 ((event ''budget'' n)\<lparr>eText := x\<rparr>))" for f1 n x
    by (erule then_quiet) (rule quiet_event, simp_all add: event_def)
  show ?thesis
    using f b s by (auto simp: SetBudget_def Let_def case_prod_beta intro!: e split: sum.split option.split)
qed

lemma quiet_where: "filed f \<Longrightarrow> quiet f (fst (whereLocked now f i e))"
  using quiet_blocked [of f now]
  by (auto simp: whereLocked_def where_queued_def Let_def case_prod_beta split: option.split)

lemma quiet_upd_expects: "filed f \<Longrightarrow> quiet f (upd_group (\<lambda>g. g\<lparr>gExpects := h g\<rparr>) f)"
  by (rule quiet_same) (simp_all add: upd_group_def)

lemma quiet_expect_missed:
  assumes "filed f"
  shows "quiet f (expectMissedLocked now f i e which)"
proof -
  define e1 where "e1 = (if which = ''accept'' then e\<lparr>xAcceptBy := None\<rparr> else e\<lparr>xAnswerBy := None\<rparr>)"
  define f1 where "f1 = upd_group (\<lambda>g. g\<lparr>gExpects := AList.update i e1 (gExpects g)\<rparr>) f"
  define f2 where "f2 = fst (whereLocked now f1 i e1)"
  define f3 where "f3 = (if xAcceptBy e1 = None \<and> xAnswerBy e1 = None
                then upd_group (\<lambda>g. g\<lparr>gExpects := AList.delete i (gExpects g)\<rparr>) f2 else f2)"
  have "quiet f f1" unfolding f1_def using assms by (rule quiet_upd_expects)
  then have 2: "quiet f f2" unfolding f2_def by (rule then_quiet) (rule quiet_where)
  then have "quiet f f3" using quiet_upd_expects [OF moved_filed [OF 2]] by (auto simp: f3_def intro: quiet_trans(1))
  then show ?thesis
    unfolding expectMissedLocked_def Let_def case_prod_beta e1_def [symmetric] f1_def [symmetric] f2_def [symmetric] f3_def [symmetric]
    by (rule then_quiet) (rule quiet_notice)
qed

lemma quiet_expect_due: "filed f \<Longrightarrow> quiet f (expect_due now f i which)"
proof -
  assume f: "filed f"
  have 1: "quiet f (disarm (expect_key i which) f)" using f by (rule quiet_disarm)
  have "quiet f (expectMissedLocked now (disarm (expect_key i which) f) i e which)" for e
    using 1 by (rule then_quiet) (rule quiet_expect_missed)
  with f 1 show ?thesis by (auto simp: expect_due_def Let_def split: option.split)
qed

subsection \<open>Expediting\<close>

lemma find_at_SomeD: "find_at P xs = Some k \<Longrightarrow> k < length xs \<and> P (xs ! k)"
  by (induction xs arbitrary: k) (auto split: if_splits)

lemma find_agent_SomeD: "find_agent look as = Some (n, k) \<Longrightarrow> \<exists>a. (n, a) \<in> set as \<and> look a = Some k"
  by (induction as) (auto split: option.splits)

lemma requests_delete_at:
  assumes "k < length xs"
  shows "requests xs = requests [xs ! k] + requests (delete_at k xs)"
proof -
  have "requests xs = requests (take k xs @ xs ! k # drop (Suc k) xs)"
    using id_take_nth_drop [OF assms] by simp
  then show ?thesis by (simp add: delete_at_def ac_simps)
qed

lemma find_agent_of:
  assumes "filed f" "find_agent look (gAgents (kGroup f)) = Some (n, k)"
  shows "\<exists>a. agent_of f n = Some a \<and> look a = Some k"
  using find_agent_SomeD [OF assms(2)] assms(1) by (auto simp: filed_def agent_of_def)

lemma holding_reclaim: "j < length (aSteered a) \<Longrightarrow> requests (holding (reclaim j a)) = requests (holding a)"
  using requests_delete_at [of j "aSteered a"] by (simp add: reclaim_def holding_def ac_simps split: option.split)

lemma holding_to_front: "k < length (aInbox a) \<Longrightarrow> requests (holding (to_front k a)) = requests (holding a)"
  using requests_delete_at [of k "aInbox a"] by (simp add: to_front_def holding_def ac_simps split: option.split)

lemma holding_steer_out: "aInbox a \<noteq> [] \<Longrightarrow> requests (holding (steer_out a)) = requests (holding a)"
  by (cases "aInbox a") (simp_all add: steer_out_def holding_def ac_simps split: option.split)

lemma holding_steer_back: "j < length (aSteered a) \<Longrightarrow> requests (holding (steer_back j a)) = requests (holding a)"
  using requests_delete_at [of j "aSteered a"] by (simp add: steer_back_def holding_def ac_simps split: option.split)

lemma holding_steer_again: "k < length (aInbox a) \<Longrightarrow> requests (holding (steer_again k a)) = requests (holding a)"
  using requests_delete_at [of k "aInbox a"] by (simp add: steer_again_def holding_def ac_simps split: option.split)

lemma holding_steer_in:
  assumes "j < length (aSteered a)"
  shows "requests (holding (steer_in j a)) = requests (holding a)"
proof -
  have "map (\<lambda>m. (mID m, mFrom m)) (filter (\<lambda>m. mKind m = FleetRequest) (xs[j := (xs ! j)\<lparr>mCharged := True\<rparr>])) =
      map (\<lambda>m. (mID m, mFrom m)) (filter (\<lambda>m. mKind m = FleetRequest) xs)" if "j < length xs" for xs
    using that by (induction xs arbitrary: j) (auto split: nat.split)
  from this [OF assms] show ?thesis by (simp add: steer_in_def holding_def requests_def split: option.split)
qed

lemma holding_clear: "requests (holding (clear_steering i a)) = requests (holding a)"
proof -
  define c :: "fleet_message \<Rightarrow> fleet_message" where "c = (\<lambda>m. if mID m = i then m\<lparr>mSteering := False\<rparr> else m)"
  have 1: "mID (c m) = mID m" "mFrom (c m) = mFrom m" "mKind (c m) = mKind m" for m by (simp_all add: c_def)
  have 2: "requests (map c ms) = requests ms" for ms by (rule requests_map) (simp_all add: 1)
  show ?thesis unfolding clear_steering_def Let_def c_def [symmetric]
    by (cases "aCurrent a") (simp_all add: holding_def 1 2)
qed

lemma quiet_find_waiting:
  assumes "filed f" "find_waiting f caller i mode = Inr (f1, n, k, rc)"
  shows "quiet f f1 \<and> (\<exists>a. agent_of f1 n = Some a \<and> k < length (aInbox a))"
proof (cases "queuedLocked (kGroup f) i")
  case (Some p)
  then have p: "p = (n, k)" "f1 = f"
    using assms(2) by (auto simp: find_waiting_def Let_def split: if_splits prod.splits)
  with Some find_agent_of [OF assms(1)] find_at_SomeD assms(1) show ?thesis
    by (fastforce simp: queuedLocked_def)
next
  case None
  then obtain j where j: "steeredLocked (kGroup f) i = Some (n, j)" "f1 = upd_agent n (reclaim j) f" "k = 0"
    using assms(2) by (auto simp: find_waiting_def Let_def split: option.splits if_splits prod.splits)
  then obtain a where a: "agent_of f n = Some a" "j < length (aSteered a)"
    using find_agent_of [OF assms(1)] find_at_SomeD unfolding steeredLocked_def by blast
  have "quiet f f1" unfolding j(2)
    by (rule quiet_update_agent [OF assms(1)]) (use a holding_reclaim in \<open>auto simp: reclaim_def\<close>)
  moreover have "agent_of f1 n = Some (reclaim j a)"
    using a by (simp add: j(2) agent_of_def upd_agent_def upd_group_def map_of_map_entry)
  ultimately show ?thesis using j(3) by (simp add: reclaim_def)
qed

lemma agent_of_upd: "agent_of (upd_agent n h f) n = map_option h (agent_of f n)"
  by (simp add: agent_of_def upd_agent_def upd_group_def map_of_map_entry split: option.split)

lemma quiet_expedite_begin:
  assumes "filed f"
  shows "quiet f (fst (expedite_begin now stamp f caller i mode))"
proof (cases "\<exists>f1 n k rc. groupLocked f = Inr (kGroup f) \<and> find_waiting f caller i mode = Inr (f1, n, k, rc)")
  case False
  then have "fst (expedite_begin now stamp f caller i mode) = f"
    by (auto simp: expedite_begin_def groupLocked_def and_then_def split: sum.splits)
  with assms show ?thesis by auto
next
  case True
  then obtain f1 n k rc where w: "groupLocked f = Inr (kGroup f)" "find_waiting f caller i mode = Inr (f1, n, k, rc)" by blast
  from quiet_find_waiting [OF assms w(2)] obtain a where 1: "quiet f f1" and a: "agent_of f1 n = Some a" "k < length (aInbox a)"
    by blast
  define f2 where "f2 = upd_agent n (to_front k) f1"
  have "quiet f1 f2" unfolding f2_def
    by (rule quiet_update_agent [OF moved_filed [OF 1]]) (use a holding_to_front in \<open>auto simp: to_front_def\<close>)
  with 1 have 2: "quiet f f2" by (rule quiet_trans(1))
  have a2: "agent_of f2 n = Some (to_front k a)" by (simp add: f2_def agent_of_upd a)
  have 3: "quiet f (fst (blockedLocked now f2 b))" for b
    using 2 by (rule then_quiet) (rule quiet_blocked)
  have 4: "quiet f (upd_agent n steer_out (fst (blockedLocked now f2 b)))" for b
  proof (rule then_quiet [OF 3])
    have "agent_of (fst (blockedLocked now f2 b)) n = Some (to_front k a)" using a2 by (simp add: agent_of_def)
    moreover assume "filed (fst (blockedLocked now f2 b))"
    ultimately show "quiet (fst (blockedLocked now f2 b)) (upd_agent n steer_out (fst (blockedLocked now f2 b)))"
      using holding_steer_out [of "to_front k a"]
      by (intro quiet_update_agent) (simp_all add: steer_out_def, simp add: to_front_def)
  qed
  have 5: "quiet f (upd_runtime n h f2)" for h using 2 by (rule then_quiet) (rule quiet_upd_runtime)
  show ?thesis
    using 2 3 4 5 a2 assms by (auto simp: expedite_begin_def w Let_def f2_def [symmetric] case_prod_beta split: option.split)
qed

lemma quiet_steer_done:
  assumes "filed f"
  shows "quiet f (steer_done now f n r turn i ok)"
proof -
  define f1 where "f1 = upd_agent n (clear_steering i) f"
  have 1: "quiet f f1" unfolding f1_def
    by (rule quiet_update_agent [OF assms]) (simp_all add: holding_clear, simp add: clear_steering_def Let_def)
  show ?thesis
  proof (cases "\<exists>a j. agent_of f1 n = Some a \<and> find_at (\<lambda>m. mID m = i) (aSteered a) = Some j")
    case False
    then have "steer_done now f n r turn i ok = f1"
      by (auto simp: steer_done_def Let_def f1_def [symmetric] split: option.split)
    with 1 show ?thesis by simp
  next
    case True
    then obtain a j where a: "agent_of f1 n = Some a" "find_at (\<lambda>m. mID m = i) (aSteered a) = Some j" by blast
    then have j: "j < length (aSteered a)" by (blast dest: find_at_SomeD)
    have 2: "quiet f (acceptedLocked now f1 i)" using 1 by (rule then_quiet) (rule quiet_accepted)
    have "agent_of (acceptedLocked now f1 i) n = Some a" using a by (simp add: agent_of_def)
    then have 3: "quiet f (upd_agent n (steer_in j) (acceptedLocked now f1 i))"
      using 2 by (elim then_quiet) (rule quiet_update_agent, auto simp: holding_steer_in j, simp add: steer_in_def)
    have 4: "quiet f (chargeTurnLocked (upd_agent n (steer_in j) (acceptedLocked now f1 i)) a)"
      using 3 by (rule then_quiet) (rule quiet_charge_turn)
    have 5: "quiet f (upd_agent n (steer_back j) f1)"
      using 1 by (rule then_quiet) (rule quiet_update_agent, auto simp: holding_steer_back j a, simp add: steer_back_def)
    show ?thesis using 1 3 4 5 a by (simp add: steer_done_def Let_def f1_def [symmetric])
  qed
qed

lemma quiet_restore:
  assumes "filed f"
  shows "quiet f (fst (restoreSteered f n r turn i))"
proof (cases "\<exists>a k. agent_of f n = Some a \<and> find_at (\<lambda>m. mID m = i) (aInbox a) = Some k")
  case False
  with assms show ?thesis by (auto simp: restoreSteered_def split: option.split)
next
  case True
  then obtain a k where a: "agent_of f n = Some a" "find_at (\<lambda>m. mID m = i) (aInbox a) = Some k" by blast
  then have "k < length (aInbox a)" by (blast dest: find_at_SomeD)
  then have "quiet f (upd_agent n (steer_again k) f)"
    by (intro quiet_update_agent [OF assms]) (auto simp: holding_steer_again a, simp add: steer_again_def)
  with assms a show ?thesis by (auto simp: restoreSteered_def)
qed

subsection \<open>New requests\<close>

lemma quiet_places: "quiet f f' \<Longrightarrow> places f' = places f"
  by (simp add: moved_def places_def elsewhere_def pending_def)

lemma books_kept:
  assumes "books f" "filed f'" "places f' \<subseteq># places f"
    and "\<And>j. used_id (kGroup f) j \<Longrightarrow> used_id (kGroup f') j"
    and "\<forall>i \<in> fst ` set (gTimers (kGroup f')). \<exists>k \<le> gNextID (kGroup f'). i = timer_id k"
    and "asked f' \<subseteq># held f' + answers f'"
  shows "books f'"
proof -
  note B = assms(1) [unfolded books_def]
  have "count (places f') j \<le> 1" for j
    using B mset_subset_eq_count [OF assms(3), of j] by (meson order_trans)
  moreover have "\<forall>j \<in># places f'. used_id (kGroup f') j" using B assms(4) mset_subset_eqD [OF assms(3)] by blast
  ultimately show ?thesis using assms by (simp add: books_def)
qed

text \<open>A request whose ID is given out and is in no place yet.\<close>

lemma books_ask:
  assumes "books f" "mKind m = FleetRequest" "mID m \<notin># places f" "used_id (kGroup f) (mID m)"
  shows "books (deliverLocked now f m)"
proof -
  let ?f = "deliverLocked now f m"
  note B = assms(1) [unfolded books_def]
  obtain ins ans where mv: "moved f ?f {#} ins ans (ins + ans)"
    and sum: "ins + ans = (if mTo m = FleetOwner then {#} else {#(mID m, mFrom m)#})"
    using moved_request [OF books_filed [OF assms(1)] assms(2) used_id_not_Nil [OF assms(4)]] by blast
  have "image_mset fst (ins + ans) \<subseteq># {#mID m#}" by (simp add: sum)
  moreover have "places ?f = places f + image_mset fst (ins + ans)"
    using mv by (simp add: moved_def places_def elsewhere_def pending_def ac_simps)
  ultimately have p: "places ?f \<subseteq># add_mset (mID m) (places f)"
    by (metis add_mset_add_single mset_subset_eq_mono_add_left_cancel)
  have u: "used_id (kGroup ?f) j" if "used_id (kGroup f) j" for j
    using that mv B by (auto intro: used_id_mono simp: moved_def filed_def)
  have c: "count (places ?f) j \<le> 1" for j
    using B assms(3) mset_subset_eq_count [OF p, of j] by (auto simp: not_in_iff split: if_splits intro: order_trans)
  have "asked f + (ins + ans) \<subseteq># held f + answers f + (ins + ans)" using B by simp
  then have a: "asked ?f \<subseteq># held ?f + answers ?f" using mv by (simp add: moved_def ac_simps)
  have "j = mID m \<or> j \<in># places f" if "j \<in># places ?f" for j using mset_subset_eqD [OF p that] by simp
  then have "\<forall>j \<in># places ?f. used_id (kGroup ?f) j" using B u assms(4) by blast
  moreover have "\<exists>k \<le> gNextID (kGroup ?f). i = timer_id k" if "i \<in> fst ` set (gTimers (kGroup ?f))" for i
  proof -
    have "i \<in> fst ` set (gTimers (kGroup f))" using that mv by (simp add: moved_def)
    then obtain k where "k \<le> gNextID (kGroup f)" "i = timer_id k" using B by blast
    with mv show ?thesis by (intro exI [of _ k]) (simp add: moved_def)
  qed
  ultimately show ?thesis using c a moved_filed [OF mv] unfolding books_def by blast
qed

lemma books_deliver:
  assumes "books f" "mInReplyTo m = []" "mKind m = FleetRequest \<Longrightarrow> mID m \<notin># places f \<and> used_id (kGroup f) (mID m)"
  shows "books (deliverLocked now f m)"
proof (cases "mKind m = FleetRequest")
  case True
  with assms show ?thesis by (blast intro: books_ask)
next
  case False
  have "answers_in [m] = {#}" using assms(2) by (simp add: answers_in_def)
  with moved_response [OF books_filed [OF assms(1)] False] have "quiet f (deliverLocked now f m)" by simp
  then show ?thesis by (rule books_quiet [OF assms(1)])
qed

lemma books_bump_fresh:
  assumes "books f"
  shows "books (bump_id f)" "places (bump_id f) = places f" "request_id (Suc (gNextID (kGroup f))) \<notin># places f"
    "timer_id (Suc (gNextID (kGroup f))) \<notin># places f" "check_id (Suc (gNextID (kGroup f))) \<notin># places f"
  using assms quiet_bump [OF books_filed [OF assms]] books_quiet [OF assms] quiet_places
    fresh_ids [of "kGroup f"] by (auto simp: books_def)

lemma books_send_now:
  assumes "books f"
  shows "books (fst (send_now now f s))"
proof -
  define i where "i = request_id (Suc (gNextID (kGroup f)))"
  define m where "m = (sent_message s)\<lparr>mID := i\<rparr>"
  define f2 where "f2 = expectLocked now (bump_id f) m (sdAcceptWithin s) (sdAnswerWithin s)"
  note F = books_bump_fresh [OF assms]
  have q: "quiet (bump_id f) f2" unfolding f2_def by (rule quiet_expect [OF books_filed [OF F(1)]])
  have "gNextID (kGroup (bump_id f)) \<le> gNextID (kGroup f2)" using q by (simp add: moved_def)
  then have "used_id (kGroup f2) i" by (auto simp: used_id_def i_def bump_id_def upd_group_def)
  then have "books (deliverLocked now f2 m)"
    using books_deliver [OF books_quiet [OF F(1) q], of m] quiet_places [OF q] F(2,3)
    by (simp add: m_def i_def sent_message_def message_def)
  then show ?thesis by (simp add: send_now_def nextIDLocked_def Let_def f2_def m_def i_def)
qed

text \<open>Filing a timer under its own ID.\<close>

definition store_timer :: "string \<Rightarrow> fleet_timer \<Rightarrow> fleet \<Rightarrow> fleet" where
  "store_timer i t = upd_group (\<lambda>g. g\<lparr>gTimers := AList.update i t (gTimers g)\<rparr>)"

lemma filed_store:
  "filed f \<Longrightarrow> mID (tMessage t) = i \<Longrightarrow> mInReplyTo (tMessage t) = [] \<Longrightarrow> filed (store_timer i t f)"
  by (auto simp: filed_def store_timer_def upd_group_def distinct_update dest!: in_set_update)

lemma store_same:
  "held (store_timer i t f) = held f" "answers (store_timer i t f) = answers f" "asked (store_timer i t f) = asked f"
  "gCheckRuns (kGroup (store_timer i t f)) = gCheckRuns (kGroup f)"
  "gNextID (kGroup (store_timer i t f)) = gNextID (kGroup f)"
  "gTimers (kGroup (store_timer i t f)) = AList.update i t (gTimers (kGroup f))"
  by (simp_all add: store_timer_def upd_group_def held_def answers_def asked_def log_messages_def)

lemma update_new: "map_of ts i = None \<Longrightarrow> AList.update i t ts = ts @ [(i, t)]"
  by (induction ts) auto

lemma pending_update:
  assumes "map_of ts i = Some t0" "P t = P t0"
  shows "map fst (filter (\<lambda>(i, t). P t) (AList.update i t ts)) = map fst (filter (\<lambda>(i, t). P t) ts)"
  using assms by (induction ts) auto

lemma fst_update: "fst ` set (AList.update i t ts) = insert i (fst ` set ts)"
  by (induction ts) auto

lemma books_send_later:
  assumes "books f"
  shows "books (fst (send_later now f s))"
proof -
  define i where "i = timer_id (Suc (gNextID (kGroup f)))"
  define t where "t = \<lparr>tAt = first_due now s, tEvery = sdEvery s, tFires = 0, tMessage = (sent_message s)\<lparr>mID := i\<rparr>\<rparr>"
  define f1 where "f1 = bump_id f"
  define f2 where "f2 = store_timer i t f1"
  note F = books_bump_fresh [OF assms, folded f1_def]
  have g: "gTimers (kGroup f1) = gTimers (kGroup f)" "gNextID (kGroup f1) = Suc (gNextID (kGroup f))"
    by (simp_all add: f1_def bump_id_def upd_group_def)
  have "i \<notin> fst ` set (gTimers (kGroup f))" using assms by (fastforce simp: books_def i_def)
  then have new: "map_of (gTimers (kGroup f1)) i = None" by (simp add: map_of_eq_None_iff g)
  have filed2: "filed f2" unfolding f2_def 
    by (rule filed_store [OF books_filed [OF F(1)]]) (simp_all add: t_def sent_message_def message_def)
  have p: "places f2 \<subseteq># add_mset i (places f)"
    using F(2) by (auto simp: places_def elsewhere_def pending_def f2_def store_same update_new [OF new])
  have m: "map_of (gTimers (kGroup f2)) k = (if k = i then Some t else map_of (gTimers (kGroup f)) k)" for k
    by (simp add: f2_def store_same update_conv g)
  have u: "used_id (kGroup f2) j" if "used_id (kGroup f) j" for j
    using that by (auto simp: used_id_def f2_def store_same g update_conv i_def fun_upd_apply split: if_splits
        intro: le_SucI) (metis Suc_n_not_le_n ids(2) le_SucI)+
  have "\<not> used_id (kGroup f) i" "used_id (kGroup f2) i"
    using fresh_ids by (auto simp: i_def used_id_def f2_def store_same g)
  moreover have "\<exists>k \<le> gNextID (kGroup f2). j = timer_id k" if "j \<in> fst ` set (gTimers (kGroup f2))" for j
    using that assms by (auto simp: f2_def store_same fst_update g i_def books_def intro: le_SucI)
  moreover have "asked f2 \<subseteq># held f2 + answers f2" using F(1) by (simp add: f2_def store_same books_def)
  ultimately have "books f2" using books_new [OF assms filed2 p] u by blast
  then have "books (armTimerLocked now i t f2)"
    unfolding armTimerLocked_def by (rule books_quiet) (rule quiet_arm [OF filed2])
  then show ?thesis
    by (simp add: send_later_def nextTimerIDLocked_def Let_def f2_def store_timer_def t_def i_def f1_def)
qed

lemma books_send: "books f \<Longrightarrow> books (fst (send now f s))"
proof -
  assume b: "books f"
  have "books (upd_group (\<lambda>g. g\<lparr>gSent := gSent g + 1\<rparr>) f)"
    by (rule books_quiet [OF b quiet_same [OF books_filed [OF b]]]) (simp_all add: upd_group_def)
  then show ?thesis
    using b books_send_now books_send_later by (auto simp: send_def Let_def case_prod_beta split: sum.split)
qed

lemma books_Cancel: "books f \<Longrightarrow> books (fst (Cancel now f caller i))"
proof -
  assume b: "books f"
  have 1: "books (dropTimerLocked f i)" by (rule books_settles [OF b settles_drop_timer [OF books_filed [OF b]]])
  have "books (eventLocked now (dropTimerLocked f i) ((event ''cancel'' caller)\<lparr>eText := i\<rparr>))"
    by (rule books_quiet [OF 1 quiet_event [OF books_filed [OF 1]]]) (simp add: event_def)
  with b show ?thesis by (auto simp: Cancel_def split: sum.split)
qed

subsection \<open>Firing\<close>

lemma settles_delete_timer: "filed f \<Longrightarrow> settles f (delete_timer i f) {#} {#}"
  using settles_drop_timer [of f i]
  by (simp add: settles_def dropTimerLocked_def disarm_def delete_timer_def upd_group_def held_def answers_def
      asked_def log_messages_def elsewhere_def pending_def filed_def)

lemma timer_facts:
  assumes "books f" "map_of (gTimers (kGroup f)) i = Some t"
  shows "mID (tMessage t) = i" "mInReplyTo (tMessage t) = []" "\<exists>k \<le> gNextID (kGroup f). i = timer_id k"
  using assms by (force simp: books_def filed_def dest: map_of_SomeD)+

lemma books_fire_once:
  assumes "books f" "map_of (gTimers (kGroup f)) i = Some t" "tEvery t \<le> 0"
  shows "books (deliverLocked now (delete_timer i f) ((tMessage t)\<lparr>mDue := d\<rparr>))"
proof -
  let ?f = "delete_timer i f"
  note T = timer_facts [OF assms(1,2)]
  have b: "books ?f" by (rule books_settles [OF assms(1) settles_delete_timer [OF books_filed [OF assms(1)]]])
  have "i \<notin># places ?f" if "mKind (tMessage t) = FleetRequest"
  proof -
    have "pending ?f + {#i#} = pending f"
      using pending_delete [OF _ assms(2), of "\<lambda>t. mKind (tMessage t) = FleetRequest \<and> tEvery t \<le> 0"] assms(1,3) that
      by (simp add: pending_def delete_timer_def upd_group_def books_def filed_def)
    then have "places f = places ?f + {#i#}"
      by (simp add: places_def elsewhere_def delete_timer_def upd_group_def held_def answers_def log_messages_def ac_simps)
    moreover have "count (places f) i \<le> 1" using assms(1) by (simp add: books_def)
    ultimately show ?thesis by (simp add: not_in_iff)
  qed
  moreover have "used_id (kGroup ?f) i"
    using T(3) by (auto simp: used_id_def delete_timer_def upd_group_def)
  ultimately show ?thesis using books_deliver [OF b, of "(tMessage t)\<lparr>mDue := d\<rparr>"] T(1,2) by simp
qed

lemma books_store:
  assumes "books f" "map_of (gTimers (kGroup f)) i = Some t0" "tEvery t = tEvery t0" "tMessage t = tMessage t0" "tFires t0 \<le> tFires t"
  shows "books (store_timer i t f)" "places (store_timer i t f) = places f"
proof -
  note T = timer_facts [OF assms(1,2)]
  show p: "places (store_timer i t f) = places f"
    using pending_update [OF assms(2), of "\<lambda>t. mKind (tMessage t) = FleetRequest \<and> tEvery t \<le> 0" t] assms(3,4)
    by (simp add: places_def elsewhere_def pending_def store_same)
  have "used_id (kGroup (store_timer i t f)) j" if "used_id (kGroup f) j" for j
  proof -
    from that obtain k where k: "k \<le> gNextID (kGroup f)" "j = request_id k \<or> j = check_id k \<or> j = timer_id k \<or>
      (\<exists>x. j = firing_id (timer_id k) x \<and> (\<forall>t. map_of (gTimers (kGroup f)) (timer_id k) = Some t \<longrightarrow> x \<le> tFires t))"
      by (auto simp: used_id_def)
    then show ?thesis
      using assms(2,5) unfolding used_id_def by (intro exI [of _ k]) (auto simp: store_same update_conv)
  qed
  moreover have "\<exists>k \<le> gNextID (kGroup (store_timer i t f)). j = timer_id k"
    if "j \<in> fst ` set (gTimers (kGroup (store_timer i t f)))" for j
    using that assms(1) T(3) by (auto simp: store_same fst_update books_def)
  moreover have "filed (store_timer i t f)"
    by (rule filed_store [OF books_filed [OF assms(1)]]) (simp_all add: T assms(4))
  ultimately show "books (store_timer i t f)"
    using books_kept [OF assms(1), of "store_timer i t f"] p assms(1) by (auto simp: store_same books_def)
qed

lemma requests_add_missed: "requests (add_missed i k ms) = requests ms"
  by (induction ms) auto

lemma books_fire_repeat:
  assumes "books f" "map_of (gTimers (kGroup f)) i = Some t"
  shows "books (fire_repeat now f i t)"
proof -
  define t1 where "t1 = t\<lparr>tAt := next_due now t\<rparr>"
  define t2 where "t2 = t1\<lparr>tFires := Suc (tFires t)\<rparr>"
  define f1 where "f1 = armTimerLocked now i t1 (store_timer i t1 f)"
  define f2 where "f2 = store_timer i t2 f1"
  note T = timer_facts [OF assms]
  have s: "books (store_timer i t1 f)" "places (store_timer i t1 f) = places f"
    by (rule books_store [OF assms]; simp add: t1_def)+
  have q: "quiet (store_timer i t1 f) f1"
    unfolding f1_def armTimerLocked_def by (rule quiet_arm [OF books_filed [OF s(1)]])
  have b1: "books f1" by (rule books_quiet [OF s(1) q])
  have m1: "map_of (gTimers (kGroup f1)) i = Some t1" using q by (simp add: moved_def store_same update_conv)
  have s2: "books f2" "places f2 = places f1" unfolding f2_def
    by (rule books_store [OF b1 m1]; simp add: t2_def t1_def)+
  have nx: "gNextID (kGroup f2) \<ge> gNextID (kGroup f)" using q by (simp add: f2_def store_same moved_def)
  obtain k where k: "k \<le> gNextID (kGroup f)" "i = timer_id k" using T(3) by blast
  have "\<not> used_id (kGroup f) (firing_id i (Suc (tFires t)))" using fresh_firing assms(2) k(2) by blast
  then have "firing_id i (Suc (tFires t)) \<notin># places f2"
    using assms(1) s(2) s2(2) quiet_places [OF q] by (auto simp: books_def)
  moreover have "used_id (kGroup f2) (firing_id i (Suc (tFires t)))"
    unfolding used_id_def using k nx by (intro exI [of _ k]) (auto simp: f2_def store_same update_conv t2_def)
  ultimately have "books (deliverLocked now f2 (firing i d t))" for d
    using books_deliver [OF s2(1), of "firing i d t"] T by (simp add: firing_def)
  moreover have "books (upd_agent n (\<lambda>a. a\<lparr>aInbox := add_missed i d (aInbox a)\<rparr>) f1)" for n d
    by (rule books_quiet [OF b1 quiet_update_agent [OF books_filed [OF b1]]]) (simp_all add: holding_def requests_add_missed)
  ultimately show ?thesis
    by (simp add: fire_repeat_def Let_def f2_def f1_def t2_def t1_def store_timer_def)
qed

lemma books_timer_due:
  assumes "books f"
  shows "books (timer_due now f i)"
proof -
  have b: "books (disarm i f)" by (rule books_quiet [OF assms quiet_disarm [OF books_filed [OF assms]]])
  have "gTimers (kGroup (disarm i f)) = gTimers (kGroup f)" by (simp add: disarm_def)
  then have "books (fireTimerLocked now (disarm i f) i t)" if "map_of (gTimers (kGroup f)) i = Some t" for t
    using that books_fire_once [OF b] books_fire_repeat [OF b] books_settles [OF b settles_delete_timer [OF books_filed [OF b]]]
    by (auto simp: fireTimerLocked_def)
  with assms b show ?thesis by (auto simp: timer_due_def Let_def split: option.split)
qed

subsection \<open>Admission\<close>

lemma new_agent_props:
  assumes "new_agent g token instructions caller s = Inr a"
  shows "aName a = sName s \<and> holding a = [] \<and> aParent a = caller \<and> aCurrent a = None"
  using assms by (auto simp: new_agent_def Let_def holding_def split: if_splits option.splits)

lemma check_admit_props:
  assumes "check_admit g token instructions caller s = Inr a"
  shows "aName a = sName s \<and> holding a = [] \<and> aParent a = caller \<and> map_of (gAgents g) (sName s) = None \<and>
    int (length (gAgents g)) < gMaxAgents g"
  using assms new_agent_props
  by (fastforce simp: check_admit_def and_then_eq_Inr holding_def split: if_splits)

lemma settles_add_agent:
  assumes "filed f" "map_of (gAgents (kGroup f)) (aName a) = None" "holding a = []"
    and "gAgents (kGroup f') = (aName a, a) # gAgents (kGroup f)" "gTimers (kGroup f') = gTimers (kGroup f)"
    and "gCheckRuns (kGroup f') = gCheckRuns (kGroup f)" "gNextID (kGroup f') = gNextID (kGroup f)" "kLog f' = kLog f"
  shows "settles f f' {#} {#}"
  using assms
  by (auto simp: settles_def filed_def held_def answers_def asked_def log_messages_def elsewhere_def pending_def
      map_of_eq_None_iff)

lemma books_admit:
  assumes "books f"
  shows "books (fst (admit now file token saved f caller args))"
proof (cases "and_then (check_start file caller args) (\<lambda>instructions.
             and_then (groupLocked f) (\<lambda>g. check_admit g token instructions caller (the args)))")
  case (Inl e)
  with assms show ?thesis by (simp add: admit_def)
next
  case (Inr a)
  then obtain instructions where c: "check_admit (kGroup f) token instructions caller (the args) = Inr a"
    by (auto simp: and_then_eq_Inr groupLocked_def split: if_splits)
  note C = check_admit_props [OF c]
  define own where "own = (case sBudget (the args) of None \<Rightarrow> None | Some b \<Rightarrow> if budget_zero b then None else Some b)"
  define f1 where "f1 = (case own of None \<Rightarrow> f | Some b \<Rightarrow> fst (newBudgetLocked now f (aName a) caller b))"
  define a1 where "a1 = (case own of None \<Rightarrow> a | Some b \<Rightarrow>
    a\<lparr>aOwnBudget := snd (newBudgetLocked now f (aName a) caller b),
      aBudgets := aBudgets a @ [snd (newBudgetLocked now f (aName a) caller b)]\<rparr>)"
  have q: "quiet f f1"
    using quiet_new_budget [OF books_filed [OF assms]] books_filed [OF assms] by (auto simp: f1_def split: option.split)
  have b1: "books f1" by (rule books_quiet [OF assms q])
  have a1: "aName a1 = aName a" "holding a1 = []"
    using C by (auto simp: a1_def holding_def split: option.splits)
  have g: "gAgents (kGroup f1) = gAgents (kGroup f)"
    by (auto simp: f1_def newBudgetLocked_def Let_def bump_id_def upd_group_def split: option.split)
  have e: "fst (admit now file token saved f caller args) =
     (if saved then (upd_group (\<lambda>g. g\<lparr>gAgents := (aName a, a1) # gAgents g\<rparr>) f1)\<lparr>kStarting := insert (aName a) (kStarting f1)\<rparr>
      else (dropUnusedBudgetsLocked f1)\<lparr>kStarting := kStarting f1 - {aName a}\<rparr>)"
    by (auto simp: admit_def Inr f1_def a1_def own_def Let_def case_prod_beta split: option.split)
  have "books ((upd_group (\<lambda>g. g\<lparr>gAgents := (aName a, a1) # gAgents g\<rparr>) f1)\<lparr>kStarting := x\<rparr>)" for x
    by (rule books_settles [OF b1 settles_add_agent [of _ a1]])
       (use b1 C a1 g in \<open>auto simp: upd_group_def books_filed\<close>)
  moreover have "books ((dropUnusedBudgetsLocked f1)\<lparr>kStarting := x\<rparr>)" for x
    by (rule books_quiet [OF b1 then_quiet [OF quiet_drop_budgets [OF books_filed [OF b1]]]]) (auto intro: quiet_same)
  ultimately show ?thesis by (simp add: e)
qed

subsection \<open>Checks\<close>

lemma books_RegisterCheck: "books f \<Longrightarrow> books (fst (RegisterCheck now ok file sha dir pinned f caller args))"
proof -
  assume b: "books f"
  have 1: "quiet f (upd_group (\<lambda>g. g\<lparr>gCheckLast := h g, gChecks := k g\<rparr>) f)" for h k
    by (rule quiet_same [OF books_filed [OF b]]) (simp_all add: upd_group_def)
  have "quiet f (eventLocked now (upd_group (\<lambda>g. g\<lparr>gCheckLast := h g, gChecks := k g\<rparr>) f) ((event ''check_registered'' c)\<lparr>eText := x\<rparr>))" for h k c x
    using 1 by (rule then_quiet) (rule quiet_event, simp_all add: event_def)
  from books_quiet [OF b this] b show ?thesis
    by (auto simp: RegisterCheck_def Let_def split: sum.split)
qed

lemma books_add_run:
  assumes "books f" "i = check_id (Suc (gNextID (kGroup f)))"
    and "f' = upd_group (\<lambda>g. g\<lparr>gCheckRuns := AList.update i r (gCheckRuns g)\<rparr>) (bump_id f)"
  shows "books f'"
proof -
  note F = books_bump_fresh [OF assms(1)]
  have "i \<notin># places f" using F(5) assms(2) by simp
  then have n: "map_of (gCheckRuns (kGroup f)) i = None" by (auto simp: places_def elsewhere_def map_of_eq_None_iff)
  have s: "gTimers (kGroup f') = gTimers (kGroup f)" "gNextID (kGroup f') = Suc (gNextID (kGroup f))"
    "gCheckRuns (kGroup f') = gCheckRuns (kGroup f) @ [(i, r)]" "gAgents (kGroup f') = gAgents (kGroup f)" "kLog f' = kLog f"
    by (simp_all add: assms(3) bump_id_def upd_group_def update_new [OF n])
  have "filed f'" using books_filed [OF assms(1)] n by (simp add: filed_def s map_of_eq_None_iff)
  moreover have "places f' \<subseteq># add_mset i (places f)"
    by (simp add: places_def elsewhere_def pending_def held_def answers_def log_messages_def s)
  moreover have "used_id (kGroup f') j" if "used_id (kGroup f) j" for j
    using that by (rule used_id_mono) (use books_filed [OF assms(1)] in \<open>auto simp: s filed_def\<close>)
  moreover have "\<not> used_id (kGroup f) i" "used_id (kGroup f') i"
    using fresh_ids(2) by (auto simp: assms(2) used_id_def s)
  moreover have "\<forall>j \<in> fst ` set (gTimers (kGroup f')). \<exists>k \<le> gNextID (kGroup f'). j = timer_id k"
    using assms(1) by (auto simp: s books_def intro: le_SucI)
  moreover have "asked f' \<subseteq># held f' + answers f'"
    using assms(1) by (simp add: books_def held_def answers_def asked_def log_messages_def s)
  ultimately show ?thesis using books_new [OF assms(1)] by blast
qed

text \<open>Dropping a run, with or without an answer for it.\<close>

lemma run_ids_delete:
  "distinct (map fst rs) \<Longrightarrow> map_of rs i = Some r \<Longrightarrow> mset (map fst (AList.delete i rs)) + {#i#} = mset (map fst rs)"
  using pending_delete [of rs i r "\<lambda>_. True"] by (simp add: case_prod_beta)

lemma settles_delete_run:
  assumes "filed f" "map_of (gCheckRuns (kGroup f)) i = r"
  shows "settles f (upd_group (\<lambda>g. g\<lparr>gCheckRuns := AList.delete i (gCheckRuns g)\<rparr>) f) {#} {#}"
    and "r \<noteq> None \<Longrightarrow> elsewhere f = elsewhere (upd_group (\<lambda>g. g\<lparr>gCheckRuns := AList.delete i (gCheckRuns g)\<rparr>) f) + {#i#}"
proof -
  let ?f = "upd_group (\<lambda>g. g\<lparr>gCheckRuns := AList.delete i (gCheckRuns g)\<rparr>) f"
  have d: "distinct (map fst (gCheckRuns (kGroup f)))" using assms(1) by (simp add: filed_def)
  show e: "elsewhere f = elsewhere ?f + {#i#}" if "r \<noteq> None"
    using run_ids_delete [OF d, of i] that assms(2)
    by (auto simp: elsewhere_def upd_group_def answers_def log_messages_def pending_def)
  have "elsewhere ?f \<subseteq># elsewhere f"
  proof (cases "r = None")
    case True
    with assms(2) have "AList.delete i (gCheckRuns (kGroup f)) = gCheckRuns (kGroup f)"
      by (simp add: delete_idem map_of_eq_None_iff)
    then show ?thesis by (simp add: upd_group_def elsewhere_def answers_def log_messages_def pending_def)
  next
    case False
    from e [OF this] show ?thesis by simp
  qed
  moreover have "filed ?f"
    using assms(1) by (auto simp: filed_def upd_group_def distinct_delete)
  ultimately show "settles f ?f {#} {#}"
    by (simp add: settles_def) (simp add: upd_group_def held_def asked_def answers_def log_messages_def)
qed

end
