(* ===== verification/FleetOnce.thy ===== *)
theory FleetOnce
  imports FleetSteps
begin

text \<open>
  The kernel's step relation, and its guarantee: every request that reached an agent is in exactly one
  place, an agent's hands or one answer in the log, whatever the order of sends, turns, failures,
  deaths, stops, timers, steers, interrupts, checks and restarts.
\<close>

subsection \<open>Results of checks\<close>

lemma books_finish_check:
  assumes "books f"
  shows "books (finishCheckLocked now number f i r)"
proof -
  define r1 where "r1 = r\<lparr>rsOutput := boundCheckOutput (rsOutput r)\<rparr>"
  define f1 where "f1 = upd_group (\<lambda>g. g\<lparr>gCheckRuns := AList.delete i (gCheckRuns g)\<rparr>) f"
  define f2 where "f2 = eventLocked now f1 ((event ''check_result'' (rsRequester r1))\<lparr>eCheck := Some r1\<rparr>)"
  define f3 where "f3 = (case map_of (gChecks (kGroup f2)) (rsName r1) of
                  Some c \<Rightarrow> if cSHA256 c = rsSHA256 r1
                    then upd_group (\<lambda>g. g\<lparr>gCheckLast := AList.update (rsName r1) r1 (gCheckLast g)\<rparr>) f2 else f2
                | None \<Rightarrow> f2)"
  note S = settles_delete_run [OF books_filed [OF assms] refl, of i, folded f1_def]
  have "filed f1" using S(1) by (simp add: settles_def)
  then have 2: "quiet f1 f2" unfolding f2_def by (rule quiet_event) (simp add: event_def)
  have "quiet f2 f3"
    using moved_filed [OF 2] by (auto simp: f3_def upd_group_def intro: quiet_same split: option.split)
  with 2 have q: "quiet f1 f3" by (rule quiet_trans(1))
  have b3: "books f3" by (rule books_quiet [OF books_settles [OF assms S(1)] q])
  have "books (deliverLocked now f3 (message FleetResponse n p i x))"
    if "map_of (gCheckRuns (kGroup f)) i \<noteq> None" for n p x
  proof -
    have e: "elsewhere f = elsewhere f1 + {#i#}" by (rule S(2) [OF that])
    then have "i \<in># places f" by (simp add: places_def)
    then have "used_id (kGroup f) i" using assms by (simp add: books_def)
    then have "i \<noteq> []" by (rule used_id_not_Nil)
    then have "answers_in [message FleetResponse n p i x] = {#(i, p)#}" by (simp add: answers_in_def message_def)
    then have m: "moved f1 (deliverLocked now f3 (message FleetResponse n p i x)) {#} {#} {#(i, p)#} {#}"
      using quiet_trans(1) [OF q moved_response [OF moved_filed [OF q], of "message FleetResponse n p i x"]]
      by (simp add: message_def)
    let ?f = "deliverLocked now f3 (message FleetResponse n p i x)"
    have s1: "settles f1 ?f {#} {#(i, p)#}" by (rule moved_settles [OF m])
    have "answers f \<subseteq># answers f1" "answers f1 \<subseteq># answers f1 + {#(i, p)#}" "answers f1 + {#(i, p)#} \<subseteq># answers ?f"
      using S(1) s1 by (simp_all add: settles_def)
    then have "answers f \<subseteq># answers ?f" by (meson subset_mset.order_trans)
    moreover have "elsewhere ?f \<subseteq># elsewhere f" using s1 e by (simp add: settles_def)
    ultimately have "settles f ?f {#} {#}" using S(1) s1 by (auto simp: settles_def)
    then show ?thesis by (rule books_settles [OF assms])
  qed
  then show ?thesis using b3
    unfolding finishCheckLocked_def Let_def r1_def [symmetric] f1_def [symmetric] f2_def [symmetric] f3_def [symmetric]
    by (auto split: option.split)
qed

lemma books_run_check:
  assumes "books f"
  shows "books (fst (run_check now saved f requester name sha))"
proof -
  define i where "i = check_id (Suc (gNextID (kGroup f)))"
  have e: "books f1 \<Longrightarrow> books (eventLocked now f1 ((event ''check_started'' requester)\<lparr>eCheck := c\<rparr>))" for f1 c
    by (rule books_quiet [OF _ quiet_event]) (simp_all add: books_filed event_def)
  have d: "books f1 \<Longrightarrow> books (upd_group (\<lambda>g. g\<lparr>gCheckRuns := AList.delete i (gCheckRuns g)\<rparr>) f1)" for f1
    using books_settles [OF _ settles_delete_run(1) [OF books_filed refl]] by blast
  have "books (upd_group (\<lambda>g. g\<lparr>gCheckRuns := AList.update i r (gCheckRuns g)\<rparr>) (bump_id f))" for r
    by (rule books_add_run [OF assms i_def refl])
  with assms e d show ?thesis
    by (auto simp: run_check_def Let_def i_def [symmetric] split: sum.split)
qed

subsection \<open>Restart\<close>

lemma holding_reload: "requests (holding (reload_agent a)) = requests (holding a)"
proof -
  have r: "requests (map reload_message ms) = requests ms" for ms by (rule requests_map) (simp_all add: reload_message_def)
  let ?b = "a\<lparr>aInbox := map reload_message (aInbox a), aCurrent := map_option reload_message (aCurrent a),
      aSteered := map reload_message (aSteered a)\<rparr>"
  have "holding (reload_agent a) = holding (requeue_turn ?b)" by (simp add: reload_agent_def holding_def)
  then have "requests (holding (reload_agent a)) = requests (holding ?b)" by (simp only: holding_requeue)
  also have "\<dots> = requests (holding a)"
    by (cases "aCurrent a") (simp_all add: holding_def r, simp add: reload_message_def)
  finally show ?thesis .
qed

lemma quiet_reload: "filed f \<Longrightarrow> quiet f (reload f)"
  by (rule quiet_map_agents [of _ "\<lambda>k. reload_agent"])
     (simp_all add: reload_def Let_def holding_reload, simp add: reload_agent_def requeue_turn_def)

lemma quiet_Resume: "filed f \<Longrightarrow> quiet f (Resume now f)"
proof -
  assume f: "filed f"
  have 1: "quiet f (foldl (\<lambda>f (i, t). armTimerLocked now i t f) f ts)" for ts
    by (rule quiet_foldl [OF _ f]) (auto simp: armTimerLocked_def)
  have "quiet f (foldl (\<lambda>f (i, e). armExpectsLocked now i e f) (foldl (\<lambda>f (i, t). armTimerLocked now i t f) f ts) es)" for ts es
    using 1 by (rule then_quiet) (rule quiet_foldl, auto intro: quiet_arm_expects)
  with f show ?thesis by (auto simp: Resume_def Let_def)
qed

text \<open>\<open>OpenFleetKernel\<close> on saved state.\<close>

definition reopen :: "int \<Rightarrow> (real \<Rightarrow> string) \<Rightarrow> string list \<Rightarrow> fleet \<Rightarrow> fleet" where
  "reopen now number order f = reportInterruptedChecksLocked now number order (reload f)"

lemma books_reopen:
  assumes "books f"
  shows "books (reopen now number order f)"
proof -
  have "books f1 \<Longrightarrow> books (reportInterruptedChecksLocked now number order f1)" for f1
    unfolding reportInterruptedChecksLocked_def
  proof (induction order arbitrary: f1)
    case (Cons i order)
    then have "books (interrupted_run now number f1 i)"
      using books_finish_check by (auto simp: interrupted_run_def split: option.split)
    with Cons.IH show ?case by simp
  qed simp
  from this [OF books_quiet [OF assms quiet_reload [OF books_filed [OF assms]]]] show ?thesis
    by (simp add: reopen_def)
qed

subsection \<open>The kernel's steps\<close>

text \<open>What a map iteration visits: every key, once.\<close>

definition visits :: "string list \<Rightarrow> (string \<times> 'a) list \<Rightarrow> bool" where
  "visits order xs \<longleftrightarrow> distinct order \<and> set order = fst ` set xs"

inductive fleet_step :: "fleet \<Rightarrow> fleet \<Rightarrow> bool" where
  admit: "fleet_step f (fst (admit now file token saved f caller args))"
| launched: "agent_of f n = Some a \<Longrightarrow> n \<in> kStarting f \<Longrightarrow> fleet_step f (launch_ok now f a model)"
| launch_failed: "agent_of f n = Some a \<Longrightarrow> n \<in> kStarting f \<Longrightarrow> visits order (gTimers (kGroup f)) \<Longrightarrow>
    fleet_step f (launch_failed now order f a err tell)"
| reviving: "fleet_step f (revive_begin f n)"
| revived: "n \<in> kReviving f \<Longrightarrow> fleet_step f (revive_ok now f n briefed resume model deaths)"
| revive_failed: "n \<in> kReviving f \<Longrightarrow> fleet_step f (fst (revive_failed now f n err told))"
| take_turn: "agent_of f n = Some a \<Longrightarrow> aCurrent a = None \<Longrightarrow> map_of (kRunning f) n \<noteq> None \<Longrightarrow>
    fleet_step f (fst (take_turn now f n))"
| sent: "fleet_step f (after_send f n ok)"
| interrupted: "fleet_step f (interrupt_done f n r turn by_whom for_id ok)"
| end_turn: "agent_of f n = Some a \<Longrightarrow> aCurrent a = Some m \<Longrightarrow> map_of (kRunning f) n = Some rt \<Longrightarrow>
    rtInterrupting rt \<le> 0 \<or> kClosed f \<or> aStopped a \<Longrightarrow>
    fleet_step f (fst (end_turn now f n m raw err alive used u))"
| retiring: "fleet_step f (retire_begin f n)"
| retired: "agent_of f n = Some a \<Longrightarrow> aRetiring a \<Longrightarrow> visits order (gTimers (kGroup f)) \<Longrightarrow>
    fleet_step f (retire_finish now order f n cause deliberate)"
| stop: "fleet_step f (fst (Stop now f caller n))"
| set_budget: "fleet_step f (fst (SetBudget now g_text f caller target limits))"
| send: "fleet_step f (fst (send now f s))"
| cancel: "fleet_step f (fst (Cancel now f caller i))"
| timer: "fleet_step f (timer_due now f i)"
| expectation: "fleet_step f (expect_due now f i which)"
| expedite: "fleet_step f (fst (expedite_begin now stamp f caller i mode))"
| steered: "fleet_step f (steer_done now f n r turn i ok)"
| restored: "fleet_step f (fst (restoreSteered f n r turn i))"
| register_check: "fleet_step f (fst (RegisterCheck now repo_ok file sha dir pinned f caller cargs))"
| run_check: "fleet_step f (fst (run_check now saved f requester name commit))"
| check_done: "fleet_step f (check_done now number f i r)"
| close: "fleet_step f (Close f)"
| reopen: "visits order (gCheckRuns (kGroup f)) \<Longrightarrow> fleet_step f (reopen now number order f)"
| resume: "fleet_step f (Resume now f)"

lemma quiet_Close: "filed f \<Longrightarrow> quiet f (Close f)"
  by (rule quiet_same) (simp_all add: Close_def)

lemmas quiet_pieces = quiet_launch_ok quiet_revive_begin quiet_revive_ok quiet_revive_failed quiet_take_turn
  quiet_after_send quiet_interrupt_done quiet_retire_begin quiet_Stop quiet_SetBudget quiet_expect_due
  quiet_expedite_begin quiet_steer_done quiet_restore quiet_Close quiet_Resume

lemma books_step: "fleet_step f f' \<Longrightarrow> books f \<Longrightarrow> books f'"
proof (induction rule: fleet_step.induct)
  case (launch_failed f n a order now err tell)
  then have "aName a = n" using filed_name books_filed by blast
  with launch_failed show ?case using books_launch_failed by blast
next
  case (take_turn f n a now)
  then show ?case using quiet_take_turn [OF books_filed, of f n now] books_quiet by simp
next
  case (end_turn f n a m rt now raw err alive used u)
  then show ?case using books_end_turn [of f n m] by simp
next
  case (check_done f now number i r)
  then show ?case by (simp add: check_done_def books_finish_check)
qed (simp_all add: books_admit books_end_turn books_retire books_send books_Cancel books_timer_due
  books_RegisterCheck books_run_check books_reopen books_quiet [OF _ quiet_pieces(1)]
  books_quiet [OF _ quiet_pieces(2)] books_quiet [OF _ quiet_pieces(3)] books_quiet [OF _ quiet_pieces(4)]
  books_quiet [OF _ quiet_pieces(5)] books_quiet [OF _ quiet_pieces(6)] books_quiet [OF _ quiet_pieces(7)]
  books_quiet [OF _ quiet_pieces(8)] books_quiet [OF _ quiet_pieces(9)] books_quiet [OF _ quiet_pieces(10)]
  books_quiet [OF _ quiet_pieces(11)] books_quiet [OF _ quiet_pieces(12)] books_quiet [OF _ quiet_pieces(13)]
  books_quiet [OF _ quiet_pieces(14)] books_quiet [OF _ quiet_pieces(15)] books_quiet [OF _ quiet_pieces(16)] books_filed)

lemma books_new_fleet: "books (new_fleet opts)"
  by (simp add: books_def new_fleet_def filed_def places_def elsewhere_def pending_def held_def answers_def asked_def
      log_messages_def List.map_filter_def answers_in_def asked_in_def)

lemma books_reachable: "fleet_step\<^sup>*\<^sup>* (new_fleet opts) f \<Longrightarrow> books f"
  by (induction rule: rtranclp_induct) (auto intro: books_new_fleet books_step)

subsection \<open>Every request is answered once\<close>

definition answers_to :: "fleet \<Rightarrow> string \<Rightarrow> fleet_message list" where
  "answers_to f i = filter (\<lambda>r. mKind r = FleetResponse \<and> mInReplyTo r = i) (log_messages f)"

definition copies :: "fleet \<Rightarrow> string \<Rightarrow> fleet_message list" where
  "copies f i = filter (\<lambda>m. mKind m = FleetRequest \<and> mID m = i)
     (concat (map (\<lambda>(n, a). holding a) (gAgents (kGroup f))))"

lemma count_copies: "count (image_mset fst (held f)) i = length (copies f i)"
proof -
  have "count (image_mset fst (requests ms)) i = length (filter (\<lambda>m. mKind m = FleetRequest \<and> mID m = i) ms)" for ms
    by (induction ms) auto
  then show ?thesis by (simp add: held_def held_by_def copies_def)
qed

lemma count_answers: "i \<noteq> [] \<Longrightarrow> count (image_mset fst (answers f)) i = length (answers_to f i)"
proof -
  assume "i \<noteq> []"
  then have "count (image_mset fst (answers_in ms)) i = length (filter (\<lambda>r. mKind r = FleetResponse \<and> mInReplyTo r = i) ms)" for ms
    by (induction ms) (auto simp: answers_in_def)
  then show ?thesis by (simp add: answers_def answers_to_def)
qed

lemma books_once:
  assumes "books f" "m \<in> set (log_messages f)" "mKind m = FleetRequest" "mTo m \<noteq> FleetOwner"
  shows "length (answers_to f (mID m)) + length (copies f (mID m)) = 1"
    and "\<forall>r \<in> set (answers_to f (mID m)). mTo r = mFrom m"
proof -
  let ?d = "(mID m, mFrom m)" and ?h = "held f + answers f"
  note B = assms(1) [unfolded books_def]
  have "?d \<in># asked f" using assms(2-4) by (auto simp: asked_def asked_in_def requests_def)
  moreover have "asked f \<subseteq># ?h" using B by blast
  ultimately have "?d \<in># ?h" by (metis mset_subset_eqD)
  then obtain rest where r: "?h = add_mset ?d rest" by (blast dest: multi_member_split)
  have "image_mset fst ?h \<subseteq># places f" by (simp add: places_def elsewhere_def ac_simps)
  then have "count (image_mset fst ?h) (mID m) \<le> count (places f) (mID m)" by (rule mset_subset_eq_count)
  also have "\<dots> \<le> 1" using B by blast
  finally have le: "count (image_mset fst ?h) (mID m) \<le> 1" .
  have i: "mID m \<noteq> []"
  proof -
    have "mID m \<in># image_mset fst ?h" unfolding r by simp
    then have "mID m \<in># places f" by (auto simp: places_def elsewhere_def)
    then show ?thesis using B used_id_not_Nil by blast
  qed
  have eq: "count (image_mset fst ?h) (mID m) = length (answers_to f (mID m)) + length (copies f (mID m))"
    using count_copies count_answers [OF i] by simp
  then show "length (answers_to f (mID m)) + length (copies f (mID m)) = 1" using le r by simp
  have "count (image_mset fst rest) (mID m) = 0" using le unfolding r by simp
  then have only: "x = ?d" if "x \<in># ?h" "fst x = mID m" for x
    using that unfolding r by (force simp: count_eq_zero_iff)
  show "\<forall>r \<in> set (answers_to f (mID m)). mTo r = mFrom m"
  proof
    fix r assume "r \<in> set (answers_to f (mID m))"
    then have "(mInReplyTo r, mTo r) \<in># answers f" "mInReplyTo r = mID m"
      using i by (force simp: answers_to_def answers_def answers_in_def)+
    with only [of "(mInReplyTo r, mTo r)"] show "mTo r = mFrom m" by simp
  qed
qed

text \<open>A fleet with one agent and one request to it.\<close>

definition demo_args :: start_args where
  "demo_args = \<lparr>sName = ''a'', sInstructions = ''do'', sInstructionsFile = [], sWorkDir = ''/w'', sQuality = [], sPurpose = [],
    sModel = [], sBudget = None, sAuthority = [], sTools = Some [''send'']\<rparr>"

definition demo_agent :: fleet_agent where
  "demo_agent = \<lparr>aName = ''a'', aParent = FleetOwner, aRoot = ''a'', aInstructions = ''do'', aToken = ''tok'', aWorkDir = ''/w'', aQuality = [], aPurpose = [],
     aModel = [], aInbox = [], aCurrent = None, aSteered = [], aBriefed = False, aStopped = False, aCurrentSince = None, aLastTurnEnd = None, aBudgets = [], aOwnBudget = [], aAuthority = [], aTools = Some [''send''], aRetiring = False\<rparr>"

lemma demo_instructions: "\<not> blank ''do''" by code_simp

lemma demo_name: "agent_name_ok ''a''" by code_simp

lemma check_start_demo: "check_start (\<lambda>_. None) FleetOwner (Some demo_args) = Inr ''do''"
  by (simp add: check_start_def demo_args_def demo_instructions demo_name is_abs_def starts_with_def)

lemma check_admit_demo: "gAgents g = [] \<Longrightarrow> \<not> gClosing g \<Longrightarrow> gMaxAgents g = 12 \<Longrightarrow> check_admit g ''tok'' ''do'' FleetOwner demo_args = Inr demo_agent"
  by (simp add: check_admit_def new_agent_def demo_args_def demo_agent_def chooseTools_def may_give_def allFleetTools_def toolSet_def)

lemma admit_demo: "admit 0 (\<lambda>_. None) ''tok'' True (new_fleet None) FleetOwner (Some demo_args) =
   ((new_fleet None)\<lparr>kGroup := (kGroup (new_fleet None))\<lparr>gAgents := [(''a'', demo_agent)]\<rparr>, kStarting := {''a''}\<rparr>, Inr demo_agent)"
proof -
  have "groupLocked (new_fleet None) = Inr (kGroup (new_fleet None))" by (simp add: groupLocked_def new_fleet_def)
  moreover have "gAgents (kGroup (new_fleet None)) = []" "\<not> gClosing (kGroup (new_fleet None))" "gMaxAgents (kGroup (new_fleet None)) = 12" "kStarting (new_fleet None) = {}"
    by (simp_all add: new_fleet_def fleetDefaultMaxAgents_def)
  moreover have "sBudget demo_args = None" "aName demo_agent = ''a''" by (simp_all add: demo_args_def demo_agent_def)
  ultimately show ?thesis by (simp add: admit_def check_start_demo check_admit_demo upd_group_def)
qed

definition demo_send :: send_args where
  "demo_send = \<lparr>sdFrom = FleetOwner, sdTo = ''a'', sdKind = [], sdText = ''hi'', sdAfter = 0, sdAt = None, sdEvery = 0,
    sdAcceptWithin = 0, sdAnswerWithin = 0, sdMode = []\<rparr>"

lemma log_messages_event: "log_messages (eventLocked now f e) = log_messages f @ (case eMessage e of None \<Rightarrow> [] | Some m \<Rightarrow> [m])"
  by (simp add: log_messages_def eventLocked_def Let_def List.map_filter_def split: option.split)

lemma log_messages_agents: "log_messages (upd_agent n h f) = log_messages f"
  by (simp add: log_messages_def upd_agent_def upd_group_def)

lemma delivered_is_logged:
  assumes "mID m \<noteq> []" "reaches f (mTo m)"
  shows "\<exists>m' \<in> set (log_messages (deliverLocked now f m)). mKind m' = mKind m \<and> mTo m' = mTo m \<and> mID m' = mID m"
proof -
  obtain f1 m1 where l: "logged now f m = (f1, m1)" by fastforce
  then have "m1 \<in> set (log_messages f1)" "mKind m1 = mKind m" "mTo m1 = mTo m" "mID m1 = mID m" "reaches f1 = reaches f"
    using assms(1) by (auto simp: logged_def Let_def log_messages_event message_event_def reaches_def fun_eq_iff split: if_splits)
  then show ?thesis using assms(2) l
    by (subst deliverLocked.simps) (auto simp: drop_in_def log_messages_agents)
qed

definition demo_fleet :: fleet where
  "demo_fleet = fst (admit 0 (\<lambda>_. None) ''tok'' True (new_fleet None) FleetOwner (Some demo_args))"

lemma demo_fleet_eq: "demo_fleet = (new_fleet None)\<lparr>kGroup := (kGroup (new_fleet None))\<lparr>gAgents := [(''a'', demo_agent)]\<rparr>, kStarting := {''a''}\<rparr>"
  by (simp add: demo_fleet_def admit_demo)

lemma demo_request_logged:
  "\<exists>m \<in> set (log_messages (fst (send 1 demo_fleet demo_send))). mKind m = FleetRequest \<and> mTo m \<noteq> FleetOwner"
proof -
  have n: "''a'' \<noteq> FleetOwner" by (simp add: FleetOwner_def)
  have c: "check_send (kGroup demo_fleet) demo_send = Inr ()" "groupLocked demo_fleet = Inr (kGroup demo_fleet)"
    using n by (auto simp: demo_fleet_eq new_fleet_def check_send_def check_expectations_def demo_send_def send_kind_def scheduled_def
        fleetDefaultMaxMessages_def groupLocked_def)
  have d: "\<not> scheduled demo_send" "sdAcceptWithin demo_send = 0" "sdAnswerWithin demo_send = 0"
    by (simp_all add: demo_send_def scheduled_def)
  define f where "f = bump_id (upd_group (\<lambda>g. g\<lparr>gSent := gSent g + 1\<rparr>) demo_fleet)"
  have r: "reaches f ''a''" by (simp add: f_def reaches_def agent_of_def bump_id_def upd_group_def demo_fleet_eq demo_agent_def)
  have "fst (send 1 demo_fleet demo_send) = deliverLocked 1 f ((sent_message demo_send)\<lparr>mID := request_id (Suc (gNextID (kGroup demo_fleet)))\<rparr>)"
    using d by (simp add: send_def c send_now_def nextIDLocked_def Let_def expectLocked_def f_def upd_group_def)
  with delivered_is_logged [of "(sent_message demo_send)\<lparr>mID := request_id (Suc (gNextID (kGroup demo_fleet)))\<rparr>" f 1] r n
  show ?thesis by (auto simp: sent_message_def message_def demo_send_def send_kind_def)
qed

lemma demo_reachable: "fleet_step\<^sup>*\<^sup>* (new_fleet None) (fst (send 1 demo_fleet demo_send))"
  unfolding demo_fleet_def using fleet_step.admit fleet_step.send by (meson converse_rtranclp_into_rtranclp rtranclp.rtrancl_refl)

text \<open>C1. The fleet's promise. From the moment a request is delivered to an agent, whatever else
  happens, it is in exactly one place: it waits in some agent's hands and the log holds no answer to
  it, or no agent holds it and the log holds exactly one response to it; and a response to it goes to
  whoever sent it. This survives the agent's death, a failed start, a stop, a steer or an interrupt,
  and a restart of the kernel.\<close>

theorem every_request_is_answered_once:
  assumes "fleet_step\<^sup>*\<^sup>* (new_fleet opts) f"
    and "m \<in> set (log_messages f)" "mKind m = FleetRequest" "mTo m \<noteq> FleetOwner"
  shows "length (answers_to f (mID m)) + length (copies f (mID m)) = 1 \<and>
    (\<forall>r \<in> set (answers_to f (mID m)). mTo r = mFrom m)"
  using books_once [OF books_reachable [OF assms(1)] assms(2-4)] by blast

theorem every_request_is_answered_once_witness:
  "\<exists>m. m \<in> set (log_messages (fst (send 1 demo_fleet demo_send))) \<and> mKind m = FleetRequest \<and> mTo m \<noteq> FleetOwner \<and>
    length (answers_to (fst (send 1 demo_fleet demo_send)) (mID m)) + length (copies (fst (send 1 demo_fleet demo_send)) (mID m)) = 1"
  using demo_request_logged every_request_is_answered_once [OF demo_reachable] by meson

end
