(* ===== verification/FleetFrame.thy ===== *)
theory FleetFrame
  imports FleetOnce
begin

text \<open>
  What the kernel's pieces leave alone. \<open>kernel_frame\<close> is the contract of a relation between fleets that
  holds when nothing but bookkeeping changed, when an event was logged, and along sequences of such
  pieces; every piece that neither admits nor removes an agent is then in it. It is interpreted for
  the roster (the agents, their creators, tools and grants) and for the log.
\<close>

subsection \<open>The roster\<close>

text \<open>What no piece changes of an agent, but for its creator when that retires.\<close>

definition standing :: "fleet_agent \<Rightarrow> string \<times> string \<times> string \<times> string slice \<times> string" where
  "standing a = (aName a, aParent a, aAuthority a, aTools a, aToken a)"

definition roster :: "fleet \<Rightarrow> int \<times> (string \<times> string \<times> string \<times> string \<times> string slice \<times> string) list" where
  "roster f = (gMaxAgents (kGroup f), map (\<lambda>(n, a). (n, standing a)) (gAgents (kGroup f)))"

lemma roster_same:
  "gAgents (kGroup f') = gAgents (kGroup f) \<Longrightarrow> gMaxAgents (kGroup f') = gMaxAgents (kGroup f) \<Longrightarrow> roster f' = roster f"
  by (simp add: roster_def)

lemma roster_upd_agent: "(\<And>a. standing (h a) = standing a) \<Longrightarrow> roster (upd_agent n h f) = roster f"
proof -
  assume "\<And>a. standing (h a) = standing a"
  then have "map (\<lambda>(n, a). (n, standing a)) (AList.map_entry n h as) = map (\<lambda>(n, a). (n, standing a)) as" for as
    by (induction as) auto
  then show ?thesis by (simp add: roster_def upd_agent_def upd_group_def)
qed

lemma roster_map_agents:
  assumes "gAgents (kGroup f') = map (\<lambda>(n, a). (n, h n a)) (gAgents (kGroup f))" "\<And>n a. standing (h n a) = standing a"
    and "gMaxAgents (kGroup f') = gMaxAgents (kGroup f)"
  shows "roster f' = roster f"
  using assms by (simp add: roster_def case_prod_beta comp_def)

subsection \<open>The contract\<close>

locale kernel_frame =
  fixes R :: "fleet \<Rightarrow> fleet \<Rightarrow> bool"
  assumes same: "kLog f' = kLog f \<Longrightarrow> roster f' = roster f \<Longrightarrow> R f f'"
    and event: "R f (eventLocked now f e)"
    and reload: "R f (reload f)"
    and frame_trans: "R f f1 \<Longrightarrow> R f1 f2 \<Longrightarrow> R f f2"
begin

lemma frame_refl [intro, simp]: "R f f"
  by (rule same) simp_all

lemma then_event: "R f f1 \<Longrightarrow> R f (eventLocked now f1 e)"
  by (rule frame_trans [OF _ event])

lemma then_same: "R f f1 \<Longrightarrow> kLog f2 = kLog f1 \<Longrightarrow> roster f2 = roster f1 \<Longrightarrow> R f f2"
  by (rule frame_trans [OF _ same])

lemma same_agents:
  "kLog f' = kLog f \<Longrightarrow> gAgents (kGroup f') = gAgents (kGroup f) \<Longrightarrow> gMaxAgents (kGroup f') = gMaxAgents (kGroup f) \<Longrightarrow> R f f'"
  by (rule same [OF _ roster_same])

lemma agent: "(\<And>a. standing (h a) = standing a) \<Longrightarrow> R f (upd_agent n h f)"
  by (rule same) (simp_all add: roster_upd_agent, simp add: upd_agent_def upd_group_def)

lemma foldl: "(\<And>f x. R f (step f x)) \<Longrightarrow> R f (foldl step f xs)"
  by (induction xs arbitrary: f) (auto intro: frame_trans)

lemma budget: "R f (upd_budget i h f)"
  by (rule same_agents) (simp_all add: upd_budget_def upd_group_def)

lemma runtime: "R f (upd_runtime n h f)"
  by (rule same_agents) (simp_all add: upd_runtime_def)

lemma disarm: "R f (disarm k f)"
  by (rule same_agents) (simp_all add: disarm_def)

lemma arm: "R f (arm now k d f)"
  by (rule same_agents) (simp_all add: arm_def)

lemma answered: "R f (answeredLocked f i)"
  by (rule same_agents) (simp_all add: answeredLocked_def disarm_def upd_group_def)

lemma accepted: "R f (acceptedLocked now f i)"
  by (rule same_agents) (simp_all add: acceptedLocked_def disarm_def upd_group_def split: option.split)

lemma bump: "R f (bump_id f)"
  by (rule same_agents) (simp_all add: bump_id_def upd_group_def)

lemma logged: "R f (fst (logged now f m))"
proof -
  define f1 where "f1 = (if mID m = [] then bump_id f else f)"
  define f2 where "f2 = (if mKind m = FleetResponse \<and> mInReplyTo m \<noteq> [] then answeredLocked f1 (mInReplyTo m) else f1)"
  have 1: "R f f1" using bump by (simp add: f1_def)
  have 2: "R f f2" using 1 frame_trans [OF 1 answered] by (simp add: f2_def)
  have "fst (FleetMail.logged now f m) = eventLocked now f2 (message_event (snd (FleetMail.logged now f m)))"
    by (simp add: logged_def Let_def nextIDLocked_def f2_def f1_def)
  with then_event [OF 2] show ?thesis by simp
qed

lemma deliver: "R f (deliverLocked now f m)"
proof (induction now f m rule: deliverLocked.induct)
  case (1 now f m)
  obtain f1 m1 where l: "FleetMail.logged now f m = (f1, m1)" by fastforce
  have f1: "R f f1" using logged [of f now m] l by simp
  have "R f (drop_in m1 f1)"
    unfolding drop_in_def by (rule frame_trans [OF f1 agent]) (simp add: standing_def)
  moreover have "mTo m1 \<noteq> FleetOwner \<Longrightarrow> \<not> reaches f1 (mTo m1) \<Longrightarrow> mKind m = FleetRequest \<Longrightarrow>
      R f (deliverLocked now f1 (message FleetResponse (mTo m1) (mFrom m1) (mID m1) (''agent '' @ mTo m1 @ '' is gone'')))"
    using 1 [OF l [symmetric] refl] frame_trans [OF f1] by blast
  ultimately show ?case using f1 by (subst deliverLocked.simps) (simp add: l)
qed

lemma then_deliver: "R f f1 \<Longrightarrow> R f (deliverLocked now f1 m)"
  by (rule frame_trans [OF _ deliver])

lemma blocked: "R f (fst (blockedLocked now f a))"
proof -
  have "R f (fst (blocked_by now f is))" for "is"
    by (induction "is") (auto intro: then_deliver budget split: option.split)
  then show ?thesis by (simp add: blockedLocked_def)
qed

lemma charge_turn: "R f (chargeTurnLocked f a)"
  unfolding chargeTurnLocked_def by (rule foldl) (rule budget)

lemma charge_tokens: "R f (charge_tokens_of f a used u)"
  unfolding charge_tokens_of_def chargeTokensLocked_def by (rule foldl) (rule budget)

lemma arm_expects: "R f (armExpectsLocked now i e f)"
  by (rule same_agents) (simp_all add: armExpectsLocked_def arm_def Let_def split: option.split)

lemma expect: "R f (expectLocked now f m x y)"
  by (rule same_agents)
     (simp_all add: expectLocked_def armExpectsLocked_def arm_def upd_group_def Let_def split: option.split)

lemma drop_budgets: "R f (dropUnusedBudgetsLocked f)"
  by (rule same_agents) (simp_all add: dropUnusedBudgetsLocked_def upd_group_def)

lemma drop_expects: "R f (dropExpectsOfLocked f n)"
  unfolding dropExpectsOfLocked_def by (rule foldl) (rule answered)

lemma pass_on: "R f (upd_group (\<lambda>g. passOnCreationsLocked g n h) f)"
  by (rule same_agents) (simp_all add: passOnCreationsLocked_def upd_group_def)

lemma drop_timer: "R f (dropTimerLocked f i)"
  by (rule same_agents) (simp_all add: dropTimerLocked_def disarm_def upd_group_def)

lemma drop_timers: "R f (dropTimersOfLocked now order f n x)"
  unfolding dropTimersOfLocked_def
  by (rule foldl) (auto simp: drop_timer_of_def Let_def intro: drop_timer then_deliver split: option.split)

lemma answer_owed: "R f (fst (answerOwedLocked now f a x))"
  unfolding answerOwedLocked_def fst_conv by (rule foldl) (auto simp: answer_one_def intro: deliver)

lemma run: "R f (runLocked now f a model d)"
  unfolding runLocked_def by (rule then_event) (rule same_agents, simp_all)

end

subsection \<open>The larger pieces\<close>

context kernel_frame
begin

lemma launch_ok: "R f (launch_ok now f a model)"
proof -
  have "R f (f\<lparr>kStarting := x\<rparr>)" for x by (rule same_agents) simp_all
  then have "R f (runLocked now (f\<lparr>kStarting := x\<rparr>) a model 0)" for x by (rule frame_trans [OF _ run])
  then show ?thesis by (simp add: launch_ok_def)
qed

lemma revive_begin: "R f (revive_begin f n)"
  by (rule same_agents) (simp_all add: revive_begin_def)

lemma revive_ok: "R f (revive_ok now f n briefed resume model deaths)"
proof -
  have 1: "R f (f\<lparr>kReviving := x\<rparr>)" for x by (rule same_agents) simp_all
  have "R f (upd_agent n (\<lambda>b. b\<lparr>aBriefed := False\<rparr>) (f\<lparr>kReviving := x\<rparr>))" for x
    by (rule frame_trans [OF 1 agent]) (simp add: standing_def)
  from then_deliver [OF this] 1 show ?thesis
    by (auto simp: revive_ok_def Let_def intro: frame_trans [OF _ run] split: option.split)
qed

lemma revive_failed: "R f (fst (revive_failed now f n err told))"
  by (auto simp: revive_failed_def intro: deliver split: option.split)

lemma take_turn: "R f (fst (take_turn now f n))"
proof (cases "\<exists>a m rest. agent_of f n = Some a \<and> \<not> kClosed f \<and> \<not> aStopped a \<and> aInbox a = m # rest")
  case False
  then have "fst (take_turn now f n) = f"
    by (auto simp: take_turn_def split: option.splits list.splits)
  then show ?thesis by simp
next
  case True
  then obtain a m rest where a: "agent_of f n = Some a" "\<not> kClosed f" "\<not> aStopped a" "aInbox a = m # rest" by blast
  obtain f1 blocked where b: "(if mCharged m then (f, False) else blockedLocked now f a) = (f1, blocked)" by fastforce
  have 1: "R f f1" using b blocked [of f now a] by (auto split: if_splits)
  let ?f2 = "acceptedLocked now (upd_runtime n begin_turn f1) (mID m)"
  have "R f ?f2" using 1 runtime accepted frame_trans by meson
  then have 3: "R f (upd_agent n (set_current now m rest) ?f2)"
    by (rule frame_trans [OF _ agent]) (simp add: set_current_def standing_def)
  have "fst (take_turn now f n) = (if blocked then f1 else if mCharged m then upd_agent n (set_current now m rest) ?f2
      else chargeTurnLocked (upd_agent n (set_current now m rest) ?f2) a)"
    using a b by (simp add: take_turn_def Let_def split: prod.splits if_splits)
  with 1 3 frame_trans [OF 3 charge_turn] show ?thesis by simp
qed

lemma after_send: "R f (after_send f n ok)"
  unfolding after_send_def by (rule runtime)

lemma interrupt_done: "R f (interrupt_done f n r turn by_whom for_id ok)"
  unfolding interrupt_done_def by (rule runtime)

lemma route: "R f (routeReplyLocked now a body f m)"
  by (auto simp: routeReplyLocked_def Let_def intro: deliver)

lemma fail_turn: "R f (fail_turn now f a m err)"
  unfolding fail_turn_def Let_def answer_requests_def
  by (rule frame_trans [OF _ foldl]) (auto intro: deliver)

lemma reply_turn: "R f (reply_turn now f a rt m reply i err)"
  unfolding reply_turn_def Let_def answer_requests_def
  by (rule frame_trans [OF frame_trans [OF runtime route] foldl]) (rule route)

lemma end_turn: "R f (fst (end_turn now f n m raw err alive used u))"
proof -
  have note_turn: "R f (note_turn now f n a reply x used u)" for a reply x
    unfolding note_turn_def
    by (rule frame_trans [OF frame_trans [OF event charge_tokens] agent]) (simp add: standing_def)
  have death: "R f1 (fst (turn_death f1 n rt e))" for f1 rt e
  proof -
    have "R f1 (upd_agent n requeue_turn (upd_runtime n h f1))" for h
      by (rule frame_trans [OF runtime agent]) (simp add: requeue_turn_def standing_def)
    then have "R f1 ((upd_agent n requeue_turn (upd_runtime n h f1))\<lparr>kRunning := x\<rparr>)" for h x
      by (rule frame_trans [OF _ same_agents]) simp_all
    then show ?thesis using runtime by (simp add: turn_death_def Let_def)
  qed
  have finish: "R f (upd_agent n finish_agent (note_turn now f n a reply x used u))" for a reply x
    by (rule frame_trans [OF note_turn agent]) (simp add: finish_agent_def standing_def)
  show ?thesis
    using note_turn frame_trans [OF note_turn death] frame_trans [OF finish fail_turn] frame_trans [OF finish reply_turn] charge_tokens
    by (simp add: end_turn_def Let_def split: option.split)
qed

lemma retire_begin: "R f (retire_begin f n)"
  by (auto simp: retire_begin_def standing_def intro!: agent split: option.split)

lemma Stop: "R f (fst (Stop now f caller n))"
  by (auto simp: Stop_def standing_def intro!: then_event agent split: sum.split)

lemma new_budget: "R f (fst (newBudgetLocked now f h s l))"
  by (rule same_agents) (simp_all add: newBudgetLocked_def Let_def bump_id_def upd_group_def)

lemma SetBudget: "R f (fst (SetBudget now gt f caller target limits))"
proof -
  have "R f1 (upd_group (\<lambda>g. spread_budget g n i) f1)" for f1 n i
  proof (rule same)
    show "roster (upd_group (\<lambda>g. spread_budget g n i) f1) = roster f1"
      by (rule roster_map_agents [of _ "\<lambda>k a. let a1 = (if k = n then join_budget i (a\<lparr>aOwnBudget := i\<rparr>) else a)
             in if fleetDescends (kGroup f1) (aName a1) n then join_budget i a1 else a1"])
         (simp_all add: upd_group_def spread_budget_def join_budget_def standing_def Let_def)
  qed (simp add: upd_group_def)
  from frame_trans [OF new_budget this] budget show ?thesis
    by (auto simp: SetBudget_def Let_def case_prod_beta intro!: then_event split: sum.split option.split)
qed

lemma send: "R f (fst (send now f s))"
proof -
  have 0: "R f (upd_group (\<lambda>g. g\<lparr>gSent := gSent g + 1\<rparr>) f)" by (rule same_agents) (simp_all add: upd_group_def)
  have 1: "R f1 (fst (send_now now f1 s))" for f1
    unfolding send_now_def Let_def nextIDLocked_def prod.case fst_conv
    by (rule then_deliver) (rule frame_trans [OF bump expect])
  have 2: "R f1 (fst (send_later now f1 s))" for f1
    by (rule same_agents) (simp_all add: send_later_def Let_def nextTimerIDLocked_def armTimerLocked_def arm_def bump_id_def upd_group_def)
  show ?thesis
    using frame_trans [OF 0 1] frame_trans [OF 0 2] by (auto simp: send_def Let_def case_prod_beta split: sum.split)
qed

lemma Cancel: "R f (fst (Cancel now f caller i))"
  using then_event [OF drop_timer] by (auto simp: Cancel_def split: sum.split)

lemma timer_due: "R f (timer_due now f i)"
proof -
  have st: "R f1 (upd_group (\<lambda>g. g\<lparr>gTimers := h g\<rparr>) f1)" for f1 h by (rule same_agents) (simp_all add: upd_group_def)
  have del: "R f1 (delete_timer i f1)" for f1 unfolding delete_timer_def by (rule st)
  have "R f1 (fire_repeat now f1 i t)" for f1 t
  proof -
    define t1 where "t1 = t\<lparr>tAt := next_due now t\<rparr>"
    define f2 where "f2 = armTimerLocked now i t1 (upd_group (\<lambda>g. g\<lparr>gTimers := AList.update i t1 (gTimers g)\<rparr>) f1)"
    have 2: "R f1 f2" unfolding f2_def armTimerLocked_def by (rule frame_trans [OF st arm])
    have "R f1 (upd_agent n (\<lambda>a. a\<lparr>aInbox := h a\<rparr>) f2)" for n h
      by (rule frame_trans [OF 2 agent]) (simp add: standing_def)
    with then_deliver [OF frame_trans [OF 2 st]] show ?thesis
      by (simp add: fire_repeat_def Let_def t1_def f2_def)
  qed
  then have "R f1 (fireTimerLocked now f1 i t)" for f1 t
    using del then_deliver [OF del] by (simp add: fireTimerLocked_def)
  from frame_trans [OF disarm this] show ?thesis
    using disarm by (auto simp: timer_due_def Let_def split: option.split)
qed

lemma expect_due: "R f (expect_due now f i which)"
proof -
  have x: "R f1 (upd_group (\<lambda>g. g\<lparr>gExpects := h g\<rparr>) f1)" for f1 h by (rule same_agents) (simp_all add: upd_group_def)
  have w: "R f1 (fst (whereLocked now f1 i e))" for f1 e
    by (auto simp: whereLocked_def where_queued_def Let_def case_prod_beta intro: blocked split: option.split)
  have "R f1 (fst (whereLocked now (upd_group (\<lambda>g. g\<lparr>gExpects := h g\<rparr>) f1) i e))" for f1 h e
    by (rule frame_trans [OF x w])
  then have "R f1 (expectMissedLocked now f1 i e which)" for f1 e
    unfolding expectMissedLocked_def Let_def case_prod_beta
    using frame_trans [OF _ x] by (intro then_deliver) simp
  from frame_trans [OF disarm this] show ?thesis
    using disarm by (auto simp: expect_due_def Let_def split: option.split)
qed

lemma expedite_begin: "R f (fst (expedite_begin now stamp f caller i mode))"
proof -
  have w: "R f f1" if "find_waiting f caller i mode = Inr (f1, n, k, rc)" for f1 n k rc
  proof -
    have "R f (upd_agent n (reclaim j) f)" for n j by (rule agent) (simp add: reclaim_def standing_def)
    with that show ?thesis by (auto simp: find_waiting_def Let_def split: option.splits prod.splits if_splits)
  qed
  have front: "R f1 (upd_agent n (to_front k) f1)" for f1 n k by (rule agent) (simp add: to_front_def standing_def)
  have out: "R f1 (upd_agent n steer_out f1)" for f1 n by (rule agent) (simp add: steer_out_def standing_def)
  have "R f1 (upd_agent n steer_out (fst (blockedLocked now f1 a)))" for f1 n a by (rule frame_trans [OF blocked out])
  then have rest: "R f (upd_agent n (to_front k) f1)" "R f (upd_runtime n h (upd_agent n (to_front k) f1))"
    "R f (fst (blockedLocked now (upd_agent n (to_front k) f1) a))"
    "R f (upd_agent n steer_out (fst (blockedLocked now (upd_agent n (to_front k) f1) a)))"
    if "find_waiting f caller i mode = Inr (f1, n, k, rc)" for f1 n k rc h a
    using w [OF that] front runtime blocked frame_trans by meson+
  show ?thesis
  proof (cases "\<exists>f1 n k rc. groupLocked f = Inr (kGroup f) \<and> find_waiting f caller i mode = Inr (f1, n, k, rc)")
    case False
    then have "fst (expedite_begin now stamp f caller i mode) = f"
      by (auto simp: expedite_begin_def groupLocked_def and_then_def split: sum.splits)
    then show ?thesis by simp
  next
    case True
    then obtain f1 n k rc where f1: "groupLocked f = Inr (kGroup f)" "find_waiting f caller i mode = Inr (f1, n, k, rc)" by blast
    show ?thesis
      using rest [OF f1(2)] by (simp add: expedite_begin_def f1 Let_def case_prod_beta split: option.split)
  qed
qed

lemma steer_done: "R f (steer_done now f n r turn i ok)"
proof -
  have 1: "R f (upd_agent n (clear_steering i) f)" by (rule agent) (simp add: clear_steering_def standing_def Let_def)
  have "R f1 (upd_agent n (steer_in j) f1)" "R f1 (upd_agent n (steer_back j) f1)" for f1 j
    by (rule agent; simp add: steer_in_def steer_back_def standing_def)+
  with 1 accepted charge_turn have "R f (upd_agent n (steer_in j) (acceptedLocked now (upd_agent n (clear_steering i) f) i))"
    "R f (chargeTurnLocked (upd_agent n (steer_in j) (acceptedLocked now (upd_agent n (clear_steering i) f) i)) a)"
    "R f (upd_agent n (steer_back j) (upd_agent n (clear_steering i) f))" for j a
    using frame_trans by meson+
  with 1 show ?thesis by (simp add: steer_done_def Let_def split: option.split)
qed

lemma restore: "R f (fst (restoreSteered f n r turn i))"
  by (auto simp: restoreSteered_def steer_again_def standing_def intro!: agent split: option.split)

lemma RegisterCheck: "R f (fst (RegisterCheck now ok file sha dir pinned f caller args))"
proof -
  have "R f (upd_group (\<lambda>g. g\<lparr>gCheckLast := h g, gChecks := k g\<rparr>) f)" for h k
    by (rule same_agents) (simp_all add: upd_group_def)
  from then_event [OF this] show ?thesis by (auto simp: RegisterCheck_def Let_def split: sum.split)
qed

lemma check_runs: "R f (upd_group (\<lambda>g. g\<lparr>gCheckRuns := h g\<rparr>) f)"
  by (rule same_agents) (simp_all add: upd_group_def)

lemma run_check: "R f (fst (run_check now saved f requester name sha))"
  using then_event [OF frame_trans [OF bump check_runs]] frame_trans [OF then_event [OF frame_trans [OF bump check_runs]] check_runs]
  by (auto simp: run_check_def Let_def split: sum.split)

lemma finish_check: "R f (finishCheckLocked now number f i r)"
proof -
  have "R f1 (upd_group (\<lambda>g. g\<lparr>gCheckLast := h g\<rparr>) f1)" for f1 h
    by (rule same_agents) (simp_all add: upd_group_def)
  note last = this and two = then_event [OF check_runs]
  define r1 where "r1 = r\<lparr>rsOutput := boundCheckOutput (rsOutput r)\<rparr>"
  define f2 where "f2 = eventLocked now (upd_group (\<lambda>g. g\<lparr>gCheckRuns := AList.delete i (gCheckRuns g)\<rparr>) f)
    ((event ''check_result'' (rsRequester r1))\<lparr>eCheck := Some r1\<rparr>)"
  define f3 where "f3 = (case map_of (gChecks (kGroup f2)) (rsName r1) of
                  Some c \<Rightarrow> if cSHA256 c = rsSHA256 r1
                    then upd_group (\<lambda>g. g\<lparr>gCheckLast := AList.update (rsName r1) r1 (gCheckLast g)\<rparr>) f2 else f2
                | None \<Rightarrow> f2)"
  have "R f f3" using two frame_trans [OF two last] by (auto simp: f3_def f2_def split: option.split)
  then show ?thesis
    unfolding finishCheckLocked_def Let_def r1_def [symmetric] f2_def [symmetric] f3_def [symmetric]
    by (auto intro: then_deliver split: option.split)
qed

lemma reopen: "R f (reopen now number order f)"
  unfolding reopen_def reportInterruptedChecksLocked_def
  by (rule frame_trans [OF reload foldl]) (auto simp: interrupted_run_def intro: finish_check split: option.split)

lemma Resume: "R f (Resume now f)"
proof -
  have "R f (foldl (\<lambda>f (i, t). armTimerLocked now i t f) f ts)" for ts
    by (rule foldl) (auto simp: armTimerLocked_def intro: arm)
  then have "R f (foldl (\<lambda>f (i, e). armExpectsLocked now i e f) (foldl (\<lambda>f (i, t). armTimerLocked now i t f) f ts) es)" for ts es
    by (rule frame_trans [OF _ foldl]) (auto intro: arm_expects)
  then show ?thesis by (simp add: Resume_def Let_def)
qed

lemma Close: "R f (Close f)"
  by (rule same_agents) (simp_all add: Close_def)

text \<open>Every step is in the frame, unless it admits an agent or removes one.\<close>

lemma frame_step:
  assumes "fleet_step f f'"
  shows "R f f' \<or>
    (\<exists>now file token saved caller args. f' = fst (admit now file token saved f caller args)) \<or>
    (\<exists>n a now order err tell. agent_of f n = Some a \<and> f' = launch_failed now order f a err tell) \<or>
    (\<exists>now order n cause deliberate. f' = retire_finish now order f n cause deliberate)"
  using assms
proof cases
  case check_done
  then show ?thesis using finish_check by (auto simp: check_done_def)
next
  case admit
  then show ?thesis by blast
next
  case launch_failed
  then show ?thesis by blast
next
  case retired
  then show ?thesis by blast
qed (simp_all add: launch_ok revive_begin revive_ok revive_failed take_turn after_send interrupt_done end_turn retire_begin Stop
  SetBudget send Cancel timer_due expect_due expedite_begin steer_done restore RegisterCheck run_check Close reopen Resume)

end

end
