(* ===== verification/FleetRoster.thy ===== *)
theory FleetRoster
  imports FleetFrame
begin

text \<open>
  Who is in a fleet and what each agent may do (src/fleet.go, src/fleet_tools.go): authority is descent
  from whoever created an agent, an agent is never given a tool its creator lacks, and a fleet never
  has more agents than its limit.
\<close>

subsection \<open>Descent\<close>

text \<open>An agent and its creator.\<close>

definition created_by :: "(string \<times> fleet_agent) list \<Rightarrow> (string \<times> string) set" where
  "created_by agents = {(n, p). map_option aParent (map_of agents n) = Some p}"

lemma created_by_alist: "created_by agents \<subseteq> (\<lambda>(n, a). (n, aParent a)) ` set agents"
  by (auto simp: created_by_def image_iff dest: map_of_SomeD)

lemma finite_created_by: "finite (created_by agents)"
  by (rule finite_subset [OF created_by_alist]) simp

lemma card_created_by: "card (created_by agents) \<le> length agents"
proof -
  have "card (created_by agents) \<le> card ((\<lambda>(n, a). (n, aParent a)) ` set agents)"
    by (rule card_mono [OF _ created_by_alist]) simp
  also have "\<dots> \<le> length agents" by (metis card_image_le card_length le_trans List.finite_set)
  finally show ?thesis .
qed

lemma descends_walk_iff:
  "descends_walk fuel agents n ancestor \<longleftrightarrow> (\<exists>j<fuel. (n, ancestor) \<in> created_by agents ^^ Suc j)"
proof (induction fuel arbitrary: n)
  case (Suc fuel)
  have step: "(n, ancestor) \<in> created_by agents ^^ Suc j \<longleftrightarrow>
      (\<exists>a. map_of agents n = Some a \<and> (aParent a, ancestor) \<in> created_by agents ^^ j)" for j
    by (simp only: relpow_commute [symmetric] relpow.simps) (auto simp: created_by_def relcomp_unfold)
  show ?case
  proof (cases "map_of agents n")
    case None
    then show ?thesis by (simp add: step del: relpow.simps)
  next
    case (Some a)
    have "(\<exists>j<Suc fuel. (aParent a, ancestor) \<in> created_by agents ^^ j) \<longleftrightarrow>
        aParent a = ancestor \<or> (\<exists>j<fuel. (aParent a, ancestor) \<in> created_by agents ^^ Suc j)"
      unfolding Ex_less_Suc2 by (simp del: relpow.simps(2))
    with Some Suc.IH show ?thesis by (simp add: step del: relpow.simps)
  qed
qed simp

text \<open>C28. An agent may act on another when it is the owner, that agent itself, a holder of the grant
  over all agents, or one of the creators up the chain above it: the bounded walk of the code finds an
  ancestor exactly when the chain of creators reaches one, however long the chain is and even if it
  runs in a circle.\<close>

theorem authority_is_descent:
  "authorized g actor subject \<longleftrightarrow>
     actor = FleetOwner \<or> actor = subject \<or>
     (\<exists>a. map_of (gAgents g) actor = Some a \<and> aAuthority a = FleetAuthorityAll) \<or>
     (subject, actor) \<in> (created_by (gAgents g))\<^sup>+"
proof -
  let ?R = "created_by (gAgents g)"
  have "?R\<^sup>+ = (\<Union>n\<in>{n. 0 < n \<and> n \<le> card ?R}. ?R ^^ n)" by (rule trancl_finite_eq_relpow [OF finite_created_by])
  then have "fleetDescends g subject actor" if "(subject, actor) \<in> ?R\<^sup>+"
    using that card_created_by [of "gAgents g"] unfolding fleetDescends_def descends_walk_iff
    by (clarsimp simp del: relpow.simps) (metis Suc_pred le_imp_less_Suc le_trans less_SucI Suc_le_lessD)
  moreover have "(subject, actor) \<in> ?R\<^sup>+" if "fleetDescends g subject actor"
    using that unfolding fleetDescends_def descends_walk_iff by (metis relpow_imp_rtrancl trancl_power zero_less_Suc)
  ultimately show ?thesis by (auto simp: authorized_def split: option.split)
qed

subsection \<open>How the roster changes\<close>

definition keeps_roster :: "fleet \<Rightarrow> fleet \<Rightarrow> bool" where
  "keeps_roster f f' \<longleftrightarrow> roster f' = roster f"

interpretation same_roster: kernel_frame keeps_roster
proof
  fix f show "keeps_roster f (reload f)"
    unfolding keeps_roster_def
    by (rule roster_map_agents [where h = "\<lambda>n. reload_agent"])
       (simp_all add: reload_def Let_def, simp add: reload_agent_def requeue_turn_def standing_def)
qed (auto intro!: roster_same simp: keeps_roster_def eventLocked_def Let_def)

lemmas roster_frame = same_roster.deliver same_roster.answer_owed same_roster.event same_roster.drop_budgets
  same_roster.pass_on same_roster.drop_expects same_roster.drop_timers same_roster.new_budget

lemmas roster_kept [simp] = roster_frame [unfolded keeps_roster_def]

lemma roster_agent: "roster f' = roster f \<Longrightarrow> map_option standing (agent_of f' n) = map_option standing (agent_of f n)"
proof -
  assume "roster f' = roster f"
  then have "map_of (map (\<lambda>(n, a). (n, standing a)) (gAgents (kGroup f'))) n = map_of (map (\<lambda>(n, a). (n, standing a)) (gAgents (kGroup f))) n"
    by (simp add: roster_def)
  then show ?thesis by (simp add: map_of_map agent_of_def)
qed

lemma roster_agent_Some:
  assumes "roster f' = roster f" "agent_of f' n = Some a'"
  obtains a where "agent_of f n = Some a" "aParent a = aParent a'" "aTools a = aTools a'" "aAuthority a = aAuthority a'"
    "aToken a = aToken a'"
  using roster_agent [OF assms(1), of n] assms(2) that by (cases "agent_of f n") (auto simp: standing_def)

lemma roster_limits:
  assumes "roster f' = roster f"
  shows "gMaxAgents (kGroup f') = gMaxAgents (kGroup f)" "length (gAgents (kGroup f')) = length (gAgents (kGroup f))"
  using assms by (simp_all add: roster_def) (metis length_map)

lemma roster_launch_failed:
  "roster (launch_failed now order f a err tell) = roster f \<or>
   roster (launch_failed now order f a err tell) = roster (remove_agent (aName a) f)"
proof (cases "kClosed f")
  case False
  define f1 where "f1 = remove_agent (aName a) (f\<lparr>kStarting := kStarting f - {aName a}\<rparr>)"
  have f1: "roster f1 = roster (remove_agent (aName a) f)" by (rule roster_same) (simp_all add: f1_def remove_agent_def upd_group_def)
  from False show ?thesis
    unfolding launch_failed_def Let_def f1_def [symmetric]
    by (simp add: case_prod_beta f1)
qed (simp add: launch_failed_def)

lemma roster_retire:
  "roster (retire_finish now order f n cause d) = roster f \<or>
   roster (retire_finish now order f n cause d) = roster (orphan_children n (remove_agent n f))"
proof (cases "agent_of f n = None \<or> kClosed f")
  case False
  then obtain a where a: "agent_of f n = Some a" "\<not> kClosed f" by auto
  define f1 where "f1 = orphan_children n ((remove_agent n f)\<lparr>kRunning := AList.delete n (kRunning f), kReviving := kReviving f - {n}\<rparr>)"
  have f1: "roster f1 = roster (orphan_children n (remove_agent n f))"
    by (rule roster_same) (simp_all add: f1_def orphan_children_def remove_agent_def upd_group_def)
  from a show ?thesis
    unfolding retire_finish_def Let_def f1_def [symmetric]
    by (simp add: case_prod_beta f1)
qed (auto simp: retire_finish_def split: option.split)

text \<open>What \<open>admit\<close> adds.\<close>

definition admissible :: "fleet_group \<Rightarrow> string \<Rightarrow> fleet_agent \<Rightarrow> bool" where
  "admissible g n a \<longleftrightarrow> map_of (gAgents g) n = None \<and> int (length (gAgents g)) < gMaxAgents g \<and>
     set (toolSet (aTools a)) \<subseteq> set (may_give g (aParent a)) \<and>
     (aParent a = FleetOwner \<or> aAuthority a = [] \<and> map_of (gAgents g) (aParent a) \<noteq> None)"

lemma choose_from_subset: "choose_from may chosen ts = Inr out \<Longrightarrow> set chosen \<subseteq> set may \<Longrightarrow> set out \<subseteq> set may"
  by (induction may chosen ts rule: choose_from.induct) (auto split: if_splits)

lemma check_admit_admissible:
  assumes "check_admit g token instructions caller s = Inr a" "check_start file caller (Some s) = Inr instructions"
  shows "admissible g (aName a) a"
proof -
  obtain b tools where b: "new_agent g token instructions caller s = Inr b" "chooseTools (sTools s) (may_give g caller) = Inr tools"
    "a = b\<lparr>aTools := Some tools\<rparr>" "map_of (gAgents g) (sName s) = None" "int (length (gAgents g)) < gMaxAgents g"
    using assms(1) by (auto simp: check_admit_def and_then_def split: if_splits sum.splits)
  have p: "aName b = sName s" "aParent b = caller" "aAuthority b = sAuthority s"
    "caller = FleetOwner \<or> map_of (gAgents g) caller \<noteq> None"
    using b(1) by (auto simp: new_agent_def Let_def split: if_splits option.splits)
  have "set tools \<subseteq> set (may_give g caller)"
    using b(2) choose_from_subset by (fastforce simp: chooseTools_def split: option.splits)
  moreover have "sAuthority s = [] \<or> caller = FleetOwner"
    using assms(2) by (auto simp: check_start_def and_then_def split: if_splits sum.splits option.splits)
  ultimately show ?thesis using b p by (auto simp: admissible_def toolSet_def)
qed

lemma roster_admit:
  "roster (fst (admit now file token saved f caller args)) = roster f \<or>
   (\<exists>a. admissible (kGroup f) (aName a) a \<and>
     roster (fst (admit now file token saved f caller args)) = roster (upd_group (\<lambda>g. g\<lparr>gAgents := (aName a, a) # gAgents g\<rparr>) f))"
proof (cases "and_then (check_start file caller args) (\<lambda>instructions.
             and_then (groupLocked f) (\<lambda>g. check_admit g token instructions caller (the args)))")
  case (Inr a)
  then obtain s where s: "args = Some s" by (cases args) (auto simp: check_start_def and_then_def)
  have ok: "admissible (kGroup f) (aName a) a"
    using Inr s check_admit_admissible by (auto simp: and_then_def groupLocked_def split: sum.splits if_splits)
  define nb where "nb b = newBudgetLocked now f (aName a) caller b" for b
  obtain f1 a1 where p: "(case sBudget s of None \<Rightarrow> (f, a) | Some b \<Rightarrow> if budget_zero b then (f, a)
      else let (f', i) = nb b in (f', a\<lparr>aOwnBudget := i, aBudgets := aBudgets a @ [i]\<rparr>)) = (f1, a1)" by fastforce
  have r1: "roster f1 = roster f"
    using p by (auto simp: nb_def case_prod_beta Let_def split: option.splits if_splits)
  have a1: "standing a1 = standing a" using p by (auto simp: case_prod_beta Let_def standing_def split: option.splits if_splits)
  have e: "fst (admit now file token saved f caller args) =
      (if saved then (upd_group (\<lambda>g. g\<lparr>gAgents := (aName a, a1) # gAgents g\<rparr>) f1)\<lparr>kStarting := insert (aName a) (kStarting f1)\<rparr>
       else (dropUnusedBudgetsLocked f1)\<lparr>kStarting := kStarting f1 - {aName a}\<rparr>)"
    using Inr s p [unfolded nb_def] by (simp add: admit_def)
  have "roster ((dropUnusedBudgetsLocked f1)\<lparr>kStarting := x\<rparr>) = roster f" for x
    using r1 roster_kept(4) [of f1] by (simp add: roster_def)
  moreover have "roster ((upd_group (\<lambda>g. g\<lparr>gAgents := (aName a, a1) # gAgents g\<rparr>) f1)\<lparr>kStarting := x\<rparr>) =
      roster (upd_group (\<lambda>g. g\<lparr>gAgents := (aName a, a) # gAgents g\<rparr>) f)" for x
    using r1 a1 by (simp add: roster_def upd_group_def)
  ultimately show ?thesis using ok e by auto
qed (simp add: admit_def)

text \<open>Every step leaves the roster alone, adds an admissible agent, or removes one.\<close>

lemma roster_step:
  assumes "fleet_step f f'"
  obtains (same) "roster f' = roster f"
    | (new) a where "admissible (kGroup f) (aName a) a"
        "roster f' = roster (upd_group (\<lambda>g. g\<lparr>gAgents := (aName a, a) # gAgents g\<rparr>) f)"
    | (gone) n where "roster f' = roster (remove_agent n f)"
    | (retired) n where "roster f' = roster (orphan_children n (remove_agent n f))"
proof -
  from same_roster.frame_step [OF assms] consider "keeps_roster f f'"
    | now fl token saved caller args where "f' = fst (admit now fl token saved f caller args)"
    | a now order err tell where "f' = launch_failed now order f a err tell"
    | now order n cause deliberate where "f' = retire_finish now order f n cause deliberate"
    by blast
  then show thesis
  proof cases
    case 1
    then show thesis using same by (simp add: keeps_roster_def)
  next
    case 2
    then show thesis using same new roster_admit by blast
  next
    case 3
    then show thesis using same gone roster_launch_failed by blast
  next
    case 4
    then show thesis using same retired roster_retire by blast
  qed
qed

subsection \<open>The limit on agents\<close>

lemma length_remove: "length (gAgents (kGroup (remove_agent n f))) \<le> length (gAgents (kGroup f))"
  by (simp add: remove_agent_def upd_group_def length_delete_le)

text \<open>However agents start, fail to start, die, are stopped and come back, a fleet never has more
  agents than the limit it was opened with.\<close>

lemma agents_within_limit:
  assumes "fleet_step\<^sup>*\<^sup>* (new_fleet opts) f"
  shows "int (length (gAgents (kGroup f))) \<le> gMaxAgents (kGroup f) \<and>
    gMaxAgents (kGroup f) = gMaxAgents (kGroup (new_fleet opts))"
  using assms
proof (induction rule: rtranclp_induct)
  case base
  show ?case by (auto simp: new_fleet_def fleetDefaultMaxAgents_def split: option.split)
next
  case (step f f')
  have rm: "gMaxAgents (kGroup (remove_agent n f)) = gMaxAgents (kGroup f)" for n by (simp add: remove_agent_def upd_group_def)
  from step.hyps(2) show ?case
  proof (cases rule: roster_step)
    case same
    then show ?thesis using roster_limits [OF same] step.IH by simp
  next
    case (new a)
    then show ?thesis using roster_limits [OF new(2)] step.IH by (simp add: admissible_def upd_group_def)
  next
    case (gone n)
    then show ?thesis using roster_limits [OF gone] step.IH length_remove [of n f] rm [of n] by linarith
  next
    case (retired n)
    have "gMaxAgents (kGroup (orphan_children n (remove_agent n f))) = gMaxAgents (kGroup f)"
      "length (gAgents (kGroup (orphan_children n (remove_agent n f)))) = length (gAgents (kGroup (remove_agent n f)))"
      by (simp_all add: orphan_children_def upd_group_def remove_agent_def)
    then show ?thesis using roster_limits [OF retired] step.IH length_remove [of n f] by linarith
  qed
qed

theorem agents_within_limit_witness:
  "fleet_step\<^sup>*\<^sup>* (new_fleet None) (fst (send 1 demo_fleet demo_send)) \<and>
   int (length (gAgents (kGroup (fst (send 1 demo_fleet demo_send))))) \<le> gMaxAgents (kGroup (fst (send 1 demo_fleet demo_send)))"
  using agents_within_limit [OF demo_reachable] demo_reachable by blast

subsection \<open>Tools\<close>

lemma agent_of_remove: "agent_of (remove_agent n f) k = (if k = n then None else agent_of f k)"
  by (simp add: agent_of_def remove_agent_def upd_group_def delete_conv')

lemma agent_of_orphans: "agent_of (orphan_children n f) k = map_option (orphan n) (agent_of f k)"
  by (simp add: agent_of_def orphan_children_def upd_group_def map_of_map)

lemma orphan_grants: "aTools (orphan n a) = aTools a" "aAuthority (orphan n a) = aAuthority a" "aToken (orphan n a) = aToken a"
  by (simp_all add: orphan_def)

text \<open>C6. Tools and grants are settled when an agent is admitted, and only narrow down the tree: in any
  step an agent keeps the tools, the authority and the token it had, or it is new, and then it holds no
  tool that its creator could not give (all of them for the owner, its own for an agent), its creator
  is the owner or an agent of the fleet, and only the owner can have granted it authority over
  all.\<close>

theorem tools_only_narrow:
  assumes "fleet_step f f'" "agent_of f' n = Some a'"
  shows "(\<exists>a. agent_of f n = Some a \<and> aTools a = aTools a' \<and> aAuthority a = aAuthority a' \<and> aToken a = aToken a') \<or>
    (agent_of f n = None \<and> set (toolSet (aTools a')) \<subseteq> set (may_give (kGroup f) (aParent a')) \<and>
     (aParent a' = FleetOwner \<or> aAuthority a' = [] \<and> agent_of f (aParent a') \<noteq> None))"
  using assms(1)
proof (cases rule: roster_step)
  case same
  from roster_agent_Some [OF same assms(2)] show ?thesis by metis
next
  case (new b)
  obtain a where a: "agent_of (upd_group (\<lambda>g. g\<lparr>gAgents := (aName b, b) # gAgents g\<rparr>) f) n = Some a" "aParent a = aParent a'"
    "aTools a = aTools a'" "aAuthority a = aAuthority a'" "aToken a = aToken a'"
    by (rule roster_agent_Some [OF new(2) assms(2)])
  show ?thesis
  proof (cases "n = aName b")
    case True
    then have "b = a" using a(1) by (simp add: agent_of_def upd_group_def)
    with new(1) a True show ?thesis by (simp add: admissible_def agent_of_def)
  next
    case False
    then have "agent_of f n = Some a" using a(1) by (simp add: agent_of_def upd_group_def)
    with a show ?thesis by blast
  qed
next
  case (gone k)
  from roster_agent_Some [OF gone assms(2)] show ?thesis by (metis agent_of_remove option.distinct(1))
next
  case (retired k)
  obtain a where a: "agent_of (orphan_children k (remove_agent k f)) n = Some a" "aTools a = aTools a'" "aAuthority a = aAuthority a'"
    "aToken a = aToken a'"
    by (rule roster_agent_Some [OF retired assms(2)])
  then obtain b where "agent_of f n = Some b" "a = orphan k b" by (auto simp: agent_of_orphans agent_of_remove split: if_splits)
  with a show ?thesis by (auto simp: orphan_grants)
qed

theorem tools_only_narrow_witness:
  "fleet_step (new_fleet None) demo_fleet \<and> agent_of demo_fleet ''a'' = Some demo_agent \<and>
   set (toolSet (aTools demo_agent)) \<subseteq> set (may_give (kGroup (new_fleet None)) (aParent demo_agent))"
proof -
  have "fleet_step (new_fleet None) demo_fleet" unfolding demo_fleet_def by (rule fleet_step.admit)
  moreover have "agent_of demo_fleet ''a'' = Some demo_agent" "agent_of (new_fleet None) ''a'' = None"
    by (simp_all add: demo_fleet_eq agent_of_def, simp add: new_fleet_def)
  ultimately show ?thesis using tools_only_narrow [of "new_fleet None" demo_fleet "''a''" demo_agent] by simp
qed


subsection \<open>Acting on others\<close>

lemma find_waiting_authorized:
  "find_waiting f caller i mode = Inr (f1, n, k, rc) \<Longrightarrow> authorized (kGroup f) caller n"
  by (auto simp: find_waiting_def Let_def split: option.splits prod.splits if_splits)

lemma check_send_authorized:
  assumes "check_send g s = Inr u"
  shows "sdEvery s \<le> 0 \<and> sdMode s = [] \<or> authorized g (sdFrom s) (sdTo s)"
proof -
  have e: "check_expectations g s = Inr u" "sdEvery s > 0 \<Longrightarrow> authorized g (sdFrom s) (sdTo s)"
    using assms by (simp_all add: check_send_def split: if_split_asm)
  have "authorized g (sdFrom s) (sdTo s)" if "sdMode s \<noteq> []"
    using e(1) that by (simp add: check_expectations_def split: if_split_asm)
  with e(2) show ?thesis by linarith
qed

lemma expedite_authorized:
  "case expedite_begin now stamp f caller i mode of
      (f', Inl e) \<Rightarrow> f' = f
    | (f', Inr _) \<Rightarrow> (\<exists>n. authorized (kGroup f) caller n \<and>
        (queuedLocked (kGroup f) i \<noteq> None \<and> fst (the (queuedLocked (kGroup f) i)) = n \<or>
         mode = FleetExpediteInterrupt \<and> steeredLocked (kGroup f) i \<noteq> None \<and> fst (the (steeredLocked (kGroup f) i)) = n))"
proof (cases "find_waiting f caller i mode")
  case (Inl e)
  then show ?thesis by (auto simp: expedite_begin_def and_then_def groupLocked_def)
next
  case (Inr r)
  obtain f1 n k rc where r: "r = (f1, n, k, rc)" by (cases r)
  have "authorized (kGroup f) caller n" by (rule find_waiting_authorized [OF Inr [unfolded r]])
  moreover have "queuedLocked (kGroup f) i \<noteq> None \<and> fst (the (queuedLocked (kGroup f) i)) = n \<or>
       mode = FleetExpediteInterrupt \<and> steeredLocked (kGroup f) i \<noteq> None \<and> fst (the (steeredLocked (kGroup f) i)) = n"
    using Inr r by (auto simp: find_waiting_def Let_def split: option.splits prod.splits if_splits)
  moreover have "fst (expedite_begin now stamp f caller i mode) = f \<or> (\<exists>x. snd (expedite_begin now stamp f caller i mode) = Inr x)"
  proof (cases "kClosed f \<or> mode \<noteq> FleetExpediteSteer \<and> mode \<noteq> FleetExpediteInterrupt")
    case True
    then show ?thesis by (auto simp: expedite_begin_def groupLocked_def)
  next
    case False
    with Inr show ?thesis by (simp add: r expedite_begin_def groupLocked_def Let_def case_prod_beta split: option.split)
  qed
  ultimately show ?thesis by (auto simp: case_prod_beta split: sum.split)
qed


end
