(* ===== verification/FleetLog.thy ===== *)
theory FleetLog
  imports FleetFrame "HOL-Library.Sublist"
begin

text \<open>
  A fleet's event log (src/fleet_log.go, and \<open>Read\<close> of src/fleet.go): the file of JSON lines, what a
  kernel that opens it finds after a crash, and how a client that was away catches up from the tail in
  memory or from the file. \<open>encoding/json\<close> is a parameter: \<open>decode\<close> is \<open>json.Unmarshal\<close> of a line, and
  \<open>raw\<close> the length of \<open>json.Marshal\<close>'s output, \<open>None\<close> when it fails. An error of the file system itself
  is not modelled.
\<close>

subsection \<open>The file\<close>

definition newline :: char where "newline = CHR ''\<newline>''"

text \<open>\<open>ReadBytes\<close> up to a newline; \<open>None\<close> is the end of the file, where a partial line is left.\<close>

definition read_line :: "string \<Rightarrow> (string \<times> string) option" where
  "read_line s =
     (case dropWhile (\<lambda>c. c \<noteq> newline) s of
        [] \<Rightarrow> None
      | c # rest \<Rightarrow> Some (takeWhile (\<lambda>c. c \<noteq> newline) s @ [c], rest))"

lemma read_line_shorter: "read_line s = Some (line, rest) \<Longrightarrow> length rest < length s"
  by (auto simp: read_line_def split: list.splits) (metis length_dropWhile_le length_Cons Suc_le_lessD)

text \<open>\<open>scanFleetLog\<close>: what \<open>visit\<close> made of the events, and the offset of the damage that ended the
  scan.\<close>

function scanFleetLog ::
  "(string \<Rightarrow> 'e option) \<Rightarrow> ('a \<Rightarrow> 'e \<Rightarrow> nat \<Rightarrow> 'a \<times> bool) \<Rightarrow> nat \<Rightarrow> 'a \<Rightarrow> string \<Rightarrow> 'a \<times> nat option" where
  "scanFleetLog decode visit off acc s =
     (case read_line s of
        None \<Rightarrow> (acc, None)
      | Some (line, rest) \<Rightarrow>
          let off1 = off + length line
          in case decode line of
               None \<Rightarrow> (acc, Some off1)
             | Some e \<Rightarrow>
                 let (acc', more) = visit acc e off1
                 in if more then scanFleetLog decode visit off1 acc' rest else (acc', None))"
  by pat_completeness auto
termination
  by (relation "measure (\<lambda>(d, v, off, a, s). length s)") (auto dest: read_line_shorter)

declare scanFleetLog.simps [simp del]

text \<open>\<open>openLogLocked\<close>: the log, its file, and how much of that is whole.\<close>

record opened_log =
  oSeq :: nat
  oRecent :: "fleet_event list"
  oGood :: nat

definition load_event :: "opened_log \<Rightarrow> fleet_event \<Rightarrow> nat \<Rightarrow> opened_log \<times> bool" where
  "load_event l e fin =
     (let recent = oRecent l @ [e]
      in (l\<lparr>oSeq := eSeq e, oGood := fin,
            oRecent := (if length recent > fleetEventRing then tl recent else recent)\<rparr>, True))"

definition openLogLocked :: "(string \<Rightarrow> fleet_event option) \<Rightarrow> string \<Rightarrow> nat + opened_log \<times> string" where
  "openLogLocked decode file =
     (case scanFleetLog decode load_event 0 \<lparr>oSeq = 0, oRecent = [], oGood = 0\<rparr> file of
        (l, Some damage) \<Rightarrow> Inl damage
      | (l, None) \<Rightarrow> Inr (l, take (oGood l) file))"

subsection \<open>Reading\<close>

record event_batch =
  btEvents :: "fleet_event list"
  btSize :: nat

definition batch_take :: "(fleet_event \<Rightarrow> nat option) \<Rightarrow> event_batch \<Rightarrow> fleet_event \<Rightarrow> event_batch \<times> bool" where
  "batch_take raw b e =
     (case raw e of
        None \<Rightarrow> (b, True)
      | Some n \<Rightarrow>
          if btEvents b \<noteq> [] \<and> btSize b + n > fleetReadBytes then (b, False)
          else (b\<lparr>btEvents := btEvents b @ [e], btSize := btSize b + n\<rparr>, True))"

text \<open>The loop of both readers, over the events after \<open>seq\<close>.\<close>

fun take_after :: "(fleet_event \<Rightarrow> nat option) \<Rightarrow> nat \<Rightarrow> event_batch \<Rightarrow> fleet_event list \<Rightarrow> event_batch" where
  "take_after raw seq b [] = b"
| "take_after raw seq b (e # es) =
     (if eSeq e > seq then
        (let (b', more) = batch_take raw b e in if more then take_after raw seq b' es else b')
      else take_after raw seq b es)"

definition recentAfter :: "(fleet_event \<Rightarrow> nat option) \<Rightarrow> fleet_log \<Rightarrow> nat \<Rightarrow> fleet_event list option" where
  "recentAfter raw l seq =
     (if seq \<ge> lSeq l then Some []
      else if lRecent l = [] \<or> eSeq (hd (lRecent l)) > seq + 1 then None
      else Some (btEvents (take_after raw seq \<lparr>btEvents = [], btSize = 0\<rparr> (lRecent l))))"

definition scanFleetEvents :: "(fleet_event \<Rightarrow> nat option) \<Rightarrow> fleet_event list \<Rightarrow> nat \<Rightarrow> fleet_event list" where
  "scanFleetEvents raw file seq = btEvents (take_after raw seq \<lparr>btEvents = [], btSize = 0\<rparr> file)"

text \<open>One round of \<open>Read\<close>: \<open>None\<close> waits for the log to change. \<open>file\<close> is what the log's file holds when
  it is scanned, after the lock was given up.\<close>

definition Read ::
  "(fleet_event \<Rightarrow> nat option) \<Rightarrow> fleet \<Rightarrow> fleet_event list \<Rightarrow> nat \<Rightarrow> fleet_error + fleet_event list option" where
  "Read raw f file after =
     and_then (groupLocked f) (\<lambda>_.
       case recentAfter raw (kLog f) after of
         None \<Rightarrow> Inr (if after < lSeq (kLog f) then Some (scanFleetEvents raw file after) else None)
       | Some events \<Rightarrow> Inr (if events \<noteq> [] then Some events else None))"

subsection \<open>The log of a reachable fleet\<close>

text \<open>The events are numbered from one, and the tail in memory is the end of the file.\<close>

definition log_ok :: "fleet_log \<Rightarrow> bool" where
  "log_ok l \<longleftrightarrow> map eSeq (lFile l) = [1..<Suc (lSeq l)] \<and> lRecent l = keep_recent (lFile l)"

definition log_grows :: "fleet \<Rightarrow> fleet \<Rightarrow> bool" where
  "log_grows f f' \<longleftrightarrow> (log_ok (kLog f) \<longrightarrow> log_ok (kLog f')) \<and> prefix (lFile (kLog f)) (lFile (kLog f'))"

lemma keep_recent_snoc: "keep_recent (keep_recent es @ [e]) = keep_recent (es @ [e])"
proof (cases "fleetEventRing < length es")
  case True
  then have "length es - fleetEventRing + 1 = Suc (length es) - fleetEventRing" by simp
  with True show ?thesis by (simp add: keep_recent_def fleetEventRing_def)
qed (simp add: keep_recent_def)

lemma log_grows_event: "log_grows f (eventLocked now f e)"
  by (auto simp: log_grows_def log_ok_def eventLocked_def Let_def keep_recent_snoc)

locale log_frame = kernel_frame +
  assumes any_same: "kLog f' = kLog f \<Longrightarrow> R f f'"
begin

lemma admit: "R f (fst (admit now file token saved f caller args))"
proof -
  have "kLog (fst (admit now file token saved f caller args)) = kLog f"
    by (auto simp: admit_def Let_def case_prod_beta newBudgetLocked_def bump_id_def dropUnusedBudgetsLocked_def upd_group_def
        split: sum.split option.split)
  then show ?thesis by (rule any_same)
qed

lemma remove: "R f (remove_agent n f)"
  by (rule any_same) (simp add: remove_agent_def upd_group_def)

lemma orphans: "R f (orphan_children n f)"
  by (rule any_same) (simp add: orphan_children_def upd_group_def)

lemma told: "R f f1 \<Longrightarrow> R f (let (f2, told) = answerOwedLocked now f1 a x in if c \<and> \<not> told then deliverLocked now f2 (m f2) else f2)"
  using frame_trans [OF _ answer_owed] by (auto simp: Let_def case_prod_beta intro: then_deliver)

lemma launch_failed: "R f (launch_failed now order f a err tell)"
proof -
  have 1: "R f (remove_agent (aName a) (f\<lparr>kStarting := x\<rparr>))" for x
    by (rule any_same) (simp add: remove_agent_def upd_group_def)
  have "R f (dropUnusedBudgetsLocked (dropTimersOfLocked now order (remove_agent (aName a) (f\<lparr>kStarting := x\<rparr>)) k z))" for x k z
    using 1 drop_timers drop_budgets frame_trans by meson
  from told [OF then_event [OF this]] show ?thesis by (simp add: launch_failed_def Let_def)
qed

lemma retire_finish: "R f (retire_finish now order f n cause d)"
proof -
  have 1: "R f (orphan_children n ((remove_agent n f)\<lparr>kRunning := x, kReviving := y\<rparr>))" for x y
    by (rule any_same) (simp add: orphan_children_def remove_agent_def upd_group_def)
  have 2: "R f (dropExpectsOfLocked (dropTimersOfLocked now order (orphan_children n ((remove_agent n f)\<lparr>kRunning := x, kReviving := y\<rparr>)) n z) n)" for x y z
    using 1 drop_timers drop_expects frame_trans by meson
  have "R f (dropUnusedBudgetsLocked (upd_group (\<lambda>g. passOnCreationsLocked g n h) f2))" if "R f f2" for f2 h
    using that pass_on drop_budgets frame_trans by meson
  from told [OF then_event [OF this [OF 2]]] show ?thesis
    by (simp add: retire_finish_def Let_def split: option.split)
qed

lemma every_step:
  assumes "fleet_step f f'"
  shows "R f f'"
  using frame_step [OF assms] by (elim disjE exE conjE) (simp_all add: admit launch_failed retire_finish)

lemma every_run: "fleet_step\<^sup>*\<^sup>* f f' \<Longrightarrow> R f f'"
  by (induction rule: rtranclp_induct) (auto intro: frame_trans every_step)

end

interpretation log: log_frame log_grows
proof
  show "log_grows f (reload f)" for f by (simp add: log_grows_def log_ok_def reload_def Let_def)
  show "log_grows f f2" if "log_grows f f1" "log_grows f1 f2" for f f1 f2
    using that by (auto simp: log_grows_def intro: prefix_order.trans)
qed (simp_all add: log_grows_event, simp_all add: log_grows_def)

lemma log_reachable: "fleet_step\<^sup>*\<^sup>* (new_fleet opts) f \<Longrightarrow> log_ok (kLog f)"
  using log.every_run [of "new_fleet opts" f] by (auto simp: log_grows_def log_ok_def new_fleet_def keep_recent_def)


lemma log_later:
  assumes "fleet_step\<^sup>*\<^sup>* (new_fleet opts) f" "fleet_step\<^sup>*\<^sup>* f f'"
  shows "log_ok (kLog f')" "prefix (lFile (kLog f)) (lFile (kLog f'))"
  using log.every_run [OF assms(2)] log_reachable [OF assms(1)] by (auto simp: log_grows_def)

subsection \<open>A reader misses nothing\<close>

definition batch_ok :: "(fleet_event \<Rightarrow> nat option) \<Rightarrow> event_batch \<Rightarrow> bool" where
  "batch_ok raw b \<longleftrightarrow> btSize b = sum_list (map (\<lambda>e. the (raw e)) (btEvents b)) \<and>
     (length (btEvents b) \<le> 1 \<or> btSize b \<le> fleetReadBytes)"

lemma take_after_spec:
  assumes "\<forall>e. raw e \<noteq> None" "batch_ok raw b"
  shows "\<exists>k. btEvents (take_after raw seq b es) = btEvents b @ take k (filter (\<lambda>e. seq < eSeq e) es) \<and>
    (btEvents b = [] \<longrightarrow> k > 0) \<and> batch_ok raw (take_after raw seq b es)"
  using assms(2)
proof (induction es arbitrary: b)
  case (Cons e es)
  obtain n where n: "raw e = Some n" using assms(1) by blast
  let ?b = "b\<lparr>btEvents := btEvents b @ [e], btSize := btSize b + n\<rparr>"
  show ?case
  proof (cases "seq < eSeq e \<and> \<not> (btEvents b \<noteq> [] \<and> btSize b + n > fleetReadBytes)")
    case True
    then have "batch_ok raw ?b" using Cons.prems n by (auto simp: batch_ok_def)
    from Cons.IH [OF this] obtain k where
      "btEvents (take_after raw seq ?b es) = (btEvents b @ [e]) @ take k (filter (\<lambda>e. seq < eSeq e) es)"
      "batch_ok raw (take_after raw seq ?b es)" by auto
    with True n show ?thesis by (intro exI [of _ "Suc k"]) (auto simp: batch_take_def)
  next
    case False
    then show ?thesis using Cons n by (auto simp: batch_take_def intro: exI [of _ 0])
  qed
qed (simp, blast)

lemma filter_numbered:
  assumes "map eSeq es = [Suc d..<Suc (d + length es)]" "d \<le> seq"
  shows "filter (\<lambda>e. seq < eSeq e) es = drop (seq - d) es"
  using assms
proof (induction es arbitrary: d)
  case (Cons e es)
  have 1: "eSeq e = Suc d" "map eSeq es = [Suc (Suc d)..<Suc (Suc d + length es)]"
    using Cons.prems(1) by (simp_all add: upt_rec [of "Suc d"] del: upt_Suc)
  show ?case
  proof (cases "d = seq")
    case True
    have "\<forall>x \<in> set es. seq < eSeq x"
    proof
      fix x assume "x \<in> set es"
      then have "eSeq x \<in> set (map eSeq es)" by simp
      then show "seq < eSeq x" unfolding 1 using True by (auto simp del: upt_Suc)
    qed
    with True 1 show ?thesis by (simp add: filter_id_conv)
  next
    case False
    then have "filter (\<lambda>e. seq < eSeq e) es = drop (seq - Suc d) es" using Cons.IH [OF 1(2)] Cons.prems(2) by simp
    moreover have "seq - d = Suc (seq - Suc d)" using False Cons.prems(2) by simp
    ultimately show ?thesis using 1 False Cons.prems(2) by simp
  qed
qed simp

lemma log_ok_numbered:
  assumes "log_ok l"
  shows "length (lFile l) = lSeq l" "map eSeq (drop d (lFile l)) = [Suc d..<Suc (lSeq l)]"
proof -
  note m = assms [unfolded log_ok_def, THEN conjunct1]
  show "length (lFile l) = lSeq l" using m by (metis diff_Suc_1 length_map length_upt)
  show "map eSeq (drop d (lFile l)) = [Suc d..<Suc (lSeq l)]" using m by (simp add: drop_map [symmetric] drop_upt del: upt_Suc)
qed

lemma after_numbered:
  assumes "log_ok l" "d \<le> seq" "seq \<le> lSeq l"
  shows "filter (\<lambda>e. seq < eSeq e) (drop d (lFile l)) = drop seq (lFile l)"
proof -
  have "d + length (drop d (lFile l)) = lSeq l" using log_ok_numbered(1) [OF assms(1)] assms(2,3) by simp
  then have "map eSeq (drop d (lFile l)) = [Suc d..<Suc (d + length (drop d (lFile l)))]"
    using log_ok_numbered(2) [OF assms(1)] by presburger
  from filter_numbered [OF this assms(2)] assms(2) show ?thesis by simp
qed

lemma recent_drop:
  assumes "log_ok l"
  obtains d where "lRecent l = drop d (lFile l)" "d < lSeq l \<or> lSeq l = 0"
proof (cases "length (lFile l) > fleetEventRing")
  case True
  with that [of "length (lFile l) - fleetEventRing"] assms log_ok_numbered(1) [OF assms] show thesis
    by (auto simp: log_ok_def keep_recent_def fleetEventRing_def)
next
  case False
  with that [of 0] assms show thesis by (auto simp: log_ok_def keep_recent_def)
qed

text \<open>What a read returns, from memory or from the file.\<close>

lemma batch_numbered:
  assumes "log_ok l" "d \<le> seq" "seq < lSeq l" "\<forall>e. raw e \<noteq> None"
    and "evs = btEvents (take_after raw seq \<lparr>btEvents = [], btSize = 0\<rparr> (drop d (lFile l)))"
  shows "evs \<noteq> []" "evs = take (length evs) (drop seq (lFile l))" "eSeq (last evs) = seq + length evs"
    "length evs = 1 \<or> sum_list (map (\<lambda>e. the (raw e)) evs) \<le> fleetReadBytes"
proof -
  have z: "batch_ok raw \<lparr>btEvents = [], btSize = 0\<rparr>" by (simp add: batch_ok_def)
  obtain k where k: "evs = take k (drop seq (lFile l))" "k > 0"
    "batch_ok raw (take_after raw seq \<lparr>btEvents = [], btSize = 0\<rparr> (drop d (lFile l)))"
    using take_after_spec [OF assms(4) z] after_numbered [of l d seq] assms(1-3,5) by fastforce
  have len: "length (lFile l) = lSeq l" by (rule log_ok_numbered(1) [OF assms(1)])
  then show 1: "evs \<noteq> []" using k assms(3) by simp
  show 2: "evs = take (length evs) (drop seq (lFile l))" unfolding k(1) by (simp add: min_def)
  have le: "seq + length evs \<le> lSeq l" using len assms(3) unfolding k(1) by simp
  have "last evs = lFile l ! (seq + length evs - 1)"
    using 1 2 le len by (metis (no_types, lifting) add_diff_cancel_left' last_conv_nth length_greater_0_conv
        nth_drop nth_take diff_less zero_less_one le_add1 le_trans ordered_cancel_comm_monoid_diff_class.add_diff_assoc Suc_leI One_nat_def)
  moreover have "eSeq (lFile l ! i) = Suc i" if "i < lSeq l" for i
    using that log_ok_numbered(2) [OF assms(1), of 0] len by (metis drop0 nth_map nth_upt add_Suc Suc_less_eq plus_nat.add_0)
  moreover have "length evs \<ge> 1" using 1 by (cases evs) auto
  ultimately show "eSeq (last evs) = seq + length evs" using le 1 by simp
  show "length evs = 1 \<or> sum_list (map (\<lambda>e. the (raw e)) evs) \<le> fleetReadBytes"
    using k(3) \<open>length evs \<ge> 1\<close> assms(5) by (auto simp: batch_ok_def)
qed



lemma closed_deliver: "kClosed (deliverLocked now f m) = kClosed f"
proof (induction now f m rule: deliverLocked.induct)
  case (1 now f m)
  obtain f1 m1 where l: "logged now f m = (f1, m1)" by fastforce
  have "kClosed f1 = kClosed f"
    using l by (auto simp: logged_def Let_def nextIDLocked_def bump_id_def answeredLocked_def disarm_def upd_group_def eventLocked_def split: if_splits)
  moreover have "kClosed (drop_in m1 f1) = kClosed f1" by (simp add: drop_in_def upd_agent_def upd_group_def)
  ultimately show ?case using 1 [OF l [symmetric] refl] by (subst deliverLocked.simps) (simp add: l)
qed


subsection \<open>A crash leaves whole events\<close>

definition file_bytes :: "('e \<Rightarrow> string) \<Rightarrow> 'e list \<Rightarrow> string" where
  "file_bytes encode es = concat (map (\<lambda>e. encode e @ [newline]) es)"

definition codec_on :: "('e \<Rightarrow> string) \<Rightarrow> (string \<Rightarrow> 'e option) \<Rightarrow> 'e list \<Rightarrow> bool" where
  "codec_on encode decode es \<longleftrightarrow> list_all (\<lambda>e. newline \<notin> set (encode e) \<and> decode (encode e @ [newline]) = Some e) es"

lemma read_line_whole: "newline \<notin> set x \<Longrightarrow> read_line (x @ newline # rest) = Some (x @ [newline], rest)"
  by (simp add: read_line_def dropWhile_append takeWhile_append)

lemma read_line_part: "newline \<notin> set x \<Longrightarrow> read_line x = None"
  by (simp add: read_line_def dropWhile_eq_Nil_conv split: list.split) (metis (mono_tags, lifting) dropWhile_eq_Nil_conv list.distinct(1))

lemma load_event_eq:
  "oRecent l = keep_recent old \<Longrightarrow>
   load_event l e fin = (\<lparr>oSeq = eSeq e, oRecent = keep_recent (old @ [e]), oGood = fin\<rparr>, True)"
proof -
  assume o: "oRecent l = keep_recent old"
  have "length (keep_recent old) \<le> fleetEventRing" by (simp add: keep_recent_def)
  then have "(if length (keep_recent old @ [e]) > fleetEventRing then tl (keep_recent old @ [e]) else keep_recent old @ [e]) =
      keep_recent (keep_recent old @ [e])"
    by (cases "fleetEventRing = length (keep_recent old)")
       (simp_all add: keep_recent_def [of "keep_recent old @ [e]"] Suc_diff_le drop_Suc del: drop_append)
  then show ?thesis using o by (simp add: load_event_def Let_def keep_recent_snoc)
qed

lemma scan_load:
  assumes "codec_on encode decode es" "newline \<notin> set part" "oRecent l = keep_recent old"
  shows "scanFleetLog decode load_event off l (file_bytes encode es @ part) =
    (if es = [] then l else \<lparr>oSeq = eSeq (last es), oRecent = keep_recent (old @ es), oGood = off + length (file_bytes encode es)\<rparr>, None)"
  using assms(1,3)
proof (induction es arbitrary: l old off)
  case Nil
  then show ?case by (subst scanFleetLog.simps) (simp add: file_bytes_def read_line_part [OF assms(2)])
next
  case (Cons e es)
  have b: "file_bytes encode (e # es) @ part = encode e @ newline # (file_bytes encode es @ part)" by (simp add: file_bytes_def)
  have c: "codec_on encode decode es" "newline \<notin> set (encode e)" "decode (encode e @ [newline]) = Some e"
    using Cons.prems(1) by (simp_all add: codec_on_def)
  show ?case
    unfolding b using Cons.IH [OF c(1), of "\<lparr>oSeq = eSeq e, oRecent = keep_recent (old @ [e]), oGood = off + Suc (length (encode e))\<rparr>" "old @ [e]"]
    by (subst scanFleetLog.simps) (simp add: read_line_whole [OF c(2)] c(3) load_event_eq [OF Cons.prems(2)], simp add: file_bytes_def)
qed

lemma cut_file:
  assumes "\<forall>e \<in> set es. newline \<notin> set (encode e)"
  shows "\<exists>j part. j \<le> length es \<and> take k (file_bytes encode es) = file_bytes encode (take j es) @ part \<and> newline \<notin> set part \<and>
    (j < length es \<longrightarrow> k < length (file_bytes encode (take (Suc j) es)))"
  using assms
proof (induction es arbitrary: k)
  case (Cons e es)
  show ?case
  proof (cases "k \<le> length (encode e)")
    case True
    have "newline \<notin> set (take k (encode e))" using Cons.prems by (auto dest: in_set_takeD)
    with True show ?thesis by (intro exI [of _ 0] exI [of _ "take k (encode e)"]) (simp add: file_bytes_def)
  next
    case False
    obtain j part where j: "j \<le> length es" "newline \<notin> set part"
      "take (k - Suc (length (encode e))) (file_bytes encode es) = file_bytes encode (take j es) @ part"
      "j < length es \<longrightarrow> k - Suc (length (encode e)) < length (file_bytes encode (take (Suc j) es))"
      using Cons by (metis list.set_intros(2))
    have "take k (file_bytes encode (e # es)) = encode e @ newline # take (k - Suc (length (encode e))) (file_bytes encode es)"
      using False by (simp add: file_bytes_def take_Cons' Suc_diff_Suc)
    with j False show ?thesis
      by (intro exI [of _ "Suc j"] exI [of _ part]) (auto simp: file_bytes_def)
  qed
qed (simp add: file_bytes_def)

text \<open>C13. Whatever byte a crash cut the log file off at, the next kernel opens it, keeps every event whose
  line was written whole, in order, drops the one that was not, and goes on numbering after the last
  one kept; what it leaves in the file is those events and nothing else. The codec is JSON's: an
  encoding has no raw newline, and decoding a line gives back the event.\<close>

theorem crash_leaves_whole_events:
  assumes "codec_on encode decode es"
  shows "\<exists>j\<le>length es.
    length (file_bytes encode (take j es)) \<le> k \<and> (j < length es \<longrightarrow> k < length (file_bytes encode (take (Suc j) es))) \<and>
    openLogLocked decode (take k (file_bytes encode es)) =
      Inr (\<lparr>oSeq = (if j = 0 then 0 else eSeq (es ! (j - 1))), oRecent = keep_recent (take j es),
            oGood = length (file_bytes encode (take j es))\<rparr>, file_bytes encode (take j es))"
proof -
  have "\<forall>e \<in> set es. newline \<notin> set (encode e)" using assms by (auto simp: codec_on_def list_all_iff)
  then obtain j part where j: "j \<le> length es" "newline \<notin> set part" "j < length es \<longrightarrow> k < length (file_bytes encode (take (Suc j) es))"
    "take k (file_bytes encode es) = file_bytes encode (take j es) @ part" using cut_file [of es encode k] by auto
  have "codec_on encode decode (take j es)" using assms by (auto simp: codec_on_def list_all_iff dest: in_set_takeD)
  moreover have "oRecent \<lparr>oSeq = 0, oRecent = [], oGood = 0\<rparr> = keep_recent []" by (simp add: keep_recent_def)
  ultimately have s: "scanFleetLog decode load_event 0 \<lparr>oSeq = 0, oRecent = [], oGood = 0\<rparr> (file_bytes encode (take j es) @ part) =
    (if take j es = [] then \<lparr>oSeq = 0, oRecent = [], oGood = 0\<rparr>
     else \<lparr>oSeq = eSeq (last (take j es)), oRecent = keep_recent (take j es), oGood = length (file_bytes encode (take j es))\<rparr>, None)"
    using scan_load [OF _ j(2), of encode decode "take j es" _ "[]" 0] by simp
  have l: "take j es \<noteq> [] \<Longrightarrow> last (take j es) = es ! (j - 1)" using j(1) by (cases j) (auto simp: take_Suc_conv_app_nth)
  have "length (file_bytes encode (take j es)) \<le> length (take k (file_bytes encode es))" unfolding j(4) by simp
  then have "length (file_bytes encode (take j es)) \<le> k" by simp
  moreover have "openLogLocked decode (take k (file_bytes encode es)) =
      Inr (\<lparr>oSeq = (if j = 0 then 0 else eSeq (es ! (j - 1))), oRecent = keep_recent (take j es),
            oGood = length (file_bytes encode (take j es))\<rparr>, file_bytes encode (take j es))"
    unfolding openLogLocked_def j(4) s using l j(1)
    by (cases "take j es = []") (auto simp: keep_recent_def [of "[]"] file_bytes_def [of _ "[]"])
  ultimately show ?thesis using j(1,3) by blast
qed

theorem crash_leaves_whole_events_witness:
  "\<exists>j\<le>1. openLogLocked (\<lambda>s. if s = ''{}'' @ [newline] then Some ((event ''turn'' ''a'')\<lparr>eSeq := 1\<rparr>) else None)
      (take 2 (file_bytes (\<lambda>_. ''{}'') [(event ''turn'' ''a'')\<lparr>eSeq := 1\<rparr>])) =
    Inr (\<lparr>oSeq = (if j = 0 then 0 else 1), oRecent = keep_recent (take j [(event ''turn'' ''a'')\<lparr>eSeq := 1\<rparr>]),
      oGood = 3 * j\<rparr>, take (3 * j) (''{}'' @ [newline]))"
proof -
  let ?e = "(event ''turn'' ''a'')\<lparr>eSeq := 1\<rparr>"
  have "codec_on (\<lambda>_. ''{}'') (\<lambda>s. if s = ''{}'' @ [newline] then Some ?e else None) [?e]"
    by (simp add: codec_on_def newline_def)
  from crash_leaves_whole_events [OF this, of 2] obtain j where j: "j \<le> 1"
    "openLogLocked (\<lambda>s. if s = ''{}'' @ [newline] then Some ?e else None) (take 2 (file_bytes (\<lambda>_. ''{}'') [?e])) =
      Inr (\<lparr>oSeq = (if j = 0 then 0 else eSeq ([?e] ! (j - 1))), oRecent = keep_recent (take j [?e]),
            oGood = length (file_bytes (\<lambda>_. ''{}'') (take j [?e]))\<rparr>, file_bytes (\<lambda>_. ''{}'') (take j [?e]))" by auto
  then consider "j = 0" | "j = 1" by linarith
  then show ?thesis using j by cases (auto simp: file_bytes_def intro!: exI [of _ j])
qed

end
