(* ===== verification/FleetClock.thy ===== *)
theory FleetClock
  imports FleetOnce
begin

text \<open>
  Repeats, budgets and restarts (src/fleet_timer.go, src/fleet_budget.go, src/fleet.go): a repeat keeps
  its schedule and accounts for every firing, a spent budget starts no turn, and a restarted kernel
  hands every agent back what it held.
\<close>

subsection \<open>The schedule of a repeat\<close>

lemma points_passed:
  assumes "0 < (e :: int)"
  shows "s + int k * e \<le> now \<longleftrightarrow> int k \<le> (now - s) div e"
proof
  assume "s + int k * e \<le> now"
  then have "int k * e div e \<le> (now - s) div e" using assms by (intro zdiv_mono1) simp_all
  then show "int k \<le> (now - s) div e" using assms by simp
next
  assume "int k \<le> (now - s) div e"
  then have "int k * e \<le> (now - s) div e * e" using assms by (simp add: mult_right_mono)
  also have "\<dots> \<le> now - s" using assms pos_mod_sign [of e "now - s"] div_mult_mod_eq [of "now - s" e] by linarith
  finally show "s + int k * e \<le> now" by simp
qed

text \<open>C30. A repeat that fires at or after its due time is next due strictly later than now and at most
  one period from now, even if it is so late that the lateness saturates. Otherwise it stays on the
  points of its own schedule, and the firings it says it missed are exactly the points between the one
  it was due at and the next.\<close>

theorem repeat_keeps_its_schedule:
  assumes "0 < tEvery t" "tEvery t < 2 ^ 63" "tAt t \<le> now"
  shows "now < next_due now t \<and> next_due now t \<le> now + tEvery t \<and>
    (now - tAt t < 2 ^ 63 \<longrightarrow>
      next_due now t = tAt t + (missed_firings now t + 1) * tEvery t \<and>
      missed_firings now t = int (card {k. 0 < k \<and> tAt t + int k * tEvery t \<le> now}))"
proof -
  let ?e = "tEvery t" and ?late = "nanos_between (tAt t) now"
  have late: "0 \<le> ?late" "?late < ?e \<or> now - tAt t < 2 ^ 63 \<Longrightarrow> ?late = now - tAt t"
    using assms by (auto simp: nanos_between_def)
  have mod: "0 \<le> ?late mod ?e" "?late mod ?e < ?e" using assms(1) by simp_all
  have 1: "now < next_due now t \<and> next_due now t \<le> now + ?e"
    using late mod assms(3) by (auto simp: next_due_def Let_def)
  have 2: "next_due now t = tAt t + (missed_firings now t + 1) * ?e" "missed_firings now t = (now - tAt t) div ?e"
    if "now - tAt t < 2 ^ 63"
  proof -
    have l: "?late = now - tAt t" using late(2) that by blast
    have "(now - tAt t) div ?e * ?e + (now - tAt t) mod ?e = now - tAt t" by simp
    then show "next_due now t = tAt t + (missed_firings now t + 1) * ?e"
      by (simp add: next_due_def missed_firings_def Let_def l algebra_simps)
    show "missed_firings now t = (now - tAt t) div ?e"
      using assms(3) by (simp add: missed_firings_def Let_def l div_pos_pos_trivial)
  qed
  have "{k. 0 < k \<and> tAt t + int k * ?e \<le> now} = {1..nat ((now - tAt t) div ?e)}"
    by (auto simp: points_passed [OF assms(1)])
  then have "int (card {k. 0 < k \<and> tAt t + int k * ?e \<le> now}) = (now - tAt t) div ?e"
    using assms by (simp add: pos_imp_zdiv_nonneg_iff)
  with 1 2 show ?thesis by simp
qed

definition demo_timer :: fleet_timer where
  "demo_timer = \<lparr>tAt = 100, tEvery = 60000000000, tFires = 0, tMessage = message FleetTimer ''a'' ''a'' [] ''tick''\<rparr>"

theorem repeat_keeps_its_schedule_witness:
  "250000000100 < next_due 250000000100 demo_timer \<and> missed_firings 250000000100 demo_timer = 4 \<and>
   next_due 250000000100 demo_timer = 300000000100"
proof -
  have "missed_firings 250000000100 demo_timer = 4"
    by (simp add: missed_firings_def demo_timer_def nanos_between_def)
  then show ?thesis using repeat_keeps_its_schedule [of demo_timer 250000000100] by (simp add: demo_timer_def)
qed

subsection \<open>The firings of a repeat\<close>

text \<open>How many firings of timer \<open>i\<close> the messages stand for.\<close>

definition firings :: "string \<Rightarrow> fleet_message list \<Rightarrow> int" where
  "firings i ms = sum_list (map (\<lambda>m. if mTimer m = i then mMissed m + 1 else 0) ms)"

definition waiting :: "string \<Rightarrow> fleet_message list \<Rightarrow> nat" where
  "waiting i ms = length (filter (\<lambda>m. mTimer m = i) ms)"

lemma firings_append [simp]: "firings i (xs @ ys) = firings i xs + firings i ys"
  by (simp add: firings_def)

lemma firings_add_missed:
  "\<exists>m \<in> set ms. mTimer m = i \<Longrightarrow> firings i (add_missed i k ms) = firings i ms + k"
  "j \<noteq> i \<Longrightarrow> firings j (add_missed i k ms) = firings j ms"
  by (induction ms) (auto simp: firings_def)

lemma waiting_add_missed: "waiting i (add_missed i k ms) = waiting i ms"
  by (induction ms) (auto simp: waiting_def)

lemma agent_of_upd_agent [simp]: "agent_of (upd_agent n h f) k = (if k = n then map_option h (agent_of f k) else agent_of f k)"
proof -
  have "map_of (AList.map_entry n h as) k = (if k = n then map_option h (map_of as k) else map_of as k)" for as
    by (induction as) auto
  then show ?thesis by (simp add: agent_of_def upd_agent_def upd_group_def)
qed

lemma agent_of_deliver:
  assumes "mID m \<noteq> []" "mTo m = n" "n \<noteq> FleetOwner" "agent_of f n = Some a" "\<not> aStopped a"
  shows "agent_of (deliverLocked now f m) n = Some (a\<lparr>aInbox := aInbox a @ [stamped now (mID m) m]\<rparr>)"
proof -
  obtain f1 m1 where l: "logged now f m = (f1, m1)" by fastforce
  then have "m1 = stamped now (mID m) m" "\<And>k. agent_of f1 k = agent_of f k"
    using assms(1) by (auto simp: logged_def Let_def)
  then show ?thesis using assms(2-5) l by (subst deliverLocked.simps) (simp add: drop_in_def reaches_def)
qed

lemma timers_upd_agent [simp]: "gTimers (kGroup (upd_agent n h f)) = gTimers (kGroup f)"
  by (simp add: upd_agent_def upd_group_def)

lemma timers_deliver [simp]: "gTimers (kGroup (deliverLocked now f m)) = gTimers (kGroup f)"
proof (induction now f m rule: deliverLocked.induct)
  case (1 now f m)
  obtain f1 m1 where l: "logged now f m = (f1, m1)" by fastforce
  have "gTimers (kGroup f1) = gTimers (kGroup f)"
    using l by (auto simp: logged_def Let_def nextIDLocked_def bump_id_def answeredLocked_def disarm_def upd_group_def eventLocked_def split: if_splits)
  then show ?case using 1 [OF l [symmetric] refl] by (subst deliverLocked.simps) (simp add: l drop_in_def)
qed

text \<open>C29. Every firing of a repeat reaches its agent, at once or as part of a count: firing adds to the
  agent's mailbox exactly the firing that is due and those that were missed, it adds a message only if
  none of that repeat waits there, it leaves other repeats alone, and it puts the timer on its next
  point.\<close>

theorem firings_add_up:
  assumes "agent_of f (mTo (tMessage t)) = Some a" "\<not> aStopped a" "mTo (tMessage t) \<noteq> FleetOwner" "0 < tEvery t"
  shows "\<exists>a'. agent_of (fireTimerLocked now f i t) (mTo (tMessage t)) = Some a' \<and>
    firings i (aInbox a') = firings i (aInbox a) + missed_firings now t + 1 \<and>
    waiting i (aInbox a') = max 1 (waiting i (aInbox a)) \<and>
    (\<forall>j. j \<noteq> i \<longrightarrow> firings j (aInbox a') = firings j (aInbox a)) \<and>
    map_option tAt (map_of (gTimers (kGroup (fireTimerLocked now f i t))) i) = Some (next_due now t)"
proof -
  define n where "n = mTo (tMessage t)"
  define t1 where "t1 = t\<lparr>tAt := next_due now t\<rparr>"
  define store :: "fleet_timer \<Rightarrow> fleet \<Rightarrow> fleet" where "store u = upd_group (\<lambda>g. g\<lparr>gTimers := AList.update i u (gTimers g)\<rparr>)" for u
  define f1 where "f1 = armTimerLocked now i t1 (store t1 f)"
  have st: "agent_of (store u h) k = agent_of h k" "map_of (gTimers (kGroup (store u h))) i = Some u" for u h k
    by (simp_all add: store_def agent_of_def upd_group_def update_conv)
  have f1: "agent_of f1 k = agent_of f k" "map_of (gTimers (kGroup f1)) i = Some t1" for k
    using st by (simp_all add: f1_def armTimerLocked_def arm_def agent_of_def)
  have fire: "fireTimerLocked now f i t = (if waiting_firing f1 n i
      then upd_agent n (\<lambda>a. a\<lparr>aInbox := add_missed i (missed_firings now t + 1) (aInbox a)\<rparr>) f1
      else deliverLocked now (store (t1\<lparr>tFires := Suc (tFires t)\<rparr>) f1) (firing i (missed_firings now t) t))"
    using assms by (simp add: fireTimerLocked_def fire_repeat_def Let_def n_def t1_def f1_def store_def)
  have a: "agent_of f1 n = Some a" "n \<noteq> FleetOwner" using assms by (simp_all add: f1 n_def)
  show ?thesis
  proof (cases "waiting_firing f1 n i")
    case True
    then have "\<exists>m \<in> set (aInbox a). mTimer m = i" using a by (simp add: waiting_firing_def)
    then have "waiting i (aInbox a) \<ge> 1" by (force simp: waiting_def Suc_le_eq filter_empty_conv)
    with True a \<open>\<exists>m \<in> set (aInbox a). mTimer m = i\<close> show ?thesis
      by (simp add: fire n_def [symmetric] f1 t1_def firings_add_missed waiting_add_missed)
  next
    case False
    let ?m = "firing i (missed_firings now t) t"
    have m: "mID ?m \<noteq> []" "mTo ?m = n" "mTimer ?m = i" "mMissed ?m = missed_firings now t"
      by (simp_all add: firing_def firing_id_def n_def)
    then have s: "firings j [stamped now (mID ?m) ?m] = (if j = i then missed_firings now t + 1 else 0)"
      "waiting i [stamped now (mID ?m) ?m] = 1" for j
      by (simp_all add: firings_def waiting_def stamped_def)
    have "waiting i (aInbox a) = 0" using False a by (auto simp: waiting_firing_def waiting_def filter_empty_conv)
    then have "waiting i (aInbox a @ [stamped now (mID ?m) ?m]) = 1" using s(2) by (simp add: waiting_def)
    moreover have "agent_of (fireTimerLocked now f i t) n = Some (a\<lparr>aInbox := aInbox a @ [stamped now (mID ?m) ?m]\<rparr>)"
      using False agent_of_deliver [OF m(1,2) a(2), of "store (t1\<lparr>tFires := Suc (tFires t)\<rparr>) f1" a now] a assms(2) by (simp add: fire st)
    moreover have "map_option tAt (map_of (gTimers (kGroup (fireTimerLocked now f i t))) i) = Some (next_due now t)"
      using False by (simp add: fire st t1_def)
    ultimately show ?thesis using s(1) \<open>waiting i (aInbox a) = 0\<close> by (simp add: n_def [symmetric])
  qed
qed

theorem firings_add_up_witness:
  "\<exists>a'. agent_of (fireTimerLocked 250000000100 demo_fleet ''t1'' demo_timer) ''a'' = Some a' \<and> firings ''t1'' (aInbox a') = 5"
proof -
  have "agent_of demo_fleet ''a'' = Some demo_agent" by (simp add: demo_fleet_eq agent_of_def)
  moreover have "\<not> aStopped demo_agent" "mTo (tMessage demo_timer) = ''a''" "0 < tEvery demo_timer" "firings ''t1'' (aInbox demo_agent) = 0"
    by (simp_all add: demo_agent_def demo_timer_def message_def firings_def)
  moreover have "missed_firings 250000000100 demo_timer = 4"
    by (simp add: missed_firings_def demo_timer_def nanos_between_def)
  ultimately show ?thesis
    using firings_add_up [of demo_fleet demo_timer demo_agent 250000000100 "''t1''"] by (simp add: FleetOwner_def) blast
qed


subsection \<open>Budgets\<close>

lemma agent_of_news: "agent_of (deliverLocked now f (spent_notice i h r)) k = agent_of f k"
proof -
  obtain f1 m1 where l: "logged now f (spent_notice i h r) = (f1, m1)" by fastforce
  then have "mTo m1 = FleetOwner" "agent_of f1 k = agent_of f k"
    by (auto simp: logged_def Let_def nextIDLocked_def spent_notice_def news_def message_def)
  then show ?thesis by (subst deliverLocked.simps) (simp add: l)
qed

lemma budgets_deliver [simp]: "gBudgets (kGroup (deliverLocked now f m)) = gBudgets (kGroup f)"
proof (induction now f m rule: deliverLocked.induct)
  case (1 now f m)
  obtain f1 m1 where l: "logged now f m = (f1, m1)" by fastforce
  have "gBudgets (kGroup f1) = gBudgets (kGroup f)"
    using l by (auto simp: logged_def Let_def nextIDLocked_def bump_id_def answeredLocked_def disarm_def upd_group_def eventLocked_def split: if_splits)
  then show ?case using 1 [OF l [symmetric] refl]
    by (subst deliverLocked.simps) (simp add: l drop_in_def upd_agent_def upd_group_def)
qed

lemma budgets_upd: "map_of (gBudgets (kGroup (upd_budget i h f))) j = (if j = i then map_option h (map_of (gBudgets (kGroup f)) j) else map_of (gBudgets (kGroup f)) j)"
proof -
  have "map_of (AList.map_entry i h bs) j = (if j = i then map_option h (map_of bs j) else map_of bs j)" for bs
    by (induction bs) auto
  then show ?thesis by (simp add: upd_budget_def upd_group_def)
qed

lemma agent_of_upd_budget [simp]: "agent_of (upd_budget i h f) k = agent_of f k"
  by (simp add: agent_of_def upd_budget_def upd_group_def)

text \<open>A budget over agent \<open>a\<close> is spent.\<close>

definition held_back :: "int \<Rightarrow> fleet \<Rightarrow> fleet_agent \<Rightarrow> bool" where
  "held_back now f a \<longleftrightarrow> (\<exists>i \<in> set (aBudgets a). \<exists>b. map_of (gBudgets (kGroup f)) i = Some b \<and> spentBy b now \<noteq> [])"

lemma blocked_by_iff:
  "snd (blocked_by now f is) \<longleftrightarrow> (\<exists>i \<in> set is. \<exists>b. map_of (gBudgets (kGroup f)) i = Some b \<and> spentBy b now \<noteq> [])"
  "\<not> snd (blocked_by now f is) \<Longrightarrow> fst (blocked_by now f is) = f"
  "agent_of (fst (blocked_by now f is)) k = agent_of f k"
  "map_option bSpentTurns (map_of (gBudgets (kGroup (fst (blocked_by now f is)))) j) = map_option bSpentTurns (map_of (gBudgets (kGroup f)) j)"
  by (induction "is") (auto simp: agent_of_news budgets_upd option.map_comp comp_def split: option.splits)

lemma charge_turn_budgets:
  "map_of (gBudgets (kGroup (chargeTurnLocked f a))) j =
   map_option (\<lambda>b. b\<lparr>bSpentTurns := bSpentTurns b + int (count_list (aBudgets a) j)\<rparr>) (map_of (gBudgets (kGroup f)) j)"
  "agent_of (chargeTurnLocked f a) k = agent_of f k"
proof -
  have "map_of (gBudgets (kGroup (foldl (\<lambda>f i. upd_budget i (\<lambda>b. b\<lparr>bSpentTurns := bSpentTurns b + 1\<rparr>) f) f is))) j =
      map_option (\<lambda>b. b\<lparr>bSpentTurns := bSpentTurns b + int (count_list is j)\<rparr>) (map_of (gBudgets (kGroup f)) j)" for "is"
    by (induction "is" arbitrary: f) (auto simp: budgets_upd option.map_comp comp_def option.map_ident algebra_simps)
  then show "map_of (gBudgets (kGroup (chargeTurnLocked f a))) j =
      map_option (\<lambda>b. b\<lparr>bSpentTurns := bSpentTurns b + int (count_list (aBudgets a) j)\<rparr>) (map_of (gBudgets (kGroup f)) j)"
    by (simp add: chargeTurnLocked_def)
  have "agent_of (foldl (\<lambda>f i. upd_budget i (\<lambda>b. b\<lparr>bSpentTurns := bSpentTurns b + 1\<rparr>) f) f is) k = agent_of f k" for "is"
    by (induction "is" arbitrary: f) auto
  then show "agent_of (chargeTurnLocked f a) k = agent_of f k" by (simp add: chargeTurnLocked_def)
qed

text \<open>C14. A spent budget starts no turn. An agent with a message to take takes it up exactly when the
  message is already paid for or no budget over the agent is spent; then the turn is charged once to
  each budget over it, and nothing the second time the message goes round. While a budget is spent the
  agent waits with its mailbox untouched, and no turn is charged.\<close>

theorem spent_budget_starts_no_turn:
  assumes "agent_of f n = Some a" "\<not> kClosed f" "\<not> aStopped a" "aInbox a = m # rest" "take_turn now f n = (f', r)"
  shows "if mCharged m \<or> \<not> held_back now f a
    then r = TurnTaken m (\<not> aBriefed a \<or> mRedelivered m) \<and>
      agent_of f' n = Some (set_current now m rest a) \<and>
      (\<forall>i. map_option bSpentTurns (map_of (gBudgets (kGroup f')) i) =
        map_option (\<lambda>b. bSpentTurns b + (if mCharged m then 0 else int (count_list (aBudgets a) i))) (map_of (gBudgets (kGroup f)) i))
    else r = TurnWait \<and> agent_of f' n = Some a \<and>
      (\<forall>i. map_option bSpentTurns (map_of (gBudgets (kGroup f')) i) = map_option bSpentTurns (map_of (gBudgets (kGroup f)) i))"
proof (cases "mCharged m \<or> \<not> held_back now f a")
  case True
  let ?f2 = "acceptedLocked now (upd_runtime n begin_turn f) (mID m)"
  have b: "(if mCharged m then (f, False) else blockedLocked now f a) = (f, False)"
    using True blocked_by_iff(1,2) [of now f "aBudgets a"] by (auto simp: blockedLocked_def held_back_def prod_eq_iff)
  have 2: "agent_of ?f2 n = Some a" "gBudgets (kGroup ?f2) = gBudgets (kGroup f)"
    using assms(1) by (simp_all add: acceptedLocked_def agent_of_def disarm_def upd_group_def upd_runtime_def split: option.split)
  let ?f3 = "upd_agent n (set_current now m rest) ?f2"
  have 3: "agent_of ?f3 n = Some (set_current now m rest a)" "gBudgets (kGroup ?f3) = gBudgets (kGroup f)"
    using 2 by (simp, simp add: upd_agent_def upd_group_def)
  have "(f', r) = (if mCharged m then ?f3 else chargeTurnLocked ?f3 a, TurnTaken m (\<not> aBriefed a \<or> mRedelivered m))"
    using assms b by (simp add: take_turn_def Let_def)
  then have "r = TurnTaken m (\<not> aBriefed a \<or> mRedelivered m)" "f' = (if mCharged m then ?f3 else chargeTurnLocked ?f3 a)" by simp_all
  with True 3 show ?thesis by (simp add: charge_turn_budgets option.map_comp comp_def)
next
  case False
  then have "snd (blockedLocked now f a)" by (simp add: blockedLocked_def blocked_by_iff(1) held_back_def)
  then have "f' = fst (blockedLocked now f a)" "r = TurnWait"
    using assms False by (auto simp: take_turn_def Let_def case_prod_beta)
  then show ?thesis using False assms(1) by (simp add: blockedLocked_def blocked_by_iff(3,4))
qed


definition demo_held :: fleet where
  "demo_held = upd_agent ''a'' (\<lambda>a. a\<lparr>aInbox := [message FleetRequest FleetOwner ''a'' [] ''hi''], aBudgets := [''b1'']\<rparr>)
     (upd_group (\<lambda>g. g\<lparr>gBudgets := [(''b1'', \<lparr>bHolder = ''a'', bSetBy = FleetOwner,
        bLimits = \<lparr>limTokens = 0, limTurns = 1, limSeconds = 0\<rparr>, bStarted = 0, bSpentTokens = 0, bSpentTurns = 1,
        bNotified = True\<rparr>)]\<rparr>) demo_fleet)"

theorem spent_budget_starts_no_turn_witness: "snd (take_turn 5 demo_held ''a'') = TurnWait"
proof -
  obtain f' r where t: "take_turn 5 demo_held ''a'' = (f', r)" by fastforce
  let ?a = "demo_agent\<lparr>aInbox := [message FleetRequest FleetOwner ''a'' [] ''hi''], aBudgets := [''b1'']\<rparr>"
  have a: "agent_of demo_held ''a'' = Some ?a" by (simp add: demo_held_def) (simp add: agent_of_def upd_group_def demo_fleet_eq)
  have c: "\<not> kClosed demo_held" by (simp add: demo_held_def upd_agent_def upd_group_def demo_fleet_eq new_fleet_def)
  have h: "held_back 5 demo_held ?a"
    by (simp add: held_back_def demo_held_def upd_agent_def upd_group_def demo_fleet_eq new_fleet_def spentBy_def)
  show ?thesis
    using spent_budget_starts_no_turn [OF a c _ _ t, of "message FleetRequest FleetOwner ''a'' [] ''hi''" "[]"] h t
    by (simp add: demo_agent_def message_def)
qed

subsection \<open>Restart\<close>

text \<open>Agents are unchanged but for mail at the end of their mailboxes.\<close>

definition only_mail :: "fleet \<Rightarrow> fleet \<Rightarrow> bool" where
  "only_mail f f' \<longleftrightarrow> (\<forall>k a. agent_of f k = Some a \<longrightarrow> (\<exists>ms. agent_of f' k = Some (a\<lparr>aInbox := aInbox a @ ms\<rparr>)))"

lemma only_mail_same: "(\<And>k. agent_of f' k = agent_of f k) \<Longrightarrow> only_mail f f'"
  by (auto simp: only_mail_def intro!: exI [of _ "[]"])

lemma only_mail_trans [trans]: "only_mail f f1 \<Longrightarrow> only_mail f1 f2 \<Longrightarrow> only_mail f f2"
  unfolding only_mail_def by fastforce

lemma only_mail_deliver: "only_mail f (deliverLocked now f m)"
proof (induction now f m rule: deliverLocked.induct)
  case (1 now f m)
  obtain f1 m1 where l: "logged now f m = (f1, m1)" by fastforce
  then have same: "\<And>k. agent_of f1 k = agent_of f k"
    by (auto simp: logged_def Let_def nextIDLocked_def split: if_splits)
  then have f1: "only_mail f f1" by (rule only_mail_same)
  have "only_mail f (drop_in m1 f1)" using same by (auto simp: only_mail_def drop_in_def intro: exI [of _ "[]"])
  with f1 f1 [THEN only_mail_trans] 1 [OF l [symmetric] refl] show ?case
    by (subst deliverLocked.simps) (simp add: l)
qed

lemma only_mail_group: "gAgents (h (kGroup f)) = gAgents (kGroup f) \<Longrightarrow> only_mail f (upd_group h f)"
  by (rule only_mail_same) (simp add: agent_of_def upd_group_def)

lemma only_mail_finish: "only_mail f (finishCheckLocked now number f i r)"
proof -
  define r1 where "r1 = r\<lparr>rsOutput := boundCheckOutput (rsOutput r)\<rparr>"
  define f2 where "f2 = eventLocked now (upd_group (\<lambda>g. g\<lparr>gCheckRuns := AList.delete i (gCheckRuns g)\<rparr>) f)
    ((event ''check_result'' (rsRequester r1))\<lparr>eCheck := Some r1\<rparr>)"
  define f3 where "f3 = (case map_of (gChecks (kGroup f2)) (rsName r1) of
                  Some c \<Rightarrow> if cSHA256 c = rsSHA256 r1
                    then upd_group (\<lambda>g. g\<lparr>gCheckLast := AList.update (rsName r1) r1 (gCheckLast g)\<rparr>) f2 else f2
                | None \<Rightarrow> f2)"
  have "agent_of f3 k = agent_of f k" for k
    by (auto simp: f3_def f2_def agent_of_def upd_group_def eventLocked_def Let_def split: option.split)
  then have 3: "only_mail f f3" by (rule only_mail_same)
  from only_mail_trans [OF 3 only_mail_deliver] 3 show ?thesis
    unfolding finishCheckLocked_def Let_def r1_def [symmetric] f2_def [symmetric] f3_def [symmetric]
    by (auto split: option.split)
qed

lemma only_mail_report: "only_mail f (reportInterruptedChecksLocked now number order f)"
  unfolding reportInterruptedChecksLocked_def
proof (induction order arbitrary: f)
  case (Cons i order)
  have "only_mail f (interrupted_run now number f i)"
    by (auto simp: interrupted_run_def intro: only_mail_finish only_mail_same split: option.split)
  with Cons show ?case by (auto intro: only_mail_trans)
qed (auto intro: only_mail_same)

lemma agent_of_reload: "agent_of (reload f) k = map_option reload_agent (agent_of f k)"
  by (simp add: agent_of_def reload_def Let_def map_of_map)

lemma reload_inbox:
  "aInbox (reload_agent a) =
   map (\<lambda>m. m\<lparr>mRedelivered := True, mSteering := False\<rparr>) ((case aCurrent a of None \<Rightarrow> [] | Some m \<Rightarrow> [m]) @ aSteered a) @
   map (\<lambda>m. m\<lparr>mSteering := False\<rparr>) (aInbox a)"
  by (cases "aCurrent a") (simp_all add: reload_agent_def requeue_turn_def turnMessages_def reload_message_def comp_def)

text \<open>C15. A restart loses no message and no agent. Whatever an agent was doing when the kernel went down,
  the next kernel finds it with no turn under way and its seat to be brought back, and its mailbox
  starts with the messages of the interrupted turn, marked as delivered again, followed by what was
  waiting, in order; only results of interrupted checks may follow. Its name, creator, tools and
  whether it was told to stop are as they were.\<close>

theorem restart_redelivers:
  assumes "agent_of f n = Some a"
  shows "\<exists>a' ms. agent_of (reopen now number order f) n = Some a' \<and> aCurrent a' = None \<and> aSteered a' = [] \<and>
    aInbox a' =
      map (\<lambda>m. m\<lparr>mRedelivered := True, mSteering := False\<rparr>) ((case aCurrent a of None \<Rightarrow> [] | Some m \<Rightarrow> [m]) @ aSteered a) @
      map (\<lambda>m. m\<lparr>mSteering := False\<rparr>) (aInbox a) @ ms \<and>
    aName a' = aName a \<and> aParent a' = aParent a \<and> aTools a' = aTools a \<and> aStopped a' = aStopped a"
proof -
  obtain ms where "agent_of (reopen now number order f) n = Some ((reload_agent a)\<lparr>aInbox := aInbox (reload_agent a) @ ms\<rparr>)"
    using only_mail_report [of "reload f" now number order] assms by (auto simp: only_mail_def reopen_def agent_of_reload)
  then show ?thesis by (simp add: reload_inbox) (simp add: reload_agent_def requeue_turn_def)
qed

theorem restart_redelivers_witness:
  "\<exists>a'. agent_of (reopen 9 (\<lambda>_. []) [] demo_held) ''a'' = Some a' \<and> map mText (take 1 (aInbox a')) = [''hi'']"
proof -
  let ?a = "demo_agent\<lparr>aInbox := [message FleetRequest FleetOwner ''a'' [] ''hi''], aBudgets := [''b1'']\<rparr>"
  have a: "agent_of demo_held ''a'' = Some ?a" by (simp add: demo_held_def) (simp add: agent_of_def upd_group_def demo_fleet_eq)
  show ?thesis using restart_redelivers [OF a, of 9 "\<lambda>_. []" "[]"] by (auto simp: demo_agent_def message_def)
qed

end
