(* ===== verification/ConsumerHolds.thy ===== *)
theory ConsumerHolds
  imports GoJson
begin

text \<open>
  The two files a consumer keeps for the broker (src/consumer_state_file.go, src/consumer_intent.go,
  src/policy_hold.go, src/daemon/consumer_intent.go): \<open>fleet/intent.json\<close> names the agents it has parked or
  reaped, \<open>fleet/policy-hold.json\<close> those that its policy holds for the moment. The broker reads both
  again for every decision and starts no agent that either names; it starts none at all when the
  first cannot be read, or the second is there and is not what it should be.

  A node of the file system is what opening, \<open>Stat\<close> and reading it give; the environment is given
  the nodes by path. A reader returns \<open>Inl\<close> an error, \<open>Inr None\<close> when there is no file (\<open>present\<close> is
  false and the error nil) and \<open>Inr (Some x)\<close> otherwise. Paths are those of Unix.
\<close>

subsection \<open>Paths\<close>

text \<open>\<open>filepath.Clean\<close> and \<open>filepath.Join\<close>. The elements kept so far are in reverse.\<close>

definition clean_element :: "bool \<Rightarrow> string \<Rightarrow> string list \<Rightarrow> string list" where
  "clean_element rooted e out =
     (if e = [] \<or> e = ''.'' then out
      else if e = ''..'' then
        (case out of x # r \<Rightarrow> if x = ''..'' then e # out else r | [] \<Rightarrow> if rooted then [] else [e])
      else e # out)"

definition Clean :: "string \<Rightarrow> string" where
  "Clean p =
     (let rooted = (p \<noteq> [] \<and> hd p = CHR ''/'');
          body = join_with (CHR ''/'') (rev (fold (clean_element rooted) (split_on (CHR ''/'') p) []))
      in if rooted then CHR ''/'' # body else if body = [] then ''.'' else body)"

definition Join :: "string \<Rightarrow> string \<Rightarrow> string" where
  "Join a b = (if a \<noteq> [] then Clean (join_with (CHR ''/'') [a, b]) else if b \<noteq> [] then Clean b else [])"

subsection \<open>Reading a file\<close>

record stat_info =
  IsRegular :: bool
  Size :: int

datatype state_node = NoNode | OpenFails | Opened "stat_info option" "string option"

datatype hold_error =
    OpenError | StatError | NonRegular | TooLarge | ReadError | GrewTooLarge
  | NotJSON | MissingKey string | BadKey string | NotRFC3339
  | TooManyHolds | EmptyName nat | EmptyReason nat | UnknownReason nat | RepeatedName nat

definition readBoundedStateFile :: "state_node \<Rightarrow> int \<Rightarrow> hold_error + string option" where
  "readBoundedStateFile node maxBytes =
     (case node of
        NoNode \<Rightarrow> Inr None
      | OpenFails \<Rightarrow> Inl OpenError
      | Opened None _ \<Rightarrow> Inl StatError
      | Opened (Some info) content \<Rightarrow>
          if \<not> IsRegular info then Inl NonRegular
          else if Size info > maxBytes then Inl TooLarge
          else (case content of
              None \<Rightarrow> Inl ReadError
            | Some bytes \<Rightarrow>
                let raw = take (nat (maxBytes + 1)) bytes in
                if int (length raw) > maxBytes then Inl GrewTooLarge else Inr (Some raw)))"

subsection \<open>Decoding into structs and maps\<close>

text \<open>\<open>json.Unmarshal\<close> finds the field of a member by its name, and otherwise by a name that differs in
  case only; U+212A and U+017F are the only runes outside ASCII that fold into it. The last of
  several members for one field wins.\<close>

fun foldName :: "string \<Rightarrow> string" where
  "foldName [] = []"
| "foldName (c # s) =
     (if starts_with ([CHR 0xE2, CHR 0x84, CHR 0xAA]) (c # s) then CHR ''k'' # foldName (drop 2 s)
      else if starts_with ([CHR 0xC5, CHR 0xBF]) (c # s) then CHR ''s'' # foldName (drop 1 s)
      else lower_char c # foldName s)"

definition field_of :: "string list \<Rightarrow> string \<Rightarrow> string option" where
  "field_of names k = (if k \<in> set names then Some k else find (\<lambda>f. foldName f = foldName k) names)"

text \<open>The member that decides a field that takes any value as it is, a \<open>json.RawMessage\<close>.\<close>

definition raw_field :: "string list \<Rightarrow> string \<Rightarrow> (string \<times> json) list \<Rightarrow> json option" where
  "raw_field names f ms = map_option snd (find (\<lambda>(k, v). field_of names k = Some f) (rev ms))"

text \<open>A field of type \<open>string\<close>: null leaves it alone, any other value but a string is an error.\<close>

definition set_string :: "string list \<Rightarrow> string \<Rightarrow> string \<times> json \<Rightarrow> string \<Rightarrow> string option" where
  "set_string names f m old =
     (if field_of names (fst m) \<noteq> Some f then Some old
      else case snd m of JStr s \<Rightarrow> Some s | JNull \<Rightarrow> Some old | _ \<Rightarrow> None)"

fun string_field :: "string list \<Rightarrow> string \<Rightarrow> (string \<times> json) list \<Rightarrow> string \<Rightarrow> string option" where
  "string_field names f [] old = Some old"
| "string_field names f (m # ms) old = Option.bind (set_string names f m old) (string_field names f ms)"

definition json_int :: "json \<Rightarrow> int option" where
  "json_int v =
     (case v of
        JNum n \<Rightarrow>
          (let neg = (n \<noteq> [] \<and> hd n = CHR ''-''); ds = (if neg then tl n else n);
               i = (if neg then - int (num_of ds) else int (num_of ds))
           in if ds \<noteq> [] \<and> list_all is_digit ds \<and> - (2 ^ 63) \<le> i \<and> i < 2 ^ 63 then Some i else None)
      | _ \<Rightarrow> None)"

subsection \<open>Intents\<close>

definition ConsumerIntentRelPath :: string where "ConsumerIntentRelPath = ''fleet/intent.json''"
definition ConsumerIntentMaxBytes :: int where "ConsumerIntentMaxBytes = 1048576"

definition consumerIntentStoodDown :: "string \<Rightarrow> bool" where
  "consumerIntentStoodDown state \<longleftrightarrow> toLower (trimSpace state) \<in> {''parked'', ''reaped''}"

text \<open>The agent of a member: \<open>null\<close> is the zero struct.\<close>

definition intent_agent :: "json \<Rightarrow> string option" where
  "intent_agent v =
     (case v of JNull \<Rightarrow> Some [] | JObj ms \<Rightarrow> string_field [''state''] ''state'' ms [] | _ \<Rightarrow> None)"

fun intent_agents :: "(string \<times> json) list \<Rightarrow> (string \<times> string) list \<Rightarrow> (string \<times> string) list option" where
  "intent_agents [] out = Some out"
| "intent_agents ((name, v) # ms) out =
     Option.bind (intent_agent v) (\<lambda>state. intent_agents ms (AList.update name state out))"

definition intent_document :: "json \<Rightarrow> hold_error + string list" where
  "intent_document v =
     (case v of
        JObj names \<Rightarrow>
          (case map_of (rev names) ''agents'' of
             None \<Rightarrow> Inl (MissingKey ''agents'')
           | Some JNull \<Rightarrow> Inl (MissingKey ''agents'')
           | Some (JObj ms) \<Rightarrow>
               (case intent_agents ms [] of
                  None \<Rightarrow> Inl (BadKey ''agents'')
                | Some agents \<Rightarrow> Inr (map fst (filter (\<lambda>(n, state). consumerIntentStoodDown state) agents)))
           | Some _ \<Rightarrow> Inl (BadKey ''agents''))
      | JNull \<Rightarrow> Inl (MissingKey ''agents'')
      | _ \<Rightarrow> Inl NotJSON)"

definition ConsumerIntentSnapshot :: "(string \<Rightarrow> state_node) \<Rightarrow> string \<Rightarrow> hold_error + string list option" where
  "ConsumerIntentSnapshot node_at path =
     (if blank path then Inr (Some [])
      else and_then (readBoundedStateFile (node_at path) ConsumerIntentMaxBytes) (\<lambda>file.
        case file of None \<Rightarrow> Inr None
        | Some raw \<Rightarrow> (case json_text raw of None \<Rightarrow> Inl NotJSON
            | Some v \<Rightarrow> and_then (intent_document v) (\<lambda>stood. Inr (Some stood)))))"

definition StoodDownFromConsumerIntent :: "(string \<Rightarrow> state_node) \<Rightarrow> string \<Rightarrow> hold_error + string list" where
  "StoodDownFromConsumerIntent node_at path =
     and_then (ConsumerIntentSnapshot node_at path) (\<lambda>stood. Inr (case stood of None \<Rightarrow> [] | Some names \<Rightarrow> names))"

subsection \<open>Policy holds\<close>

definition PolicyHoldRelPath :: string where "PolicyHoldRelPath = ''fleet/policy-hold.json''"
definition PolicyHoldMaxBytes :: int where "PolicyHoldMaxBytes = 1048576"
definition PolicyHoldMaxEntries :: nat where "PolicyHoldMaxEntries = 4096"
definition PolicyHoldVersion :: int where "PolicyHoldVersion = 1"
definition PolicyHoldKind :: string where "PolicyHoldKind = ''policy_hold''"
definition FrontierConsumeDisabled :: string where "FrontierConsumeDisabled = ''frontier_consume_disabled''"
definition TargetAchieved :: string where "TargetAchieved = ''target_achieved''"

definition PolicyHoldKnownReason :: "string \<Rightarrow> bool" where
  "PolicyHoldKnownReason reason \<longleftrightarrow> reason \<in> {FrontierConsumeDisabled, TargetAchieved}"

record policyHoldDoc =
  Version :: "json option"
  Kind :: "json option"
  UpdatedAt :: "json option"
  Holds :: "json option"

text \<open>\<open>Holds\<close> is a pointer, so a null there is the absence of the field.\<close>

definition hold_doc :: "json \<Rightarrow> policyHoldDoc option" where
  "hold_doc v =
     (let names = [''version'', ''kind'', ''updated_at'', ''holds'']; doc = (\<lambda>ms.
        \<lparr>Version = raw_field names ''version'' ms, Kind = raw_field names ''kind'' ms, UpdatedAt = raw_field names ''updated_at'' ms,
         Holds = (if raw_field names ''holds'' ms = Some JNull then None else raw_field names ''holds'' ms)\<rparr>)
      in case v of JObj ms \<Rightarrow> Some (doc ms) | JNull \<Rightarrow> Some (doc []) | _ \<Rightarrow> None)"

definition isJSONAbsentOrNull :: "json option \<Rightarrow> bool" where
  "isJSONAbsentOrNull raw \<longleftrightarrow> raw = None \<or> raw = Some JNull"

definition requireJSONNumberEquals :: "json option \<Rightarrow> string \<Rightarrow> int \<Rightarrow> hold_error + unit" where
  "requireJSONNumberEquals raw field want =
     (if isJSONAbsentOrNull raw then Inl (MissingKey field)
      else case json_int (the raw) of
          None \<Rightarrow> Inl (BadKey field)
        | Some got \<Rightarrow> if got \<noteq> want then Inl (BadKey field) else Inr ())"

definition requireJSONStringEquals :: "json option \<Rightarrow> string \<Rightarrow> string \<Rightarrow> hold_error + unit" where
  "requireJSONStringEquals raw field want =
     (if isJSONAbsentOrNull raw then Inl (MissingKey field)
      else case the raw of
          JStr got \<Rightarrow> if got \<noteq> want then Inl (BadKey field) else Inr ()
        | _ \<Rightarrow> Inl (BadKey field))"

record policyHoldEntry =
  HName :: string
  HReason :: string

definition hold_entry :: "json \<Rightarrow> policyHoldEntry option" where
  "hold_entry v =
     (let names = [''name'', ''reason''] in
      case v of
        JNull \<Rightarrow> Some \<lparr>HName = [], HReason = []\<rparr>
      | JObj ms \<Rightarrow>
          Option.bind (string_field names ''name'' ms []) (\<lambda>name.
          Option.bind (string_field names ''reason'' ms []) (\<lambda>reason. Some \<lparr>HName = name, HReason = reason\<rparr>))
      | _ \<Rightarrow> None)"

definition hold_entries :: "json \<Rightarrow> policyHoldEntry list option" where
  "hold_entries v = (case v of JArr vs \<Rightarrow> those (map hold_entry vs) | _ \<Rightarrow> None)"

fun admit_holds :: "nat \<Rightarrow> policyHoldEntry list \<Rightarrow> (string \<times> string) list \<Rightarrow> hold_error + (string \<times> string) list" where
  "admit_holds i [] out = Inr out"
| "admit_holds i (e # es) out =
     (let name = trimSpace (HName e) in
      if name = [] then Inl (EmptyName i)
      else if trimSpace (HReason e) = [] then Inl (EmptyReason i)
      else if \<not> PolicyHoldKnownReason (HReason e) then Inl (UnknownReason i)
      else if name \<in> fst ` set out then Inl (RepeatedName i)
      else admit_holds (Suc i) es (out @ [(name, HReason e)]))"

definition hold_document :: "json \<Rightarrow> hold_error + (string \<times> string) list" where
  "hold_document v =
     (case hold_doc v of None \<Rightarrow> Inl NotJSON
      | Some doc \<Rightarrow>
          and_then (requireJSONNumberEquals (Version doc) ''version'' PolicyHoldVersion) (\<lambda>_.
          and_then (requireJSONStringEquals (Kind doc) ''kind'' PolicyHoldKind) (\<lambda>_.
          if isJSONAbsentOrNull (UpdatedAt doc) then Inl (MissingKey ''updated_at'')
          else case the (UpdatedAt doc) of
              JStr updatedAt \<Rightarrow>
                (if parse_rfc3339 updatedAt = None then Inl NotRFC3339
                 else if isJSONAbsentOrNull (Holds doc) then Inl (MissingKey ''holds'')
                 else case hold_entries (the (Holds doc)) of
                     None \<Rightarrow> Inl (BadKey ''holds'')
                   | Some entries \<Rightarrow>
                       if length entries > PolicyHoldMaxEntries then Inl TooManyHolds
                       else admit_holds 0 entries [])
            | _ \<Rightarrow> Inl (BadKey ''updated_at''))))"

definition PolicyHoldSnapshot :: "(string \<Rightarrow> state_node) \<Rightarrow> string \<Rightarrow> hold_error + (string \<times> string) list option" where
  "PolicyHoldSnapshot node_at path =
     (if blank path then Inr (Some [])
      else and_then (readBoundedStateFile (node_at path) PolicyHoldMaxBytes) (\<lambda>file.
        case file of None \<Rightarrow> Inr None
        | Some raw \<Rightarrow> (case json_text raw of None \<Rightarrow> Inl NotJSON
            | Some v \<Rightarrow> and_then (hold_document v) (\<lambda>held. Inr (Some held)))))"

subsection \<open>Both files\<close>

record consumer_env =
  ConsumerStateDir :: string
  CLAUDIA_CONSUMER_STATE_DIR :: string
  nodes :: "string \<Rightarrow> state_node"

definition state_root :: "consumer_env \<Rightarrow> string" where
  "state_root env =
     (let root = trimSpace (ConsumerStateDir env) in if root = [] then trimSpace (CLAUDIA_CONSUMER_STATE_DIR env) else root)"

definition consumerStatePath :: "consumer_env \<Rightarrow> string \<Rightarrow> string" where
  "consumerStatePath env relPath = (if state_root env = [] then [] else Join (state_root env) relPath)"

definition consumerIntentPath :: "consumer_env \<Rightarrow> string" where
  "consumerIntentPath env = consumerStatePath env ConsumerIntentRelPath"

definition policyHoldPath :: "consumer_env \<Rightarrow> string" where
  "policyHoldPath env = consumerStatePath env PolicyHoldRelPath"

text \<open>\<open>None\<close> is to fail closed.\<close>

definition consumerHoldLiveSnapshot :: "consumer_env \<Rightarrow> string list option" where
  "consumerHoldLiveSnapshot env =
     (if consumerIntentPath env = [] \<and> policyHoldPath env = [] then Some []
      else case ConsumerIntentSnapshot (nodes env) (consumerIntentPath env) of
          Inr (Some stood) \<Rightarrow>
            (case PolicyHoldSnapshot (nodes env) (policyHoldPath env) of
               Inl e \<Rightarrow> None
             | Inr None \<Rightarrow> Some (remdups stood)
             | Inr (Some policyHeld) \<Rightarrow> Some (remdups (stood @ map fst policyHeld)))
        | _ \<Rightarrow> None)"

text \<open>Whether to deny a name, and whether because there is no reading to go by.\<close>

definition consumerPolicyHold :: "consumer_env \<Rightarrow> string \<Rightarrow> bool \<times> bool" where
  "consumerPolicyHold env name =
     (case consumerHoldLiveSnapshot env of None \<Rightarrow> (True, True) | Some held \<Rightarrow> (name \<in> set held, False))"

subsection \<open>Lemmas\<close>

lemma join_with_covers: "w \<in> set ws \<Longrightarrow> set w \<subseteq> set (join_with c ws)"
  by (induction c ws rule: join_with.induct) auto

lemma Clean_covers:
  assumes "\<And>rooted. x \<in> set (join_with (CHR ''/'') (rev (fold (clean_element rooted) (split_on (CHR ''/'') p) [])))"
  shows "x \<in> set (Clean p)"
proof -
  define rooted where "rooted \<longleftrightarrow> p \<noteq> [] \<and> hd p = CHR ''/''"
  define body where "body = join_with (CHR ''/'') (rev (fold (clean_element rooted) (split_on (CHR ''/'') p) []))"
  have "Clean p = (if rooted then CHR ''/'' # body else if body = [] then ''.'' else body)"
    unfolding Clean_def rooted_def [symmetric] body_def Let_def by (rule refl)
  moreover have "x \<in> set body" using assms by (simp add: body_def)
  ultimately show ?thesis by auto
qed

text \<open>The path of a file under a directory is never blank: what is joined on is its last element.\<close>

lemma Join_not_blank:
  assumes "root \<noteq> []" "e \<notin> {[], ''.'', ''..''}" "CHR ''/'' \<notin> set e" "x \<in> set e" "\<forall>w \<in> set go_spaces. x \<notin> set w"
  shows "\<not> blank (Join root (d @ CHR ''/'' # e))"
proof -
  let ?p = "root @ CHR ''/'' # d @ CHR ''/'' # e"
  have "split_on (CHR ''/'') ?p = (split_on (CHR ''/'') root @ split_on (CHR ''/'') d) @ [e]"
    using split_on_append [of "CHR ''/''"] assms(3) by (simp add: split_on_no_sep)
  then have "e \<in> set (rev (fold (clean_element rooted) (split_on (CHR ''/'') ?p) []))" for rooted
    using assms(2) by (simp add: clean_element_def)
  then have "x \<in> set (join_with (CHR ''/'') (rev (fold (clean_element rooted) (split_on (CHR ''/'') ?p) [])))" for rooted
    using assms(4) join_with_covers by blast
  then have "x \<in> set (Clean ?p)" by (rule Clean_covers)
  then show ?thesis using assms(1,5) by (simp add: Join_def not_blank_visible)
qed

lemma configured_paths:
  assumes "state_root env \<noteq> []"
  shows "\<not> blank (consumerIntentPath env)" "\<not> blank (policyHoldPath env)"
proof -
  have spaces: "\<forall>w \<in> set go_spaces. CHR ''j'' \<notin> set w" by (simp add: go_spaces_def)
  have "ConsumerIntentRelPath = ''fleet'' @ CHR ''/'' # ''intent.json''"
    "PolicyHoldRelPath = ''fleet'' @ CHR ''/'' # ''policy-hold.json''"
    by (simp_all add: ConsumerIntentRelPath_def PolicyHoldRelPath_def)
  then show "\<not> blank (consumerIntentPath env)" "\<not> blank (policyHoldPath env)"
    using assms Join_not_blank [OF assms _ _ _ spaces, of "''intent.json''" "''fleet''"]
      Join_not_blank [OF assms _ _ _ spaces, of "''policy-hold.json''" "''fleet''"]
    by (simp_all add: consumerIntentPath_def policyHoldPath_def consumerStatePath_def)
qed

lemma read_absent: "readBoundedStateFile node n = Inr None \<longleftrightarrow> node = NoNode"
  by (auto simp: readBoundedStateFile_def Let_def split: state_node.splits option.splits if_splits)

lemma known_reason_not_blank: "PolicyHoldKnownReason r \<Longrightarrow> trimSpace r \<noteq> []"
proof -
  assume "PolicyHoldKnownReason r"
  then have "CHR ''t'' \<in> set r"
    by (auto simp: PolicyHoldKnownReason_def FrontierConsumeDisabled_def TargetAchieved_def)
  then have "\<not> blank r" by (rule not_blank_visible) (simp add: go_spaces_def)
  then show ?thesis by (simp add: blank_def)
qed

definition held_of :: "policyHoldEntry \<Rightarrow> string \<times> string" where
  "held_of e = (trimSpace (HName e), HReason e)"

definition valid_hold :: "string \<times> string \<Rightarrow> bool" where
  "valid_hold h \<longleftrightarrow> fst h \<noteq> [] \<and> PolicyHoldKnownReason (snd h)"

lemma admit_holds_iff:
  assumes "distinct (map fst out)"
  shows "admit_holds i es out = Inr held \<longleftrightarrow>
    held = out @ map held_of es \<and> distinct (map fst held) \<and> list_all valid_hold (map held_of es)"
  using assms
proof (induction es arbitrary: i out)
  case (Cons e es)
  show ?case
  proof (cases "valid_hold (held_of e) \<and> trimSpace (HName e) \<notin> fst ` set out")
    case True
    then have "admit_holds i (e # es) out = admit_holds (Suc i) es (out @ [held_of e])"
      using known_reason_not_blank by (simp add: valid_hold_def held_of_def)
    moreover have "distinct (map fst (out @ [held_of e]))"
      using Cons.prems True by (simp add: held_of_def)
    ultimately show ?thesis using Cons.IH [of "out @ [held_of e]"] True by auto
  next
    case False
    then have "\<exists>err. admit_holds i (e # es) out = Inl err"
      by (auto simp: valid_hold_def held_of_def Let_def)
    moreover have "\<not> (distinct (map fst (out @ map held_of (e # es))) \<and> list_all valid_hold (map held_of (e # es)))"
      using False by (auto simp: held_of_def)
    ultimately show ?thesis by (metis sum.distinct(1))
  qed
qed auto

lemma intent_agents_lookup:
  "intent_agents ms out = Some agents \<Longrightarrow> distinct (map fst out) \<Longrightarrow>
    distinct (map fst agents) \<and>
    (\<forall>n. map_of agents n = (case map_of (rev ms) n of None \<Rightarrow> map_of out n | Some v \<Rightarrow> intent_agent v))"
proof (induction ms out rule: intent_agents.induct)
  case (2 name v ms out)
  then obtain state where state: "intent_agent v = Some state"
    and rest: "intent_agents ms (AList.update name state out) = Some agents" by (cases "intent_agent v") auto
  have "distinct (map fst (AList.update name state out))" using "2.prems"(2) by (simp add: distinct_update)
  from "2.IH" [OF state rest this] show ?case
    by (auto simp: update_conv' map_add_def state split: option.splits)
qed auto

text \<open>The names an intent file stands down are those whose last member says so.\<close>

lemma intent_document_names:
  assumes "intent_document (JObj ms) = Inr stood"
  shows "\<exists>agents. map_of (rev ms) ''agents'' = Some (JObj agents) \<and>
    (\<forall>n. n \<in> set stood \<longleftrightarrow> (\<exists>v state. map_of (rev agents) n = Some v \<and> intent_agent v = Some state \<and> consumerIntentStoodDown state))"
proof -
  obtain members agents where m: "map_of (rev ms) ''agents'' = Some (JObj members)" "intent_agents members [] = Some agents"
    and stood: "stood = map fst (filter (\<lambda>(n, state). consumerIntentStoodDown state) agents)"
    using assms by (auto simp: intent_document_def split: option.splits json.splits)
  have look: "distinct (map fst agents)" "\<And>n. map_of agents n = (case map_of (rev members) n of None \<Rightarrow> None | Some v \<Rightarrow> intent_agent v)"
    using intent_agents_lookup [OF m(2)] by (simp_all cong: option.case_cong)
  have "n \<in> set stood \<longleftrightarrow> (\<exists>state. map_of agents n = Some state \<and> consumerIntentStoodDown state)" for n
    using look(1) by (force simp: stood)
  then show ?thesis using m(1) look(2) by (auto split: option.splits)
qed

subsection \<open>A hold file counts whole or not at all\<close>

text \<open>The holds that are read are the entries of the document, each with its name trimmed, and only if the
  version, the kind and the time are right, there are at most 4096 entries, every one has a name and
  one of the two known reasons, and no name comes twice.\<close>

theorem policy_hold_all_or_nothing:
  "hold_document v = Inr held \<longleftrightarrow>
    (\<exists>doc version updatedAt holds entries. hold_doc v = Some doc \<and>
      Version doc = Some version \<and> json_int version = Some 1 \<and> Kind doc = Some (JStr ''policy_hold'') \<and>
      UpdatedAt doc = Some (JStr updatedAt) \<and> parse_rfc3339 updatedAt \<noteq> None \<and>
      Holds doc = Some holds \<and> hold_entries holds = Some entries \<and> length entries \<le> 4096 \<and>
      held = map held_of entries \<and> distinct (map fst held) \<and> list_all valid_hold held)" (is "?l \<longleftrightarrow> ?r")
proof
  assume ?r
  then obtain doc version updatedAt holds entries where doc: "hold_doc v = Some doc"
      "Version doc = Some version" "json_int version = Some 1" "Kind doc = Some (JStr ''policy_hold'')"
      "UpdatedAt doc = Some (JStr updatedAt)" "parse_rfc3339 updatedAt \<noteq> None"
      "Holds doc = Some holds" "hold_entries holds = Some entries" "length entries \<le> 4096"
      "held = map held_of entries" "distinct (map fst held)" "list_all valid_hold held" by blast
  have "admit_holds 0 entries [] = Inr held" using admit_holds_iff [of "[]" 0 entries held] doc(10-12) by simp
  moreover have "holds \<noteq> JNull" "version \<noteq> JNull" using doc(8,3) by (auto simp: hold_entries_def json_int_def)
  ultimately show ?l using doc
    by (simp add: hold_document_def requireJSONNumberEquals_def requireJSONStringEquals_def isJSONAbsentOrNull_def
        PolicyHoldVersion_def PolicyHoldKind_def PolicyHoldMaxEntries_def)
next
  assume l: ?l
  obtain doc where doc: "hold_doc v = Some doc" using l by (auto simp: hold_document_def split: option.splits)
  have ver: "requireJSONNumberEquals (Version doc) ''version'' PolicyHoldVersion = Inr ()"
    and kind: "requireJSONStringEquals (Kind doc) ''kind'' PolicyHoldKind = Inr ()"
    using l by (auto simp: hold_document_def doc and_then_eq_Inr)
  obtain updatedAt entries where up: "UpdatedAt doc = Some (JStr updatedAt)" "parse_rfc3339 updatedAt \<noteq> None"
    and holds: "\<not> isJSONAbsentOrNull (Holds doc)" "hold_entries (the (Holds doc)) = Some entries" "length entries \<le> 4096"
    and admit: "admit_holds 0 entries [] = Inr held"
    using l by (auto simp: hold_document_def doc and_then_eq_Inr isJSONAbsentOrNull_def PolicyHoldMaxEntries_def
        split: if_splits option.splits json.splits)
  have "\<exists>version. Version doc = Some version \<and> json_int version = Some 1" using ver
    by (auto simp: requireJSONNumberEquals_def isJSONAbsentOrNull_def PolicyHoldVersion_def split: if_splits option.splits)
  moreover have "Kind doc = Some (JStr ''policy_hold'')" using kind
    by (auto simp: requireJSONStringEquals_def isJSONAbsentOrNull_def PolicyHoldKind_def split: if_splits json.splits)
  moreover have "\<exists>holds. Holds doc = Some holds \<and> hold_entries holds = Some entries"
    using holds by (auto simp: isJSONAbsentOrNull_def)
  ultimately show ?r using doc up holds(3) admit_holds_iff [of "[]" 0 entries held] admit by auto
qed

subsection \<open>When an agent may be started\<close>

lemma intent_snapshot_iff:
  "\<not> blank p \<Longrightarrow> ConsumerIntentSnapshot nds p = Inr (Some stood) \<longleftrightarrow>
    (\<exists>raw v. readBoundedStateFile (nds p) ConsumerIntentMaxBytes = Inr (Some raw) \<and> json_text raw = Some v \<and>
      intent_document v = Inr stood)"
  by (simp add: ConsumerIntentSnapshot_def and_then_def split: sum.split option.split)

lemma hold_snapshot_iff:
  "\<not> blank p \<Longrightarrow> (\<exists>held. PolicyHoldSnapshot nds p = Inr held \<and> (\<forall>h. held = Some h \<longrightarrow> P h)) \<longleftrightarrow>
    nds p = NoNode \<or>
    (\<exists>raw v h. readBoundedStateFile (nds p) PolicyHoldMaxBytes = Inr (Some raw) \<and> json_text raw = Some v \<and>
      hold_document v = Inr h \<and> P h)"
  unfolding read_absent [of "nds p" PolicyHoldMaxBytes, symmetric]
  by (simp add: PolicyHoldSnapshot_def and_then_def split: sum.split option.split)

text \<open>C22. No reading, no start. Once a consumer has a state directory, a name is let through exactly when
  its intent file was read as a whole and does not stand the name down, and its policy-hold file is
  either not there or a valid one that does not hold it. Everything else, a missing intent file, a
  file too large, a symbolic link, a broken document, denies every name.\<close>

theorem no_reading_no_start:
  assumes "state_root env \<noteq> []"
  shows "\<not> fst (consumerPolicyHold env name) \<longleftrightarrow>
    (\<exists>raw v stood. readBoundedStateFile (nodes env (consumerIntentPath env)) ConsumerIntentMaxBytes = Inr (Some raw) \<and>
       json_text raw = Some v \<and> intent_document v = Inr stood \<and> name \<notin> set stood) \<and>
    (nodes env (policyHoldPath env) = NoNode \<or>
     (\<exists>raw v held. readBoundedStateFile (nodes env (policyHoldPath env)) PolicyHoldMaxBytes = Inr (Some raw) \<and>
       json_text raw = Some v \<and> hold_document v = Inr held \<and> name \<notin> fst ` set held))"
proof -
  note path = configured_paths [OF assms]
  have "consumerIntentPath env \<noteq> []" using path(1) by auto
  then have "\<not> fst (consumerPolicyHold env name) \<longleftrightarrow>
      (\<exists>stood held. ConsumerIntentSnapshot (nodes env) (consumerIntentPath env) = Inr (Some stood) \<and>
        PolicyHoldSnapshot (nodes env) (policyHoldPath env) = Inr held \<and>
        name \<notin> set stood \<and> (\<forall>h. held = Some h \<longrightarrow> name \<notin> fst ` set h))"
    by (auto simp: consumerPolicyHold_def consumerHoldLiveSnapshot_def split: sum.splits option.splits)
  also have "\<dots> \<longleftrightarrow> (\<exists>stood. ConsumerIntentSnapshot (nodes env) (consumerIntentPath env) = Inr (Some stood) \<and> name \<notin> set stood) \<and>
      (\<exists>held. PolicyHoldSnapshot (nodes env) (policyHoldPath env) = Inr held \<and> (\<forall>h. held = Some h \<longrightarrow> name \<notin> fst ` set h))"
    by blast
  finally show ?thesis unfolding intent_snapshot_iff [OF path(1)] hold_snapshot_iff [OF path(2)] by blast
qed

definition demo_env :: consumer_env where
  "demo_env = \<lparr>ConsumerStateDir = ''c'', CLAUDIA_CONSUMER_STATE_DIR = [], nodes = (\<lambda>p. NoNode)\<rparr>"

theorem no_reading_no_start_witness: "state_root demo_env \<noteq> [] \<and> fst (consumerPolicyHold demo_env ''po'')"
proof -
  have "state_root demo_env \<noteq> []" by (simp add: state_root_def demo_env_def blank_eval)
  then show ?thesis using no_reading_no_start [of demo_env "''po''"]
    by (simp add: demo_env_def readBoundedStateFile_def)
qed

end
