(* ===== verification/SeatClaims.thy ===== *)
theory SeatClaims
  imports ConsumerHolds GoSort PlanBands "HOL-Library.Char_ord" "HOL-Library.List_Lexorder"
begin

text \<open>
  Which seats a restarted broker brings back, and in which order (src/daemon/claims.go,
  \<open>mergeConsumerIntentStandDown\<close> of src/daemon/consumer_intent.go, \<open>resumeSeats\<close> of src/daemon/daemon.go and the choice
  of names in \<open>ResumeAll\<close> of src/registry_seats.go). A ledger records when a consumer last held each seat
  and when one stood it down. A restart brings back the seats held most recently first, and
  leaves out those nobody has held for a day, those stood down, and those the consumer's files hold.

  The ledger is the map in memory and the file it is saved to; the file is what it decodes to, and
  whether a write succeeds is an argument of the operation. A failed write is logged and leaves
  the file as it was: it is written beside it and renamed.
\<close>

record seat_claim =
  Held :: go_time
  Seen :: go_time
  StoodDown :: go_time

definition zero_claim :: seat_claim where
  "zero_claim = \<lparr>Held = zero_time, Seen = zero_time, StoodDown = zero_time\<rparr>"

type_synonym claim_map = "string \<rightharpoonup> seat_claim"

text \<open>\<open>c.seats[name]\<close>: the zero claim for a name that is not there.\<close>

definition claim_of :: "claim_map \<Rightarrow> string \<Rightarrow> seat_claim" where
  "claim_of m name = (case m name of None \<Rightarrow> zero_claim | Some c \<Rightarrow> c)"

datatype claims_file = NoClaims | UnreadableClaims | ClaimsDoc int claim_map
datatype claims_error = ClaimsUnreadable | ClaimsVersion int

definition claimsVersion :: int where "claimsVersion = 1"

record seat_claims =
  seats :: claim_map
  disk :: claims_file

definition loadSeatClaims :: "claims_file \<Rightarrow> claims_error + seat_claims" where
  "loadSeatClaims file =
     (case file of
        NoClaims \<Rightarrow> Inr \<lparr>seats = Map.empty, disk = file\<rparr>
      | UnreadableClaims \<Rightarrow> Inl ClaimsUnreadable
      | ClaimsDoc version m \<Rightarrow>
          if version \<noteq> claimsVersion then Inl (ClaimsVersion version) else Inr \<lparr>seats = m, disk = file\<rparr>)"

definition saveLocked :: "bool \<Rightarrow> seat_claims \<Rightarrow> seat_claims" where
  "saveLocked writes c = (if writes then c\<lparr>disk := ClaimsDoc claimsVersion (seats c)\<rparr> else c)"

definition touch :: "go_time \<Rightarrow> seat_claim \<Rightarrow> seat_claim" where
  "touch t claim = (if time_after t (Held claim) then claim\<lparr>Held := t\<rparr> else claim)"

definition held_one :: "go_time \<Rightarrow> string \<Rightarrow> claim_map \<Rightarrow> claim_map" where
  "held_one t name m = m(name \<mapsto> (touch t (claim_of m name))\<lparr>StoodDown := zero_time\<rparr>)"

definition touch_one :: "go_time \<Rightarrow> string \<Rightarrow> claim_map \<Rightarrow> claim_map" where
  "touch_one t name m = m(name \<mapsto> touch t (claim_of m name))"

definition stand_one :: "go_time \<Rightarrow> string \<Rightarrow> claim_map \<Rightarrow> claim_map" where
  "stand_one t name m =
     (let claim = claim_of m name in
      m(name \<mapsto> (if IsZero (StoodDown claim) \<or> time_after t (StoodDown claim) then claim\<lparr>StoodDown := t\<rparr> else claim)))"

definition held :: "bool \<Rightarrow> go_time \<Rightarrow> string list \<Rightarrow> seat_claims \<Rightarrow> seat_claims" where
  "held writes t names c =
     (if names = [] then c else saveLocked writes (c\<lparr>seats := fold (held_one t) names (seats c)\<rparr>))"

definition touchHeld :: "bool \<Rightarrow> go_time \<Rightarrow> string list \<Rightarrow> seat_claims \<Rightarrow> seat_claims" where
  "touchHeld writes t names c =
     (if names = [] then c else saveLocked writes (c\<lparr>seats := fold (touch_one t) names (seats c)\<rparr>))"

definition standDown :: "bool \<Rightarrow> go_time \<Rightarrow> string list \<Rightarrow> seat_claims \<Rightarrow> seat_claims" where
  "standDown writes t names c =
     (if names = [] then c else saveLocked writes (c\<lparr>seats := fold (stand_one t) names (seats c)\<rparr>))"

definition see_one :: "go_time \<Rightarrow> string \<Rightarrow> claim_map \<Rightarrow> claim_map" where
  "see_one t name m = (if m name = None then m(name \<mapsto> zero_claim\<lparr>Seen := t\<rparr>) else m)"

definition reconcile_claims :: "bool \<Rightarrow> go_time \<Rightarrow> string list \<Rightarrow> seat_claims \<Rightarrow> seat_claims" where
  "reconcile_claims writes t registered c =
     saveLocked writes (c\<lparr>seats := (\<lambda>name. if name \<in> set registered then fold (see_one t) registered (seats c) name else None)\<rparr>)"

subsection \<open>The order of a resume\<close>

datatype disposition = LeaveOut | ResumeHeld | ResumeUnheld

definition disposition :: "go_time \<Rightarrow> int \<Rightarrow> seat_claim \<Rightarrow> disposition" where
  "disposition now unclaimedAfter claim =
     (if \<not> IsZero (StoodDown claim) then LeaveOut
      else let last = (if IsZero (Held claim) then Seen claim else Held claim) in
        if unclaimedAfter \<ge> 0 \<and> \<not> IsZero last \<and> time_sub now last > unclaimedAfter then LeaveOut
        else if IsZero (Held claim) then ResumeUnheld else ResumeHeld)"

definition more_recent :: "claim_map \<Rightarrow> string \<Rightarrow> string \<Rightarrow> bool" where
  "more_recent m x y =
     (let a = Held (claim_of m x); b = Held (claim_of m y) in
      if instant a \<noteq> instant b then time_after a b else x < y)"

definition resumeOrder :: "go_time \<Rightarrow> int \<Rightarrow> string list \<Rightarrow> seat_claims \<Rightarrow> string list \<times> string list" where
  "resumeOrder now unclaimedAfter names c =
     (let kept = (\<lambda>d. filter (\<lambda>name. disposition now unclaimedAfter (claim_of (seats c) name) = d) names)
      in (SliceStable (more_recent (seats c)) (kept ResumeHeld) @ sort (kept ResumeUnheld), sort (kept LeaveOut)))"

subsection \<open>A restart\<close>

definition mergeConsumerIntentStandDown :: "consumer_env \<Rightarrow> bool \<Rightarrow> go_time \<Rightarrow> seat_claims \<Rightarrow> seat_claims" where
  "mergeConsumerIntentStandDown env writes now c =
     (if consumerIntentPath env = [] \<and> policyHoldPath env = [] then c
      else case consumerHoldLiveSnapshot env of
          None \<Rightarrow> c
        | Some names \<Rightarrow> if names = [] then c else standDown writes now names c)"

definition select_names :: "consumer_env \<Rightarrow> go_time \<Rightarrow> int \<Rightarrow> seat_claims \<Rightarrow> string list \<Rightarrow> string list" where
  "select_names env now unclaimedAfter c names =
     (case consumerHoldLiveSnapshot env of
        None \<Rightarrow> []
      | Some consumerHeld \<Rightarrow>
          let names = (if consumerHeld \<noteq> [] then filter (\<lambda>name. name \<notin> set consumerHeld) names else names)
          in fst (resumeOrder now unclaimedAfter names c))"

text \<open>The names \<open>ResumeAll\<close> starts: what \<open>Select\<close> returned, as far as it is an AutoStart seat and once each.\<close>

fun keep_auto :: "string list \<Rightarrow> string list \<Rightarrow> string list" where
  "keep_auto autoStart [] = []"
| "keep_auto autoStart (name # chosen) =
     (if name \<in> set autoStart then name # keep_auto (removeAll name autoStart) chosen else keep_auto autoStart chosen)"

definition resume_names :: "(string list \<Rightarrow> string list) option \<Rightarrow> (string \<times> bool) list \<Rightarrow> string list" where
  "resume_names select defs =
     (let names = sort (map fst (filter snd defs)) in
      case select of
        Some f \<Rightarrow> if names \<noteq> [] then keep_auto names (f names) else names
      | None \<Rightarrow> names)"

definition DefaultResumeUnclaimedAfter :: int where
  "DefaultResumeUnclaimedAfter = 24 * 3600 * 1000000000"

text \<open>The seats are the registered names, each with whether it is an AutoStart seat. The result is what
  is started, in this order, and the ledger.\<close>

definition resumeSeats ::
  "consumer_env \<Rightarrow> int \<Rightarrow> bool \<Rightarrow> go_time \<Rightarrow> (string \<times> bool) list \<Rightarrow> seat_claims \<Rightarrow> string list \<times> seat_claims" where
  "resumeSeats env opt writes now defs c =
     (let c = reconcile_claims writes now (map fst defs) c;
          unclaimedAfter = (if opt = 0 then DefaultResumeUnclaimedAfter else opt)
      in if filter snd defs = [] then ([], c)
         else (resume_names (Some (select_names env now unclaimedAfter c)) defs, c))"

subsection \<open>Who comes back\<close>

interpretation recency: weak_order "more_recent m" for m
  by unfold_locales (auto simp: more_recent_def Let_def time_after_def split: if_splits)

lemma resumeOrder_sets:
  "set (fst (resumeOrder now u names c)) = {n \<in> set names. disposition now u (claim_of (seats c) n) \<noteq> LeaveOut}"
  "set (snd (resumeOrder now u names c)) = {n \<in> set names. disposition now u (claim_of (seats c) n) = LeaveOut}"
  by (auto simp: resumeOrder_def intro: disposition.exhaust)

lemma resumeOrder_partition:
  "mset (fst (resumeOrder now u names c)) + mset (snd (resumeOrder now u names c)) = mset names"
proof -
  have "mset (filter (\<lambda>n. f n = ResumeHeld) ns) + mset (filter (\<lambda>n. f n = ResumeUnheld) ns) +
      mset (filter (\<lambda>n. f n = LeaveOut) ns) = mset ns" for f :: "string \<Rightarrow> disposition" and ns
  proof (induction ns)
    case (Cons n ns)
    then show ?case by (cases "f n") auto
  qed simp
  then show ?thesis by (simp add: resumeOrder_def)
qed

definition comes_before :: "claim_map \<Rightarrow> string \<Rightarrow> string \<Rightarrow> bool" where
  "comes_before m x y =
     (let a = Held (claim_of m x); b = Held (claim_of m y) in
      if IsZero a then IsZero b \<and> x \<le> y
      else IsZero b \<or> instant b < instant a \<or> instant a = instant b \<and> x \<le> y)"

lemma disposition_held: "disposition now u claim = ResumeHeld \<Longrightarrow> \<not> IsZero (Held claim)"
  "disposition now u claim = ResumeUnheld \<Longrightarrow> IsZero (Held claim)"
  by (auto simp: disposition_def Let_def split: if_splits)

lemma resumeOrder_sorted: "sorted_wrt (comes_before (seats c)) (fst (resumeOrder now u names c))"
proof -
  define kept where "kept d = filter (\<lambda>n. disposition now u (claim_of (seats c) n) = d) names" for d
  let ?held = "SliceStable (more_recent (seats c)) (kept ResumeHeld)" and ?unheld = "sort (kept ResumeUnheld)"
  have zero: "\<not> IsZero (Held (claim_of (seats c) x))" if "x \<in> set ?held" for x
    using that disposition_held(1) by (auto simp: kept_def)
  have unheld: "IsZero (Held (claim_of (seats c) x))" if "x \<in> set ?unheld" for x
    using that disposition_held(2) by (auto simp: kept_def)
  have "sorted_wrt (comes_before (seats c)) ?held"
    using recency.SliceStable_sorted
    by (rule sorted_wrt_mono_rel [rotated]) (auto simp: comes_before_def more_recent_def time_after_def Let_def zero split: if_splits)
  moreover have "sorted_wrt (comes_before (seats c)) ?unheld"
    using sorted_sort by (rule sorted_wrt_mono_rel [rotated]) (auto simp: comes_before_def unheld)
  ultimately show ?thesis
    by (auto simp: resumeOrder_def kept_def [symmetric] sorted_wrt_append comes_before_def zero unheld)
qed

lemma keep_auto_set [simp]: "set (keep_auto autoStart chosen) = set chosen \<inter> set autoStart"
  by (induction chosen arbitrary: autoStart) auto

lemma keep_auto_distinct: "distinct (keep_auto autoStart chosen)"
  by (induction chosen arbitrary: autoStart) auto

lemma keep_auto_sorted: "sorted_wrt P chosen \<Longrightarrow> sorted_wrt P (keep_auto autoStart chosen)"
  by (induction chosen arbitrary: autoStart) auto

lemma disposition_LeaveOut:
  "disposition now u claim \<noteq> LeaveOut \<longleftrightarrow> IsZero (StoodDown claim) \<and>
    (let last = (if IsZero (Held claim) then Seen claim else Held claim) in u < 0 \<or> IsZero last \<or> time_sub now last \<le> u)"
  by (auto simp: disposition_def Let_def not_le)

lemma select_names_set:
  "set (select_names env now u c names) =
    {n \<in> set names. \<not> fst (consumerPolicyHold env n) \<and> disposition now u (claim_of (seats c) n) \<noteq> LeaveOut}"
  by (cases "consumerHoldLiveSnapshot env") (auto simp: select_names_def consumerPolicyHold_def resumeOrder_sets)

lemma select_names_sorted: "sorted_wrt (comes_before (seats c)) (select_names env now u c names)"
  by (simp add: select_names_def resumeOrder_sorted split: option.split)

lemma keep_auto_Nil [simp]: "keep_auto [] chosen = []"
  using keep_auto_set [of "[]" chosen] by (simp del: keep_auto_set)

lemma resumeSeats_eq:
  "resumeSeats env opt writes now defs c =
    (let names = sort (map fst (filter snd defs)); c' = reconcile_claims writes now (map fst defs) c;
         u = (if opt = 0 then DefaultResumeUnclaimedAfter else opt)
     in (keep_auto names (select_names env now u c' names), c'))"
proof (cases "filter snd defs = []")
  case False
  then have "sort (map fst (filter snd defs)) \<noteq> []" by (metis list.map_disc_iff set_empty set_sort)
  then show ?thesis using False by (simp add: resumeSeats_def resume_names_def Let_def)
qed (simp add: resumeSeats_def)

lemma restart_set:
  assumes "n \<in> set (fst (resumeSeats env opt writes now defs c))"
  shows "n \<in> fst ` set defs" "IsZero (StoodDown (claim_of (seats (snd (resumeSeats env opt writes now defs c))) n))"
  using assms by (auto simp: resumeSeats_eq Let_def select_names_set disposition_LeaveOut)

text \<open>C21. What a restart brings back. The seats started are exactly the AutoStart seats that neither of the
  consumer's files holds at that moment, that nobody stood down, and that were held, or else first
  seen, no longer ago than the limit (a negative limit leaves nobody out); each is started once, the
  one held last first, seats held at the same time and those never held in the order of their names,
  the latter at the end.\<close>

theorem restart_brings_back:
  "(let r = resumeSeats env opt writes now defs c; started = fst r; m = seats (snd r);
        u = (if opt = 0 then DefaultResumeUnclaimedAfter else opt)
    in distinct started \<and> sorted_wrt (comes_before m) started \<and>
       (\<forall>n. n \<in> set started \<longleftrightarrow>
          (n, True) \<in> set defs \<and> \<not> fst (consumerPolicyHold env n) \<and> IsZero (StoodDown (claim_of m n)) \<and>
          (let last = (if IsZero (Held (claim_of m n)) then Seen (claim_of m n) else Held (claim_of m n))
           in u < 0 \<or> IsZero last \<or> time_sub now last \<le> u)))"
proof -
  have "(n, True) \<in> set defs \<longleftrightarrow> n \<in> fst ` set (filter snd defs)" for n by force
  then show ?thesis
    by (simp add: resumeSeats_eq Let_def keep_auto_distinct keep_auto_sorted select_names_sorted select_names_set
        disposition_LeaveOut conj_ac del: set_filter)
qed

subsection \<open>Standing down\<close>

lemma claim_of_upd [simp]: "claim_of (m(n \<mapsto> k)) x = (if x = n then k else claim_of m x)"
  by (simp add: claim_of_def)

definition stands :: "string \<Rightarrow> claim_map \<Rightarrow> bool" where
  "stands n m \<longleftrightarrow> m n \<noteq> None \<and> \<not> IsZero (StoodDown (claim_of m n))"

lemma stands_fold:
  "stands n m \<Longrightarrow> (\<And>x m. x \<in> set names \<Longrightarrow> stands n m \<Longrightarrow> stands n (f x m)) \<Longrightarrow> stands n (fold f names m)"
  by (induction names arbitrary: m) auto

lemma stands_touch: "stands n m \<Longrightarrow> stands n (fold (touch_one t) names m)"
  by (erule stands_fold) (auto simp: touch_one_def touch_def stands_def)

lemma stands_stand: "\<not> IsZero t \<Longrightarrow> stands n m \<Longrightarrow> stands n (fold (stand_one t) names m)"
  by (erule stands_fold) (auto simp: stand_one_def stands_def Let_def)

lemma stands_stood: "\<not> IsZero t \<Longrightarrow> n \<in> set names \<Longrightarrow> stands n (fold (stand_one t) names m)"
proof (induction names arbitrary: m)
  case (Cons x names)
  have "stands x (stand_one t x m)" using Cons.prems(1) by (auto simp: stand_one_def stands_def Let_def)
  then show ?case using Cons stands_stand by auto
qed simp

lemma stands_held: "n \<notin> set names \<Longrightarrow> stands n m \<Longrightarrow> stands n (fold (held_one t) names m)"
  by (erule stands_fold) (auto simp: held_one_def stands_def)

lemma stands_seen: "stands n m \<Longrightarrow> stands n (fold (see_one t) names m)"
  by (erule stands_fold) (auto simp: see_one_def stands_def)

datatype claim_op =
    HeldOp bool go_time "string list"
  | TouchOp bool go_time "string list"
  | StandOp bool go_time "string list"
  | ReconcileOp bool go_time "string list"
  | RestartOp

fun claim_step :: "claim_op \<Rightarrow> seat_claims \<Rightarrow> seat_claims" where
  "claim_step (HeldOp w t names) c = held w t names c"
| "claim_step (TouchOp w t names) c = touchHeld w t names c"
| "claim_step (StandOp w t names) c = standDown w t names c"
| "claim_step (ReconcileOp w t names) c = reconcile_claims w t names c"
| "claim_step RestartOp c = (case loadSeatClaims (disk c) of Inl e \<Rightarrow> c | Inr c' \<Rightarrow> c')"

text \<open>What does not let go of a seat: all but a consumer that holds it again, and its removal. Clocks do not
  show the zero time.\<close>

fun keeps_down :: "string \<Rightarrow> claim_op \<Rightarrow> bool" where
  "keeps_down n (HeldOp w t names) \<longleftrightarrow> n \<notin> set names"
| "keeps_down n (StandOp w t names) \<longleftrightarrow> \<not> IsZero t"
| "keeps_down n (ReconcileOp w t names) \<longleftrightarrow> n \<in> set names"
| "keeps_down n _ \<longleftrightarrow> True"

definition down :: "string \<Rightarrow> seat_claims \<Rightarrow> bool" where
  "down n c \<longleftrightarrow> stands n (seats c) \<and> (\<exists>m. disk c = ClaimsDoc claimsVersion m \<and> stands n m)"

lemma down_save: "stands n m \<Longrightarrow> down n c \<Longrightarrow> down n (saveLocked w (c\<lparr>seats := m\<rparr>))"
  by (simp add: down_def saveLocked_def)

lemma down_seats: "down n c \<Longrightarrow> stands n (seats c)"
  by (simp add: down_def)

lemma down_step: "keeps_down n op \<Longrightarrow> down n c \<Longrightarrow> down n (claim_step op c)"
proof (cases op)
  case (ReconcileOp w t names)
  assume "keeps_down n op" "down n c"
  moreover from this have "stands n (\<lambda>x. if x \<in> set names then fold (see_one t) names (seats c) x else None)"
    using stands_seen [OF down_seats, of n c t names] ReconcileOp by (simp add: stands_def claim_of_def)
  ultimately show ?thesis using ReconcileOp by (simp add: reconcile_claims_def down_save)
next
  case RestartOp
  moreover assume "down n c"
  ultimately show ?thesis by (auto simp: down_def loadSeatClaims_def)
qed (auto simp: held_def touchHeld_def standDown_def down_seats stands_held stands_touch stands_stand intro!: down_save)

text \<open>A seat that was stood down stays down. Once that is on file, no later stamp of a disconnect, stand-down,
  reconciliation, failed write or restart brings the seat back: only a consumer that holds it, or its
  removal from the registry, does.\<close>

theorem stood_down_stays_down:
  assumes "\<not> IsZero t" "n \<in> set names" "list_all (keeps_down n) ops"
  shows "n \<notin> set (fst (resumeOrder now u ns (fold claim_step ops (standDown True t names c))))"
proof -
  have "down n (standDown True t names c)"
    using assms(1,2) stands_stood by (auto simp: standDown_def saveLocked_def down_def)
  then have "down n (fold claim_step ops (standDown True t names c))" using assms(3)
    by (induction ops arbitrary: c rule: rev_induct) (auto simp: down_step)
  then show ?thesis by (auto simp: resumeOrder_sets disposition_def down_def stands_def)
qed

theorem stood_down_stays_down_witness:
  "\<not> IsZero \<lparr>instant = 0, offset = 0\<rparr> \<and>
   ''po'' \<notin> set (fst (resumeOrder \<lparr>instant = 9, offset = 0\<rparr> (- 1) [''po'']
     (fold claim_step [TouchOp False \<lparr>instant = 5, offset = 0\<rparr> [''po''], RestartOp]
       (standDown True \<lparr>instant = 0, offset = 0\<rparr> [''po''] \<lparr>seats = Map.empty, disk = NoClaims\<rparr>))))"
  using stood_down_stays_down [of "\<lparr>instant = 0, offset = 0\<rparr>" "''po''" "[''po'']"
      "[TouchOp False \<lparr>instant = 5, offset = 0\<rparr> [''po''], RestartOp]" "\<lparr>instant = 9, offset = 0\<rparr>" "- 1" "[''po'']"
      "\<lparr>seats = Map.empty, disk = NoClaims\<rparr>"]
  by (simp add: IsZero_def zero_time_def)

text \<open>
  A hold outlives its lifting. What the files hold when the daemon is made is written into the ledger
  as a stand-down, so a hold that the consumer lifts before the seats are resumed, or before the
  next restart, still keeps the seat out: whatever the files say then, the seat is not resumed.
\<close>

lemma lifted_hold_still_counts:
  assumes "consumerHoldLiveSnapshot env = Some names" "n \<in> set names" "\<not> IsZero t"
    and "consumerIntentPath env \<noteq> [] \<or> policyHoldPath env \<noteq> []"
  shows "n \<notin> set (fst (resumeSeats env' opt w' now defs (mergeConsumerIntentStandDown env w t c)))"
proof
  let ?c = "mergeConsumerIntentStandDown env w t c" and ?r = "resumeSeats env' opt w' now defs (mergeConsumerIntentStandDown env w t c)"
  assume in_r: "n \<in> set (fst ?r)"
  have "seats ?c = fold (stand_one t) names (seats c)"
    using assms by (auto simp: mergeConsumerIntentStandDown_def standDown_def saveLocked_def)
  then have "stands n (fold (see_one now) (map fst defs) (seats ?c))" using assms(2,3) by (simp add: stands_stood stands_seen)
  moreover have "n \<in> fst ` set defs" by (rule restart_set(1) [OF in_r])
  ultimately have "stands n (seats (snd ?r))"
    by (auto simp: resumeSeats_def reconcile_claims_def saveLocked_def stands_def claim_of_def Let_def)
  then show False using restart_set(2) [OF in_r] by (simp add: stands_def)
qed

definition parked_file :: string where
  "parked_file = [CHR 0x7B, CHR 0x22] @ ''agents'' @ [CHR 0x22, CHR '':'', CHR 0x7B, CHR 0x22] @ ''po'' @ [CHR 0x22, CHR '':'', CHR 0x7B, CHR 0x22] @
     ''state'' @ [CHR 0x22, CHR '':'', CHR 0x22] @ ''parked'' @ [CHR 0x22, CHR 0x7D, CHR 0x7D, CHR 0x7D]"

definition demo_hold :: consumer_env where
  "demo_hold = \<lparr>ConsumerStateDir = ''c'', CLAUDIA_CONSUMER_STATE_DIR = [],
     nodes = (\<lambda>p. if p = ''c/fleet/intent.json'' then Opened (Some \<lparr>IsRegular = True, Size = 37\<rparr>) (Some parked_file) else NoNode)\<rparr>"

lemma demo_hold_paths:
  "consumerIntentPath demo_hold = ''c/fleet/intent.json''" "policyHoldPath demo_hold = ''c/fleet/policy-hold.json''"
  by (simp_all add: consumerIntentPath_def policyHoldPath_def consumerStatePath_def state_root_def demo_hold_def Join_def Clean_def
      clean_element_def ConsumerIntentRelPath_def PolicyHoldRelPath_def blank_eval)

lemma demo_hold_snapshot: "consumerHoldLiveSnapshot demo_hold = Some [''po'']"
proof -
  have root: "state_root demo_hold \<noteq> []" by (simp add: state_root_def demo_hold_def blank_eval)
  have "json_text parked_file = Some (JObj [(''agents'', JObj [(''po'', JObj [(''state'', JStr ''parked'')])])])"
    by (simp add: parked_file_def json_text_def jvalue.simps jmembers.simps jstring.simps skip_ws_def is_ws_def)
  moreover have "consumerIntentStoodDown ''parked''"
    by (simp add: consumerIntentStoodDown_def blank_eval lower_char_def)
  then have "intent_document (JObj [(''agents'', JObj [(''po'', JObj [(''state'', JStr ''parked'')])])]) = Inr [''po'']"
    by (simp add: intent_document_def intent_agent_def set_string_def field_of_def)
  moreover have "\<not> blank ''c/fleet/intent.json''" "\<not> blank ''c/fleet/policy-hold.json''"
    using configured_paths [OF root] unfolding demo_hold_paths .
  moreover have "length parked_file < 1048577" by (simp add: parked_file_def)
  ultimately show ?thesis unfolding consumerHoldLiveSnapshot_def demo_hold_paths
    by (simp add: ConsumerIntentSnapshot_def PolicyHoldSnapshot_def readBoundedStateFile_def demo_hold_def
        ConsumerIntentMaxBytes_def)
qed

lemma lifted_hold_example:
  "''po'' \<notin> set (fst (resumeSeats (demo_hold\<lparr>ConsumerStateDir := []\<rparr>) 0 True \<lparr>instant = 9, offset = 0\<rparr> [(''po'', True)]
     (mergeConsumerIntentStandDown demo_hold True \<lparr>instant = 0, offset = 0\<rparr> \<lparr>seats = Map.empty, disk = NoClaims\<rparr>)))"
  by (rule lifted_hold_still_counts [OF demo_hold_snapshot]) (simp_all add: IsZero_def zero_time_def demo_hold_paths)

end
