(* ===== verification/SeatResume.thy ===== *)
theory SeatResume
  imports RegistryProps PlanBands "HOL-Library.Char_ord" "HOL-Library.List_Lexorder"
begin

text \<open>
  Bringing one seat back after a restart, telling it so, and noticing that a seat's process died
  (src/registry_seats.go), on the model of the registry. A seat is adopted if its process still runs,
  launched on its saved conversation otherwise, and put on a fresh session if the provider refuses
  to load that conversation. Seats that had to be relaunched are sent a nudge, spaced in time.

  Each call into the registry has its own environment: what the providers answer then. What is asked
  of the process that came up is in \<open>seat_probe\<close>. Which seats are resumed, and in which order, is in
  \<open>SeatClaims\<close>.
\<close>

datatype resume_how = ResumeAdopted | ResumeLaunched | ResumeReminted

datatype seat_event =
    SeatResumed string string resume_how string
  | SeatResumeFailed string reg_error
  | SeatNudged string string
  | SeatGone string string

record resume_outcome =
  OName :: string
  OHow :: "resume_how option"
  OAgent :: "proc option"
  OldSessionID :: string
  Nudged :: bool
  NudgeErr :: "reg_error option"
  OErr :: "reg_error option"

definition NoRestartNudge :: string where "NoRestartNudge = ''-''"

subsection \<open>What a seat is told\<close>

definition format_rfc3339 :: "go_time \<Rightarrow> string" where
  "format_rfc3339 t = format_rfc3339nano (t\<lparr>instant := instant t div 1000000000 * 1000000000\<rparr>)"

definition DefaultRestartNudge :: "string \<Rightarrow> string" where
  "DefaultRestartNudge stamp = ''[claudia] The host restarted at '' @ stamp @ ''. This session was resumed from its saved transcript; '' @
     ''any tool call, build or process that was running before the restart did not finish. '' @
     ''Review where you were and continue the task you were working on. If you were waiting on '' @
     ''something (a build, a test, another agent), check its state again before assuming it completed.''"

definition LostHistoryRestartNudge :: "string \<Rightarrow> string \<Rightarrow> string" where
  "LostHistoryRestartNudge stamp session = ''[claudia] The host restarted at '' @ stamp @
     ''. This seat'' @ [CHR 0x27] @ ''s earlier conversation (session '' @ session @ '') could not be restored: '' @
     ''you are starting without it. Anything you were doing before the restart is not in your context. '' @
     ''Before continuing, reconstruct where things stand from durable state (the repository, its commits and its targets, '' @
     ''your brief) or ask whoever gave you the work. Do not assume a build, test or tool call from before the restart finished.''"

definition lostHistoryRestartNudge :: "go_time \<Rightarrow> string \<Rightarrow> string" where
  "lostHistoryRestartNudge now deadSession =
     LostHistoryRestartNudge (format_rfc3339 now) (if deadSession = [] then ''unknown'' else deadSession)"

text \<open>The nudge \<open>ResumeAll\<close> works with, and the one for a seat without its history, empty when none is
  wanted.\<close>

definition resume_nudge :: "string \<Rightarrow> go_time \<Rightarrow> string" where
  "resume_nudge given now = (if given = [] then DefaultRestartNudge (format_rfc3339 now) else given)"

definition lost_nudge :: "string \<Rightarrow> go_time \<Rightarrow> string" where
  "lost_nudge nudge now = (if nudge \<noteq> NoRestartNudge then lostHistoryRestartNudge now [] else [])"

subsection \<open>One seat\<close>

definition remintSeat :: "registry \<Rightarrow> string \<Rightarrow> string \<Rightarrow> (string \<times> reg_error option) \<times> registry" where
  "remintSeat r uuid name =
     (case Def r name of
        None \<Rightarrow> (([], Some NotRegistered), r)
      | Some d \<Rightarrow>
          (case Register r (d\<lparr>SessionID := uuid, Materialized := False, ConnectURL := '''', ConnectPID := 0\<rparr>) of
             (err, r') \<Rightarrow> ((SessionID d, err), r')))"

record seat_probe =
  startedWithoutHistory :: "proc \<Rightarrow> bool"
  supersededSessionID :: "proc \<Rightarrow> string"
  transcriptEndsMidTurn :: "proc \<Rightarrow> bool option"
  pace_err :: "reg_error option"
  send_err :: "proc \<Rightarrow> string \<Rightarrow> reg_error option"

text \<open>The starts: how the seat came back, the process or the error, and the session left behind.\<close>

definition resume_start ::
  "environment \<Rightarrow> environment \<Rightarrow> environment \<Rightarrow> string \<Rightarrow> registry \<Rightarrow> string \<Rightarrow>
     (resume_how \<times> (reg_error + proc) \<times> string) \<times> registry" where
  "resume_start adopting launching relaunching uuid r name =
     (case Adopt adopting r name of
        (Inr p, r1) \<Rightarrow> ((ResumeAdopted, Inr p, []), r1)
      | (Inl _, r1) \<Rightarrow>
          (case Launch launching r1 name of
             (Inl err, r2) \<Rightarrow>
               if err \<noteq> CursorResumeDenied then ((ResumeLaunched, Inl err, []), r2)
               else (case remintSeat r2 uuid name of
                   ((old, None), r3) \<Rightarrow>
                     (case Launch relaunching r3 name of (res, r4) \<Rightarrow> ((ResumeReminted, res, old), r4))
                 | ((_, Some _), r3) \<Rightarrow> ((ResumeLaunched, Inl err, []), r3))
           | (Inr p, r2) \<Rightarrow> ((ResumeLaunched, Inr p, []), r2)))"

text \<open>The text a seat that came back is sent, if any.\<close>

definition nudge_text :: "seat_probe \<Rightarrow> string \<Rightarrow> string \<Rightarrow> go_time \<Rightarrow> resume_how \<Rightarrow> string \<Rightarrow> proc \<Rightarrow> string option" where
  "nudge_text probe nudge lostNudge now how old p =
     (if how = ResumeAdopted \<or> nudge = NoRestartNudge then None
      else let text = (if lostNudge \<noteq> [] \<and> (how = ResumeReminted \<or> startedWithoutHistory probe p)
               then lostHistoryRestartNudge now (if old = [] then supersededSessionID probe p else old)
               else nudge)
           in if transcriptEndsMidTurn probe p = Some False \<and> how = ResumeLaunched \<and> \<not> startedWithoutHistory probe p
              then None else Some text)"

definition blank_outcome :: "string \<Rightarrow> resume_outcome" where
  "blank_outcome name =
     \<lparr>OName = name, OHow = None, OAgent = None, OldSessionID = [], Nudged = False, NudgeErr = None, OErr = None\<rparr>"

definition resumeSeat ::
  "environment \<Rightarrow> environment \<Rightarrow> environment \<Rightarrow> string \<Rightarrow> seat_probe \<Rightarrow> string \<Rightarrow> string \<Rightarrow> go_time \<Rightarrow> registry \<Rightarrow> string \<Rightarrow>
     resume_outcome \<times> seat_event list \<times> registry" where
  "resumeSeat adopting launching relaunching uuid probe nudge lostNudge now r name =
     (case resume_start adopting launching relaunching uuid r name of
        ((how, Inl err, old), r') \<Rightarrow>
          ((blank_outcome name)\<lparr>OldSessionID := old, OErr := Some err\<rparr>, [SeatResumeFailed name err], r')
      | ((how, Inr p, old), r') \<Rightarrow>
          let out = (blank_outcome name)\<lparr>OHow := Some how, OAgent := Some p, OldSessionID := old\<rparr>;
              resumed = SeatResumed name (PSession p) how (if how = ResumeReminted then old else [])
          in (case nudge_text probe nudge lostNudge now how old p of
                None \<Rightarrow> (out, [resumed], r')
              | Some text \<Rightarrow>
                  (case pace_err probe of
                     Some err \<Rightarrow> (out\<lparr>NudgeErr := Some err\<rparr>, [resumed], r')
                   | None \<Rightarrow>
                       (case send_err probe p text of
                          Some err \<Rightarrow> (out\<lparr>NudgeErr := Some err\<rparr>, [resumed], r')
                        | None \<Rightarrow> (out\<lparr>Nudged := True\<rparr>, [resumed, SeatNudged name (PSession p)], r')))))"

subsection \<open>Spacing the nudges\<close>

definition restartNudgeSpacing :: "int \<Rightarrow> int" where
  "restartNudgeSpacing d = (if d < 0 then 0 else if d = 0 then 5 * 1000000000 else d)"

text \<open>One call of the pacer: the slot it hands out, the wait until then, and the next free slot.\<close>

definition pace :: "int \<Rightarrow> go_time \<Rightarrow> go_time \<Rightarrow> (go_time \<times> int) \<times> go_time" where
  "pace spacing now nxt =
     (if spacing \<le> 0 then ((now, 0), nxt)
      else let slot = (if time_after nxt now then nxt else now) in ((slot, time_sub slot now), add_nanos slot spacing))"

fun slots :: "int \<Rightarrow> go_time \<Rightarrow> go_time list \<Rightarrow> go_time list" where
  "slots spacing nxt [] = []"
| "slots spacing nxt (now # asks) = (case pace spacing now nxt of ((slot, _), nxt') \<Rightarrow> slot # slots spacing nxt' asks)"

subsection \<open>Watching for deaths\<close>

text \<open>One tick of the watch, over the names that have a process. A seat with a lifecycle operation in flight
  is not looked at.\<close>

definition watched :: "registry \<Rightarrow> string \<Rightarrow> proc option" where
  "watched r name = (if busy r name then None else procs r name)"

definition still_reported :: "registry \<Rightarrow> (string \<rightharpoonup> nat) \<Rightarrow> (string \<rightharpoonup> nat)" where
  "still_reported r reported name =
     (if map_option ProcID (watched r name) = reported name then reported name else None)"

definition newly_dead :: "registry \<Rightarrow> (string \<rightharpoonup> nat) \<Rightarrow> string \<Rightarrow> bool" where
  "newly_dead r reported name =
     (case watched r name of None \<Rightarrow> False
      | Some p \<Rightarrow> \<not> (still_reported r reported name = Some (ProcID p) \<or> PAlive p))"

definition watch_tick :: "string list \<Rightarrow> registry \<Rightarrow> (string \<rightharpoonup> nat) \<Rightarrow> (string \<rightharpoonup> nat) \<times> seat_event list" where
  "watch_tick names r reported =
     (let dead = filter (newly_dead r reported) (sort names)
      in (\<lambda>name. if name \<in> set dead then map_option ProcID (watched r name) else still_reported r reported name,
          map (\<lambda>name. SeatGone name (PSession (the (watched r name)))) dead))"

fun watchSeats :: "string list \<Rightarrow> registry list \<Rightarrow> (string \<rightharpoonup> nat) \<Rightarrow> seat_event list" where
  "watchSeats names [] reported = []"
| "watchSeats names (r # rs) reported =
     (case watch_tick names r reported of (reported', evs) \<Rightarrow> evs @ watchSeats names rs reported')"

subsection \<open>The conversation\<close>

text \<open>Others leave the seat alone while a provider works.\<close>

definition leaves_alone :: "environment \<Rightarrow> string \<Rightarrow> bool" where
  "leaves_alone env n \<longleftrightarrow> (\<forall>r. Def (interfere env r) n = Def r n \<and> procs (interfere env r) n = procs r n \<and>
     freshSession (interfere env r) n = freshSession r n)"

lemma leaves_alone_session: "leaves_alone env n \<Longrightarrow> keeps_session env n"
  by (simp add: leaves_alone_def keeps_session_def session_of_def)

lemma startLifecycle_cases:
  assumes "startLifecycle env r n a f = (res, r')"
  obtains (begun) "startHeld env r n a f = (res, r')" | (refused) e where "res = Inl e" "r' = r"
  using assms by (auto simp: startLifecycle_def split: option.splits)

lemma failed_start_frame:
  assumes "startLifecycle env r n a f = (Inl e, r')" "leaves_alone env n"
  shows "Def r' n = Def r n" "procs r' n = procs r n" "freshSession r' n = freshSession r n"
proof -
  have "Def r' n = Def r n \<and> procs r' n = procs r n \<and> freshSession r' n = freshSession r n" using assms(1)
  proof (cases rule: startLifecycle_cases)
    case begun
    then show ?thesis
    proof (cases rule: startHeld_cases)
      case (attempt d p err answered t)
      note publish_failure [OF attempt(5)]
      then show ?thesis using assms(2) Def_cong [of r' "interfere env (r\<lparr>trace := trace r @ t\<rparr>)"]
        by (simp add: leaves_alone_def)
    qed auto
  qed simp
  then show "Def r' n = Def r n" "procs r' n = procs r n" "freshSession r' n = freshSession r n" by simp_all
qed

lemma lifecycle_session:
  assumes "Def r n = Some d" "requireResume r d" "leaves_alone env n" "startLifecycle env r n a f = (res, r')"
  shows "session_of r' n = Some (SessionID d) \<and>
    (\<forall>p. res = Inr p \<longrightarrow> procs r n = Some p \<and> PAlive p \<or> PSession p = '''' \<or> PSession p = SessionID d)"
  using assms(4)
proof (cases rule: startLifecycle_cases)
  case begun
  then show ?thesis by (rule start_session [OF assms(1,2) leaves_alone_session [OF assms(3)]])
qed (simp add: session_of_def assms(1))

lemma remint_old: "Def r n = Some d \<Longrightarrow> fst (fst (remintSeat r uuid n)) = SessionID d"
  by (simp add: remintSeat_def split: prod.split)


lemma demo_resume_start:
  "\<exists>t. resume_start demo_env demo_env demo_env ''u'' demo_registry ''a'' =
    ((ResumeLaunched, Inl RemintRefused, []), demo_registry\<lparr>trace := t\<rparr>)"
proof -
  have claude: "isClaudeProvider ''''" by (simp add: isClaudeProvider_def)
  have begins: "begin_err demo_env = None" "adoptProc demo_env c = (None, Some NoSessionWindow)" for c by (simp_all add: demo_env_def)
  obtain t where "Adopt demo_env demo_registry ''a'' = (Inl NoSessionWindow, demo_registry\<lparr>trace := t\<rparr>)"
    by (simp add: Adopt_def startLifecycle_def startHeld_def start_attempt_def ask_broker_def try_adopt_def may_launch_def
        publish_start_def claude begins Let_def)
  moreover have "requireResume (demo_registry\<lparr>trace := t\<rparr>) demo_def" by (simp add: requireResume_def)
  then have "fst (Launch demo_env (demo_registry\<lparr>trace := t\<rparr>) ''a'') = Inl RemintRefused \<and>
      (\<exists>t'. snd (Launch demo_env (demo_registry\<lparr>trace := t\<rparr>) ''a'') = demo_registry\<lparr>trace := t'\<rparr>)"
    by (simp add: Launch_def startLifecycle_def startHeld_def Let_def begins demo_attempt publish_start_def demo_proc_def Registry.log_def)
      blast
  ultimately show ?thesis by (auto simp: resume_start_def split: prod.split)
qed


text \<open>A fresh session that could not be saved has taken the place of the old one all the same: the resume
  is reported as refused, and the session it left behind is not.\<close>

lemma failed_remint_drops_the_session:
  assumes "Def r n = Some d" "Name d = n" "\<not> busy r n" "\<not> disk_ok r" "uuid \<noteq> ''''" "uuid \<noteq> SessionID d"
  shows "snd (fst (remintSeat r uuid n)) = Some SaveFailed" "session_of (snd (remintSeat r uuid n)) n = Some uuid"
  using assms by (simp_all add: remintSeat_def Register_def registerLocked_def save_def set_def_def session_of_def Def_def
      update_conv' Let_def)

subsection \<open>What is reported\<close>

text \<open>A resumed seat is reported once. Each seat gets exactly one report, that it came back or that it did
  not; the nudge follows it and is sent only to a seat that was started again, when nudges are
  wanted; and a seat that came back without its history is told so.\<close>

theorem resume_reports_once:
  "(case resumeSeat adopting launching relaunching uuid probe nudge (lost_nudge nudge now) now r name of (o', evs, r') \<Rightarrow>
     (case OErr o' of
        Some e \<Rightarrow> evs = [SeatResumeFailed name e] \<and> OAgent o' = None \<and> \<not> Nudged o'
      | None \<Rightarrow> \<exists>how p. OHow o' = Some how \<and> OAgent o' = Some p \<and>
          (if Nudged o'
           then evs = [SeatResumed name (PSession p) how (OldSessionID o'), SeatNudged name (PSession p)] \<and>
             how \<noteq> ResumeAdopted \<and> nudge \<noteq> NoRestartNudge \<and>
             send_err probe p (if how = ResumeReminted \<or> startedWithoutHistory probe p
               then lostHistoryRestartNudge now (if OldSessionID o' = [] then supersededSessionID probe p else OldSessionID o')
               else nudge) = None
           else evs = [SeatResumed name (PSession p) how (OldSessionID o')])))"
proof -
  obtain how res old r' where s: "resume_start adopting launching relaunching uuid r name = ((how, res, old), r')"
    by (metis prod.collapse)
  have old: "how \<noteq> ResumeReminted \<Longrightarrow> old = []"
    using s by (auto simp: resume_start_def split: prod.splits sum.splits option.splits if_splits)
  have lost: "lost_nudge nudge now = (if nudge = NoRestartNudge then [] else lostHistoryRestartNudge now [])"
    "lostHistoryRestartNudge now x \<noteq> []" for x
    by (simp_all add: lost_nudge_def lostHistoryRestartNudge_def LostHistoryRestartNudge_def)
  show ?thesis
  proof (cases res)
    case (Inl e)
    then show ?thesis using s by (simp add: resumeSeat_def blank_outcome_def)
  next
    case (Inr p)
    then show ?thesis using s old lost
      by (auto simp: resumeSeat_def blank_outcome_def nudge_text_def Let_def split: option.splits if_splits)
  qed
qed

subsection \<open>Nudges in time\<close>

lemma slots_after: "0 < spacing \<Longrightarrow> x \<in> set (slots spacing nxt asks) \<Longrightarrow> instant nxt \<le> instant x"
proof (induction asks arbitrary: nxt)
  case (Cons now asks)
  then show ?case
    by (fastforce simp: pace_def Let_def time_after_def add_nanos_def split: if_splits)
qed simp

text \<open>Restart nudges are spaced. However the seats come up, the slots handed out are at least the spacing apart,
  in the order they were asked for, and none lies before it was asked for.\<close>

theorem nudges_are_spaced:
  "sorted_wrt (\<lambda>a b. instant a + max 0 spacing \<le> instant b \<or> spacing \<le> 0) (slots spacing nxt asks) \<and>
   list_all2 (\<lambda>now slot. instant now \<le> instant slot) asks (slots spacing nxt asks)"
proof (cases "0 < spacing")
  case True
  then show ?thesis
  proof (induction asks arbitrary: nxt)
    case (Cons now asks)
    obtain slot w nxt' where p: "pace spacing now nxt = ((slot, w), nxt')" by (metis prod.collapse)
    then have "instant nxt' = instant slot + spacing" "instant now \<le> instant slot"
      using Cons.prems by (auto simp: pace_def Let_def add_nanos_def time_after_def split: if_splits)
    then show ?case using Cons.IH [OF Cons.prems, of nxt'] slots_after [OF Cons.prems, of _ nxt' asks] p Cons.prems by fastforce
  qed simp
next
  case False
  then show ?thesis by (induction asks arbitrary: nxt) (auto simp: pace_def)
qed

subsection \<open>One report for a death\<close>

definition gone_reports :: "string \<Rightarrow> seat_event list \<Rightarrow> nat" where
  "gone_reports name evs = length (filter (\<lambda>ev. case ev of SeatGone n _ \<Rightarrow> n = name | _ \<Rightarrow> False) evs)"

lemma gone_reports_append [simp]: "gone_reports n (xs @ ys) = gone_reports n xs + gone_reports n ys"
  by (simp add: gone_reports_def)

lemma gone_reports_map:
  "distinct names \<Longrightarrow> gone_reports n (map (\<lambda>name. SeatGone name (f name)) (filter P (sort names))) = (if n \<in> set names \<and> P n then 1 else 0)"
proof -
  have "distinct ns \<Longrightarrow> length (filter (\<lambda>x. P x \<and> x = n) ns) = (if n \<in> set ns \<and> P n then 1 else 0)" for ns :: "string list"
    by (induction ns) auto
  from this [of "sort names"] show "distinct names \<Longrightarrow> ?thesis"
    by (simp add: gone_reports_def filter_map o_def del: length_0_conv)
qed

text \<open>As long as the table keeps a process and no tick falls into a lifecycle operation of its seat, its death
  is reported, and once.\<close>

theorem death_reported_once:
  assumes "distinct names" "n \<in> set names" "reported n \<noteq> Some i"
    and "\<forall>r \<in> set rs. \<not> busy r n \<and> (\<exists>p. procs r n = Some p \<and> ProcID p = i)"
  shows "gone_reports n (watchSeats names rs reported) = (if \<exists>r \<in> set rs. \<not> PAlive (the (procs r n)) then 1 else 0)"
proof -
  have quiet: "gone_reports n (watchSeats names rs reported) = 0"
    if "\<forall>r \<in> set rs. \<not> busy r n \<and> (\<exists>p. procs r n = Some p \<and> ProcID p = i)" "reported n = Some i" for rs reported
    using that
  proof (induction rs arbitrary: reported)
    case (Cons r rs)
    then have w: "\<exists>p. watched r n = Some p \<and> ProcID p = i" by (simp add: watched_def)
    then have "\<not> newly_dead r reported n" using Cons.prems(2) by (auto simp: newly_dead_def still_reported_def)
    moreover have "fst (watch_tick names r reported) n = Some i"
      using w Cons.prems(2) by (auto simp: watch_tick_def still_reported_def Let_def)
    ultimately show ?case
      using Cons gone_reports_map [OF assms(1), of n _ "newly_dead r reported"] by (auto simp: watch_tick_def Let_def)
  qed (simp add: gone_reports_def)
  show ?thesis using assms(4,3)
  proof (induction rs arbitrary: reported)
    case (Cons r rs)
    then obtain p where w: "watched r n = Some p" "procs r n = Some p" "ProcID p = i" by (auto simp: watched_def)
    have new: "newly_dead r reported n \<longleftrightarrow> \<not> PAlive p" using w Cons.prems(2) by (auto simp: newly_dead_def still_reported_def)
    have step: "gone_reports n (watchSeats names (r # rs) reported) = (if PAlive p then 0 else 1) +
        gone_reports n (watchSeats names rs (fst (watch_tick names r reported)))"
      using gone_reports_map [OF assms(1), of n _ "newly_dead r reported"] new assms(2) by (auto simp: watch_tick_def Let_def)
    show ?case
    proof (cases "PAlive p")
      case True
      then have "fst (watch_tick names r reported) n \<noteq> Some i"
        using w Cons.prems(2) new by (auto simp: watch_tick_def still_reported_def Let_def)
      then show ?thesis using Cons True step w by simp
    next
      case False
      then have "fst (watch_tick names r reported) n = Some i" using w new assms(2) by (simp add: watch_tick_def Let_def)
      then show ?thesis using Cons.prems(1) False step w quiet by simp
    qed
  qed (simp add: gone_reports_def)
qed

definition dead_seat :: registry where
  "dead_seat = (NewRegistry [])\<lparr>procs := [''a'' \<mapsto> \<lparr>ProcID = 1, PAlive = False, PSession = ''s'', PProvider = '''', PModel = '''',
     PConnectURL = '''', PPID = 0\<rparr>]\<rparr>"

theorem death_reported_once_witness: "gone_reports ''a'' (watchSeats [''a''] [dead_seat, dead_seat] Map.empty) = 1"
  using death_reported_once [of "[''a'']" "''a''" Map.empty 1 "[dead_seat, dead_seat]"] by (simp add: dead_seat_def NewRegistry_def)

text \<open>A tick that falls into a failed start of the seat forgets that its death was reported: the start leaves
  the dead process in the table, and the next tick reports it again.\<close>

lemma death_reported_twice:
  "gone_reports ''a'' (watchSeats [''a''] [dead_seat, dead_seat\<lparr>busy := (\<lambda>n. n = ''a'')\<rparr>, dead_seat] Map.empty) = 2"
  by (simp add: dead_seat_def NewRegistry_def watch_tick_def newly_dead_def still_reported_def watched_def gone_reports_def Let_def)

end
