(* ===== verification/Goals.thy ===== *)
theory Goals
  imports TurnLatch
begin

text \<open>
  The goal of a session (src/goal.go): after a turn that neither finished the objective nor said that it is
  blocked, the host asks the agent to continue, until the agent emits a status line, the host's own
  check says the objective is done, the session ends, or three turns in a row did no work.

  The loop runs on the settle timer. Its callback holds the agent's lock twice, with the host's check
  in between and the send after the second time, so events, other callbacks and the closing of the
  goal may come in between: a run of the model is a sequence of moves, each one critical section. A
  timer that is stopped does not fire any more; \<open>Asking\<close> and \<open>Sending\<close> count the callbacks that wait
  for the check and for the send. \<open>Continued\<close> and \<open>Stalled\<close> count the continuations sent and the stalls published.
\<close>

subsection \<open>Status lines\<close>

definition GoalStatusComplete :: string where "GoalStatusComplete = ''GOAL_STATUS: complete''"
definition GoalStatusBlocked :: string where "GoalStatusBlocked = ''GOAL_STATUS: blocked''"
definition goalStallLimit :: nat where "goalStallLimit = 3"

fun first_status :: "string list \<Rightarrow> string option" where
  "first_status [] = None"
| "first_status (line # lines) =
     (let t = trimSpace line in
      if t = GoalStatusComplete then Some GoalStatusComplete
      else if t = GoalStatusBlocked then Some GoalStatusBlocked
      else first_status lines)"

definition ParseGoalStatus :: "string \<Rightarrow> string option" where
  "ParseGoalStatus text = first_status (split_on (CHR 0x0A) text)"

subsection \<open>The continuation\<close>

text \<open>\<open>strings.Fields\<close>: the runs of text between white space. The encoding of a space never starts inside
  another rune, so the text may be walked byte by byte.\<close>

definition space_at :: "string \<Rightarrow> string option" where
  "space_at s = find (\<lambda>w. w \<noteq> [] \<and> starts_with w s) go_spaces"

function fields_from :: "string \<Rightarrow> string \<Rightarrow> string list" where
  "fields_from word s =
     (case space_at s of
        Some w \<Rightarrow> (if word = [] then [] else [word]) @ fields_from [] (drop (length w) s)
      | None \<Rightarrow> (case s of [] \<Rightarrow> (if word = [] then [] else [word]) | c # r \<Rightarrow> fields_from (word @ [c]) r))"
  by pat_completeness auto
termination
proof (relation "measure (\<lambda>(word, s). length s)", goal_cases)
  case (3 word s w)
  then have "w \<noteq> []" "take (length w) s = w" by (auto simp: space_at_def find_Some_iff starts_with_def)
  then have "0 < length w" "s \<noteq> []" by auto
  then show ?case by simp
qed simp_all

declare fields_from.simps [simp del]

definition Fields :: "string \<Rightarrow> string list" where
  "Fields s = fields_from [] s"

definition goalContinuationMarker :: string where
  "goalContinuationMarker = ''Continue the open objective''"

definition goalContinuation :: "string \<Rightarrow> string" where
  "goalContinuation goal =
     (let obj = join_with (CHR '' '') (Fields (trimSpace goal)) in
      goalContinuationMarker @ '' (previous turn did not finish it). '' @
      ''Objective: '' @ obj @ ''. '' @
      ''Work until evidenced complete or blocked. '' @
      ''When complete emit exactly: '' @ GoalStatusComplete @ '' '' @
      ''When blocked emit exactly: '' @ GoalStatusBlocked @ '' '' @
      ''Emit neither unless true.'')"

subsection \<open>The loop\<close>

record goal_event =
  Ev :: turn_event
  ProgressType :: string
  ToolCallID :: string
  ToolTitle :: string

definition ProgressToolUse :: string where "ProgressToolUse = ''tool_use''"

definition goalEventShowsWork :: "goal_event \<Rightarrow> bool" where
  "goalEventShowsWork ev \<longleftrightarrow>
     EvType (Ev ev) = ''assistant'' \<and> StopReason (Ev ev) = ''tool_use'' \<or>
     ProgressType ev = ProgressToolUse \<or> ToolCallID ev \<noteq> [] \<or> ToolTitle ev \<noteq> []"

record goal_agent =
  Goal :: string
  GoalClosed :: bool
  GoalSeenTerminal :: bool
  GoalTimer :: "nat option"
  GoalTurn :: string
  GoalTurnWorked :: bool
  GoalIdleTurns :: nat
  GAlive :: bool
  BrokerGrant :: string
  Timers :: "nat list"
  NextTimer :: nat
  Asking :: nat
  Sending :: nat
  Continued :: nat
  Stalled :: nat

definition new_goal :: "string \<Rightarrow> string \<Rightarrow> goal_agent" where
  "new_goal cfg grant = \<lparr>Goal = trimSpace cfg, GoalClosed = False, GoalSeenTerminal = False, GoalTimer = None, GoalTurn = [],
     GoalTurnWorked = False, GoalIdleTurns = 0, GAlive = True, BrokerGrant = grant, Timers = [], NextTimer = 0,
     Asking = 0, Sending = 0, Continued = 0, Stalled = 0\<rparr>"

definition GoalActive :: "goal_agent \<Rightarrow> bool" where
  "GoalActive a \<longleftrightarrow> Goal a \<noteq> [] \<and> \<not> GoalClosed a"

text \<open>Stop the timer, if one is set, and forget it.\<close>

definition drop_timer :: "goal_agent \<Rightarrow> goal_agent" where
  "drop_timer a = (case GoalTimer a of None \<Rightarrow> a | Some t \<Rightarrow> a\<lparr>Timers := removeAll t (Timers a), GoalTimer := None\<rparr>)"

definition set_timer :: "goal_agent \<Rightarrow> goal_agent" where
  "set_timer a = a\<lparr>Timers := NextTimer a # Timers a, GoalTimer := Some (NextTimer a), NextTimer := Suc (NextTimer a)\<rparr>"

definition closeGoalLocked :: "goal_agent \<Rightarrow> goal_agent" where
  "closeGoalLocked a = (drop_timer (a\<lparr>GoalClosed := True\<rparr>))
     \<lparr>GoalSeenTerminal := False, GoalTurn := [], GoalTurnWorked := False, GoalIdleTurns := 0\<rparr>"

definition noteGoalEvent :: "goal_event \<Rightarrow> goal_agent \<Rightarrow> goal_agent" where
  "noteGoalEvent ev a =
     (if Goal a = [] \<or> GoalClosed a then a
      else if BrokerGrant a \<noteq> [] then a
      else if EvIsError (Ev ev) then
        (drop_timer a)\<lparr>GoalSeenTerminal := False, GoalTurn := [], GoalTurnWorked := False\<rparr>
      else
        let a = (if goalEventShowsWork ev then a\<lparr>GoalTurnWorked := True\<rparr> else a) in
        if EvType (Ev ev) \<noteq> ''assistant'' then a
        else
          let a = a\<lparr>GoalTurn := appendTurnText (GoalTurn a) (Ev ev)\<rparr>;
              a = (if IsTerminalStop (Ev ev) then a\<lparr>GoalSeenTerminal := True\<rparr> else a)
          in if ParseGoalStatus (GoalTurn a) \<noteq> None then closeGoalLocked (drop_timer a)
             else if \<not> GoalSeenTerminal a then a
             else set_timer (drop_timer a))"

text \<open>\<open>maybeContinueGoal\<close> up to the host's check, from there to the send, and the send.\<close>

definition continue_ask :: "goal_agent \<Rightarrow> goal_agent" where
  "continue_ask a =
     (if Goal a = [] \<or> GoalClosed a \<or> \<not> GAlive a then a
      else if ParseGoalStatus (GoalTurn a) \<noteq> None then closeGoalLocked a
      else a\<lparr>Asking := Suc (Asking a)\<rparr>)"

definition continue_decide :: "bool \<Rightarrow> goal_agent \<Rightarrow> goal_agent" where
  "continue_decide complete a =
     (if complete then closeGoalLocked a
      else if Goal a = [] \<or> GoalClosed a \<or> \<not> GAlive a then a
      else
        let a = (if GoalTurnWorked a then a\<lparr>GoalIdleTurns := 0\<rparr> else a\<lparr>GoalIdleTurns := Suc (GoalIdleTurns a)\<rparr>) in
        if GoalIdleTurns a \<ge> goalStallLimit then (closeGoalLocked a)\<lparr>Stalled := Suc (Stalled a)\<rparr>
        else a\<lparr>GoalSeenTerminal := False, GoalTurn := [], GoalTurnWorked := False, GoalTimer := None, Sending := Suc (Sending a)\<rparr>)"

definition continue_send :: "bool \<Rightarrow> bool \<Rightarrow> goal_agent \<Rightarrow> goal_agent" where
  "continue_send promptInFlight sends a =
     (if promptInFlight then a
      else let a = a\<lparr>Continued := Suc (Continued a)\<rparr> in if sends then a else closeGoalLocked a)"

datatype goal_move =
    Published goal_event
  | Fires nat
  | Checked bool
  | Sends bool bool
  | Closes
  | Dies

inductive goal_step :: "goal_move \<Rightarrow> goal_agent \<Rightarrow> goal_agent \<Rightarrow> bool" where
  published: "goal_step (Published ev) a (noteGoalEvent ev a)"
| fires: "t \<in> set (Timers a) \<Longrightarrow> goal_step (Fires t) a (continue_ask (a\<lparr>Timers := removeAll t (Timers a)\<rparr>))"
| checked: "0 < Asking a \<Longrightarrow> goal_step (Checked complete) a (continue_decide complete (a\<lparr>Asking := Asking a - 1\<rparr>))"
| sends: "0 < Sending a \<Longrightarrow> goal_step (Sends inFlight ok) a (continue_send inFlight ok (a\<lparr>Sending := Sending a - 1\<rparr>))"
| closes: "goal_step Closes a (closeGoalLocked a)"
| dies: "goal_step Dies a (a\<lparr>GAlive := False\<rparr>)"

inductive goal_run :: "goal_agent \<Rightarrow> goal_move list \<Rightarrow> goal_agent \<Rightarrow> bool" where
  start: "goal_run a [] a"
| move: "goal_run a ms b \<Longrightarrow> goal_step m b c \<Longrightarrow> goal_run a (ms @ [m]) c"

inductive_cases goal_stepE: "goal_step m a b"

subsection \<open>How often an agent is asked\<close>

lemma drop_timer_frame [simp]:
  "Goal (drop_timer a) = Goal a" "GoalClosed (drop_timer a) = GoalClosed a" "GoalTurnWorked (drop_timer a) = GoalTurnWorked a"
  "GoalIdleTurns (drop_timer a) = GoalIdleTurns a" "Sending (drop_timer a) = Sending a" "Continued (drop_timer a) = Continued a"
  "Stalled (drop_timer a) = Stalled a" "GoalTurn (drop_timer a) = GoalTurn a" "GoalSeenTerminal (drop_timer a) = GoalSeenTerminal a"
  by (simp_all add: drop_timer_def split: option.split)

lemma set_timer_frame [simp]:
  "GoalClosed (set_timer a) = GoalClosed a" "GoalTurnWorked (set_timer a) = GoalTurnWorked a"
  "GoalIdleTurns (set_timer a) = GoalIdleTurns a" "Sending (set_timer a) = Sending a" "Continued (set_timer a) = Continued a"
  "Stalled (set_timer a) = Stalled a"
  by (simp_all add: set_timer_def)

lemma close_frame [simp]:
  "GoalClosed (closeGoalLocked a)" "\<not> GoalTurnWorked (closeGoalLocked a)" "Sending (closeGoalLocked a) = Sending a"
  "Continued (closeGoalLocked a) = Continued a" "Stalled (closeGoalLocked a) = Stalled a"
  by (simp_all add: closeGoalLocked_def)

text \<open>What publishing an event does to the counters: nothing, but for the flag of work done.\<close>

lemma note_frame:
  "Sending (noteGoalEvent ev a) = Sending a" "Continued (noteGoalEvent ev a) = Continued a" "Stalled (noteGoalEvent ev a) = Stalled a"
  "GoalClosed a \<Longrightarrow> noteGoalEvent ev a = a"
  "\<not> GoalClosed (noteGoalEvent ev a) \<Longrightarrow> GoalIdleTurns (noteGoalEvent ev a) = GoalIdleTurns a"
  "GoalTurnWorked (noteGoalEvent ev a) \<Longrightarrow> GoalTurnWorked a \<or> goalEventShowsWork ev"
  by (auto simp: noteGoalEvent_def Let_def split: if_splits)

definition shows_work :: "goal_move \<Rightarrow> bool" where
  "shows_work m = (case m of Published ev \<Rightarrow> goalEventShowsWork ev | _ \<Rightarrow> False)"

text \<open>While the goal is open, every continuation beyond the idle turns counted is paid for by a turn that
  worked, three for each.\<close>

definition goal_budget :: "nat \<Rightarrow> goal_agent \<Rightarrow> bool" where
  "goal_budget worked a \<longleftrightarrow>
     Continued a + Sending a \<le> 2 + 3 * worked \<and> Stalled a \<le> 1 \<and>
     (GoalClosed a \<or>
      Stalled a = 0 \<and> GoalIdleTurns a \<le> 2 \<and> (GoalTurnWorked a \<longrightarrow> 0 < worked) \<and>
      Continued a + Sending a + (if GoalTurnWorked a then 3 else 0) \<le> GoalIdleTurns a + 3 * worked)"

lemma goal_budget_step:
  assumes "goal_step m a b" "goal_budget worked a"
  shows "goal_budget (worked + (if shows_work m then 1 else 0)) b"
  using assms(1)
proof cases
  case (published ev)
  show ?thesis
  proof (cases "GoalClosed a")
    case True
    then show ?thesis using assms(2) published by (auto simp: goal_budget_def note_frame)
  next
    case open_goal: False
    show ?thesis
    proof (cases "GoalClosed (noteGoalEvent ev a)")
      case False
      then show ?thesis using open_goal assms(2) published note_frame(5) [OF False] note_frame(6) [of ev a]
        by (auto simp: goal_budget_def note_frame(1-3) shows_work_def)
    qed (use assms(2) published in \<open>auto simp: goal_budget_def note_frame(1-3) shows_work_def\<close>)
  qed
next
  case (checked complete)
  then show ?thesis using assms(2)
    by (auto simp: goal_budget_def continue_decide_def goalStallLimit_def shows_work_def Let_def)
next
  case (sends inFlight ok)
  then show ?thesis using assms(2) by (auto simp: goal_budget_def continue_send_def shows_work_def Let_def)
qed (use assms(2) in \<open>auto simp: goal_budget_def continue_ask_def shows_work_def\<close>)

text \<open>C25. An agent that does not work is not asked for ever. However events, timers, checks, sends and the
  closing of the goal interleave, the continuations sent or about to be sent are at most two, plus
  three for each event that showed work; and a stall is published at most once.\<close>

theorem goal_stops_asking:
  assumes "goal_run (new_goal cfg grant) ms a"
  shows "Continued a + Sending a \<le> 2 + 3 * length (filter shows_work ms) \<and> Stalled a \<le> 1"
proof -
  have "goal_run a0 ms a \<Longrightarrow> goal_budget 0 a0 \<Longrightarrow> goal_budget (length (filter shows_work ms)) a" for a0
  proof (induction rule: goal_run.induct)
    case (move a ms b m c)
    then show ?case using goal_budget_step [OF move.hyps(2)] by fastforce
  qed simp
  moreover have "goal_budget 0 (new_goal cfg grant)" by (simp add: goal_budget_def new_goal_def)
  ultimately show ?thesis using assms by (simp add: goal_budget_def)
qed

text \<open>Once closed, a goal stays closed, and nothing is sent but what was past its last check.\<close>

lemma closed_goal_step:
  assumes "goal_step m a b" "GoalClosed a"
  shows "GoalClosed b \<and> Continued b + Sending b \<le> Continued a + Sending a"
  using assms by cases (auto simp: note_frame continue_ask_def continue_decide_def continue_send_def Let_def)

theorem closed_goal_stays_closed:
  "goal_run a ms b \<Longrightarrow> GoalClosed a \<Longrightarrow> GoalClosed b \<and> Continued b + Sending b \<le> Continued a + Sending a"
proof (induction rule: goal_run.induct)
  case (move a ms b m c)
  then show ?case using closed_goal_step [OF move.hyps(2)] by simp
qed simp

subsection \<open>Status lines and continuations\<close>

lemma first_status_iff:
  "first_status lines \<noteq> None \<longleftrightarrow> (\<exists>line \<in> set lines. trimSpace line \<in> {GoalStatusComplete, GoalStatusBlocked})"
  by (induction lines) (auto simp: Let_def)

lemma space_at_single: "[x] \<in> set go_spaces \<Longrightarrow> space_at (x # r) \<noteq> None"
  by (auto simp: space_at_def find_None_iff starts_with_def)

lemma fields_from_clean:
  assumes "[x] \<in> set go_spaces"
  shows "x \<notin> set word \<Longrightarrow> w \<in> set (fields_from word s) \<Longrightarrow> x \<notin> set w"
proof (induction word s arbitrary: w rule: fields_from.induct)
  case (1 word s)
  show ?case
  proof (cases "space_at s")
    case None
    then have "s = c # r \<Longrightarrow> c \<noteq> x" for c r using space_at_single [OF assms, of r] by auto
    then show ?thesis using None "1.IH"(1) [OF None] "1.prems" fields_from.simps [of word s]
      by (auto split: list.splits if_splits)
  next
    case (Some v)
    then show ?thesis using "1.IH"(2) [OF Some] "1.prems" fields_from.simps [of word s] by (auto split: if_splits)
  qed
qed

lemma set_join_with: "set (join_with c ws) \<subseteq> insert c (\<Union> (set ` set ws))"
  by (induction c ws rule: join_with.induct) auto

text \<open>A continuation is one line, whatever the goal holds, and is not itself taken for a status line.\<close>

theorem continuation_is_one_line:
  "CHR 0x0A \<notin> set (goalContinuation goal) \<and> CHR 0x0D \<notin> set (goalContinuation goal) \<and>
   ParseGoalStatus (goalContinuation goal) = None"
proof -
  have "x \<notin> set (goalContinuation goal)" if x: "x = CHR 0x0A \<or> x = CHR 0x0D" for x
  proof -
    have "[x] \<in> set go_spaces" using x by (auto simp: go_spaces_def)
    then have "x \<notin> set (join_with (CHR '' '') (Fields (trimSpace goal)))"
      using fields_from_clean [of x "[]"] set_join_with [of "CHR '' ''"] x by (fastforce simp: Fields_def)
    then show ?thesis using x
      by (auto simp: goalContinuation_def goalContinuationMarker_def GoalStatusComplete_def GoalStatusBlocked_def)
  qed
  then have line: "split_on (CHR 0x0A) (goalContinuation goal) = [goalContinuation goal]" by (simp add: split_on_no_sep)
  have "CHR ''j'' \<in> set (goalContinuation goal)" by (simp add: goalContinuation_def Let_def)
  then have "CHR ''j'' \<in> set (trimSpace (goalContinuation goal))"
    using drop_words_keeps [of "CHR ''j''"] by (simp add: trimSpace_def go_spaces_def)
  then have "trimSpace (goalContinuation goal) \<notin> {GoalStatusComplete, GoalStatusBlocked}"
    by (auto simp: GoalStatusComplete_def GoalStatusBlocked_def)
  then have "ParseGoalStatus (goalContinuation goal) = None"
    using first_status_iff [of "[goalContinuation goal]"] by (simp add: ParseGoalStatus_def line)
  then show ?thesis using \<open>\<And>x. x = CHR 0x0A \<or> x = CHR 0x0D \<Longrightarrow> x \<notin> set (goalContinuation goal)\<close> by simp
qed

subsection \<open>Runs by execution\<close>

definition exec_move :: "goal_move \<Rightarrow> goal_agent \<Rightarrow> goal_agent option" where
  "exec_move m a =
     (case m of
        Published ev \<Rightarrow> Some (noteGoalEvent ev a)
      | Fires t \<Rightarrow> if t \<in> set (Timers a) then Some (continue_ask (a\<lparr>Timers := removeAll t (Timers a)\<rparr>)) else None
      | Checked complete \<Rightarrow> if 0 < Asking a then Some (continue_decide complete (a\<lparr>Asking := Asking a - 1\<rparr>)) else None
      | Sends inFlight ok \<Rightarrow> if 0 < Sending a then Some (continue_send inFlight ok (a\<lparr>Sending := Sending a - 1\<rparr>)) else None
      | Closes \<Rightarrow> Some (closeGoalLocked a)
      | Dies \<Rightarrow> Some (a\<lparr>GAlive := False\<rparr>))"

fun exec_moves :: "goal_move list \<Rightarrow> goal_agent \<Rightarrow> goal_agent option" where
  "exec_moves [] a = Some a"
| "exec_moves (m # ms) a = Option.bind (exec_move m a) (exec_moves ms)"

lemma exec_move_iff: "exec_move m a = Some b \<longleftrightarrow> goal_step m a b"
  by (auto simp: exec_move_def goal_step.simps split: goal_move.splits if_splits)

lemma exec_moves_run: "goal_run a ms b \<Longrightarrow> exec_moves ms' b = Some c \<Longrightarrow> goal_run a (ms @ ms') c"
proof (induction ms' arbitrary: ms b)
  case (Cons m ms')
  then obtain d where "goal_step m b d" "exec_moves ms' d = Some c"
    by (cases "exec_move m b") (auto simp: exec_move_iff)
  then show ?case using Cons.IH [of "ms @ [m]" d] Cons.prems(1) goal_run.move by fastforce
qed simp

definition said :: "string \<Rightarrow> string \<Rightarrow> goal_event" where
  "said text stop = \<lparr>Ev = demo_event text stop, ProgressType = [], ToolCallID = [], ToolTitle = []\<rparr>"

definition idle_run :: "goal_move list" where
  "idle_run = [Published (said ''no'' ''end_turn''), Fires 0, Checked False, Sends False True]"

lemma idle_run_result: "map_option (\<lambda>a. (Continued a, Sending a)) (exec_moves idle_run (new_goal ''g'' [])) = Some (1, 0)"
  by code_simp

theorem goal_stops_asking_witness:
  "\<exists>a. goal_run (new_goal ''g'' []) idle_run a \<and> Continued a = 1 \<and> Continued a + Sending a \<le> 2"
proof -
  obtain a where a: "exec_moves idle_run (new_goal ''g'' []) = Some a" "Continued a = 1"
    using idle_run_result by auto
  then have run: "goal_run (new_goal ''g'' []) idle_run a" using exec_moves_run [OF goal_run.start] by fastforce
  have "filter shows_work idle_run = []" by code_simp
  then show ?thesis using goal_stops_asking [OF run] a(2) run by auto
qed

text \<open>
  A turn may be counted twice. An event that arrives while the host's check runs sets a timer that the
  callback forgets without stopping it; when that one fires, no turn has ended since, but another
  idle turn is counted. So a goal stalls after two turns without work instead of three.
\<close>

definition phantom_run :: "goal_move list" where
  "phantom_run = [Published (said ''no'' ''end_turn''), Fires 0, Published (said ''!'' []), Checked False, Sends False True,
     Fires 1, Checked False, Sends True True, Published (said ''no'' ''end_turn''), Fires 2, Checked False]"

definition ends_turn :: "goal_move \<Rightarrow> bool" where
  "ends_turn m = (case m of Published ev \<Rightarrow> IsTerminalStop (Ev ev) | _ \<Rightarrow> False)"

lemma phantom_result: "map_option Stalled (exec_moves phantom_run (new_goal ''g'' [])) = Some 1"
  "length (filter ends_turn phantom_run) = 2"
  by code_simp+

lemma stall_after_two_turns:
  "\<exists>a. goal_run (new_goal ''g'' []) phantom_run a \<and> Stalled a = 1 \<and> length (filter ends_turn phantom_run) = 2"
proof -
  obtain a where a: "exec_moves phantom_run (new_goal ''g'' []) = Some a" "Stalled a = 1" using phantom_result(1) by auto
  then have "goal_run (new_goal ''g'' []) phantom_run a" using exec_moves_run [OF goal_run.start] by fastforce
  then show ?thesis using a(2) phantom_result(2) by blast
qed

end
