(* ===== verification/Correlation.thy ===== *)
theory Correlation
  imports TurnLatch AgentDefs
begin

text \<open>
  Which request an event belongs to (src/request_correlation.go). A host numbers its sends; a provider
  numbers its turns. A send that is on its way waits in \<open>requestPending\<close> until the provider accepts
  a prompt for a turn that is not known yet, and every event of that turn is stamped with its
  number. A turn that closed keeps its number for whatever is published late. A provider that
  names requests itself (\<open>explicitRequestIDs\<close>) leaves only the bookkeeping of turns.

  \<open>UserPromptLine\<close> is \<open>isUserPromptLine\<close> of the raw line: whether it records a prompt of the user. A nil
  map and an empty one behave alike here.
\<close>

record corr_event =
  CEv :: turn_event
  CRequestID :: string
  CProgressType :: string
  UserPromptLine :: bool

definition ProgressPromptAccepted :: string where "ProgressPromptAccepted = ''prompt_accepted''"

record correlation =
  explicitRequestIDs :: bool
  brokerGrant :: string
  corrProvider :: provider
  requestPending :: "string list"
  requestByTurn :: "string \<rightharpoonup> string"
  requestRetired :: "string \<rightharpoonup> string"
  requestActiveTurn :: string

definition queueRequestID :: "string \<Rightarrow> correlation \<Rightarrow> correlation" where
  "queueRequestID rid a = a\<lparr>requestPending := requestPending a @ [rid]\<rparr>"

definition discardPendingRequestID :: "string \<Rightarrow> correlation \<Rightarrow> correlation" where
  "discardPendingRequestID rid a = a\<lparr>requestPending := remove1 rid (requestPending a)\<rparr>"

definition eventAcceptsRequest :: "corr_event \<Rightarrow> bool" where
  "eventAcceptsRequest ev \<longleftrightarrow> CProgressType ev = ProgressPromptAccepted \<or> UserPromptLine ev"

definition retireRequestTurnLocked :: "string \<Rightarrow> correlation \<Rightarrow> correlation" where
  "retireRequestTurnLocked turnID a =
     (if turnID = requestActiveTurn a then
        a\<lparr>requestRetired := requestRetired a ++ requestByTurn a, requestByTurn := Map.empty, requestActiveTurn := []\<rparr>
      else case requestByTurn a turnID of
          None \<Rightarrow> a
        | Some rid \<Rightarrow> a\<lparr>requestRetired := (requestRetired a)(turnID \<mapsto> rid), requestByTurn := (requestByTurn a)(turnID := None)\<rparr>)"

definition closes_turn :: "corr_event \<Rightarrow> bool" where
  "closes_turn ev \<longleftrightarrow> IsTerminalStop (CEv ev) \<or> EvIsError (CEv ev)"

text \<open>The two return the event as it is published and what is kept.\<close>

definition correlateExplicitLocked :: "corr_event \<Rightarrow> correlation \<Rightarrow> corr_event \<times> correlation" where
  "correlateExplicitLocked ev a =
     (let turn = EvTurnID (CEv ev) in
      if turn = [] then (ev, a)
      else
        let (ev, a) =
          (if CRequestID ev \<noteq> [] then
             (case requestRetired a turn of
                Some rid \<Rightarrow> (ev\<lparr>CRequestID := rid\<rparr>, a)
              | None \<Rightarrow> (ev, a\<lparr>requestByTurn := (requestByTurn a)(turn \<mapsto> CRequestID ev), requestActiveTurn := turn\<rparr>))
           else case requestRetired a turn of
               Some rid \<Rightarrow> (ev\<lparr>CRequestID := rid\<rparr>, a)
             | None \<Rightarrow> (case requestByTurn a turn of
                   Some rid \<Rightarrow> (ev\<lparr>CRequestID := rid\<rparr>, a)
                 | None \<Rightarrow> (ev, a)))
        in (ev, if CRequestID ev \<noteq> [] \<and> closes_turn ev then retireRequestTurnLocked turn a else a))"

text \<open>The binding of a turn that is not known: to the oldest pending send, or for a reissued delivery of
  Cursor to the request of the active turn.\<close>

definition bind_turn :: "corr_event \<Rightarrow> correlation \<Rightarrow> string \<times> correlation" where
  "bind_turn ev a =
     (let turn = EvTurnID (CEv ev) in
      case requestByTurn a turn of
        Some rid \<Rightarrow> (rid, a)
      | None \<Rightarrow>
          if requestPending a \<noteq> [] \<and> eventAcceptsRequest ev then
            (hd (requestPending a),
             a\<lparr>requestPending := tl (requestPending a), requestByTurn := (requestByTurn a)(turn \<mapsto> hd (requestPending a)),
               requestActiveTurn := turn\<rparr>)
          else if corrProvider a = ProviderCursor \<and> CProgressType ev = ProgressPromptAccepted \<and> requestActiveTurn a \<noteq> [] then
            (let rid = (case requestByTurn a (requestActiveTurn a) of None \<Rightarrow> [] | Some rid \<Rightarrow> rid)
             in (rid, a\<lparr>requestByTurn := (requestByTurn a)(turn \<mapsto> rid), requestActiveTurn := turn\<rparr>))
          else ([], a))"

definition correlateRequestLocked :: "corr_event \<Rightarrow> correlation \<Rightarrow> corr_event \<times> correlation" where
  "correlateRequestLocked ev a =
     (if explicitRequestIDs a then correlateExplicitLocked ev a
      else if CRequestID ev \<noteq> [] then (ev, a)
      else if brokerGrant a \<noteq> [] \<or> EvTurnID (CEv ev) = [] then (ev, a)
      else case requestRetired a (EvTurnID (CEv ev)) of
          Some rid \<Rightarrow> (ev\<lparr>CRequestID := rid\<rparr>, a)
        | None \<Rightarrow>
            (case bind_turn ev a of (rid, a) \<Rightarrow>
               (ev\<lparr>CRequestID := rid\<rparr>,
                if closes_turn ev then retireRequestTurnLocked (EvTurnID (CEv ev)) a else a)))"

definition bindSameTurnSteer :: "string \<Rightarrow> correlation \<Rightarrow> correlation" where
  "bindSameTurnSteer rid a =
     (if rid \<notin> set (requestPending a) then a
      else let a = a\<lparr>requestPending := remove1 rid (requestPending a)\<rparr> in
        if requestActiveTurn a \<noteq> [] then a\<lparr>requestByTurn := (requestByTurn a)(requestActiveTurn a \<mapsto> rid)\<rparr> else a)"

datatype corr_op = Queues string | Discards string | Occurs corr_event | Steers string

fun corr_step :: "corr_op \<Rightarrow> correlation \<Rightarrow> correlation" where
  "corr_step (Queues rid) a = queueRequestID rid a"
| "corr_step (Discards rid) a = discardPendingRequestID rid a"
| "corr_step (Occurs ev) a = snd (correlateRequestLocked ev a)"
| "corr_step (Steers rid) a = bindSameTurnSteer rid a"

subsection \<open>A closed turn keeps its request\<close>

definition corr_ok :: "correlation \<Rightarrow> bool" where
  "corr_ok a \<longleftrightarrow> dom (requestByTurn a) \<inter> dom (requestRetired a) = {} \<and>
     (requestActiveTurn a = [] \<or> requestActiveTurn a \<in> dom (requestByTurn a))"

definition fresh_correlation :: "bool \<Rightarrow> string \<Rightarrow> provider \<Rightarrow> correlation" where
  "fresh_correlation explicit grant p = \<lparr>explicitRequestIDs = explicit, brokerGrant = grant, corrProvider = p, requestPending = [],
     requestByTurn = Map.empty, requestRetired = Map.empty, requestActiveTurn = []\<rparr>"

lemma corr_ok_fresh: "corr_ok (fresh_correlation explicit grant p)"
  by (simp add: corr_ok_def fresh_correlation_def)

lemma retire_ok: "corr_ok a \<Longrightarrow> corr_ok (retireRequestTurnLocked t a)"
  by (auto simp: corr_ok_def retireRequestTurnLocked_def split: option.split if_splits)

lemma retire_keeps:
  assumes "corr_ok a" "requestRetired a t = Some rid"
  shows "requestRetired (retireRequestTurnLocked t' a) t = Some rid"
proof -
  have "requestByTurn a t = None" using assms by (auto simp: corr_ok_def)
  then show ?thesis using assms(2) by (auto simp: retireRequestTurnLocked_def map_add_def split: option.split)
qed

lemma bind_turn_ok:
  assumes "corr_ok a" "requestRetired a (EvTurnID (CEv ev)) = None"
  shows "corr_ok (snd (bind_turn ev a))" "requestRetired (snd (bind_turn ev a)) = requestRetired a"
  using assms by (auto simp: bind_turn_def corr_ok_def Let_def split: option.split)

text \<open>What an event leaves to be done before the turn may be closed.\<close>

definition explicit_bind :: "corr_event \<Rightarrow> correlation \<Rightarrow> correlation" where
  "explicit_bind ev a =
     (let turn = EvTurnID (CEv ev) in
      if CRequestID ev \<noteq> [] \<and> requestRetired a turn = None
      then a\<lparr>requestByTurn := (requestByTurn a)(turn \<mapsto> CRequestID ev), requestActiveTurn := turn\<rparr> else a)"

lemma explicit_step:
  "snd (correlateExplicitLocked ev a) \<in>
    {a, explicit_bind ev a, retireRequestTurnLocked (EvTurnID (CEv ev)) (explicit_bind ev a)}"
  by (auto simp: correlateExplicitLocked_def explicit_bind_def Let_def split: option.splits if_splits)

lemma explicit_bind_ok:
  "corr_ok a \<Longrightarrow> corr_ok (explicit_bind ev a)" "requestRetired (explicit_bind ev a) = requestRetired a"
  by (auto simp: explicit_bind_def corr_ok_def Let_def)

lemma corr_step_ok:
  assumes "corr_ok a"
  shows "corr_ok (corr_step op a) \<and> (requestRetired a t = Some rid \<longrightarrow> requestRetired (corr_step op a) t = Some rid)"
proof (cases op)
  case (Occurs ev)
  let ?t = "EvTurnID (CEv ev)"
  show ?thesis
  proof (cases "explicitRequestIDs a")
    case True
    then show ?thesis using Occurs explicit_step [of ev a] explicit_bind_ok [where a = a and ev = ev] assms retire_ok retire_keeps
      by (auto simp: correlateRequestLocked_def)
  next
    case False
    show ?thesis
    proof (cases "requestRetired a ?t")
      case None
      have "corr_step op a \<in> {a, snd (bind_turn ev a), retireRequestTurnLocked ?t (snd (bind_turn ev a))}"
        using Occurs False None by (auto simp: correlateRequestLocked_def split: prod.splits)
      then show ?thesis using bind_turn_ok [OF assms None] assms retire_ok retire_keeps by fastforce
    next
      case (Some x)
      then show ?thesis using Occurs False assms by (simp add: correlateRequestLocked_def)
    qed
  qed
qed (use assms in \<open>auto simp: queueRequestID_def discardPendingRequestID_def bindSameTurnSteer_def corr_ok_def Let_def\<close>)

lemma corr_steps_ok:
  "corr_ok a \<Longrightarrow> corr_ok (fold corr_step ops a) \<and> (requestRetired a t = Some rid \<longrightarrow> requestRetired (fold corr_step ops a) t = Some rid)"
proof (induction ops arbitrary: a)
  case (Cons op ops)
  then show ?case using corr_step_ok [of a op t rid] by auto
qed simp

text \<open>C26. A closed turn keeps its request. Once a turn has closed, whatever is queued, accepted, steered or
  discarded afterwards, a later event of that turn that names no request itself is stamped with the
  request the turn closed with, and takes no pending send.\<close>

theorem closed_turn_keeps_request:
  assumes "a = fold corr_step ops (fresh_correlation explicit [] p)" "requestRetired a t = Some rid"
    and "b = fold corr_step later_ops a" "EvTurnID (CEv ev) = t" "t \<noteq> []" "CRequestID ev = []"
  shows "CRequestID (fst (correlateRequestLocked ev b)) = rid \<and>
    requestPending (snd (correlateRequestLocked ev b)) = requestPending b"
proof -
  have ok: "corr_ok a" using assms(1) corr_steps_ok [OF corr_ok_fresh] by blast
  then have "corr_ok b" "requestRetired b t = Some rid" using assms(2,3) corr_steps_ok by blast+
  moreover have "brokerGrant (corr_step op c) = brokerGrant c" for op c
    by (cases op) (auto simp: queueRequestID_def discardPendingRequestID_def bindSameTurnSteer_def correlateRequestLocked_def
        correlateExplicitLocked_def bind_turn_def retireRequestTurnLocked_def Let_def split: option.split prod.split)
  then have "brokerGrant (fold corr_step os c) = brokerGrant c" for os c by (induction os arbitrary: c) simp_all
  then have "brokerGrant b = []" using assms(1,3) by (simp add: fresh_correlation_def)
  ultimately show ?thesis using assms(4-6)
    by (auto simp: correlateRequestLocked_def correlateExplicitLocked_def retireRequestTurnLocked_def Let_def split: option.split)
qed

definition accepted :: "string \<Rightarrow> string \<Rightarrow> corr_event" where
  "accepted turn stop = \<lparr>CEv = (demo_event [] stop)\<lparr>EvTurnID := turn\<rparr>, CRequestID = [], CProgressType = ProgressPromptAccepted,
     UserPromptLine = False\<rparr>"

theorem closed_turn_keeps_request_witness:
  "CRequestID (fst (correlateRequestLocked (accepted ''t1'' [])
     (fold corr_step [Queues ''r2''] (fold corr_step [Queues ''r1'', Occurs (accepted ''t1'' ''end_turn'')] (fresh_correlation False [] []))))) = ''r1''"
  using closed_turn_keeps_request [of _ "[Queues ''r1'', Occurs (accepted ''t1'' ''end_turn'')]" False "[]" "''t1''" "''r1''" _ "[Queues ''r2'']"
      "accepted ''t1'' []", OF refl _ refl]
  by (simp add: accepted_def fresh_correlation_def queueRequestID_def correlateRequestLocked_def bind_turn_def eventAcceptsRequest_def
      closes_turn_def IsTerminalStop_def demo_event_def retireRequestTurnLocked_def Let_def)

subsection \<open>Sends are taken in order\<close>

text \<open>The send an event takes from the queue, if any, and the sends an operation adds.\<close>

definition taken :: "corr_op \<Rightarrow> correlation \<Rightarrow> string list" where
  "taken op a =
     (case op of
        Occurs ev \<Rightarrow> if length (requestPending (corr_step op a)) < length (requestPending a) then [CRequestID (fst (correlateRequestLocked ev a))]
          else []
      | _ \<Rightarrow> [])"

fun takings :: "corr_op list \<Rightarrow> correlation \<Rightarrow> string list" where
  "takings [] a = []"
| "takings (op # ops) a = taken op a @ takings ops (corr_step op a)"

definition queued :: "corr_op list \<Rightarrow> string list" where
  "queued ops = concat (map (\<lambda>op. case op of Queues rid \<Rightarrow> [rid] | _ \<Rightarrow> []) ops)"

definition in_order :: "corr_op \<Rightarrow> bool" where
  "in_order op = (case op of Queues _ \<Rightarrow> True | Occurs _ \<Rightarrow> True | _ \<Rightarrow> False)"

lemma retire_pending [simp]: "requestPending (retireRequestTurnLocked t a) = requestPending a"
  by (simp add: retireRequestTurnLocked_def split: option.split)

lemma taken_pending:
  "in_order op \<Longrightarrow> taken op a @ requestPending (corr_step op a) = requestPending a @ queued [op]"
proof (cases op)
  case (Occurs ev)
  have "requestPending (snd (correlateExplicitLocked ev a)) = requestPending a"
    using explicit_step [of ev a] by (auto simp: explicit_bind_def Let_def)
  moreover have "requestPending (snd (bind_turn ev a)) = requestPending a \<or>
      requestPending a = fst (bind_turn ev a) # requestPending (snd (bind_turn ev a))"
    by (simp add: bind_turn_def Let_def split: option.split)
  ultimately show ?thesis using Occurs
    by (auto simp: taken_def queued_def correlateRequestLocked_def split: option.split prod.split)
qed (simp_all add: taken_def queued_def queueRequestID_def in_order_def)

text \<open>Accepted turns take the sends in the order they were queued, each once: what was taken, followed by
  what still waits, is what waited before and what was queued since.\<close>

theorem sends_are_taken_in_order:
  "list_all in_order ops \<Longrightarrow> takings ops a @ requestPending (fold corr_step ops a) = requestPending a @ queued ops"
proof (induction ops arbitrary: a)
  case (Cons op ops)
  have "queued (op # ops) = queued [op] @ queued ops" by (simp add: queued_def)
  moreover have "taken op a @ requestPending (corr_step op a) @ queued ops = requestPending a @ queued [op] @ queued ops"
    using taken_pending [of op a] Cons.prems by (metis append_assoc list.pred_inject(2))
  ultimately show ?case using Cons.IH [of "corr_step op a"] Cons.prems by simp
qed (simp add: queued_def)

text \<open>A send that fails is taken back by its number, and the first one with it goes. Sends without a
  number share the empty one, so the failure of a later one takes an earlier one out of the queue:
  the turn of that one is then attributed to the request behind it.\<close>

lemma failed_send_shifts_requests:
  "(let a = fold corr_step [Queues [], Queues ''r1'', Queues [], Discards []] (fresh_correlation False [] []) in
    CRequestID (fst (correlateRequestLocked (accepted ''t1'' []) a)) = ''r1'')"
  by (simp add: fresh_correlation_def queueRequestID_def discardPendingRequestID_def correlateRequestLocked_def bind_turn_def
      eventAcceptsRequest_def accepted_def demo_event_def closes_turn_def IsTerminalStop_def Let_def)

end
