(* ===== verification/Delivery.thy ===== *)
theory Delivery
  imports Correlation
begin

text \<open>
  Handing a message to a seat (src/delivery.go, src/turn_caps.go, src/escalation.go and \<open>SendWithRequestID\<close> and
  \<open>Interrupt\<close> of src/agent.go). A message is submitted, steered into the turn that runs, or sent after
  that turn was stopped; which of these a seat can do is its turn capabilities. A ladder first
  hands the message over and then, if the seat does not take it in time, interrupts the turn.

  What a provider does is in \<open>seat_ops\<close>: an operation it does not have is \<open>None\<close>, otherwise its answer. What
  reaches the provider is appended to \<open>Wire\<close>, in order. A wait for the turn to end shows on it too: the
  model does not let the seat change meanwhile.
\<close>

subsection \<open>What a seat can do to a turn\<close>

record turn_caps =
  CanInterrupt :: bool
  CanSteer :: bool
  SteerPolicy :: string
  BusyOnSecondSubmit :: string

definition SteerBreakpoint :: string where "SteerBreakpoint = ''breakpoint''"
definition SteerFinishSlice :: string where "SteerFinishSlice = ''finish_slice''"
definition SteerQueueUntilIdle :: string where "SteerQueueUntilIdle = ''queue_until_idle''"
definition SteerNone :: string where "SteerNone = ''none''"

definition no_caps :: turn_caps where
  "no_caps = \<lparr>CanInterrupt = False, CanSteer = False, SteerPolicy = SteerNone, BusyOnSecondSubmit = []\<rparr>"

definition providerTurnCaps :: "(provider \<times> turn_caps) list" where
  "providerTurnCaps =
    [(ProviderClaude, \<lparr>CanInterrupt = True, CanSteer = False, SteerPolicy = SteerQueueUntilIdle, BusyOnSecondSubmit = ''queue''\<rparr>),
     (ProviderCursor, \<lparr>CanInterrupt = True, CanSteer = True, SteerPolicy = SteerBreakpoint, BusyOnSecondSubmit = ''reject''\<rparr>),
     (ProviderGrok, \<lparr>CanInterrupt = True, CanSteer = True, SteerPolicy = SteerFinishSlice, BusyOnSecondSubmit = ''reject''\<rparr>),
     (ProviderCodex, \<lparr>CanInterrupt = True, CanSteer = True, SteerPolicy = SteerFinishSlice, BusyOnSecondSubmit = ''reject''\<rparr>),
     (ProviderBedrock, no_caps), (ProviderOllama, no_caps)]"

definition ProviderTurnCaps :: "provider \<Rightarrow> turn_caps" where
  "ProviderTurnCaps p =
     (case map_of providerTurnCaps (if p = [] then ProviderClaude else p) of Some caps \<Rightarrow> caps | None \<Rightarrow> no_caps)"

definition withoutSteer :: "turn_caps \<Rightarrow> turn_caps" where
  "withoutSteer c = c\<lparr>CanSteer := False, SteerPolicy := (if SteerPolicy c \<noteq> SteerNone then SteerQueueUntilIdle else SteerPolicy c)\<rparr>"

subsection \<open>A seat\<close>

datatype delivery_error =
    ErrSteerUnsupported | ErrTurnIdle | ErrQueueHostSide | ErrUnknownDeliveryMode string
  | NotReady | ErrProcessNotRunning | Unsupported string | OfProvider string
  | InterruptBeforeSubmit delivery_error | ErrBadEscalation string

record seat_ops =
  op_turnPhase :: "string option"
  op_promptInFlight :: "bool option"
  op_turnCaps :: "turn_caps option"
  op_send :: "(string \<Rightarrow> string \<Rightarrow> delivery_error option) option"
  op_steer :: "(string \<Rightarrow> string \<Rightarrow> (string \<times> string) \<times> delivery_error option) option"
  op_interrupt :: "delivery_error option option"

datatype wire = WSubmit string string | WSteer string string | WInterrupt | WAwaitIdle

record seat_handle =
  Ops :: seat_ops
  readyErr :: bool
  alive :: bool
  promptCause :: "string option"
  armedPrompt :: "string option"
  goalClosed :: bool
  Turns :: turn_agent
  Corr :: correlation
  Wire :: "wire list"

definition TurnIdle :: string where "TurnIdle = ''idle''"
definition TurnInTurn :: string where "TurnInTurn = ''in_turn''"

definition TurnPhase :: "seat_handle \<Rightarrow> string" where
  "TurnPhase a =
     (case op_turnPhase (Ops a) of
        Some phase \<Rightarrow> if phase = TurnInTurn then TurnInTurn else TurnIdle
      | None \<Rightarrow> if op_promptInFlight (Ops a) = Some True then TurnInTurn else TurnIdle)"

definition TurnCaps :: "seat_handle \<Rightarrow> turn_caps" where
  "TurnCaps a =
     (let caps = (case op_turnCaps (Ops a) of Some c \<Rightarrow> c | None \<Rightarrow> ProviderTurnCaps (corrProvider (Corr a)));
          caps = (if op_steer (Ops a) = None then withoutSteer caps else caps)
      in if op_interrupt (Ops a) = None then caps\<lparr>CanInterrupt := False\<rparr> else caps)"

definition deliverable :: "seat_handle \<Rightarrow> delivery_error option" where
  "deliverable a = (if readyErr a then Some NotReady else if \<not> alive a then Some ErrProcessNotRunning else None)"

definition dropPromptCause :: "seat_handle \<Rightarrow> seat_handle" where
  "dropPromptCause a = a\<lparr>promptCause := None\<rparr>"

definition arm_prompt :: "seat_handle \<Rightarrow> seat_handle" where
  "arm_prompt a = a\<lparr>armedPrompt := promptCause a, promptCause := None\<rparr>"

definition on_wire :: "wire \<Rightarrow> seat_handle \<Rightarrow> seat_handle" where
  "on_wire w a = a\<lparr>Wire := Wire a @ [w]\<rparr>"

definition queue_own :: "string \<Rightarrow> seat_handle \<Rightarrow> seat_handle" where
  "queue_own rid a =
     (if brokerGrant (Corr a) = [] \<and> \<not> explicitRequestIDs (Corr a) then a\<lparr>Corr := queueRequestID rid (Corr a)\<rparr> else a)"

definition discard_own :: "string \<Rightarrow> seat_handle \<Rightarrow> seat_handle" where
  "discard_own rid a =
     (if brokerGrant (Corr a) = [] then a\<lparr>Corr := discardPendingRequestID rid (Corr a)\<rparr> else a)"

definition SendWithRequestID :: "string \<Rightarrow> string \<Rightarrow> seat_handle \<Rightarrow> delivery_error option \<times> seat_handle" where
  "SendWithRequestID msg rid a =
     (case deliverable a of
        Some e \<Rightarrow> (Some e, dropPromptCause a)
      | None \<Rightarrow>
          (case op_send (Ops a) of
             None \<Rightarrow> (Some (Unsupported ''send''), dropPromptCause a)
           | Some send \<Rightarrow>
               let begins = (rid = [] \<or> \<not> SupportsReceipts (Turns a));
                   retire = (\<lambda>a. if begins then a else a\<lparr>Turns := retireEndedTurnFor rid (Turns a)\<rparr>);
                   a = (if begins then a\<lparr>Turns := beginTurn (Turns a)\<rparr> else retire a);
                   a = on_wire (WSubmit msg rid) (queue_own rid (arm_prompt a))
               in (case send msg rid of
                     Some e \<Rightarrow> (Some e, retire (discard_own rid a))
                   | None \<Rightarrow> (None, retire a))))"

definition Interrupt :: "seat_handle \<Rightarrow> delivery_error option \<times> seat_handle" where
  "Interrupt a =
     (let a = a\<lparr>goalClosed := True\<rparr> in
      if \<not> alive a then (Some ErrProcessNotRunning, a)
      else case op_interrupt (Ops a) of
          None \<Rightarrow> (Some (Unsupported ''interrupt''), a)
        | Some err \<Rightarrow> (err, on_wire WInterrupt a))"

subsection \<open>Modes\<close>

record delivery_outcome =
  OutMode :: string
  PhaseBefore :: string
  Mechanism :: string
  SupersededTurnID :: string
  OutErr :: "delivery_error option"

definition DeliverySubmit :: string where "DeliverySubmit = ''submit''"
definition DeliverySteer :: string where "DeliverySteer = ''steer''"
definition DeliveryInterrupt :: string where "DeliveryInterrupt = ''interrupt''"
definition DeliveryQueue :: string where "DeliveryQueue = ''queue''"

definition MechanismSubmit :: string where "MechanismSubmit = ''submit''"
definition MechanismInterruptThenSubmit :: string where "MechanismInterruptThenSubmit = ''interrupt+submit''"
definition MechanismClientQueue :: string where "MechanismClientQueue = ''client_queue''"
definition MechanismCodexTurnSteer :: string where "MechanismCodexTurnSteer = ''codex_turn_steer''"
definition MechanismSteerUnsupported :: string where "MechanismSteerUnsupported = ''steer_unsupported''"
definition MechanismNone :: string where "MechanismNone = ''''"

definition steerWithRequestID :: "string \<Rightarrow> string \<Rightarrow> string \<Rightarrow> seat_handle \<Rightarrow> delivery_outcome \<times> seat_handle" where
  "steerWithRequestID text phase rid a =
     (let out = (\<lambda>mech old err. \<lparr>OutMode = DeliverySteer, PhaseBefore = phase, Mechanism = mech, SupersededTurnID = old, OutErr = err\<rparr>) in
      case op_steer (Ops a) of
        None \<Rightarrow> (out MechanismSteerUnsupported [] (Some ErrSteerUnsupported), dropPromptCause a)
      | Some steer \<Rightarrow>
          (case deliverable a of
             Some e \<Rightarrow> (out MechanismNone [] (Some e), dropPromptCause a)
           | None \<Rightarrow>
               if phase \<noteq> TurnInTurn then (out MechanismNone [] (Some ErrTurnIdle), dropPromptCause a)
               else
                 let a = on_wire (WSteer text rid) (queue_own rid (arm_prompt a)) in
                 (case steer text rid of
                    ((mech, old), Some e) \<Rightarrow> (out mech old (Some e), discard_own rid a)
                  | ((mech, old), None) \<Rightarrow>
                      (out mech old None,
                       if brokerGrant (Corr a) = [] \<and> mech = MechanismCodexTurnSteer
                       then a\<lparr>Corr := bindSameTurnSteer rid (Corr a)\<rparr> else a))))"

definition SendModeWithRequestID :: "string \<Rightarrow> string \<Rightarrow> string \<Rightarrow> seat_handle \<Rightarrow> delivery_outcome \<times> seat_handle" where
  "SendModeWithRequestID text mode0 rid a =
     (let mode = (if mode0 = [] then DeliverySubmit else mode0); phase = TurnPhase a;
          out = (\<lambda>mech old err. \<lparr>OutMode = mode, PhaseBefore = phase, Mechanism = mech, SupersededTurnID = old, OutErr = err\<rparr>);
          submit = (\<lambda>mech a. case SendWithRequestID text rid a of (err, a') \<Rightarrow> (out mech [] err, a'))
      in if mode = DeliverySubmit then submit MechanismSubmit a
         else if mode = DeliverySteer then
           (if phase \<noteq> TurnInTurn then submit MechanismSubmit a
            else case steerWithRequestID text phase rid a of
                (o', a') \<Rightarrow> (out (Mechanism o') (SupersededTurnID o') (OutErr o'), a'))
         else if mode = DeliveryInterrupt then
           (if phase = TurnInTurn then
              (case Interrupt a of
                 (Some e, a') \<Rightarrow> (out MechanismInterruptThenSubmit [] (Some (InterruptBeforeSubmit e)), a')
               | (None, a') \<Rightarrow>
                   if text \<noteq> [] then submit MechanismInterruptThenSubmit (on_wire WAwaitIdle a')
                   else (out MechanismInterruptThenSubmit [] None, on_wire WAwaitIdle a'))
            else if text \<noteq> [] then submit MechanismSubmit a else (out MechanismSubmit [] None, a))
         else if mode = DeliveryQueue then (out MechanismClientQueue [] (Some ErrQueueHostSide), a)
         else (out MechanismNone [] (Some (ErrUnknownDeliveryMode mode)), a))"

definition Steer :: "string \<Rightarrow> seat_handle \<Rightarrow> delivery_outcome \<times> seat_handle" where
  "Steer text a = steerWithRequestID text (TurnPhase a) [] a"

subsection \<open>Ladders\<close>

record escalation_step =
  SMode :: string
  SAfter :: int

definition maxEscalationSteps :: nat where "maxEscalationSteps = 4"

fun validate_from :: "nat \<Rightarrow> int \<Rightarrow> escalation_step list \<Rightarrow> delivery_error option" where
  "validate_from i prev [] = None"
| "validate_from i prev (s # ss) =
     (if SAfter s < prev then Some (ErrBadEscalation ''fires before the rung below'')
      else if i = 0 then
        (if SMode s \<noteq> DeliverySubmit \<and> SMode s \<noteq> DeliverySteer then Some (ErrBadEscalation ''first rung'')
         else validate_from 1 (SAfter s) ss)
      else if SMode s \<noteq> DeliveryInterrupt then Some (ErrBadEscalation ''only interrupt escalates'')
      else validate_from (Suc i) (SAfter s) ss)"

definition Validate :: "escalation_step list \<Rightarrow> delivery_error option" where
  "Validate e = (if length e > maxEscalationSteps then Some (ErrBadEscalation ''too many rungs'') else validate_from 0 0 e)"

text \<open>What ends the wait for a rung: the message was absorbed, a newer ladder took over, the seat died, or
  the deadline passed, with a turn open or not. The result is the modes of the rungs that fired.\<close>

datatype climb_wake = Absorbed | Superseded | SeatDead | Deadline bool

fun climb :: "escalation_step list \<Rightarrow> climb_wake list \<Rightarrow> string list" where
  "climb (r # rungs) (Deadline True # ws) = SMode r # climb rungs ws"
| "climb rungs ws = []"

definition ProgressDeliveryAbsorbed :: string where "ProgressDeliveryAbsorbed = ''delivery_absorbed''"

definition absorbs :: "corr_event \<Rightarrow> string \<Rightarrow> bool" where
  "absorbs ev text \<longleftrightarrow>
     (if EvType (CEv ev) = ''progress'' \<and> CProgressType ev = ProgressDeliveryAbsorbed then EvText (CEv ev) = text
      else IsTerminalStop (CEv ev))"

text \<open>\<open>SendEscalating\<close> on a seat whose provider has no ladder of its own: the outcome of the first rung, the
  seat, whether an earlier ladder was superseded, and the rungs that are left to climb.\<close>

definition SendEscalatingWithRequestID ::
  "string \<Rightarrow> escalation_step list \<Rightarrow> string \<Rightarrow> seat_handle \<Rightarrow> delivery_outcome \<times> seat_handle \<times> bool \<times> escalation_step list" where
  "SendEscalatingWithRequestID text esc rid a =
     (case Validate esc of
        Some e \<Rightarrow> (\<lparr>OutMode = DeliverySubmit, PhaseBefore = [], Mechanism = MechanismNone, SupersededTurnID = [], OutErr = Some e\<rparr>, a, False, [])
      | None \<Rightarrow>
          if esc = [] \<or> TurnPhase a \<noteq> TurnInTurn then
            (case SendModeWithRequestID text DeliverySubmit rid a of (o', a') \<Rightarrow> (o', a', False, []))
          else (case SendModeWithRequestID text (SMode (hd esc)) rid a of
              (o', a') \<Rightarrow> (o', a', True, if OutErr o' = None then tl esc else [])))"

subsection \<open>The ladder of a seat\<close>

text \<open>\<open>ladders\<close> for one seat: the channel of the ladder registered last, the channels closed, those whose ladder
  does not climb yet, and the ladders that climb. A channel is a number. A ladder of one rung, or one
  whose first delivery failed, is registered and never climbs.\<close>

record ladder_table =
  registered :: "nat option"
  closed :: "nat list"
  opened :: "nat list"
  climbing :: "nat list"
  next_chan :: nat

definition no_ladder :: ladder_table where
  "no_ladder = \<lparr>registered = None, closed = [], opened = [], climbing = [], next_chan = 0\<rparr>"

definition supersedeLadder :: "ladder_table \<Rightarrow> ladder_table" where
  "supersedeLadder t = t\<lparr>registered := Some (next_chan t), next_chan := Suc (next_chan t), opened := next_chan t # opened t,
     closed := (case registered t of None \<Rightarrow> closed t | Some prev \<Rightarrow> prev # closed t)\<rparr>"

definition start_climb :: "nat \<Rightarrow> ladder_table \<Rightarrow> ladder_table" where
  "start_climb c t = t\<lparr>opened := removeAll c (opened t), climbing := c # climbing t\<rparr>"

text \<open>\<open>CompareAndDelete\<close> when a ladder ends.\<close>

definition end_climb :: "nat \<Rightarrow> ladder_table \<Rightarrow> ladder_table" where
  "end_climb c t = t\<lparr>climbing := removeAll c (climbing t), registered := (if registered t = Some c then None else registered t)\<rparr>"

inductive ladder_step :: "ladder_table \<Rightarrow> ladder_table \<Rightarrow> bool" where
  supersedes: "ladder_step t (supersedeLadder t)"
| climbs: "c \<in> set (opened t) \<Longrightarrow> ladder_step t (start_climb c t)"
| ends: "c \<in> set (climbing t) \<Longrightarrow> ladder_step t (end_climb c t)"

subsection \<open>What reaches the provider\<close>

definition carries_text :: "wire \<Rightarrow> bool" where
  "carries_text w = (case w of WSubmit _ _ \<Rightarrow> True | WSteer _ _ \<Rightarrow> True | _ \<Rightarrow> False)"

lemma wire_frame [simp]:
  "Wire (dropPromptCause a) = Wire a" "Wire (arm_prompt a) = Wire a" "Wire (on_wire w a) = Wire a @ [w]"
  "Wire (queue_own rid a) = Wire a" "Wire (discard_own rid a) = Wire a"
  by (simp_all add: dropPromptCause_def arm_prompt_def on_wire_def queue_own_def discard_own_def)

lemma send_wire:
  assumes "SendWithRequestID msg rid a = (err, b)"
  shows "Wire b = Wire a @ (if deliverable a = None \<and> op_send (Ops a) \<noteq> None then [WSubmit msg rid] else [])"
    "err = None \<Longrightarrow> deliverable a = None \<and> op_send (Ops a) \<noteq> None"
  using assms by (auto simp: SendWithRequestID_def Let_def split: option.splits if_splits)

lemma steer_wire:
  assumes "steerWithRequestID text phase rid a = (o', b)"
  shows "Wire b = Wire a @ (if deliverable a = None \<and> op_steer (Ops a) \<noteq> None \<and> phase = TurnInTurn then [WSteer text rid] else [])"
    "OutErr o' = None \<Longrightarrow> deliverable a = None \<and> op_steer (Ops a) \<noteq> None \<and> phase = TurnInTurn"
    "Mechanism o' \<in> {MechanismClientQueue, MechanismNone, MechanismSteerUnsupported} \<Longrightarrow> op_steer (Ops a) = Some st \<Longrightarrow>
      fst (fst (st text rid)) \<notin> {MechanismClientQueue, MechanismNone, MechanismSteerUnsupported} \<Longrightarrow> Wire b = Wire a"
  using assms by (auto simp: steerWithRequestID_def Let_def split: option.splits if_splits prod.splits)

lemma interrupt_frame:
  assumes "Interrupt a = (err, b)"
  shows "Wire b = Wire a @ (if alive a \<and> op_interrupt (Ops a) \<noteq> None then [WInterrupt] else [])" "Ops b = Ops a"
    "deliverable b = deliverable a" "err = None \<Longrightarrow> alive a \<and> op_interrupt (Ops a) \<noteq> None"
  using assms by (auto simp: Interrupt_def Let_def on_wire_def deliverable_def split: option.splits if_splits)

lemma modes_distinct [simp]:
  "DeliverySubmit \<noteq> []" "DeliverySteer \<noteq> []" "DeliveryInterrupt \<noteq> []" "DeliverySteer \<noteq> DeliverySubmit"
  "DeliverySubmit \<noteq> DeliverySteer" "DeliveryInterrupt \<noteq> DeliverySubmit" "DeliverySubmit \<noteq> DeliveryInterrupt"
  "DeliveryInterrupt \<noteq> DeliverySteer" "DeliverySteer \<noteq> DeliveryInterrupt"
  "[] \<noteq> DeliverySubmit" "[] \<noteq> DeliverySteer" "[] \<noteq> DeliveryInterrupt"
  by (simp_all add: DeliverySubmit_def DeliverySteer_def DeliveryInterrupt_def)

lemma delivered:
  "(case SendModeWithRequestID msg mode rid a of (o', b) \<Rightarrow>
     \<exists>new. Wire b = Wire a @ new \<and> length (filter carries_text new) \<le> 1 \<and>
       (if OutErr o' \<noteq> None then True
        else new =
          (if mode = DeliverySteer \<and> TurnPhase a = TurnInTurn then [WSteer msg rid]
           else (if mode = DeliveryInterrupt \<and> TurnPhase a = TurnInTurn then [WInterrupt, WAwaitIdle] else []) @
                (if mode = DeliveryInterrupt \<and> msg = [] then [] else [WSubmit msg rid]))))"
proof -
  obtain e1 b1 where s: "SendWithRequestID msg rid a = (e1, b1)" by fastforce
  obtain o2 b2 where st: "steerWithRequestID msg (TurnPhase a) rid a = (o2, b2)" by fastforce
  obtain e3 b3 where it: "Interrupt a = (e3, b3)" by fastforce
  obtain e4 b4 where s4: "SendWithRequestID msg rid (on_wire WAwaitIdle b3) = (e4, b4)" by fastforce
  note defs = SendModeWithRequestID_def Let_def carries_text_def
  consider "mode = []" | "mode = DeliverySubmit" | "mode = DeliverySteer" | "mode = DeliveryInterrupt" "TurnPhase a = TurnInTurn"
    | "mode = DeliveryInterrupt" "TurnPhase a \<noteq> TurnInTurn" | "mode \<noteq> []" "mode \<notin> {DeliverySubmit, DeliverySteer, DeliveryInterrupt}"
    by auto
  then show ?thesis
  proof cases
    case 1
    then show ?thesis using s send_wire [OF s] by (simp add: defs)
  next
    case 2
    then show ?thesis using s send_wire [OF s] by (simp add: defs)
  next
    case 3
    show ?thesis
    proof (cases "TurnPhase a = TurnInTurn")
      case True
      then show ?thesis using 3 st steer_wire(1,2) [OF st] by (simp add: defs)
    next
      case False
      then show ?thesis using 3 s send_wire [OF s] by (simp add: defs)
    qed
  next
    case 4
    show ?thesis
    proof (cases e3)
      case None
      then show ?thesis using 4 it interrupt_frame [OF it] s4 send_wire [OF s4] by (simp add: defs)
    next
      case (Some e)
      then show ?thesis using 4 it interrupt_frame(1) [OF it] by (simp add: defs)
    qed
  next
    case 5
    then show ?thesis using s send_wire [OF s] by (simp add: defs)
  next
    case 6
    then show ?thesis by (simp add: defs)
  qed
qed

lemma sent_once:
  "\<exists>new. Wire (snd (SendModeWithRequestID msg mode rid a)) = Wire a @ new \<and> length (filter carries_text new) \<le> 1"
  using delivered [where msg = msg and mode = mode and rid = rid and a = a] by (auto split: prod.splits)

text \<open>C23. A message is handed over once. Whatever the mode, at most one submit or steer with the text reaches the
  provider. When no error is returned, exactly what the mode promises has: the steer into an open
  turn; the stop of the open turn, the wait and the submit; or the submit alone, where an interrupt
  without text submits nothing.\<close>

theorem text_is_delivered_once:
  "(case SendModeWithRequestID text mode rid a of (o', b) \<Rightarrow>
     \<exists>new. Wire b = Wire a @ new \<and> length (filter carries_text new) \<le> 1 \<and>
       (if OutErr o' \<noteq> None then True
        else new =
          (if mode = DeliverySteer \<and> TurnPhase a = TurnInTurn then [WSteer text rid]
           else (if mode = DeliveryInterrupt \<and> TurnPhase a = TurnInTurn then [WInterrupt, WAwaitIdle] else []) @
                (if mode = DeliveryInterrupt \<and> text = [] then [] else [WSubmit text rid]))))"
  by (rule delivered)

text \<open>Capabilities are honest: a seat that says it can steer has the means, so a steer of its open turn
  reaches the provider; and one that says it can interrupt does so.\<close>

theorem capabilities_are_honest:
  assumes "deliverable a = None"
  shows "(CanSteer (TurnCaps a) \<and> TurnPhase a = TurnInTurn \<longrightarrow> Wire (snd (Steer text a)) = Wire a @ [WSteer text []]) \<and>
    (CanInterrupt (TurnCaps a) \<longrightarrow> Wire (snd (Interrupt a)) = Wire a @ [WInterrupt])"
proof (intro conjI impI)
  assume c: "CanSteer (TurnCaps a) \<and> TurnPhase a = TurnInTurn"
  then have "op_steer (Ops a) \<noteq> None" by (auto simp: TurnCaps_def withoutSteer_def Let_def split: if_splits)
  then show "Wire (snd (Steer text a)) = Wire a @ [WSteer text []]"
    using steer_wire(1) [of "text" "TurnPhase a" "[]" a] c assms by (simp add: Steer_def prod_eq_iff)
next
  assume "CanInterrupt (TurnCaps a)"
  then have "op_interrupt (Ops a) \<noteq> None" by (auto simp: TurnCaps_def Let_def split: if_splits)
  moreover have "alive a" using assms by (auto simp: deliverable_def split: if_splits)
  ultimately show "Wire (snd (Interrupt a)) = Wire a @ [WInterrupt]"
    using interrupt_frame(1) [of a] by (simp add: prod_eq_iff)
qed

subsection \<open>Climbing\<close>

lemma validate_from_iff:
  "0 < i \<Longrightarrow> validate_from i prev ss = None \<longleftrightarrow>
    list_all (\<lambda>s. SMode s = DeliveryInterrupt) ss \<and> sorted (prev # map SAfter ss)"
proof (induction ss arbitrary: i prev)
  case (Cons s ss)
  then show ?case using Cons.IH [of "Suc i" "SAfter s"] by auto
qed simp

text \<open>The ladders that are accepted: at most four rungs with deadlines that do not decrease, of which the first
  submits or steers and the others interrupt.\<close>

lemma Validate_iff:
  "Validate esc = None \<longleftrightarrow> length esc \<le> 4 \<and> sorted (0 # map SAfter esc) \<and>
    (esc = [] \<or> SMode (hd esc) \<in> {DeliverySubmit, DeliverySteer}) \<and> list_all (\<lambda>s. SMode s = DeliveryInterrupt) (tl esc)"
proof (cases esc)
  case (Cons s ss)
  then show ?thesis using validate_from_iff [of 1 "SAfter s" ss] 
    by (auto simp: Validate_def maxEscalationSteps_def) (meson leI order_trans)+
qed (simp add: Validate_def maxEscalationSteps_def)

lemma climb_prefix: "\<exists>n. climb rungs ws = map SMode (take n rungs) \<and> n \<le> length (takeWhile (\<lambda>w. w = Deadline True) ws)"
proof (induction rungs ws rule: climb.induct)
  case (1 r rungs ws)
  then obtain n where "climb rungs ws = map SMode (take n rungs)" "n \<le> length (takeWhile (\<lambda>w. w = Deadline True) ws)" by blast
  then show ?case by (intro exI [of _ "Suc n"]) simp
qed (auto intro: exI [of _ 0])


subsection \<open>One ladder at a time\<close>

definition ladder_ok :: "ladder_table \<Rightarrow> bool" where
  "ladder_ok t \<longleftrightarrow>
     (\<forall>c \<in> set (opened t) \<union> set (climbing t). c < next_chan t \<and> (c \<in> set (closed t) \<or> registered t = Some c)) \<and>
     set (opened t) \<inter> set (climbing t) = {} \<and> (\<forall>c \<in> set (closed t). c < next_chan t) \<and>
     (\<forall>c. registered t = Some c \<longrightarrow> c < next_chan t)"

lemma ladder_ok_step: "ladder_step t t' \<Longrightarrow> ladder_ok t \<Longrightarrow> ladder_ok t'"
  by (induction rule: ladder_step.induct)
    (auto simp: ladder_ok_def supersedeLadder_def start_climb_def end_climb_def less_Suc_eq split: option.splits, blast)

text \<open>Whatever sends come, at most one ladder of a seat climbs that has not been told to stop.\<close>

theorem one_ladder_presses:
  assumes "ladder_step\<^sup>*\<^sup>* no_ladder t" "{c, d} \<subseteq> set (climbing t)" "{c, d} \<inter> set (closed t) = {}"
  shows "c = d"
proof -
  have "ladder_ok t" using assms(1)
    by (induction rule: rtranclp_induct) (auto simp: ladder_ok_step, simp add: ladder_ok_def no_ladder_def)
  then have "registered t = Some c" "registered t = Some d" using assms(2,3) by (auto simp: ladder_ok_def)
  then show ?thesis by simp
qed

text \<open>The entry of a ladder that never climbs stays: nothing but a later ladder of the same seat takes it out
  of the table.\<close>

lemma entry_of_single_rung_stays:
  assumes "registered t = Some c" "c \<notin> set (opened t) \<union> set (climbing t)" "ladder_step t t'"
  shows "registered t' = Some c \<or> t' = supersedeLadder t"
  using assms(3,1,2) by cases (auto simp: start_climb_def end_climb_def)

end
