(* ===== verification/Spec2Isabelle.thy ===== *)
theory Spec2Isabelle
  imports ControlRecords Reconcile Lineage Lifecycle Framing LinkSlot PlanStore TurnWait Placement FleetPick
    FleetRoster FleetLog FleetClock SeatClaims SeatResume Goals Delivery
begin

text \<open>
  \<^bold>\<open>A verification library for claudia.\<close>

  Claudia runs coding agents for other programs. A \<^emph>\<open>registry\<close> keeps the definitions of the seats (named
  agents) and their processes; a \<^emph>\<open>broker\<close> daemon owns one control file and exchanges it with a
  \<^emph>\<open>consumer\<close> over a socket, so that the consumer writes what it wants and the broker writes what is;
  \<^emph>\<open>reconciliation\<close> makes the registry follow the consumer's tables; a \<^emph>\<open>sidecar\<close> runs the model
  sessions and reports token usage and receipts; and \<^emph>\<open>plan usage\<close> watches the allowance of each
  provider's subscription. Everything here is translated from the Go files under src/; the names of
  definitions are the names of the code where Isabelle allows it.

  \<^bold>\<open>Shared ground.\<close>
  \<^item> \<open>Prelude\<close>: results as sums, loops that stop at an error, Go's white space and lower case, splitting
    and joining, maps as association lists, and the locale \<open>forward_simulation\<close> of refinements.
  \<^item> \<open>GoTime\<close>, \<open>GoJson\<close>: what the code uses of the packages time and encoding/json: RFC 3339 times, read and
    written, with their round trip; JSON text, read and (for structs of strings) written.

  \<^bold>\<open>Usage and receipts.\<close>
  \<^item> \<open>UsageFacts\<close> (omp/usage.go, omp/usage_transition.go, usage_facts.go, publishEvent of agent.go): facts
    about model calls, their validation, the contract between the facts of a call, the totals of a
    seat and the catch-up loop. Shown: every call is counted once, a terminal fact is final, a
    catch-up publishes exactly the facts between two cursors. Sequence numbers are 64-bit words; the
    loop is a partial function, so that not returning is a value.
  \<^item> \<open>Receipts\<close> (omp/receipt.go): receipts and their validation.

  \<^bold>\<open>The control file.\<close>
  \<^item> \<open>ControlTables\<close> (controlplane/desired.go, replicate.go, sync.go): rows, the ownership of tables, every
    publisher, the credential filter. Shown: one side never changes a table of the other, no
    credential is ever stored. The locale \<open>keyed_table\<close> is what the publishers have in common.
  \<^item> \<open>ControlRecords\<close>: the invariants of stored facts and receipts, and what settling does at shutdown.
  \<^item> \<open>ControlReads\<close> (the readers of controlplane/reconcile.go): rows have their shape and one key each,
    and a published row reads back; the locale \<open>scanned_table\<close> states it once for five tables.
  \<^item> \<open>Framing\<close> (controlplane/link.go): the frames of the socket, their round trip (locale \<open>stream_codec\<close>)
    and the bound on their length, with headers as words of their width.
  \<^item> \<open>LinkSlot\<close> (controlplane/observe.go): the slot of the one consumer, the accept loop and its workers as
    a step system. Shown: at most one link is open and at most one runs, and who is admitted.

  \<^bold>\<open>Seats.\<close>
  \<^item> \<open>AgentDefs\<close> (provider.go, catalog.go, mcp.go, the definition of registry.go): definitions, providers, the
    catalog, the start configuration.
  \<^item> \<open>Registry\<close>, \<open>RegistryProps\<close> (registry.go): registration, policy, start, adopt, stop, remove; what lies
    outside (the broker, the provider backends, the file system) is a record of functions given to
    each operation. Shown: the invariant of the registry, that a session that must be resumed is kept,
    at most one launch, no process left by a failed start, stop intent wins, policy is atomic.
  \<^item> \<open>Lifecycle\<close> (registry_lifecycle.go): the reservation under which starts and stops of one name run, as
    a step system over any number of callers. Shown: mutual exclusion and the counters, refusal of
    overtaken starts up to the wrap-around of the epoch, that all callers get out, and that the whole
    refines an abstract reservation.
  \<^item> \<open>Lineage\<close> (registry.go): \<open>IsAncestor\<close> decides the transitive closure; \<open>Descendants\<close> ends exactly when
    there is no cycle below.
  \<^item> \<open>ConsumerHolds\<close> (policy_hold.go, consumer_intent.go, consumer_state_file.go, daemon/consumer_intent.go): the two
    files in which a consumer names the seats that must not run, from their bytes on. Shown: a hold
    file counts whole or not at all, and without a reading nothing is started.
  \<^item> \<open>SeatClaims\<close> (daemon/claims.go, resumeSeats of daemon/daemon.go, the names of ResumeAll in registry_seats.go):
    the ledger of who held a seat when, and what a restarted broker brings back, in which order; the
    order of a resume is an interpretation of \<open>weak_order\<close>. Shown: exactly which seats come back, that
    a seat stood down stays down, and that a lifted hold still counts.
  \<^item> \<open>SeatResume\<close> (registry_seats.go): one seat coming back, on the model of the registry, the nudge it gets,
    and the watch for deaths. Shown: the conversation is kept unless the provider refuses it, each seat
    is reported once, nudges are spaced, a death is reported once if no tick falls into a lifecycle
    operation, and twice if one does.
  \<^item> \<open>Reconcile\<close> (controlplane/reconcile.go): a whole pass over the model of the registry. Shown: operations
    are applied once, only a current stop acts, a seat at its generation keeps its session, and that
    an ungranted pass moves the generation fence.

  \<^bold>\<open>Turns.\<close>
  \<^item> \<open>TurnLatch\<close> (turn_latch.go, turn_text.go, the subscriber of \<open>WaitForResponse\<close> in agent.go): what is
    recorded of a turn and what a wait accumulates. Shown: a wait that comes late ends like one that
    came in time (but for the kind of a failure), and a turn is handed on once and to whom it is for.
  \<^item> \<open>TurnWait\<close> (turn_wait.go, the wake loop of \<open>WaitForResponse\<close>): bounds, silence and death.
  \<^item> \<open>Correlation\<close> (request_correlation.go): which request an event belongs to. Shown: a closed turn keeps its
    request, and sends are taken in order; a failed send without a number shifts the others.
  \<^item> \<open>Delivery\<close> (delivery.go, turn_caps.go, escalation.go, the send and the interrupt of agent.go): handing a
    message to a seat. Shown: the text reaches the provider once, capabilities are honest, a ladder
    only interrupts and only one of a seat presses.
  \<^item> \<open>Goals\<close> (goal.go): the loop that asks an agent to continue, each critical section one step. Shown: how
    often it can ask, that a closed goal stays closed, that a continuation is one line; and that a
    turn may be counted twice.

  \<^bold>\<open>Plan usage.\<close>
  \<^item> \<open>PlanBands\<close> (plan_band.go): readings, pressure, bands and the two verdicts on them, over real numbers.
  \<^item> \<open>PlanThrottle\<close> (plan_usage_throttle.go, plan_usage.go): the floor between requests of a host and the
    penalty, with its 64-bit shift. Shown: requests are spaced and refusals respected.
  \<^item> \<open>PlanStore\<close> (controlplane/plan_usage.go, plan_usage_observation.go): the store in the control file and
    the poll that uses it through the locale \<open>paced_store\<close>. Shown: polls are spaced, crashes included.

  \<^bold>\<open>Choosing a plan.\<close>
  \<^item> \<open>GoSort\<close>: the stable sort of the Go library over a \<open>less\<close> function; the locale \<open>weak_order\<close> is what
    such a function must satisfy, interpreted on the ranking of catalog candidates.
  \<^item> \<open>ModelIntel\<close> (plan_usage_model.go, model_intel_slug.go, model_intel_refresh.go): windows of single
    models, the names of models, and the newest published score of each.
  \<^item> \<open>Resolving\<close>, \<open>ResolvingProps\<close> (resolve.go): both paths of \<open>Resolve\<close>. Shown: a pick is admissible and
    ranks first, the order of the catalog has no influence, an owner's pin decides on the catalog
    path and has no effect on the path by scores.
  \<^item> \<open>Placement\<close> (seat_policy.go, seat_placement.go): the policy of a seat and the decision to leave, move,
    park or defer it, on top of \<open>Resolve\<close>. Shown: a move is justified and settles the seat, parking needs
    full knowledge, a policy survives its file.
  \<^item> \<open>FleetPick\<close> (plan_fleet.go): the usage roster and the pick it explains.

  \<^bold>\<open>Fleets.\<close> A fleet is a tree of agents that send each other messages; the kernel runs their turns. The
  source runs in sections under one lock, between calls to the seats; each section is one definition
  and one rule of the relation \<open>fleet_step\<close>, so a reachable fleet is one after any interleaving of
  senders, turns, timers, stops, steers, interrupts, checks, crashes between sections and restarts.
  \<^item> \<open>FleetData\<close>, \<open>FleetMail\<close>, \<open>FleetTree\<close>, \<open>FleetRun\<close>, \<open>FleetSend\<close>, \<open>FleetChecks\<close> (fleet.go, fleet_timer.go,
    fleet_expect.go, fleet_budget.go, fleet_tools.go, fleet_check.go): the state; delivery, expectations and
    budgets; admission, authority and tools; the run loop, revival and retirement; sending, timers and
    expediting; checks.
  \<^item> \<open>FleetLedger\<close>, \<open>FleetBooks\<close>, \<open>FleetPieces\<close>, \<open>FleetSteps\<close>, \<open>FleetOnce\<close>: the books of requests. \<open>moved\<close> says
    what a piece takes from and gives to the agents and writes to the log as multisets, and \<open>books\<close> is
    the invariant that every request identifier is in one place. Shown: every request that reached an
    agent is answered exactly once, to its sender.
  \<^item> \<open>FleetFrame\<close>: the locale \<open>kernel_frame\<close> of relations that every piece satisfies that neither admits nor
    removes an agent, with every piece proved to be in it; interpreted for the roster in \<open>FleetRoster\<close>
    and, extended by \<open>log_frame\<close>, for the log in \<open>FleetLog\<close>.
  \<^item> \<open>FleetRoster\<close>: authority is descent from the creator, acts need it and refusals have no effect,
    tools only narrow down the tree, the limit on agents holds.
  \<^item> \<open>FleetLog\<close> (fleet_log.go, \<open>Read\<close>): a crash leaves whole events, a reader misses nothing.
  \<^item> \<open>FleetClock\<close>: repeats keep their schedule and account for every firing, a spent budget starts no
    turn, a restart hands back what was interrupted.

  In the fleet a save of the state is taken to succeed, except in \<open>admit\<close> and \<open>run_check\<close>, where the code
  undoes its change; the order of a Go map iteration is an argument wherever it matters; counters are
  unbounded numbers and floats are reals, so a limit in seconds is taken to fit a duration and a score
  to be finite; pointers to messages, agents and runtimes are followed through identifiers, names and
  the number of the runtime.

  \<^bold>\<open>Interleavings and bounds.\<close> Concurrent code is modelled between lock operations: one critical section is one
  step, and any caller may take the next. Counters that can wrap are words or carry the wrap written
  out, and a theorem that needs them not to says for how many steps it holds. Loops are structural or
  have a measure, except the catch-up of usage facts and the walk of \<open>Descendants\<close>, which are partial
  functions with their termination proved or refuted.

  \<^bold>\<open>Not modelled.\<close> The sessions themselves and the sidecar protocol (agent.go, omp_agent.go, task.go), the
  provider backends, MCP hosting, the rest of the daemon with its wire protocol and the command line
  are input and output around the operations above. The sqlpipe library, which carries changes between the two files, is only
  met as the frames it sends. Fetching and storing scores and reading the plan cache are parameters of
  \<open>Resolve\<close>. Of the fleet, shutting down, the status views, the time stamp on a delivery, the export of a
  commit and the process of a check, and the MCP and broker endpoints are left out. Model switches and
  rewinds of a seat are conversations with the sidecar; the consumer's replica and the usage monitor are
  the file system, the network and the sqlpipe library. Of a delivery the polling for an idle seat is a
  mark on the wire, and a ladder that the broker runs for a handle is left out.
\<close>

end
